(* ===== verification/Prelude.thy ===== *)
theory Prelude
  imports Main "HOL-Library.Word" "HOL-Library.Multiset" "HOL-Library.Monad_Syntax"
    "HOL-Library.AList"
begin

text \<open>
  Shared vocabulary of the development: machine integers, the option monad that
  models code which may abort the process, association lists for the hash maps of
  the server, and the generic lemmas on lists, multisets and maps the components use.

  The server checks its own assumptions with \<open>invariant(...)\<close> (util/assert_util.h);
  a failing check terminates the process. A computation that may do so has type
  \<open>'a option\<close> and \<open>None\<close> is the abort.
\<close>

unbundle bit_operations_syntax

type_synonym u32 = "32 word"
type_synonym u64 = "64 word"

named_theorems abort_simps \<open>rewriting of computations that may abort\<close>

definition invariant :: "bool \<Rightarrow> unit option" where
  "invariant b = (if b then Some () else None)"

lemma invariant_True [simp]: "invariant True = Some ()"
  by (simp add: invariant_def)

lemma invariant_False [simp]: "invariant False = None"
  by (simp add: invariant_def)

lemma invariant_bind_Some [abort_simps]:
  "(invariant b \<bind> f = Some x) \<longleftrightarrow> b \<and> f () = Some x"
  by (simp add: invariant_def)

lemma invariant_bind_True: "b \<Longrightarrow> invariant b \<bind> f = f ()"
  by simp

subsection \<open>Association lists as hash maps\<close>

text \<open>
  A hash map of the server is an association list with distinct keys: lookup is
  \<open>map_of\<close>, insertion and replacement \<open>AList.update\<close>, erasure \<open>AList.delete\<close>.
\<close>

lemma map_of_update [simp]: "map_of (AList.update k v al) = (map_of al)(k \<mapsto> v)"
  by (rule update_conv')

lemma map_of_delete [simp]: "map_of (AList.delete k al) = (map_of al)(k := None)"
  by (rule delete_conv')

lemma distinct_keys_update [simp]:
  "distinct (map fst al) \<Longrightarrow> distinct (map fst (AList.update k v al))"
  by (rule distinct_update)

lemma distinct_keys_delete [simp]:
  "distinct (map fst al) \<Longrightarrow> distinct (map fst (AList.delete k al))"
  by (rule distinct_delete)

subsection \<open>Lists\<close>

lemma distinct_remove1_set: "distinct xs \<Longrightarrow> set (remove1 x xs) = set xs - {x}"
  by (rule set_remove1_eq)

lemma filter_remove1_length:
  assumes "x \<in> set xs"
  shows "length (filter P xs) = length (filter P (remove1 x xs)) + (if P x then 1 else 0)"
  using assms by (induction xs) auto

lemma filter_cong_length:
  "(\<And>x. x \<in> set xs \<Longrightarrow> P x = Q x) \<Longrightarrow> length (filter P xs) = length (filter Q xs)"
  by (metis filter_cong)

lemma remove1_hd [simp]: "xs \<noteq> [] \<Longrightarrow> remove1 (hd xs) xs = tl xs"
  by (cases xs) auto

end
