(* ===== verification/Lock_Modes.thy ===== *)
theory Lock_Modes
  imports Prelude
begin

text \<open>
  Lock modes, their conflict table and resource identifiers:
  db/concurrency/lock_manager_defs.h and the first and last sections of
  db/concurrency/lock_manager.cpp. Mode masks are 32-bit words as in the code; the
  lemmas of this theory turn mask arithmetic into statements about sets of modes.
\<close>

subsection \<open>Lock modes and the conflict table\<close>

datatype LockMode = MODE_NONE | MODE_IS | MODE_IX | MODE_S | MODE_X

fun mode_index :: "LockMode \<Rightarrow> nat" where
  "mode_index MODE_NONE = 0"
| "mode_index MODE_IS = 1"
| "mode_index MODE_IX = 2"
| "mode_index MODE_S = 3"
| "mode_index MODE_X = 4"

definition modeMask :: "LockMode \<Rightarrow> u32" where
  "modeMask mode = push_bit (mode_index mode) 1"

fun LockConflictsTable :: "LockMode \<Rightarrow> u32" where
  "LockConflictsTable MODE_NONE = 0"
| "LockConflictsTable MODE_IS = modeMask MODE_X"
| "LockConflictsTable MODE_IX = modeMask MODE_S OR modeMask MODE_X"
| "LockConflictsTable MODE_S = modeMask MODE_IX OR modeMask MODE_X"
| "LockConflictsTable MODE_X =
     modeMask MODE_S OR modeMask MODE_X OR modeMask MODE_IS OR modeMask MODE_IX"

definition intentModes :: u64 where
  "intentModes = push_bit (mode_index MODE_IS) 1 OR push_bit (mode_index MODE_IX) 1"

definition conflicts :: "LockMode \<Rightarrow> u32 \<Rightarrow> bool" where
  "conflicts newMode existingModesMask \<longleftrightarrow> LockConflictsTable newMode AND existingModesMask \<noteq> 0"

definition isModeCovered :: "LockMode \<Rightarrow> LockMode \<Rightarrow> bool" where
  "isModeCovered mode coveringMode \<longleftrightarrow>
     LockConflictsTable coveringMode OR LockConflictsTable mode = LockConflictsTable coveringMode"

definition isSharedLockMode :: "LockMode \<Rightarrow> bool" where
  "isSharedLockMode mode \<longleftrightarrow> mode = MODE_IS \<or> mode = MODE_S"

fun modeName :: "LockMode \<Rightarrow> string" where
  "modeName MODE_NONE = ''NONE''"
| "modeName MODE_IS = ''IS''"
| "modeName MODE_IX = ''IX''"
| "modeName MODE_S = ''S''"
| "modeName MODE_X = ''X''"

fun legacyModeName :: "LockMode \<Rightarrow> string" where
  "legacyModeName MODE_NONE = ''''"
| "legacyModeName MODE_IS = ''r''"
| "legacyModeName MODE_IX = ''w''"
| "legacyModeName MODE_S = ''R''"
| "legacyModeName MODE_X = ''W''"

text \<open>Pairwise conflict of two modes, the abstraction the masks represent.\<close>

definition mode_conflict :: "LockMode \<Rightarrow> LockMode \<Rightarrow> bool" where
  "mode_conflict a b \<longleftrightarrow> conflicts a (modeMask b)"

lemma modeMask_simps [simp]:
  "modeMask MODE_NONE = 1" "modeMask MODE_IS = 2" "modeMask MODE_IX = 4"
  "modeMask MODE_S = 8" "modeMask MODE_X = 16"
  by (simp_all add: modeMask_def)

lemma LockConflictsTable_values:
  "LockConflictsTable MODE_NONE = 0" "LockConflictsTable MODE_IS = 16"
  "LockConflictsTable MODE_IX = 24" "LockConflictsTable MODE_S = 20"
  "LockConflictsTable MODE_X = 30"
  by simp_all

lemma LockMode_all: "(\<forall>m. P m) \<longleftrightarrow> P MODE_NONE \<and> P MODE_IS \<and> P MODE_IX \<and> P MODE_S \<and> P MODE_X"
  by (metis LockMode.exhaust)

lemma LockMode_ex: "(\<exists>m. P m) \<longleftrightarrow> P MODE_NONE \<or> P MODE_IS \<or> P MODE_IX \<or> P MODE_S \<or> P MODE_X"
  by (metis LockMode.exhaust)

lemma mode_conflict_iff:
  "mode_conflict a b \<longleftrightarrow>
     (case a of MODE_NONE \<Rightarrow> False
      | MODE_IS \<Rightarrow> b = MODE_X
      | MODE_IX \<Rightarrow> b = MODE_S \<or> b = MODE_X
      | MODE_S \<Rightarrow> b = MODE_IX \<or> b = MODE_X
      | MODE_X \<Rightarrow> b \<noteq> MODE_NONE)"
  by (cases a; cases b; simp add: mode_conflict_def conflicts_def)

lemma mode_conflict_sym: "mode_conflict a b \<longleftrightarrow> mode_conflict b a"
  by (cases a; cases b; simp add: mode_conflict_iff)

lemma isModeCovered_iff:
  "isModeCovered a b \<longleftrightarrow> (\<forall>m. mode_conflict a m \<longrightarrow> mode_conflict b m)"
  by (cases a; cases b; simp add: isModeCovered_def mode_conflict_iff LockMode_all)

lemma isModeCovered_refl [simp]: "isModeCovered a a"
  by (simp add: isModeCovered_iff)

lemma isModeCovered_NONE [simp]: "isModeCovered MODE_NONE a"
  by (cases a; simp add: isModeCovered_iff mode_conflict_iff)

lemma covered_conflict: "isModeCovered a b \<Longrightarrow> mode_conflict m a \<Longrightarrow> mode_conflict m b"
  by (metis isModeCovered_iff mode_conflict_sym)

lemma mode_conflict_X [simp]: "mode_conflict m MODE_X \<longleftrightarrow> m \<noteq> MODE_NONE"
  by (cases m; simp add: mode_conflict_iff)

lemma mode_conflict_NONE [simp]: "\<not> mode_conflict m MODE_NONE" "\<not> mode_conflict MODE_NONE m"
  by (cases m; simp add: mode_conflict_iff)+

subsection \<open>Masks represent sets of modes\<close>

definition modesMask :: "LockMode set \<Rightarrow> u32" where
  "modesMask A =
     (if MODE_NONE \<in> A then 1 else 0) OR (if MODE_IS \<in> A then 2 else 0) OR
     (if MODE_IX \<in> A then 4 else 0) OR (if MODE_S \<in> A then 8 else 0) OR
     (if MODE_X \<in> A then 16 else 0)"

lemma conflicts_modesMask: "conflicts m (modesMask A) \<longleftrightarrow> (\<exists>k \<in> A. mode_conflict m k)"
  unfolding Bex_def LockMode_ex
  by (cases m) (simp_all add: conflicts_def modesMask_def mode_conflict_iff)

lemma modesMask_empty [simp]: "modesMask {} = 0"
  by (simp add: modesMask_def)

lemma modesMask_eq_0 [simp]: "modesMask A = 0 \<longleftrightarrow> A = {}"
proof
  assume "modesMask A = 0"
  then have "\<forall>m. m \<notin> A"
    unfolding LockMode_all modesMask_def by (simp split: if_splits)
  then show "A = {}" by blast
qed simp

lemma modesMask_insert: "modesMask A OR modeMask k = modesMask (insert k A)"
  by (cases k) (simp_all add: modesMask_def)

lemma modesMask_remove: "modesMask A AND NOT (modeMask k) = modesMask (A - {k})"
  by (cases k) (simp_all add: modesMask_def)

lemma modesMask_test: "modesMask A AND modeMask k = (if k \<in> A then modeMask k else 0)"
  by (cases k) (simp_all add: modesMask_def)

lemma modesMask_only_intent:
  "ucast (modesMask A) AND NOT intentModes = 0 \<longleftrightarrow> A \<subseteq> {MODE_IS, MODE_IX}"
proof -
  have "A \<subseteq> {MODE_IS, MODE_IX} \<longleftrightarrow> MODE_NONE \<notin> A \<and> MODE_S \<notin> A \<and> MODE_X \<notin> A"
    by (auto, metis LockMode.exhaust)
  then show ?thesis
    by (simp add: modesMask_def intentModes_def)
qed

end
