(* ===== verification/Resource_Id.thy ===== *)
theory Resource_Id
  imports Prelude
begin

text \<open>
  Resource identifiers (db/concurrency/lock_manager_defs.h, class ResourceId, and
  ResourceId::fullHash of lock_manager.cpp): a 64-bit word whose top three bits hold the
  resource type and whose remaining bits hold the low bits of a hash of the name.
\<close>

datatype ResourceType =
  RESOURCE_INVALID | RESOURCE_GLOBAL | RESOURCE_DATABASE | RESOURCE_COLLECTION
  | RESOURCE_METADATA | RESOURCE_MUTEX

fun resource_type_index :: "ResourceType \<Rightarrow> nat" where
  "resource_type_index RESOURCE_INVALID = 0"
| "resource_type_index RESOURCE_GLOBAL = 1"
| "resource_type_index RESOURCE_DATABASE = 2"
| "resource_type_index RESOURCE_COLLECTION = 3"
| "resource_type_index RESOURCE_METADATA = 4"
| "resource_type_index RESOURCE_MUTEX = 5"

fun resourceTypeName :: "ResourceType \<Rightarrow> string" where
  "resourceTypeName RESOURCE_INVALID = ''Invalid''"
| "resourceTypeName RESOURCE_GLOBAL = ''Global''"
| "resourceTypeName RESOURCE_DATABASE = ''Database''"
| "resourceTypeName RESOURCE_COLLECTION = ''Collection''"
| "resourceTypeName RESOURCE_METADATA = ''Metadata''"
| "resourceTypeName RESOURCE_MUTEX = ''Mutex''"

definition resourceTypeBits :: nat where
  "resourceTypeBits = 3"

datatype ResourceId = ResourceId (full_hash: u64)

definition fullHash :: "ResourceType \<Rightarrow> u64 \<Rightarrow> u64" where
  "fullHash type hashId =
     push_bit (64 - resourceTypeBits) (of_nat (resource_type_index type)) +
     (hashId AND drop_bit resourceTypeBits (- 1))"

definition mk_ResourceId :: "ResourceType \<Rightarrow> u64 \<Rightarrow> ResourceId" where
  "mk_ResourceId type hashId = ResourceId (fullHash type hashId)"

definition invalid_ResourceId :: ResourceId where
  "invalid_ResourceId = ResourceId 0"

text \<open>
  \<open>getType\<close> casts the top three bits to the enumeration. Values 6 and 7 are no
  enumerators; a cast to them is \<open>None\<close> here and never arises from \<open>fullHash\<close>.
\<close>

definition getType :: "ResourceId \<Rightarrow> ResourceType option" where
  "getType r =
     (let t = unat (drop_bit (64 - resourceTypeBits) (full_hash r)) in
      if t = 0 then Some RESOURCE_INVALID
      else if t = 1 then Some RESOURCE_GLOBAL
      else if t = 2 then Some RESOURCE_DATABASE
      else if t = 3 then Some RESOURCE_COLLECTION
      else if t = 4 then Some RESOURCE_METADATA
      else if t = 5 then Some RESOURCE_MUTEX
      else None)"

definition getHashId :: "ResourceId \<Rightarrow> u64" where
  "getHashId r = full_hash r AND drop_bit resourceTypeBits (- 1)"

definition isValid :: "ResourceId \<Rightarrow> bool" where
  "isValid r \<longleftrightarrow> getType r \<noteq> Some RESOURCE_INVALID"

text \<open>The canonical locking order compares the hash words.\<close>

instantiation ResourceId :: linorder
begin

definition less_eq_ResourceId :: "ResourceId \<Rightarrow> ResourceId \<Rightarrow> bool" where
  "a \<le> b \<longleftrightarrow> full_hash a \<le> full_hash b"

definition less_ResourceId :: "ResourceId \<Rightarrow> ResourceId \<Rightarrow> bool" where
  "a < b \<longleftrightarrow> full_hash a < full_hash b"

instance
  by standard (auto simp: less_eq_ResourceId_def less_ResourceId_def ResourceId.expand)

end

datatype SingletonHashIds =
  SINGLETON_INVALID | SINGLETON_PARALLEL_BATCH_WRITER_MODE | SINGLETON_GLOBAL

fun singleton_hash :: "SingletonHashIds \<Rightarrow> u64" where
  "singleton_hash SINGLETON_INVALID = 0"
| "singleton_hash SINGLETON_PARALLEL_BATCH_WRITER_MODE = 1"
| "singleton_hash SINGLETON_GLOBAL = 2"

definition resourceIdGlobal :: ResourceId where
  "resourceIdGlobal = mk_ResourceId RESOURCE_GLOBAL (singleton_hash SINGLETON_GLOBAL)"

definition resourceIdParallelBatchWriterMode :: ResourceId where
  "resourceIdParallelBatchWriterMode =
     mk_ResourceId RESOURCE_GLOBAL (singleton_hash SINGLETON_PARALLEL_BATCH_WRITER_MODE)"

subsection \<open>The word splits into type and hash\<close>

definition low_mask :: u64 where
  "low_mask = drop_bit resourceTypeBits (- 1)"

lemma low_mask_eq: "low_mask = mask 61"
  by (simp add: low_mask_def resourceTypeBits_def mask_eq_exp_minus_1)

lemma unat_fullHash:
  "unat (fullHash t h) = resource_type_index t * 2 ^ 61 + unat (take_bit 61 h)"
proof -
  have h: "h AND low_mask = take_bit 61 h"
    by (simp add: low_mask_eq take_bit_eq_mask)
  have tk: "unat (take_bit 61 h) < 2 ^ 61"
    by (metis take_bit_nat_less_exp unsigned_take_bit_eq)
  have ti: "resource_type_index t \<le> 5"
    by (cases t) auto
  have pb: "unat (push_bit 61 (of_nat (resource_type_index t)) :: u64) = resource_type_index t * 2 ^ 61"
    by (cases t) simp_all
  have "unat (push_bit 61 (of_nat (resource_type_index t)) :: u64) + unat (take_bit 61 h) < 2 ^ 64"
    using tk ti by (simp add: pb)
  then have "unat (push_bit 61 (of_nat (resource_type_index t)) + take_bit 61 h :: u64) =
      resource_type_index t * 2 ^ 61 + unat (take_bit 61 h)"
    by (subst unat_add_lem [THEN iffD1]) (simp_all add: pb)
  then show ?thesis
    using h by (simp add: fullHash_def low_mask_def resourceTypeBits_def)
qed

lemma take_bit_61_less: "unat (take_bit 61 (h :: u64)) < 2 ^ 61"
  by (metis take_bit_nat_less_exp unsigned_take_bit_eq)

lemma fullHash_div: "unat (drop_bit 61 (fullHash t h)) = resource_type_index t"
proof -
  have "unat (drop_bit 61 (fullHash t h)) = unat (fullHash t h) div 2 ^ 61"
    by (simp add: drop_bit_eq_div unat_div)
  also have "\<dots> = resource_type_index t"
    unfolding unat_fullHash using take_bit_61_less [of h] by simp
  finally show ?thesis .
qed

lemma getType_mk [simp]: "getType (mk_ResourceId t h) = Some t"
  by (cases t)
    (simp_all add: getType_def mk_ResourceId_def resourceTypeBits_def fullHash_div)

lemma getHashId_mk [simp]: "getHashId (mk_ResourceId t h) = take_bit 61 h"
proof (rule word_unat_eq_iff [THEN iffD2])
  have "unat (getHashId (mk_ResourceId t h)) = unat (take_bit 61 (fullHash t h))"
    unfolding getHashId_def low_mask_def [symmetric] low_mask_eq
    by (simp add: mk_ResourceId_def take_bit_eq_mask)
  also have "\<dots> = unat (fullHash t h) mod 2 ^ 61"
    by (simp add: take_bit_eq_mod unat_mod)
  also have "\<dots> = unat (take_bit 61 h)"
    using take_bit_61_less [of h] by (simp add: unat_fullHash)
  finally show "unat (getHashId (mk_ResourceId t h)) = unat (take_bit 61 h)" .
qed

lemma mk_ResourceId_less:
  "mk_ResourceId t h < mk_ResourceId t' h' \<longleftrightarrow>
     resource_type_index t < resource_type_index t' \<or>
     t = t' \<and> take_bit 61 h < take_bit 61 h'"
proof -
  have *: "i * 2 ^ 61 + a < j * 2 ^ 61 + b \<longleftrightarrow> i < j \<or> i = j \<and> a < b"
    if "a < 2 ^ 61" "b < 2 ^ 61" for i j a b :: nat
    using that by auto
  have inj: "resource_type_index t = resource_type_index t' \<longleftrightarrow> t = t'"
    by (cases t; cases t'; simp)
  show ?thesis
    unfolding less_ResourceId_def mk_ResourceId_def ResourceId.sel word_less_nat_alt unat_fullHash
      * [OF take_bit_61_less take_bit_61_less] inj ..
qed

end
