(* ===== verification/Lock_Request_List.thy ===== *)
theory Lock_Request_List
  imports Prelude
begin

text \<open>
  The intrusive doubly linked list of db/concurrency/lock_request_list.h. A request is an
  address (\<open>rid\<close>), the heap gives the \<open>prev\<close> and \<open>next\<close> fields of every request, and a list
  is its two end pointers. The lock manager's own theories work on HOL lists of request
  addresses; the locale \<open>request_list\<close> states what they rely on, and its interpretation
  discharges those laws for the pointer code.
\<close>

type_synonym rid = nat

record links =
  prev_ptr :: "rid option"
  next_ptr :: "rid option"

type_synonym link_heap = "rid \<Rightarrow> links"

record LockRequestList =
  front_ptr :: "rid option"
  back_ptr :: "rid option"

definition list_reset :: LockRequestList where
  "list_reset = \<lparr>front_ptr = None, back_ptr = None\<rparr>"

definition list_is_empty :: "LockRequestList \<Rightarrow> bool" where
  "list_is_empty l \<longleftrightarrow> front_ptr l = None"

definition list_push_front ::
  "link_heap \<Rightarrow> LockRequestList \<Rightarrow> rid \<Rightarrow> (link_heap \<times> LockRequestList) option" where
  "list_push_front hp l request = do {
     invariant (next_ptr (hp request) = None);
     invariant (prev_ptr (hp request) = None);
     Some (case front_ptr l of
         None \<Rightarrow> (hp, l\<lparr>front_ptr := Some request, back_ptr := Some request\<rparr>)
       | Some f \<Rightarrow>
           let hp = hp(request := (hp request)\<lparr>next_ptr := Some f\<rparr>);
               hp = hp(f := (hp f)\<lparr>prev_ptr := Some request\<rparr>)
           in (hp, l\<lparr>front_ptr := Some request\<rparr>))
   }"

definition list_push_back ::
  "link_heap \<Rightarrow> LockRequestList \<Rightarrow> rid \<Rightarrow> (link_heap \<times> LockRequestList) option" where
  "list_push_back hp l request = do {
     invariant (next_ptr (hp request) = None);
     invariant (prev_ptr (hp request) = None);
     (case front_ptr l of
         None \<Rightarrow> Some (hp, l\<lparr>front_ptr := Some request, back_ptr := Some request\<rparr>)
       | Some f \<Rightarrow>
           let hp = hp(request := (hp request)\<lparr>prev_ptr := back_ptr l\<rparr>)
           in (case back_ptr l of
                 None \<Rightarrow> None
               | Some b \<Rightarrow>
                   Some (hp(b := (hp b)\<lparr>next_ptr := Some request\<rparr>),
                         l\<lparr>back_ptr := Some request\<rparr>)))
   }"

definition list_remove ::
  "link_heap \<Rightarrow> LockRequestList \<Rightarrow> rid \<Rightarrow> link_heap \<times> LockRequestList" where
  "list_remove hp l request =
     (let (hp, l) =
            (case prev_ptr (hp request) of
               Some p \<Rightarrow> (hp(p := (hp p)\<lparr>next_ptr := next_ptr (hp request)\<rparr>), l)
             | None \<Rightarrow> (hp, l\<lparr>front_ptr := next_ptr (hp request)\<rparr>));
          (hp, l) =
            (case next_ptr (hp request) of
               Some n \<Rightarrow> (hp(n := (hp n)\<lparr>prev_ptr := prev_ptr (hp request)\<rparr>), l)
             | None \<Rightarrow> (hp, l\<lparr>back_ptr := prev_ptr (hp request)\<rparr>))
      in (hp(request := (hp request)\<lparr>prev_ptr := None, next_ptr := None\<rparr>), l))"

text \<open>
  The two iteration idioms of the lock manager: following \<open>next\<close> from the front and
  \<open>prev\<close> from the back. The fuel bounds the number of hops.
\<close>

fun walk_next :: "nat \<Rightarrow> link_heap \<Rightarrow> rid option \<Rightarrow> rid list" where
  "walk_next 0 hp p = []"
| "walk_next (Suc n) hp None = []"
| "walk_next (Suc n) hp (Some x) = x # walk_next n hp (next_ptr (hp x))"

fun walk_prev :: "nat \<Rightarrow> link_heap \<Rightarrow> rid option \<Rightarrow> rid list" where
  "walk_prev 0 hp p = []"
| "walk_prev (Suc n) hp None = []"
| "walk_prev (Suc n) hp (Some x) = x # walk_prev n hp (prev_ptr (hp x))"

subsection \<open>What a pointer list represents\<close>

text \<open>\<open>seg hp p xs n\<close>: the nodes \<open>xs\<close> are linked in order, preceded by \<open>p\<close> and followed by \<open>n\<close>.\<close>

definition first_or :: "rid option \<Rightarrow> rid list \<Rightarrow> rid option" where
  "first_or n xs = (case xs of [] \<Rightarrow> n | x # _ \<Rightarrow> Some x)"

definition last_or :: "rid option \<Rightarrow> rid list \<Rightarrow> rid option" where
  "last_or p xs = (if xs = [] then p else Some (last xs))"

fun seg :: "link_heap \<Rightarrow> rid option \<Rightarrow> rid list \<Rightarrow> rid option \<Rightarrow> bool" where
  "seg hp p [] n \<longleftrightarrow> True"
| "seg hp p (x # xs) n \<longleftrightarrow>
     prev_ptr (hp x) = p \<and> next_ptr (hp x) = first_or n xs \<and> seg hp (Some x) xs n"

definition list_rep :: "link_heap \<Rightarrow> LockRequestList \<Rightarrow> rid list \<Rightarrow> bool" where
  "list_rep hp l xs \<longleftrightarrow>
     distinct xs \<and> seg hp None xs None \<and>
     front_ptr l = first_or None xs \<and> back_ptr l = last_or None xs"

definition list_detached :: "link_heap \<Rightarrow> rid \<Rightarrow> bool" where
  "list_detached hp x \<longleftrightarrow> prev_ptr (hp x) = None \<and> next_ptr (hp x) = None"

lemma first_or_simps [simp]:
  "first_or n [] = n" "first_or n (x # xs) = Some x"
  "first_or n (xs @ ys) = first_or (first_or n ys) xs"
  by (simp_all add: first_or_def split: list.splits)

lemma last_or_simps [simp]:
  "last_or p [] = p" "last_or p (xs @ [x]) = Some x" "last_or p (x # xs) = last_or (Some x) xs"
  "last_or p (xs @ ys) = last_or (last_or p xs) ys"
  by (simp_all add: last_or_def)

lemma seg_append:
  "seg hp p (xs @ ys) n \<longleftrightarrow> seg hp p xs (first_or n ys) \<and> seg hp (last_or p xs) ys n"
  by (induction xs arbitrary: p) auto

lemma seg_cong:
  "(\<And>x. x \<in> set xs \<Longrightarrow> hp x = hp' x) \<Longrightarrow> seg hp p xs n = seg hp' p xs n"
  by (induction xs arbitrary: p) auto

lemma seg_upd [simp]: "x \<notin> set xs \<Longrightarrow> seg (hp(x := v)) p xs n = seg hp p xs n"
  by (rule seg_cong) auto

lemma seg_change_prev:
  "seg hp p (x # xs) n \<Longrightarrow> x \<notin> set xs \<Longrightarrow> seg (hp(x := (hp x)\<lparr>prev_ptr := q\<rparr>)) q (x # xs) n"
  by simp

lemma seg_change_next:
  "seg hp p (xs @ [x]) n \<Longrightarrow> x \<notin> set xs \<Longrightarrow>
     seg (hp(x := (hp x)\<lparr>next_ptr := m\<rparr>)) p (xs @ [x]) m"
  by (simp add: seg_append)

lemma list_rep_frame:
  "list_rep hp l xs \<Longrightarrow> (\<And>x. x \<in> set xs \<Longrightarrow> hp' x = hp x) \<Longrightarrow> list_rep hp' l xs"
  unfolding list_rep_def using seg_cong [of xs hp hp' None None] by auto

lemma list_push_front_rep:
  assumes rep: "list_rep hp l xs" and det: "list_detached hp r" and new: "r \<notin> set xs"
  shows "\<exists>hp' l'. list_push_front hp l r = Some (hp', l') \<and> list_rep hp' l' (r # xs) \<and>
           (\<forall>y. y \<notin> insert r (set xs) \<longrightarrow> hp' y = hp y)"
proof (cases xs)
  case Nil
  with rep det show ?thesis
    by (auto simp: list_push_front_def list_rep_def list_detached_def)
next
  case (Cons f ys)
  let ?hp1 = "hp(r := (hp r)\<lparr>next_ptr := Some f\<rparr>)"
  let ?hp2 = "?hp1(f := (?hp1 f)\<lparr>prev_ptr := Some r\<rparr>)"
  from Cons rep new have s: "seg ?hp1 None (f # ys) None" "f \<notin> set ys" "r \<noteq> f"
    by (auto simp: list_rep_def)
  then have "seg ?hp2 (Some r) xs None"
    using Cons seg_change_prev by blast
  with Cons rep det new s show ?thesis
    by (auto simp: list_push_front_def list_rep_def list_detached_def Let_def)
qed

lemma list_push_back_rep:
  assumes rep: "list_rep hp l xs" and det: "list_detached hp r" and new: "r \<notin> set xs"
  shows "\<exists>hp' l'. list_push_back hp l r = Some (hp', l') \<and> list_rep hp' l' (xs @ [r]) \<and>
           (\<forall>y. y \<notin> insert r (set xs) \<longrightarrow> hp' y = hp y)"
proof (cases xs rule: rev_cases)
  case Nil
  with rep det show ?thesis
    by (auto simp: list_push_back_def list_rep_def list_detached_def)
next
  case (snoc ys b)
  let ?hp1 = "hp(r := (hp r)\<lparr>prev_ptr := Some b\<rparr>)"
  let ?hp2 = "?hp1(b := (?hp1 b)\<lparr>next_ptr := Some r\<rparr>)"
  from snoc rep new have s: "seg ?hp1 None (ys @ [b]) None" "b \<notin> set ys" "r \<noteq> b"
    by (auto simp: list_rep_def)
  from s(1,2) have "seg ?hp2 None (ys @ [b]) (Some r)"
    by (rule seg_change_next)
  moreover obtain f where "front_ptr l = Some f"
    using snoc rep by (cases ys) (auto simp: list_rep_def)
  ultimately show ?thesis
    using snoc rep det new s
    by (cases ys) (auto simp: list_push_back_def list_rep_def list_detached_def Let_def seg_append)
qed

lemma list_remove_rep:
  assumes rep: "list_rep hp l xs" and r: "r \<in> set xs"
  shows "\<exists>hp' l'. list_remove hp l r = (hp', l') \<and> list_rep hp' l' (remove1 r xs) \<and>
           list_detached hp' r \<and> (\<forall>y. y \<notin> set xs \<longrightarrow> hp' y = hp y)"
proof -
  from r obtain as bs where xs: "xs = as @ r # bs" and nas: "r \<notin> set as"
    by (metis split_list_first)
  from rep xs have dist: "distinct (as @ r # bs)"
    and sa: "seg hp None as (Some r)" and sb: "seg hp (Some r) bs None"
    and pr: "prev_ptr (hp r) = last_or None as" and nr: "next_ptr (hp r) = first_or None bs"
    and fr: "front_ptr l = first_or (Some r) as" and ba: "back_ptr l = last_or (Some r) bs"
    by (auto simp: list_rep_def seg_append)
  show ?thesis
  proof (cases as rule: rev_cases)
    case Nil
    show ?thesis
    proof (cases bs)
      case Nil
      with \<open>as = []\<close> pr nr fr ba xs show ?thesis
        by (auto simp: list_remove_def list_rep_def list_detached_def)
    next
      case (Cons n cs)
      then have "seg (hp(n := (hp n)\<lparr>prev_ptr := None\<rparr>)) None (n # cs) None"
        using sb dist by simp
      with Cons \<open>as = []\<close> pr nr fr ba xs dist show ?thesis
        by (auto simp: list_remove_def list_rep_def list_detached_def)
    qed
  next
    case (snoc zs p)
    let ?hp1 = "hp(p := (hp p)\<lparr>next_ptr := first_or None bs\<rparr>)"
    have s1: "seg ?hp1 None (zs @ [p]) (first_or None bs)"
      using sa dist snoc by (intro seg_change_next) auto
    have s2: "seg ?hp1 (Some r) bs None"
      using sb dist snoc by (subst seg_upd) auto
    show ?thesis
    proof (cases bs)
      case Nil
      with snoc pr nr fr ba xs dist s1 show ?thesis
        by (auto simp: list_remove_def list_rep_def list_detached_def remove1_append)
    next
      case (Cons n cs)
      let ?hp2 = "?hp1(n := (?hp1 n)\<lparr>prev_ptr := Some p\<rparr>)"
      have "seg ?hp2 (Some p) (n # cs) None"
        using s2 dist Cons by (intro seg_change_prev) auto
      moreover have "seg ?hp2 None (zs @ [p]) (Some n)"
        using s1 dist Cons snoc by (subst seg_upd) auto
      ultimately have "seg ?hp2 None ((zs @ [p]) @ n # cs) None"
        by (simp only: seg_append) simp
      then have "seg (?hp2(r := v)) None ((zs @ [p]) @ n # cs) None" for v
        using dist snoc Cons by (subst seg_upd) auto
      moreover have "p \<noteq> n" "p \<noteq> r" "n \<noteq> r"
        using dist snoc Cons by auto
      ultimately show ?thesis
        using snoc Cons pr nr fr ba xs dist
        by (auto simp: list_remove_def list_rep_def list_detached_def remove1_append)
    qed
  qed
qed

lemma seg_walk_next: "seg hp p xs None \<Longrightarrow> length xs \<le> n \<Longrightarrow> walk_next n hp (first_or None xs) = xs"
proof (induction xs arbitrary: p n)
  case Nil
  then show ?case by (cases n) auto
next
  case (Cons x xs)
  then show ?case by (cases n) auto
qed

lemma seg_walk_prev: "seg hp None xs n \<Longrightarrow> length xs \<le> k \<Longrightarrow> walk_prev k hp (last_or None xs) = rev xs"
proof (induction xs arbitrary: n k rule: rev_induct)
  case Nil
  then show ?case by (cases k) auto
next
  case (snoc x xs)
  then show ?case by (cases k) (auto simp: seg_append)
qed

subsection \<open>The interface the lock manager relies on\<close>

text \<open>Operations on a queue of requests, and what they do to the list it represents.\<close>

datatype list_op = PushFront rid | PushBack rid | Remove rid

fun spec_op :: "rid list \<Rightarrow> list_op \<Rightarrow> rid list" where
  "spec_op xs (PushFront r) = r # xs"
| "spec_op xs (PushBack r) = xs @ [r]"
| "spec_op xs (Remove r) = remove1 r xs"

fun legal_op :: "rid list \<Rightarrow> list_op \<Rightarrow> bool" where
  "legal_op xs (PushFront r) \<longleftrightarrow> r \<notin> set xs"
| "legal_op xs (PushBack r) \<longleftrightarrow> r \<notin> set xs"
| "legal_op xs (Remove r) \<longleftrightarrow> r \<in> set xs"

fun legal_ops :: "rid list \<Rightarrow> list_op list \<Rightarrow> bool" where
  "legal_ops xs [] \<longleftrightarrow> True"
| "legal_ops xs (f # fs) \<longleftrightarrow> legal_op xs f \<and> legal_ops (spec_op xs f) fs"

locale request_list =
  fixes op_push_front op_push_back :: "'h \<Rightarrow> 'l \<Rightarrow> rid \<Rightarrow> ('h \<times> 'l) option"
    and op_remove :: "'h \<Rightarrow> 'l \<Rightarrow> rid \<Rightarrow> 'h \<times> 'l"
    and rep :: "'h \<Rightarrow> 'l \<Rightarrow> rid list \<Rightarrow> bool"
    and detached :: "'h \<Rightarrow> rid \<Rightarrow> bool"
    and agree :: "rid set \<Rightarrow> 'h \<Rightarrow> 'h \<Rightarrow> bool"
  assumes push_front_law:
      "rep h l xs \<Longrightarrow> detached h r \<Longrightarrow> r \<notin> set xs \<Longrightarrow>
         \<exists>h' l'. op_push_front h l r = Some (h', l') \<and> rep h' l' (r # xs) \<and>
           agree (- insert r (set xs)) h h'"
    and push_back_law:
      "rep h l xs \<Longrightarrow> detached h r \<Longrightarrow> r \<notin> set xs \<Longrightarrow>
         \<exists>h' l'. op_push_back h l r = Some (h', l') \<and> rep h' l' (xs @ [r]) \<and>
           agree (- insert r (set xs)) h h'"
    and remove_law:
      "rep h l xs \<Longrightarrow> r \<in> set xs \<Longrightarrow>
         \<exists>h' l'. op_remove h l r = (h', l') \<and> rep h' l' (remove1 r xs) \<and>
           detached h' r \<and> agree (- set xs) h h'"
    and agree_detached: "agree A h h' \<Longrightarrow> r \<in> A \<Longrightarrow> detached h r \<Longrightarrow> detached h' r"
    and agree_rep: "agree A h h' \<Longrightarrow> set ys \<subseteq> A \<Longrightarrow> rep h m ys \<Longrightarrow> rep h' m ys"
begin

fun run_op :: "'h \<times> 'l \<Rightarrow> list_op \<Rightarrow> ('h \<times> 'l) option" where
  "run_op (h, l) (PushFront r) = op_push_front h l r"
| "run_op (h, l) (PushBack r) = op_push_back h l r"
| "run_op (h, l) (Remove r) = Some (op_remove h l r)"

fun run_ops :: "'h \<times> 'l \<Rightarrow> list_op list \<Rightarrow> ('h \<times> 'l) option" where
  "run_ops s [] = Some s"
| "run_ops s (f # fs) = run_op s f \<bind> (\<lambda>s. run_ops s fs)"

text \<open>
  \<open>owns R h l xs\<close>: the list represents \<open>xs\<close> and every other request of \<open>R\<close> is unlinked.
\<close>

definition owns :: "rid set \<Rightarrow> 'h \<Rightarrow> 'l \<Rightarrow> rid list \<Rightarrow> bool" where
  "owns R h l xs \<longleftrightarrow> rep h l xs \<and> set xs \<subseteq> R \<and> (\<forall>r \<in> R - set xs. detached h r)"

fun op_rid :: "list_op \<Rightarrow> rid" where
  "op_rid (PushFront r) = r"
| "op_rid (PushBack r) = r"
| "op_rid (Remove r) = r"

lemma run_op_refines:
  assumes "owns R h l xs" and "legal_op xs f" and "op_rid f \<in> R" and "distinct xs"
  shows "\<exists>h' l'. run_op (h, l) f = Some (h', l') \<and> owns R h' l' (spec_op xs f)"
proof (cases f)
  case (PushFront r)
  with assms obtain h' l' where "op_push_front h l r = Some (h', l')" "rep h' l' (r # xs)"
    "agree (- insert r (set xs)) h h'"
    using push_front_law [of h l xs r] by (auto simp: owns_def)
  with PushFront assms show ?thesis
    using agree_detached [of "- insert r (set xs)" h h'] by (auto simp: owns_def)
next
  case (PushBack r)
  with assms obtain h' l' where "op_push_back h l r = Some (h', l')" "rep h' l' (xs @ [r])"
    "agree (- insert r (set xs)) h h'"
    using push_back_law [of h l xs r] by (auto simp: owns_def)
  with PushBack assms show ?thesis
    using agree_detached [of "- insert r (set xs)" h h'] by (auto simp: owns_def)
next
  case (Remove r)
  with assms obtain h' l' where "op_remove h l r = (h', l')" "rep h' l' (remove1 r xs)"
    "detached h' r" "agree (- set xs) h h'"
    using remove_law [of h l xs r] by (auto simp: owns_def)
  with Remove assms show ?thesis
    using agree_detached [of "- set xs" h h'] by (auto simp: owns_def)
qed

lemma legal_op_distinct: "distinct xs \<Longrightarrow> legal_op xs f \<Longrightarrow> distinct (spec_op xs f)"
  by (cases f) auto

lemma run_ops_refines:
  assumes "owns R h l xs" and "legal_ops xs fs" and "op_rid ` set fs \<subseteq> R" and "distinct xs"
  shows "\<exists>h' l'. run_ops (h, l) fs = Some (h', l') \<and> owns R h' l' (fold (\<lambda>f xs. spec_op xs f) fs xs)"
  using assms
proof (induction fs arbitrary: h l xs)
  case Nil
  then show ?case by simp
next
  case (Cons f fs)
  then obtain h' l' where "run_op (h, l) f = Some (h', l')" "owns R h' l' (spec_op xs f)"
    using run_op_refines [of R h l xs f] by auto
  with Cons legal_op_distinct [of xs f] show ?case by auto
qed

end

definition heap_agree :: "rid set \<Rightarrow> link_heap \<Rightarrow> link_heap \<Rightarrow> bool" where
  "heap_agree A hp hp' \<longleftrightarrow> (\<forall>x \<in> A. hp' x = hp x)"

interpretation ptr: request_list list_push_front list_push_back list_remove
  list_rep list_detached heap_agree
proof unfold_locales
  fix h l xs r
  assume "list_rep h l xs" "list_detached h r" "r \<notin> set xs"
  then show "\<exists>h' l'. list_push_front h l r = Some (h', l') \<and> list_rep h' l' (r # xs) \<and>
      heap_agree (- insert r (set xs)) h h'"
    using list_push_front_rep [of h l xs r] by (auto simp: heap_agree_def)
next
  fix h l xs r
  assume "list_rep h l xs" "list_detached h r" "r \<notin> set xs"
  then show "\<exists>h' l'. list_push_back h l r = Some (h', l') \<and> list_rep h' l' (xs @ [r]) \<and>
      heap_agree (- insert r (set xs)) h h'"
    using list_push_back_rep [of h l xs r] by (auto simp: heap_agree_def)
next
  fix h l xs r
  assume "list_rep h l xs" "r \<in> set xs"
  then show "\<exists>h' l'. list_remove h l r = (h', l') \<and> list_rep h' l' (remove1 r xs) \<and>
      list_detached h' r \<and> heap_agree (- set xs) h h'"
    using list_remove_rep [of h l xs r] by (auto simp: heap_agree_def)
next
  fix A h h' r
  assume "heap_agree A h h'" "r \<in> A" "list_detached h r"
  then show "list_detached h' r"
    by (simp add: heap_agree_def list_detached_def)
next
  fix A h h' and ys :: "rid list" and m
  assume "heap_agree A h h'" "set ys \<subseteq> A" "list_rep h m ys"
  then show "list_rep h' m ys"
    by (auto simp: heap_agree_def intro: list_rep_frame)
qed

end
