(* ===== verification/Lock_Head.thy ===== *)
theory Lock_Head
  imports Lock_Modes Resource_Id Lock_Request_List
begin

text \<open>
  Lock requests and the per-resource lock head: struct LockRequest of
  db/concurrency/lock_manager_defs.h, struct LockHead of lock_manager.h with its methods,
  and LockManager::_onLockModeChanged of lock_manager.cpp. Queues are HOL lists of request
  addresses (theory \<open>Lock_Request_List\<close> relates them to the intrusive pointers); the request
  objects themselves live in a store \<open>rid \<Rightarrow> LockRequest\<close>, since lock heads, partitions and
  lockers all point to them. The counters are \<open>nat\<close>: each is bounded by the number of live
  requests, so their 32-bit width is never exhausted.
\<close>

type_synonym LockerId = u64

datatype Status = STATUS_NEW | STATUS_GRANTED | STATUS_WAITING | STATUS_CONVERTING

datatype LockResult = LOCK_OK | LOCK_WAITING | LOCK_TIMEOUT | LOCK_DEADLOCK | LOCK_INVALID

fun lockRequestStatusName :: "Status \<Rightarrow> string" where
  "lockRequestStatusName STATUS_NEW = ''new''"
| "lockRequestStatusName STATUS_GRANTED = ''granted''"
| "lockRequestStatusName STATUS_WAITING = ''waiting''"
| "lockRequestStatusName STATUS_CONVERTING = ''converting''"

text \<open>
  A \<open>LockHead*\<close> points into the lock manager's table (one head per resource) or to the head
  inside a TemporaryResourceQueue. A \<open>PartitionedLockHead*\<close> is the entry of a resource in a
  partition.
\<close>

datatype LockHeadPtr = ManagedHead ResourceId | TemporaryHead ResourceId

record LockRequest =
  locker :: LockerId
  enqueueAtFront :: bool
  compatibleFirst :: bool
  partitioned :: bool
  recursiveCount :: nat
  lock_ptr :: "LockHeadPtr option"
  partitionedLock :: "(nat \<times> ResourceId) option"
  status :: Status
  mode :: LockMode
  convertMode :: LockMode
  unlockPending :: nat

type_synonym requests = "rid \<Rightarrow> LockRequest"

definition initNew_request :: "LockRequest \<Rightarrow> LockerId \<Rightarrow> LockRequest" where
  "initNew_request r lockerId = r\<lparr>locker := lockerId, enqueueAtFront := False, compatibleFirst := False,
     recursiveCount := 1, lock_ptr := None, partitionedLock := None, status := STATUS_NEW,
     partitioned := False, mode := MODE_NONE, convertMode := MODE_NONE\<rparr>"

record LockHead =
  this :: LockHeadPtr
  resourceId :: ResourceId
  grantedList :: "rid list"
  grantedCounts :: "LockMode \<Rightarrow> nat"
  grantedModes :: u32
  conflictList :: "rid list"
  conflictCounts :: "LockMode \<Rightarrow> nat"
  conflictModes :: u32
  partitions :: "nat list"
  conversionsCount :: nat
  compatibleFirstCount :: nat

definition initNew_head :: "LockHeadPtr \<Rightarrow> ResourceId \<Rightarrow> LockHead" where
  "initNew_head ptr resId =
     \<lparr>this = ptr, resourceId = resId,
      grantedList = [], grantedCounts = (\<lambda>_. 0), grantedModes = 0,
      conflictList = [], conflictCounts = (\<lambda>_. 0), conflictModes = 0,
      partitions = [], conversionsCount = 0, compatibleFirstCount = 0\<rparr>"

definition head_partitioned :: "LockHead \<Rightarrow> bool" where
  "head_partitioned h \<longleftrightarrow> partitions h \<noteq> []"

text \<open>LockHead::findRequest: the granted queue first, the conflict queue second.\<close>

definition findRequest :: "requests \<Rightarrow> LockHead \<Rightarrow> LockerId \<Rightarrow> rid option" where
  "findRequest rq h lockerId =
     (case List.find (\<lambda>x. locker (rq x) = lockerId) (grantedList h) of
        Some x \<Rightarrow> Some x
      | None \<Rightarrow> List.find (\<lambda>x. locker (rq x) = lockerId) (conflictList h))"

subsection \<open>Mode counters\<close>

definition incGrantedModeCount :: "LockHead \<Rightarrow> LockMode \<Rightarrow> LockHead option" where
  "incGrantedModeCount h m = do {
     invariant (grantedCounts h m \<ge> 0);
     let h = h\<lparr>grantedCounts := (grantedCounts h)(m := grantedCounts h m + 1)\<rparr>;
     if grantedCounts h m = 1 then do {
       invariant (grantedModes h AND modeMask m = 0);
       Some (h\<lparr>grantedModes := grantedModes h OR modeMask m\<rparr>)
     } else Some h
   }"

definition decGrantedModeCount :: "LockHead \<Rightarrow> LockMode \<Rightarrow> LockHead option" where
  "decGrantedModeCount h m = do {
     invariant (grantedCounts h m \<ge> 1);
     let h = h\<lparr>grantedCounts := (grantedCounts h)(m := grantedCounts h m - 1)\<rparr>;
     if grantedCounts h m = 0 then do {
       invariant (grantedModes h AND modeMask m = modeMask m);
       Some (h\<lparr>grantedModes := grantedModes h AND NOT (modeMask m)\<rparr>)
     } else Some h
   }"

definition incConflictModeCount :: "LockHead \<Rightarrow> LockMode \<Rightarrow> LockHead option" where
  "incConflictModeCount h m = do {
     invariant (conflictCounts h m \<ge> 0);
     let h = h\<lparr>conflictCounts := (conflictCounts h)(m := conflictCounts h m + 1)\<rparr>;
     if conflictCounts h m = 1 then do {
       invariant (conflictModes h AND modeMask m = 0);
       Some (h\<lparr>conflictModes := conflictModes h OR modeMask m\<rparr>)
     } else Some h
   }"

definition decConflictModeCount :: "LockHead \<Rightarrow> LockMode \<Rightarrow> LockHead option" where
  "decConflictModeCount h m = do {
     invariant (conflictCounts h m \<ge> 1);
     let h = h\<lparr>conflictCounts := (conflictCounts h)(m := conflictCounts h m - 1)\<rparr>;
     if conflictCounts h m = 0 then do {
       invariant (conflictModes h AND modeMask m = modeMask m);
       Some (h\<lparr>conflictModes := conflictModes h AND NOT (modeMask m)\<rparr>)
     } else Some h
   }"

subsection \<open>LockHead::newRequest\<close>

definition head_newRequest ::
  "requests \<Rightarrow> LockHead \<Rightarrow> rid \<Rightarrow> (LockResult \<times> requests \<times> LockHead) option" where
  "head_newRequest rq h r = do {
     invariant (partitionedLock (rq r) = None);
     let rq = rq(r := (rq r)\<lparr>lock_ptr := Some (this h)\<rparr>);
     if conflicts (mode (rq r)) (grantedModes h) \<or>
        (compatibleFirstCount h = 0 \<and> conflicts (mode (rq r)) (conflictModes h))
     then do {
       let rq = rq(r := (rq r)\<lparr>status := STATUS_WAITING\<rparr>);
       let h = (if enqueueAtFront (rq r)
                then h\<lparr>conflictList := r # conflictList h\<rparr>
                else h\<lparr>conflictList := conflictList h @ [r]\<rparr>);
       h \<leftarrow> incConflictModeCount h (mode (rq r));
       Some (LOCK_WAITING, rq, h)
     } else do {
       let rq = rq(r := (rq r)\<lparr>status := STATUS_GRANTED\<rparr>);
       let h = h\<lparr>grantedList := grantedList h @ [r]\<rparr>;
       h \<leftarrow> incGrantedModeCount h (mode (rq r));
       let h = (if compatibleFirst (rq r)
                then h\<lparr>compatibleFirstCount := compatibleFirstCount h + 1\<rparr> else h);
       Some (LOCK_OK, rq, h)
     }
   }"

subsection \<open>LockManager::\_onLockModeChanged\<close>

text \<open>
  The granted mask without one request's own contribution, computed by the loop over the
  modes 1 to LockModesCount - 1 that convert and \_onLockModeChanged share.
\<close>

definition grantedModesWithout :: "(LockMode \<Rightarrow> nat) \<Rightarrow> (LockMode \<Rightarrow> nat) \<Rightarrow> u32" where
  "grantedModesWithout counts own =
     fold (\<lambda>i acc. if counts i > own i then acc OR modeMask i else acc)
       [MODE_IS, MODE_IX, MODE_S, MODE_X] 0"

type_synonym notification = "rid \<times> ResourceId \<times> LockResult"

type_synonym head_state = "requests \<times> LockHead \<times> notification list"

definition requestHolds :: "LockRequest \<Rightarrow> LockMode \<Rightarrow> nat" where
  "requestHolds r i = (if mode r = i then 1 else 0)"

definition requestWaits :: "LockRequest \<Rightarrow> LockMode \<Rightarrow> nat" where
  "requestWaits r i = (if convertMode r = i then 1 else 0)"

text \<open>The first loop, over the granted queue: unblock conversions.\<close>

fun grantConversions :: "head_state \<Rightarrow> rid list \<Rightarrow> head_state option" where
  "grantConversions (rq, h, ns) [] = Some (rq, h, ns)"
| "grantConversions (rq, h, ns) (iter # rest) =
     (if conversionsCount h > 0 then
        if status (rq iter) = STATUS_CONVERTING then do {
          invariant (convertMode (rq iter) \<noteq> MODE_NONE);
          invariant (list_all (\<lambda>i. requestHolds (rq iter) i + requestWaits (rq iter) i \<le> 1)
                       [MODE_IS, MODE_IX, MODE_S, MODE_X]);
          let others = grantedModesWithout (grantedCounts h)
                         (\<lambda>i. requestHolds (rq iter) i + requestWaits (rq iter) i);
          if \<not> conflicts (convertMode (rq iter)) others then do {
            let h = h\<lparr>conversionsCount := conversionsCount h - 1\<rparr>;
            h \<leftarrow> decGrantedModeCount h (mode (rq iter));
            let rq = rq(iter := (rq iter)\<lparr>status := STATUS_GRANTED,
                          mode := convertMode (rq iter), convertMode := MODE_NONE\<rparr>);
            grantConversions (rq, h, ns @ [(iter, resourceId h, LOCK_OK)]) rest
          } else grantConversions (rq, h, ns) rest
        } else grantConversions (rq, h, ns) rest
      else Some (rq, h, ns))"

text \<open>
  The second loop, over the conflict queue: \<open>newly\<close> is newlyCompatibleFirst. A request
  has no \<open>prev\<close> pointer exactly if it is at the front of the current conflict queue.
\<close>

fun grantConflicts :: "head_state \<Rightarrow> bool \<Rightarrow> rid list \<Rightarrow> head_state option" where
  "grantConflicts (rq, h, ns) newly [] = Some (rq, h, ns)"
| "grantConflicts (rq, h, ns) newly (iter # rest) = do {
     invariant (status (rq iter) = STATUS_WAITING);
     if conflicts (mode (rq iter)) (grantedModes h) then
       if hd (conflictList h) = iter \<and> \<not> newly then Some (rq, h, ns)
       else grantConflicts (rq, h, ns) newly rest
     else do {
       let rq = rq(iter := (rq iter)\<lparr>status := STATUS_GRANTED\<rparr>);
       let h = h\<lparr>conflictList := remove1 iter (conflictList h)\<rparr>;
       h \<leftarrow> decConflictModeCount h (mode (rq iter));
       let h = h\<lparr>grantedList := grantedList h @ [iter]\<rparr>;
       h \<leftarrow> incGrantedModeCount h (mode (rq iter));
       let newly = (if compatibleFirst (rq iter) then newly \<or> compatibleFirstCount h = 0
                    else newly);
       let h = (if compatibleFirst (rq iter)
                then h\<lparr>compatibleFirstCount := compatibleFirstCount h + 1\<rparr> else h);
       let ns = ns @ [(iter, resourceId h, LOCK_OK)];
       if mode (rq iter) = MODE_X then Some (rq, h, ns)
       else grantConflicts (rq, h, ns) newly rest
     }
   }"

definition onLockModeChanged :: "head_state \<Rightarrow> bool \<Rightarrow> head_state option" where
  "onLockModeChanged st checkConflictQueue = do {
     (rq, h, ns) \<leftarrow> grantConversions st (grantedList (fst (snd st)));
     (rq, h, ns) \<leftarrow> (if checkConflictQueue
                      then grantConflicts (rq, h, ns) False (conflictList h)
                      else Some (rq, h, ns));
     invariant ((grantedModes h = 0) \<noteq> (grantedList h \<noteq> []));
     invariant ((conflictModes h = 0) \<noteq> (conflictList h \<noteq> []));
     Some (rq, h, ns)
   }"

end
