(* ===== verification/Lock_Head_Invariant.thy ===== *)
theory Lock_Head_Invariant
  imports Lock_Head
begin

text \<open>
  The invariant of a lock head and its preservation: counters and masks agree with the
  queues, granted modes are pairwise compatible, a pending conversion is blocked by some
  other request, and a waiting request never sits behind an empty granted queue.
\<close>

subsection \<open>What the counters count\<close>

definition holds :: "LockRequest \<Rightarrow> LockMode multiset" where
  "holds r = {#mode r#} + (if status r = STATUS_CONVERTING then {#convertMode r#} else {#})"

definition heldModes :: "requests \<Rightarrow> rid list \<Rightarrow> LockMode multiset" where
  "heldModes rq xs = sum_list (map (\<lambda>x. holds (rq x)) xs)"

definition waitModes :: "requests \<Rightarrow> rid list \<Rightarrow> LockMode multiset" where
  "waitModes rq xs = mset (map (\<lambda>x. mode (rq x)) xs)"

definition grants :: "LockHead \<Rightarrow> LockMode multiset \<Rightarrow> bool" where
  "grants h M \<longleftrightarrow> grantedCounts h = count M \<and> grantedModes h = modesMask (set_mset M)"

definition waits :: "LockHead \<Rightarrow> LockMode multiset \<Rightarrow> bool" where
  "waits h M \<longleftrightarrow> conflictCounts h = count M \<and> conflictModes h = modesMask (set_mset M)"

abbreviation set_grants :: "LockMode multiset \<Rightarrow> LockHead \<Rightarrow> LockHead" where
  "set_grants M h \<equiv> h\<lparr>grantedCounts := count M, grantedModes := modesMask (set_mset M)\<rparr>"

abbreviation set_waits :: "LockMode multiset \<Rightarrow> LockHead \<Rightarrow> LockHead" where
  "set_waits M h \<equiv> h\<lparr>conflictCounts := count M, conflictModes := modesMask (set_mset M)\<rparr>"

lemma heldModes_simps [simp]:
  "heldModes rq [] = {#}"
  "heldModes rq (x # xs) = holds (rq x) + heldModes rq xs"
  "heldModes rq (xs @ ys) = heldModes rq xs + heldModes rq ys"
  by (simp_all add: heldModes_def)

lemma waitModes_simps [simp]:
  "waitModes rq [] = {#}"
  "waitModes rq (x # xs) = add_mset (mode (rq x)) (waitModes rq xs)"
  "waitModes rq (xs @ ys) = waitModes rq xs + waitModes rq ys"
  by (simp_all add: waitModes_def)

lemma heldModes_cong:
  "(\<And>x. x \<in> set xs \<Longrightarrow> holds (rq x) = holds (rq' x)) \<Longrightarrow> heldModes rq xs = heldModes rq' xs"
  unfolding heldModes_def by (metis (mono_tags, lifting) map_eq_conv)

lemma waitModes_cong:
  "(\<And>x. x \<in> set xs \<Longrightarrow> mode (rq x) = mode (rq' x)) \<Longrightarrow> waitModes rq xs = waitModes rq' xs"
  unfolding waitModes_def by (metis (mono_tags, lifting) map_eq_conv)

lemma heldModes_upd [simp]: "x \<notin> set xs \<Longrightarrow> heldModes (rq(x := v)) xs = heldModes rq xs"
  by (rule heldModes_cong) auto

lemma waitModes_upd [simp]: "x \<notin> set xs \<Longrightarrow> waitModes (rq(x := v)) xs = waitModes rq xs"
  by (rule waitModes_cong) auto

lemma heldModes_remove1:
  "x \<in> set xs \<Longrightarrow> heldModes rq xs = holds (rq x) + heldModes rq (remove1 x xs)"
  by (induction xs) (auto simp: ac_simps)

lemma waitModes_remove1:
  "x \<in> set xs \<Longrightarrow> waitModes rq xs = add_mset (mode (rq x)) (waitModes rq (remove1 x xs))"
  by (induction xs) auto

lemma in_heldModes: "k \<in># heldModes rq xs \<longleftrightarrow> (\<exists>x \<in> set xs. k \<in># holds (rq x))"
  by (induction xs) auto

lemma in_waitModes: "k \<in># waitModes rq xs \<longleftrightarrow> (\<exists>x \<in> set xs. k = mode (rq x))"
  by (induction xs) auto

lemma heldModes_empty [simp]: "heldModes rq xs = {#} \<longleftrightarrow> xs = []"
  by (cases xs) (auto simp: holds_def)

lemma waitModes_empty [simp]: "waitModes rq xs = {#} \<longleftrightarrow> xs = []"
  by (cases xs) auto

lemma mode_in_holds [simp]: "mode r \<in># holds r"
  by (simp add: holds_def)

lemma count_upd_add: "(count M)(m := Suc (count M m)) = count (add_mset m M)"
  by auto

lemma count_upd_dec: "(count (add_mset m M))(m := count M m) = count M"
  by auto

lemma inc_granted:
  assumes "grants h M"
  shows "incGrantedModeCount h m = Some (set_grants (add_mset m M) h)"
proof (cases "m \<in># M")
  case True
  with assms show ?thesis
    by (cases h) (simp add: incGrantedModeCount_def grants_def count_upd_add insert_absorb Let_def count_eq_zero_iff)
next
  case False
  with assms show ?thesis
    by (simp add: incGrantedModeCount_def grants_def count_upd_add Let_def count_eq_zero_iff modesMask_test modesMask_insert)
qed

lemma dec_granted:
  assumes "grants h (add_mset m M)"
  shows "decGrantedModeCount h m = Some (set_grants M h)"
proof (cases "m \<in># M")
  case True
  with assms show ?thesis
    by (cases h) (simp add: decGrantedModeCount_def grants_def count_upd_dec insert_absorb Let_def count_eq_zero_iff)
next
  case False
  with assms show ?thesis
    by (simp add: decGrantedModeCount_def grants_def count_upd_dec Let_def count_eq_zero_iff modesMask_test modesMask_remove)
qed

lemma inc_conflict:
  assumes "waits h M"
  shows "incConflictModeCount h m = Some (set_waits (add_mset m M) h)"
proof (cases "m \<in># M")
  case True
  with assms show ?thesis
    by (cases h) (simp add: incConflictModeCount_def waits_def count_upd_add insert_absorb Let_def count_eq_zero_iff)
next
  case False
  with assms show ?thesis
    by (simp add: incConflictModeCount_def waits_def count_upd_add Let_def count_eq_zero_iff modesMask_test modesMask_insert)
qed

lemma dec_conflict:
  assumes "waits h (add_mset m M)"
  shows "decConflictModeCount h m = Some (set_waits M h)"
proof (cases "m \<in># M")
  case True
  with assms show ?thesis
    by (cases h) (simp add: decConflictModeCount_def waits_def count_upd_dec insert_absorb Let_def count_eq_zero_iff)
next
  case False
  with assms show ?thesis
    by (simp add: decConflictModeCount_def waits_def count_upd_dec Let_def count_eq_zero_iff modesMask_test modesMask_remove)
qed

lemma grants_update [simp]:
  "grants (h\<lparr>grantedList := a\<rparr>) M = grants h M"
  "grants (h\<lparr>conflictList := a\<rparr>) M = grants h M"
  "grants (h\<lparr>conflictCounts := f\<rparr>) M = grants h M"
  "grants (h\<lparr>conflictModes := w\<rparr>) M = grants h M"
  "grants (h\<lparr>partitions := ps\<rparr>) M = grants h M"
  "grants (h\<lparr>conversionsCount := n\<rparr>) M = grants h M"
  "grants (h\<lparr>compatibleFirstCount := n\<rparr>) M = grants h M"
  "grants (set_grants N h) N"
  by (simp_all add: grants_def)

lemma waits_update [simp]:
  "waits (h\<lparr>grantedList := a\<rparr>) M = waits h M"
  "waits (h\<lparr>conflictList := a\<rparr>) M = waits h M"
  "waits (h\<lparr>grantedCounts := f\<rparr>) M = waits h M"
  "waits (h\<lparr>grantedModes := w\<rparr>) M = waits h M"
  "waits (h\<lparr>partitions := ps\<rparr>) M = waits h M"
  "waits (h\<lparr>conversionsCount := n\<rparr>) M = waits h M"
  "waits (h\<lparr>compatibleFirstCount := n\<rparr>) M = waits h M"
  "waits (set_waits N h) N"
  by (simp_all add: waits_def)

lemma conflicts_granted:
  "grants h M \<Longrightarrow> conflicts m (grantedModes h) \<longleftrightarrow> (\<exists>k \<in># M. mode_conflict m k)"
  by (simp add: grants_def conflicts_modesMask)

lemma conflicts_waiting:
  "waits h M \<Longrightarrow> conflicts m (conflictModes h) \<longleftrightarrow> (\<exists>k \<in># M. mode_conflict m k)"
  by (simp add: waits_def conflicts_modesMask)

text \<open>The mask without one request's own modes represents the other requests' modes.\<close>

lemma grantedModesWithout_mask:
  "grantedModesWithout counts own = modesMask ({i. counts i > own i} - {MODE_NONE})"
  by (simp add: grantedModesWithout_def modesMask_def)

lemma conflicts_without:
  assumes "grants h (N + M)"
  shows "conflicts m (grantedModesWithout (grantedCounts h) (count N)) \<longleftrightarrow>
           (\<exists>k \<in># M. mode_conflict m k)"
proof -
  have "conflicts m (grantedModesWithout (grantedCounts h) (count N)) \<longleftrightarrow>
      (\<exists>k \<in> {i. 0 < count M i} - {MODE_NONE}. mode_conflict m k)"
    using assms by (simp add: grantedModesWithout_mask conflicts_modesMask grants_def)
  also have "\<dots> \<longleftrightarrow> (\<exists>k \<in># M. mode_conflict m k)"
    by (metis (no_types, lifting) DiffE DiffI count_greater_zero_iff insertCI insertE empty_iff
        mem_Collect_eq mode_conflict_NONE)
  finally show ?thesis .
qed


subsection \<open>The invariant\<close>

definition granted_ok :: "LockRequest \<Rightarrow> bool" where
  "granted_ok r \<longleftrightarrow> mode r \<noteq> MODE_NONE \<and> partitionedLock r = None \<and>
     (status r = STATUS_GRANTED \<and> convertMode r = MODE_NONE \<or>
      status r = STATUS_CONVERTING \<and> isModeCovered (mode r) (convertMode r) \<and>
      \<not> isModeCovered (convertMode r) (mode r))"

definition waiting_ok :: "LockRequest \<Rightarrow> bool" where
  "waiting_ok r \<longleftrightarrow> mode r \<noteq> MODE_NONE \<and> partitionedLock r = None \<and>
     status r = STATUS_WAITING \<and> convertMode r = MODE_NONE"

definition converting :: "requests \<Rightarrow> rid \<Rightarrow> bool" where
  "converting rq x \<longleftrightarrow> status (rq x) = STATUS_CONVERTING"

definition head_ok :: "requests \<Rightarrow> LockHead \<Rightarrow> bool" where
  "head_ok rq h \<longleftrightarrow>
     distinct (grantedList h @ conflictList h) \<and>
     (\<forall>x \<in> set (grantedList h). granted_ok (rq x) \<and> lock_ptr (rq x) = Some (this h)) \<and>
     (\<forall>x \<in> set (conflictList h). waiting_ok (rq x) \<and> lock_ptr (rq x) = Some (this h)) \<and>
     grants h (heldModes rq (grantedList h)) \<and>
     waits h (waitModes rq (conflictList h)) \<and>
     conversionsCount h = length (filter (converting rq) (grantedList h)) \<and>
     compatibleFirstCount h = length (filter (\<lambda>x. compatibleFirst (rq x)) (grantedList h)) \<and>
     (\<forall>x \<in> set (grantedList h). \<forall>y \<in> set (grantedList h). x \<noteq> y \<longrightarrow>
        \<not> mode_conflict (mode (rq x)) (mode (rq y)))"

definition blocked :: "requests \<Rightarrow> rid list \<Rightarrow> rid \<Rightarrow> bool" where
  "blocked rq gl x \<longleftrightarrow>
     (\<exists>y \<in> set gl. y \<noteq> x \<and> (\<exists>k \<in># holds (rq y). mode_conflict (convertMode (rq x)) k))"

definition front_blocked :: "requests \<Rightarrow> LockHead \<Rightarrow> bool" where
  "front_blocked rq h \<longleftrightarrow> (conflictList h \<noteq> [] \<longrightarrow>
     conflicts (mode (rq (hd (conflictList h)))) (grantedModes h) \<or>
     enqueueAtFront (rq (hd (conflictList h))))"

definition head_inv :: "requests \<Rightarrow> LockHead \<Rightarrow> bool" where
  "head_inv rq h \<longleftrightarrow>
     head_ok rq h \<and>
     (\<forall>x \<in> set (grantedList h). converting rq x \<longrightarrow> blocked rq (grantedList h) x) \<and>
     (conflictList h \<noteq> [] \<longrightarrow> grantedList h \<noteq> []) \<and>
     front_blocked rq h"

lemma granted_ok_converting:
  "granted_ok r \<Longrightarrow> status r = STATUS_CONVERTING \<Longrightarrow>
     isModeCovered (mode r) (convertMode r) \<and> mode r \<noteq> convertMode r \<and> convertMode r \<noteq> MODE_NONE"
  by (auto simp: granted_ok_def)

text \<open>Only status, mode and convertMode of a request change while the head is rescanned.\<close>

definition same_static :: "LockRequest \<Rightarrow> LockRequest \<Rightarrow> bool" where
  "same_static r r' \<longleftrightarrow>
     r' = r\<lparr>status := status r', mode := mode r', convertMode := convertMode r'\<rparr>"

lemma same_static_refl [simp]: "same_static r r"
  by (simp add: same_static_def)

lemma same_static_trans: "same_static a b \<Longrightarrow> same_static b c \<Longrightarrow> same_static a c"
  by (cases a; cases b; cases c) (simp add: same_static_def)

lemma same_static_fields:
  assumes "same_static r r'"
  shows "locker r' = locker r" "enqueueAtFront r' = enqueueAtFront r"
    "compatibleFirst r' = compatibleFirst r" "partitioned r' = partitioned r"
    "recursiveCount r' = recursiveCount r" "lock_ptr r' = lock_ptr r"
    "partitionedLock r' = partitionedLock r" "unlockPending r' = unlockPending r"
  using assms by (cases r; cases r'; simp add: same_static_def)+

subsection \<open>Granting one conversion\<close>

definition grant_conversion :: "LockRequest \<Rightarrow> LockRequest" where
  "grant_conversion r =
     r\<lparr>status := STATUS_GRANTED, mode := convertMode r, convertMode := MODE_NONE\<rparr>"

lemma count_holds_converting:
  "status r = STATUS_CONVERTING \<Longrightarrow> (\<lambda>i. requestHolds r i + requestWaits r i) = count (holds r)"
  by (auto simp: requestHolds_def requestWaits_def holds_def)

lemma holds_grant_conversion:
  "status r = STATUS_CONVERTING \<Longrightarrow> holds r = add_mset (mode r) (holds (grant_conversion r))"
  by (simp add: holds_def grant_conversion_def)

lemma same_static_grant_conversion: "same_static r (grant_conversion r)"
  by (simp add: same_static_def grant_conversion_def)

lemma blocked_grant_other:
  assumes "blocked rq gl x" and "x \<noteq> y" and "status (rq y) = STATUS_CONVERTING"
    and "isModeCovered (mode (rq y)) (convertMode (rq y))"
  shows "blocked (rq(y := grant_conversion (rq y))) gl x"
proof -
  from assms(1) obtain z k where z: "z \<in> set gl" "z \<noteq> x" "k \<in># holds (rq z)"
    "mode_conflict (convertMode (rq x)) k"
    by (auto simp: blocked_def)
  have "\<exists>k \<in># holds ((rq(y := grant_conversion (rq y))) z). mode_conflict (convertMode (rq x)) k"
  proof (cases "z = y")
    case True
    with z assms(3,4) show ?thesis
      by (auto simp: holds_def grant_conversion_def intro: covered_conflict)
  next
    case False
    with z show ?thesis by auto
  qed
  with z(1,2) assms(2) show ?thesis
    unfolding blocked_def by (intro bexI [of _ z]) simp_all
qed

lemma grant_conversion_head_ok:
  assumes ok: "head_ok rq h" and x: "x \<in> set (grantedList h)"
    and conv: "status (rq x) = STATUS_CONVERTING"
    and free: "\<not> (\<exists>k \<in># heldModes rq (remove1 x (grantedList h)). mode_conflict (convertMode (rq x)) k)"
  defines "rq' \<equiv> rq(x := grant_conversion (rq x))"
  defines "h' \<equiv> set_grants (heldModes rq' (grantedList h))
                  (h\<lparr>conversionsCount := conversionsCount h - 1\<rparr>)"
  shows "head_ok rq' h'"
proof -
  let ?gl = "grantedList h"
  have dist: "distinct ?gl" "x \<notin> set (conflictList h)"
    using ok x by (auto simp: head_ok_def)
  have gx: "granted_ok (rq x)" using ok x by (simp add: head_ok_def)
  have "conversionsCount h - 1 = length (filter (converting rq') ?gl)"
  proof -
    have "length (filter (converting rq) ?gl) = length (filter (converting rq) (remove1 x ?gl)) + 1"
      using filter_remove1_length [OF x, of "converting rq"] conv by (simp add: converting_def)
    moreover have "length (filter (converting rq') ?gl) = length (filter (converting rq') (remove1 x ?gl))"
      using filter_remove1_length [OF x, of "converting rq'"]
      by (simp add: converting_def rq'_def grant_conversion_def)
    moreover have "length (filter (converting rq') (remove1 x ?gl)) =
        length (filter (converting rq) (remove1 x ?gl))"
      using dist by (intro filter_cong_length) (auto simp: converting_def rq'_def)
    ultimately show ?thesis using ok by (simp add: head_ok_def)
  qed
  moreover have "length (filter (\<lambda>x. compatibleFirst (rq' x)) ?gl) =
      length (filter (\<lambda>x. compatibleFirst (rq x)) ?gl)"
    by (intro filter_cong_length) (simp add: rq'_def grant_conversion_def)
  moreover have "\<forall>y \<in> set ?gl. y \<noteq> x \<longrightarrow> \<not> mode_conflict (convertMode (rq x)) (mode (rq y))"
  proof (intro ballI impI notI)
    fix y
    assume y: "y \<in> set ?gl" "y \<noteq> x" "mode_conflict (convertMode (rq x)) (mode (rq y))"
    with dist have "mode (rq y) \<in># heldModes rq (remove1 x ?gl)"
      by (auto simp: in_heldModes intro!: bexI [of _ y])
    with y free show False by blast
  qed
  ultimately show ?thesis
    using ok x dist gx granted_ok_converting [OF gx conv] conv
    unfolding head_ok_def h'_def rq'_def
    by (auto simp: granted_ok_def grant_conversion_def mode_conflict_sym)
qed

end
