(* ===== verification/Lock_Head_Rescan.thy ===== *)
theory Lock_Head_Rescan
  imports Lock_Head_Invariant
begin

text \<open>
  Correctness of LockManager::\_onLockModeChanged: starting from a consistent head it never
  fails one of its internal checks, re-establishes the full head invariant, and notifies
  exactly the requests whose status it turns to granted.
\<close>

subsection \<open>First loop: conversions\<close>

definition conv_frame :: "requests \<Rightarrow> LockHead \<Rightarrow> requests \<Rightarrow> LockHead \<Rightarrow> bool" where
  "conv_frame rq h rq' h' \<longleftrightarrow>
     grantedList h' = grantedList h \<and> conflictList h' = conflictList h \<and>
     this h' = this h \<and> resourceId h' = resourceId h \<and> partitions h' = partitions h \<and>
     conflictCounts h' = conflictCounts h \<and> conflictModes h' = conflictModes h \<and>
     compatibleFirstCount h' = compatibleFirstCount h \<and>
     (\<forall>y. rq' y = rq y \<or>
        y \<in> set (grantedList h) \<and> converting rq y \<and> rq' y = grant_conversion (rq y)) \<and>
     (\<forall>m. conflicts m (grantedModes h) \<longrightarrow> conflicts m (grantedModes h'))"

lemma not_converting_grant [simp]: "\<not> converting rq y" if "rq y = grant_conversion r"
  using that by (simp add: converting_def grant_conversion_def)

lemma conv_frame_refl [simp]: "conv_frame rq h rq h"
  by (simp add: conv_frame_def)

lemma conv_frame_lists:
  assumes "conv_frame rq h rq' h'"
  shows "grantedList h' = grantedList h" "conflictList h' = conflictList h"
    "this h' = this h" "resourceId h' = resourceId h" "partitions h' = partitions h"
    "conflictCounts h' = conflictCounts h" "conflictModes h' = conflictModes h"
    "compatibleFirstCount h' = compatibleFirstCount h"
  using assms by (simp_all add: conv_frame_def)

lemma conv_frame_trans:
  assumes "conv_frame rq h rq1 h1" and "conv_frame rq1 h1 rq' h'"
  shows "conv_frame rq h rq' h'"
proof -
  have "rq' y = rq y \<or>
      y \<in> set (grantedList h) \<and> converting rq y \<and> rq' y = grant_conversion (rq y)" for y
    using assms conv_frame_lists(1) [OF assms(1)] not_converting_grant [of rq1 y "rq y"]
    unfolding conv_frame_def by (metis converting_def)
  then show ?thesis
    using assms unfolding conv_frame_def by simp
qed

lemma conv_frame_static: "conv_frame rq h rq' h' \<Longrightarrow> same_static (rq y) (rq' y)"
  using same_static_grant_conversion [of "rq y"] by (metis conv_frame_def same_static_refl)

lemma conv_frame_step:
  assumes ok: "head_ok rq h" and x: "x \<in> set (grantedList h)" and conv: "converting rq x"
  defines "rq' \<equiv> rq(x := grant_conversion (rq x))"
  shows "conv_frame rq h rq' (set_grants (heldModes rq' (grantedList h))
           (h\<lparr>conversionsCount := conversionsCount h - 1\<rparr>))"
proof -
  let ?O = "heldModes rq (remove1 x (grantedList h))"
  have dist: "distinct (grantedList h)" and gx: "granted_ok (rq x)"
    and gr: "grants h (heldModes rq (grantedList h))"
    using ok x by (auto simp: head_ok_def)
  have M: "heldModes rq (grantedList h) = holds (rq x) + ?O"
    using heldModes_remove1 [OF x] .
  have "heldModes rq' (remove1 x (grantedList h)) = ?O"
    using dist by (simp add: rq'_def)
  then have M': "heldModes rq' (grantedList h) = holds (grant_conversion (rq x)) + ?O"
    using heldModes_remove1 [OF x, of rq'] by (simp add: rq'_def)
  have cov: "isModeCovered (mode (rq x)) (convertMode (rq x))"
    using granted_ok_converting [OF gx] conv by (simp add: converting_def)
  have "conflicts m (modesMask (set_mset (heldModes rq' (grantedList h))))"
    if "conflicts m (grantedModes h)" for m
  proof -
    from that gr M obtain k where k: "k \<in># holds (rq x) + ?O" "mode_conflict m k"
      by (auto simp: conflicts_granted)
    then have "k \<in># heldModes rq' (grantedList h) \<or> k = mode (rq x)"
      using conv unfolding M' by (auto simp: holds_def grant_conversion_def converting_def)
    moreover have "convertMode (rq x) \<in># heldModes rq' (grantedList h)"
      unfolding M' by (simp add: holds_def grant_conversion_def)
    ultimately show ?thesis
      using k(2) covered_conflict [OF cov] by (auto simp: conflicts_modesMask)
  qed
  then show ?thesis
    using x conv unfolding conv_frame_def by (simp add: rq'_def)
qed

lemma dec_after_conversion:
  assumes ok: "head_ok rq h" and x: "x \<in> set (grantedList h)" and conv: "converting rq x"
  defines "rq' \<equiv> rq(x := grant_conversion (rq x))"
  shows "decGrantedModeCount (h\<lparr>conversionsCount := conversionsCount h - 1\<rparr>) (mode (rq x)) =
           Some (set_grants (heldModes rq' (grantedList h))
             (h\<lparr>conversionsCount := conversionsCount h - 1\<rparr>))"
proof (rule dec_granted)
  have dist: "distinct (grantedList h)" using ok by (simp add: head_ok_def)
  have "heldModes rq (grantedList h) = add_mset (mode (rq x)) (heldModes rq' (grantedList h))"
    using heldModes_remove1 [OF x, of rq] heldModes_remove1 [OF x, of rq'] dist conv
      holds_grant_conversion [of "rq x"]
    by (simp add: rq'_def converting_def)
  with ok show "grants (h\<lparr>conversionsCount := conversionsCount h - 1\<rparr>)
      (add_mset (mode (rq x)) (heldModes rq' (grantedList h)))"
    by (simp add: head_ok_def)
qed

lemma blocked_heldModes:
  assumes "distinct gl"
  shows "blocked rq gl x \<longleftrightarrow> (\<exists>k \<in># heldModes rq (remove1 x gl). mode_conflict (convertMode (rq x)) k)"
  unfolding Bex_def in_heldModes set_remove1_eq [OF assms] blocked_def by blast

lemma conversion_check:
  assumes ok: "head_ok rq h" and x: "x \<in> set (grantedList h)" and conv: "converting rq x"
  shows "conflicts (convertMode (rq x)) (grantedModesWithout (grantedCounts h)
            (\<lambda>i. requestHolds (rq x) i + requestWaits (rq x) i)) \<longleftrightarrow>
         blocked rq (grantedList h) x"
proof -
  have "grants h (holds (rq x) + heldModes rq (remove1 x (grantedList h)))"
    using ok heldModes_remove1 [OF x, of rq] by (simp add: head_ok_def)
  moreover have "(\<lambda>i. requestHolds (rq x) i + requestWaits (rq x) i) = count (holds (rq x))"
    using conv by (intro count_holds_converting) (simp add: converting_def)
  ultimately show ?thesis
    using ok by (simp add: conflicts_without blocked_heldModes head_ok_def)
qed

definition conv_post ::
  "rid set \<Rightarrow> requests \<Rightarrow> LockHead \<Rightarrow> rid list \<Rightarrow> requests \<Rightarrow> LockHead \<Rightarrow> bool" where
  "conv_post D rq h xs rq' h' \<longleftrightarrow>
     head_ok rq' h' \<and> conv_frame rq h rq' h' \<and>
     (\<forall>y. y \<notin> set xs \<longrightarrow> rq' y = rq y) \<and>
     (\<forall>x \<in> D \<union> set xs. converting rq' x \<longrightarrow> blocked rq' (grantedList h) x)"

lemma conv_post_cons:
  "conv_post (insert x D) rq h xs rq' h' \<Longrightarrow> conv_post D rq h (x # xs) rq' h'"
  by (auto simp: conv_post_def)

lemma grantConversions_run:
  assumes "head_ok rq h" and "set xs \<subseteq> set (grantedList h)" and "distinct xs"
    and "\<forall>x \<in> D. converting rq x \<longrightarrow> blocked rq (grantedList h) x"
  shows "\<exists>rq' h'. grantConversions (rq, h, ns) xs =
           Some (rq', h', ns @ map (\<lambda>x. (x, resourceId h, LOCK_OK))
                             (filter (\<lambda>x. converting rq x \<and> \<not> converting rq' x) xs)) \<and>
           conv_post D rq h xs rq' h'"
  using assms
proof (induction xs arbitrary: rq h ns D)
  case Nil
  then show ?case by (simp add: conv_post_def)
next
  case (Cons x xs)
  note ok = Cons.prems(1)
  have x: "x \<in> set (grantedList h)" and xs: "set xs \<subseteq> set (grantedList h)" "distinct xs" "x \<notin> set xs"
    using Cons.prems by auto
  show ?case
  proof (cases "conversionsCount h > 0")
    case False
    then have "\<forall>y \<in> set (grantedList h). \<not> converting rq y"
      using ok by (simp add: head_ok_def filter_empty_conv)
    with False Cons.prems show ?thesis
      by (auto simp: conv_post_def filter_empty_conv)
  next
    case count: True
    show ?thesis
    proof (cases "converting rq x")
      case False
      then have "\<forall>y \<in> insert x D. converting rq y \<longrightarrow> blocked rq (grantedList h) y"
        using Cons.prems(4) by auto
      from Cons.IH [OF ok xs(1,2) this, of ns] obtain rq' h' where
        "grantConversions (rq, h, ns) xs = Some (rq', h', ns @ map (\<lambda>x. (x, resourceId h, LOCK_OK))
            (filter (\<lambda>x. converting rq x \<and> \<not> converting rq' x) xs))"
        and "conv_post (insert x D) rq h xs rq' h'"
        by blast
      with False count show ?thesis
        by (auto simp: converting_def dest: conv_post_cons)
    next
      case conv: True
      have gx: "granted_ok (rq x)" using ok x by (simp add: head_ok_def)
      note cv = granted_ok_converting [OF gx conv [unfolded converting_def]]
      have checks: "convertMode (rq x) \<noteq> MODE_NONE"
        "list_all (\<lambda>i. requestHolds (rq x) i + requestWaits (rq x) i \<le> 1)
           [MODE_IS, MODE_IX, MODE_S, MODE_X]"
        using cv by (auto simp: requestHolds_def requestWaits_def)
      show ?thesis
      proof (cases "blocked rq (grantedList h) x")
        case True
        then have "\<forall>y \<in> insert x D. converting rq y \<longrightarrow> blocked rq (grantedList h) y"
          using Cons.prems(4) by auto
        from Cons.IH [OF ok xs(1,2) this, of ns] obtain rq' h' where
          run: "grantConversions (rq, h, ns) xs =
             Some (rq', h', ns @ map (\<lambda>x. (x, resourceId h, LOCK_OK))
              (filter (\<lambda>x. converting rq x \<and> \<not> converting rq' x) xs))"
          and post: "conv_post (insert x D) rq h xs rq' h'"
          by blast
        moreover have "rq' x = rq x"
          using post xs(3) by (simp add: conv_post_def)
        ultimately show ?thesis
          using True conv count checks conversion_check [OF ok x conv]
          by (auto simp: converting_def Let_def dest: conv_post_cons)
      next
        case free: False
        define rq1 where "rq1 = rq(x := grant_conversion (rq x))"
        define h1 where "h1 = set_grants (heldModes rq1 (grantedList h))
                           (h\<lparr>conversionsCount := conversionsCount h - 1\<rparr>)"
        have ok1: "head_ok rq1 h1"
          unfolding rq1_def h1_def using ok x conv free
          by (intro grant_conversion_head_ok)
            (auto simp: converting_def blocked_heldModes head_ok_def)
        have fr: "conv_frame rq h rq1 h1"
          unfolding rq1_def h1_def using conv_frame_step [OF ok x conv] .
        have gl: "grantedList h1 = grantedList h" "resourceId h1 = resourceId h"
          by (simp_all add: h1_def)
        have "\<forall>y \<in> insert x D. converting rq1 y \<longrightarrow> blocked rq1 (grantedList h1) y"
        proof (intro ballI impI)
          fix y
          assume y: "y \<in> insert x D" "converting rq1 y"
          then have "y \<noteq> x" "converting rq y"
            by (auto simp: rq1_def converting_def grant_conversion_def split: if_splits)
          with y Cons.prems(4) cv conv show "blocked rq1 (grantedList h1) y"
            unfolding gl rq1_def by (intro blocked_grant_other) (auto simp: converting_def)
        qed
        from Cons.IH [OF ok1 _ xs(2) this, of "ns @ [(x, resourceId h, LOCK_OK)]"] xs(1) gl
        obtain rq' h' where
          run: "grantConversions (rq1, h1, ns @ [(x, resourceId h, LOCK_OK)]) xs =
             Some (rq', h', (ns @ [(x, resourceId h, LOCK_OK)]) @
               map (\<lambda>x. (x, resourceId h, LOCK_OK))
                 (filter (\<lambda>x. converting rq1 x \<and> \<not> converting rq' x) xs))"
          and post: "conv_post (insert x D) rq1 h1 xs rq' h'"
          by auto
        have rqx: "rq' x = grant_conversion (rq x)"
          using post xs(3) by (simp add: conv_post_def rq1_def)
        have "filter (\<lambda>x. converting rq1 x \<and> \<not> converting rq' x) xs =
            filter (\<lambda>x. converting rq x \<and> \<not> converting rq' x) xs"
          using xs(3) by (intro filter_cong) (auto simp: rq1_def converting_def)
        moreover have "conv_post D rq h (x # xs) rq' h'"
          using post fr gl xs(3) unfolding conv_post_def
          by (auto simp: rq1_def intro: conv_frame_trans)
        moreover have "grantConversions (rq, h, ns) (x # xs) =
            grantConversions (rq1, h1, ns @ [(x, resourceId h, LOCK_OK)]) xs"
          using conv count checks free conversion_check [OF ok x conv]
            dec_after_conversion [OF ok x conv]
          by (simp add: converting_def Let_def rq1_def h1_def grant_conversion_def)
        ultimately show ?thesis
          using run conv rqx by (intro exI [of _ rq'] exI [of _ h']) simp
      qed
    qed
  qed
qed

subsection \<open>Second loop: the conflict queue\<close>

definition grant_waiting :: "LockRequest \<Rightarrow> LockRequest" where
  "grant_waiting r = r\<lparr>status := STATUS_GRANTED\<rparr>"

definition head_grant :: "requests \<Rightarrow> LockHead \<Rightarrow> rid \<Rightarrow> LockHead" where
  "head_grant rq h x =
     (set_grants (add_mset (mode (rq x)) (heldModes rq (grantedList h)))
       ((set_waits (waitModes rq (remove1 x (conflictList h)))
          (h\<lparr>conflictList := remove1 x (conflictList h)\<rparr>))
        \<lparr>grantedList := grantedList h @ [x]\<rparr>))
     \<lparr>compatibleFirstCount := compatibleFirstCount h + (if compatibleFirst (rq x) then 1 else 0)\<rparr>"

lemma head_grant_sel [simp]:
  "grantedList (head_grant rq h x) = grantedList h @ [x]"
  "conflictList (head_grant rq h x) = remove1 x (conflictList h)"
  "this (head_grant rq h x) = this h" "resourceId (head_grant rq h x) = resourceId h"
  "partitions (head_grant rq h x) = partitions h"
  "conversionsCount (head_grant rq h x) = conversionsCount h"
  "compatibleFirstCount (head_grant rq h x) =
     compatibleFirstCount h + (if compatibleFirst (rq x) then 1 else 0)"
  "grantedModes (head_grant rq h x) =
     modesMask (insert (mode (rq x)) (set_mset (heldModes rq (grantedList h))))"
  by (simp_all add: head_grant_def)

lemma grant_waiting_holds [simp]: "holds (grant_waiting r) = {#mode r#}"
  by (simp add: holds_def grant_waiting_def)

lemma head_grant_ok:
  assumes ok: "head_ok rq h" and x: "x \<in> set (conflictList h)"
    and free: "\<not> conflicts (mode (rq x)) (grantedModes h)"
  shows "head_ok (rq(x := grant_waiting (rq x))) (head_grant rq h x)"
proof -
  let ?rq = "rq(x := grant_waiting (rq x))" and ?gl = "grantedList h" and ?cl = "conflictList h"
  have dist: "distinct ?gl" "distinct ?cl" "x \<notin> set ?gl" "set ?gl \<inter> set ?cl = {}"
    and wx: "waiting_ok (rq x)" and gr: "grants h (heldModes rq ?gl)"
    using ok x by (auto simp: head_ok_def)
  have nc: "\<not> mode_conflict (mode (rq x)) (mode (rq y))" if "y \<in> set ?gl" for y
  proof
    assume "mode_conflict (mode (rq x)) (mode (rq y))"
    moreover have "mode (rq y) \<in># heldModes rq ?gl"
      using that mode_in_holds unfolding in_heldModes by blast
    ultimately show False
      using free gr by (auto simp: conflicts_granted)
  qed
  have "grants (head_grant rq h x) (heldModes ?rq (?gl @ [x]))"
    using dist by (simp add: head_grant_def grants_def)
  moreover have "waits (head_grant rq h x) (waitModes ?rq (remove1 x ?cl))"
    using dist by (simp add: head_grant_def waits_def)
  moreover have "filter (converting ?rq) ?gl = filter (converting rq) ?gl"
    and "filter (\<lambda>y. compatibleFirst (?rq y)) ?gl = filter (\<lambda>y. compatibleFirst (rq y)) ?gl"
    using dist(3) by (intro filter_cong refl; force simp: converting_def)+
  then have "conversionsCount (head_grant rq h x) = length (filter (converting ?rq) (?gl @ [x]))"
    and "compatibleFirstCount (head_grant rq h x) =
           length (filter (\<lambda>y. compatibleFirst (?rq y)) (?gl @ [x]))"
    using ok by (simp_all add: head_ok_def converting_def grant_waiting_def)
  moreover have "\<forall>y \<in> set (?gl @ [x]). granted_ok (?rq y) \<and> lock_ptr (?rq y) = Some (this h)"
    using ok x wx dist(3) by (simp add: head_ok_def granted_ok_def waiting_ok_def grant_waiting_def)
  moreover have "\<forall>y \<in> set (remove1 x ?cl). waiting_ok (?rq y) \<and> lock_ptr (?rq y) = Some (this h)"
    using ok dist(2) by (simp add: head_ok_def)
  moreover have "\<forall>a \<in> set (?gl @ [x]). \<forall>b \<in> set (?gl @ [x]). a \<noteq> b \<longrightarrow>
      \<not> mode_conflict (mode (?rq a)) (mode (?rq b))"
  proof (intro ballI impI)
    fix a b
    assume ab: "a \<in> set (?gl @ [x])" "b \<in> set (?gl @ [x])" "a \<noteq> b"
    have m: "mode (?rq y) = mode (rq y)" for y by (simp add: grant_waiting_def)
    from ab consider "a \<in> set ?gl" "b \<in> set ?gl" | "a = x" "b \<in> set ?gl" | "a \<in> set ?gl" "b = x"
      by auto
    then show "\<not> mode_conflict (mode (?rq a)) (mode (?rq b))"
      unfolding m using ok ab(3) nc by cases (auto simp: head_ok_def mode_conflict_sym [of _ "mode (rq x)"])
  qed
  moreover have "distinct ((?gl @ [x]) @ remove1 x ?cl)"
    using dist by auto
  ultimately show ?thesis
    unfolding head_ok_def head_grant_sel by blast
qed

lemma grantConflicts_grant:
  assumes ok: "head_ok rq h" and x: "x \<in> set (conflictList h)"
    and free: "\<not> conflicts (mode (rq x)) (grantedModes h)"
  defines "rq1 \<equiv> rq(x := grant_waiting (rq x))"
  shows "grantConflicts (rq, h, ns) newly (x # rest) =
     (if mode (rq x) = MODE_X
      then Some (rq1, head_grant rq h x, ns @ [(x, resourceId h, LOCK_OK)])
      else grantConflicts (rq1, head_grant rq h x, ns @ [(x, resourceId h, LOCK_OK)])
             (newly \<or> compatibleFirst (rq x) \<and> compatibleFirstCount h = 0) rest)"
proof -
  have st: "status (rq x) = STATUS_WAITING" and gr: "grants h (heldModes rq (grantedList h))"
    and wt: "waits h (waitModes rq (conflictList h))"
    using ok x by (auto simp: head_ok_def waiting_ok_def)
  have dec: "decConflictModeCount (h\<lparr>conflictList := remove1 x (conflictList h)\<rparr>) (mode (rq x)) =
      Some (set_waits (waitModes rq (remove1 x (conflictList h)))
        (h\<lparr>conflictList := remove1 x (conflictList h)\<rparr>))"
    using wt waitModes_remove1 [OF x, of rq] by (intro dec_conflict) simp
  have inc: "incGrantedModeCount k (mode (rq x)) =
      Some (set_grants (add_mset (mode (rq x)) (heldModes rq (grantedList h))) k)"
    if "grantedCounts k = grantedCounts h" "grantedModes k = grantedModes h" for k
    using gr that by (intro inc_granted) (simp add: grants_def)
  show ?thesis
    using st free by (simp add: dec inc Let_def rq1_def grant_waiting_def head_grant_def)
qed

definition grant_all :: "rid set \<Rightarrow> requests \<Rightarrow> requests" where
  "grant_all G rq = (\<lambda>y. if y \<in> G then grant_waiting (rq y) else rq y)"

lemma grant_all_empty [simp]: "grant_all {} rq = rq"
  by (simp add: grant_all_def)

lemma grant_all_insert:
  "x \<notin> G \<Longrightarrow> grant_all G (rq(x := grant_waiting (rq x))) = grant_all (insert x G) rq"
  by (auto simp: grant_all_def)

definition conflict_post ::
  "requests \<Rightarrow> LockHead \<Rightarrow> bool \<Rightarrow> rid list \<Rightarrow> rid list \<Rightarrow> LockHead \<Rightarrow> bool" where
  "conflict_post rq h newly xs gs h' \<longleftrightarrow>
     head_ok (grant_all (set gs) rq) h' \<and>
     grantedList h' = grantedList h @ gs \<and>
     conflictList h' = filter (\<lambda>x. x \<notin> set gs) (conflictList h) \<and>
     this h' = this h \<and> resourceId h' = resourceId h \<and> partitions h' = partitions h \<and>
     set gs \<subseteq> set xs \<and>
     (\<forall>m. conflicts m (grantedModes h) \<longrightarrow> conflicts m (grantedModes h')) \<and>
     (conflictList h' \<noteq> [] \<longrightarrow>
        conflicts (mode (rq (hd (conflictList h')))) (grantedModes h')) \<and>
     (\<not> newly \<and> (\<forall>x \<in> set xs. \<not> compatibleFirst (rq x)) \<longrightarrow> (\<exists>zs. xs = gs @ zs))"

lemma remove1_filter_distinct: "distinct xs \<Longrightarrow> remove1 x xs = filter (\<lambda>y. y \<noteq> x) xs"
  by (auto simp: distinct_remove1_removeAll removeAll_filter_not_eq intro: filter_cong)

lemma head_grant_mono:
  "head_ok rq h \<Longrightarrow> conflicts m (grantedModes h) \<Longrightarrow> conflicts m (grantedModes (head_grant rq h x))"
  by (auto simp: head_ok_def grants_def conflicts_modesMask)

lemma grantConflicts_run:
  assumes "head_ok rq h" and "conflictList h = sk @ xs" and "sk \<noteq> [] \<longrightarrow> newly"
    and "sk \<noteq> [] \<longrightarrow> conflicts (mode (rq (hd sk))) (grantedModes h)"
  shows "\<exists>gs h'. grantConflicts (rq, h, ns) newly xs =
           Some (grant_all (set gs) rq, h', ns @ map (\<lambda>x. (x, resourceId h, LOCK_OK)) gs) \<and>
           conflict_post rq h newly xs gs h'"
  using assms
proof (induction xs arbitrary: rq h ns newly sk)
  case Nil
  then show ?case
    by (intro exI [of _ "[]"] exI [of _ h]) (simp add: conflict_post_def)
next
  case (Cons x xs)
  note ok = Cons.prems(1)
  have x: "x \<in> set (conflictList h)" using Cons.prems(2) by simp
  have dist: "distinct (conflictList h)" using ok by (simp add: head_ok_def)
  have st: "status (rq x) = STATUS_WAITING" using ok x by (auto simp: head_ok_def waiting_ok_def)
  show ?case
  proof (cases "conflicts (mode (rq x)) (grantedModes h)")
    case conf: True
    show ?thesis
    proof (cases newly)
      case False
      then have "sk = []" using Cons.prems(3) by simp
      with False conf st Cons.prems(1,2) show ?thesis
        by (intro exI [of _ "[]"] exI [of _ h]) (simp add: conflict_post_def)
    next
      case True
      have hd: "conflicts (mode (rq (hd (sk @ [x])))) (grantedModes h)"
        using Cons.prems(4) conf by (cases sk) auto
      obtain gs h' where "grantConflicts (rq, h, ns) newly xs =
          Some (grant_all (set gs) rq, h', ns @ map (\<lambda>x. (x, resourceId h, LOCK_OK)) gs)"
        and "conflict_post rq h newly xs gs h'"
        using Cons.IH [OF ok, of "sk @ [x]" newly ns] Cons.prems(2) hd True by auto
      with True conf st show ?thesis
        by (intro exI [of _ gs] exI [of _ h']) (auto simp: conflict_post_def)
    qed
  next
    case free: False
    define rq1 where "rq1 = rq(x := grant_waiting (rq x))"
    define h1 where "h1 = head_grant rq h x"
    define newly1 where "newly1 = (newly \<or> compatibleFirst (rq x) \<and> compatibleFirstCount h = 0)"
    define ns1 where "ns1 = ns @ [(x, resourceId h, LOCK_OK)]"
    have ok1: "head_ok rq1 h1"
      unfolding rq1_def h1_def using head_grant_ok [OF ok x free] .
    have xnot: "x \<notin> set sk" "x \<notin> set xs" using dist Cons.prems(2) by auto
    have cl1: "conflictList h1 = sk @ xs"
      using Cons.prems(2) xnot by (simp add: h1_def remove1_append)
    have modes: "mode (rq1 y) = mode (rq y)" "compatibleFirst (rq1 y) = compatibleFirst (rq y)" for y
      by (simp_all add: rq1_def grant_waiting_def)
    have step: "grantConflicts (rq, h, ns) newly (x # xs) =
        (if mode (rq x) = MODE_X then Some (rq1, h1, ns1) else grantConflicts (rq1, h1, ns1) newly1 xs)"
      unfolding rq1_def h1_def ns1_def newly1_def using grantConflicts_grant [OF ok x free] .
    have mono: "conflicts m (grantedModes h) \<Longrightarrow> conflicts m (grantedModes h1)" for m
      unfolding h1_def using head_grant_mono [OF ok] .
    have sel: "grantedList h1 = grantedList h @ [x]" "this h1 = this h"
      "resourceId h1 = resourceId h" "partitions h1 = partitions h"
      "conflictList h1 = filter (\<lambda>y. y \<noteq> x) (conflictList h)"
      by (simp_all add: h1_def remove1_filter_distinct [OF dist])
    show ?thesis
    proof (cases "mode (rq x) = MODE_X")
      case True
      have "conflicts (mode (rq (hd (conflictList h1)))) (grantedModes h1)" if "conflictList h1 \<noteq> []"
      proof -
        have "hd (conflictList h1) \<in> set (conflictList h)"
          using hd_in_set [OF that] sel(5) by auto
        then have "mode (rq (hd (conflictList h1))) \<noteq> MODE_NONE"
          using ok by (auto simp: head_ok_def waiting_ok_def)
        with True show ?thesis by (simp add: conflicts_modesMask h1_def)
      qed
      moreover have "grant_all (set [x]) rq = rq1" by (auto simp: grant_all_def rq1_def)
      ultimately have "grantConflicts (rq, h, ns) newly (x # xs) =
          Some (grant_all (set [x]) rq, h1, ns @ map (\<lambda>x. (x, resourceId h, LOCK_OK)) [x]) \<and>
          conflict_post rq h newly (x # xs) [x] h1"
        using ok1 mono step True unfolding conflict_post_def ns1_def by (simp add: sel)
      then show ?thesis by blast
    next
      case notX: False
      have "sk \<noteq> [] \<longrightarrow> newly1" "sk \<noteq> [] \<longrightarrow> conflicts (mode (rq1 (hd sk))) (grantedModes h1)"
        using Cons.prems(3,4) mono modes by (auto simp: newly1_def)
      from Cons.IH [OF ok1 cl1 this, of ns1] obtain gs h' where
        run: "grantConflicts (rq1, h1, ns1) newly1 xs =
          Some (grant_all (set gs) rq1, h', ns1 @ map (\<lambda>x. (x, resourceId h1, LOCK_OK)) gs)"
        and post: "conflict_post rq1 h1 newly1 xs gs h'"
        by blast
      have "x \<notin> set gs" using post xnot by (auto simp: conflict_post_def)
      then have ga: "grant_all (set gs) rq1 = grant_all (set (x # gs)) rq"
        unfolding rq1_def by (simp add: grant_all_insert)
      have cl2: "filter (\<lambda>y. y \<notin> set gs) (conflictList h1) =
          filter (\<lambda>y. y \<notin> set (x # gs)) (conflictList h)"
        unfolding sel by (simp add: conj_commute)
      note P = post [unfolded conflict_post_def ga modes cl2 sel(1-4)]
      have "\<forall>m. conflicts m (grantedModes h) \<longrightarrow> conflicts m (grantedModes h')"
        using P mono by blast
      moreover have "\<not> newly \<and> (\<forall>y \<in> set (x # xs). \<not> compatibleFirst (rq y)) \<longrightarrow>
          (\<exists>zs. x # xs = (x # gs) @ zs)"
      proof
        assume "\<not> newly \<and> (\<forall>y \<in> set (x # xs). \<not> compatibleFirst (rq y))"
        then have "\<not> newly1 \<and> (\<forall>y \<in> set xs. \<not> compatibleFirst (rq y))" by (simp add: newly1_def)
        with P obtain zs where "xs = gs @ zs" by blast
        then show "\<exists>zs. x # xs = (x # gs) @ zs" by simp
      qed
      moreover have "grantedList h' = grantedList h @ x # gs" "set (x # gs) \<subseteq> set (x # xs)"
        using P by auto
      ultimately have "conflict_post rq h newly (x # xs) (x # gs) h'"
        unfolding conflict_post_def using P by blast
      moreover have "grantConflicts (rq, h, ns) newly (x # xs) =
          Some (grant_all (set (x # gs)) rq, h', ns @ map (\<lambda>x. (x, resourceId h, LOCK_OK)) (x # gs))"
        using run step notX ga unfolding sel ns1_def by simp
      ultimately show ?thesis by blast
    qed
  qed
qed

subsection \<open>The whole rescan\<close>

definition rescan_frame ::
  "requests \<Rightarrow> LockHead \<Rightarrow> requests \<Rightarrow> LockHead \<Rightarrow> rid list \<Rightarrow> bool" where
  "rescan_frame rq h rq' h' news \<longleftrightarrow>
     this h' = this h \<and> resourceId h' = resourceId h \<and> partitions h' = partitions h \<and>
     (\<exists>gs. grantedList h' = grantedList h @ gs \<and>
        conflictList h' = filter (\<lambda>x. x \<notin> set gs) (conflictList h) \<and>
        set gs \<subseteq> set (conflictList h) \<and>
        ((\<forall>x \<in> set (conflictList h). \<not> compatibleFirst (rq x)) \<longrightarrow>
           (\<exists>zs. conflictList h = gs @ zs))) \<and>
     (\<forall>y. same_static (rq y) (rq' y)) \<and>
     (\<forall>y. rq' y = rq y \<or>
        y \<in> set (grantedList h) \<and> converting rq y \<and> rq' y = grant_conversion (rq y) \<or>
        y \<in> set (conflictList h) \<and> rq' y = grant_waiting (rq y)) \<and>
     (\<forall>y. y \<notin> set news \<longrightarrow> rq' y = rq y) \<and>
     distinct news \<and>
     set news = {y \<in> set (grantedList h) \<union> set (conflictList h).
                   status (rq y) \<noteq> STATUS_GRANTED \<and> status (rq' y) = STATUS_GRANTED}"

lemma same_static_grant_waiting: "same_static r (grant_waiting r)"
  by (simp add: same_static_def grant_waiting_def)

lemma rescan_frame_combine:
  assumes ok: "head_ok rq h"
    and conv: "conv_frame rq h rq1 h1"
    and conf: "grantedList h2 = grantedList h1 @ gs"
      "conflictList h2 = filter (\<lambda>x. x \<notin> set gs) (conflictList h1)"
      "this h2 = this h1" "resourceId h2 = resourceId h1" "partitions h2 = partitions h1"
    and gs: "set gs \<subseteq> set (conflictList h)" "distinct gs"
    and fifo: "(\<forall>x \<in> set (conflictList h). \<not> compatibleFirst (rq x)) \<longrightarrow>
      (\<exists>zs. conflictList h = gs @ zs)"
  shows "rescan_frame rq h (grant_all (set gs) rq1) h2
           (filter (\<lambda>x. converting rq x \<and> \<not> converting rq1 x) (grantedList h) @ gs)"
    (is "rescan_frame _ _ ?rq2 _ (?ns1 @ gs)")
proof -
  have dist: "distinct (grantedList h)" "set (grantedList h) \<inter> set (conflictList h) = {}"
    and wt: "\<forall>y \<in> set (conflictList h). status (rq y) = STATUS_WAITING"
    using ok by (auto simp: head_ok_def waiting_ok_def)
  have rq1: "rq1 y = rq y \<or>
      y \<in> set (grantedList h) \<and> converting rq y \<and> rq1 y = grant_conversion (rq y)" for y
    using conv by (simp add: conv_frame_def)
  have static: "same_static (rq y) (?rq2 y)" for y
    using conv_frame_static [OF conv, of y] same_static_grant_waiting [of "rq1 y"]
    by (auto simp: grant_all_def intro: same_static_trans)
  have ns1: "y \<in> set ?ns1 \<longleftrightarrow> rq1 y \<noteq> rq y" for y
  proof (cases "rq1 y = rq y")
    case True
    then have "converting rq1 y = converting rq y" by (simp add: converting_def)
    with True show ?thesis by simp
  next
    case False
    with rq1 [of y] have y: "y \<in> set (grantedList h)" "converting rq y"
      and "rq1 y = grant_conversion (rq y)" by blast+
    from this(3) have "\<not> converting rq1 y" by (rule not_converting_grant)
    with y False show ?thesis by simp
  qed
  have cl1: "rq1 y = rq y" if "y \<in> set (conflictList h)" for y
    using rq1 [of y] that dist(2) by auto
  have "y \<in> set (?ns1 @ gs) \<longleftrightarrow> y \<in> set (grantedList h) \<union> set (conflictList h) \<and>
      status (rq y) \<noteq> STATUS_GRANTED \<and> status (?rq2 y) = STATUS_GRANTED" for y
  proof (cases "y \<in> set gs")
    case True
    with gs(1) wt show ?thesis
      by (auto simp: grant_all_def grant_waiting_def)
  next
    case False
    then have "?rq2 y = rq1 y" by (simp add: grant_all_def)
    moreover have "y \<in> set (grantedList h) \<and>
        status (rq y) = STATUS_CONVERTING \<and> status (rq1 y) = STATUS_GRANTED" if "rq1 y \<noteq> rq y"
    proof -
      from that rq1 [of y] have y: "y \<in> set (grantedList h)" "converting rq y"
        and eq: "rq1 y = grant_conversion (rq y)" by blast+
      from eq have "status (rq1 y) = STATUS_GRANTED"
        by (simp only: grant_conversion_def) simp
      with y show ?thesis by (simp add: converting_def)
    qed
    moreover have "y \<in> set (?ns1 @ gs) \<longleftrightarrow> rq1 y \<noteq> rq y"
      using False ns1 [of y] by simp
    ultimately show ?thesis
      by (cases "rq1 y = rq y") simp_all
  qed
  then have "set (?ns1 @ gs) = {y \<in> set (grantedList h) \<union> set (conflictList h).
      status (rq y) \<noteq> STATUS_GRANTED \<and> status (?rq2 y) = STATUS_GRANTED}"
    by blast
  moreover have "distinct (?ns1 @ gs)"
    using dist gs by auto
  moreover have "?rq2 y = rq y" if "y \<notin> set (?ns1 @ gs)" for y
  proof -
    from that have "y \<notin> set gs" "y \<notin> set ?ns1" unfolding set_append by blast+
    with ns1 [of y] show ?thesis by (simp add: grant_all_def)
  qed
  moreover have "this h2 = this h" "resourceId h2 = resourceId h" "partitions h2 = partitions h"
    "grantedList h2 = grantedList h @ gs"
    "conflictList h2 = filter (\<lambda>x. x \<notin> set gs) (conflictList h)"
    using conf conv_frame_lists [OF conv] by simp_all
  moreover have "?rq2 y = rq y \<or>
      y \<in> set (grantedList h) \<and> converting rq y \<and> ?rq2 y = grant_conversion (rq y) \<or>
      y \<in> set (conflictList h) \<and> ?rq2 y = grant_waiting (rq y)" for y
    using rq1 [of y] cl1 [of y] gs(1) by (cases "y \<in> set gs") (auto simp: grant_all_def)
  ultimately show ?thesis
    unfolding rescan_frame_def using static gs(1) fifo by blast
qed

lemma masks_consistent:
  assumes "head_ok rq h"
  shows "(grantedModes h = 0) \<noteq> (grantedList h \<noteq> [])" "(conflictModes h = 0) \<noteq> (conflictList h \<noteq> [])"
  using assms by (auto simp: head_ok_def grants_def waits_def)

lemma onLockModeChanged_run:
  assumes ok: "head_ok rq h"
    and stay: "check \<or> (conflictList h \<noteq> [] \<longrightarrow> grantedList h \<noteq> []) \<and> front_blocked rq h"
  shows "\<exists>rq' h' news. onLockModeChanged (rq, h, ns) check =
           Some (rq', h', ns @ map (\<lambda>x. (x, resourceId h, LOCK_OK)) news) \<and>
           head_inv rq' h' \<and> rescan_frame rq h rq' h' news \<and>
           (check \<longrightarrow> conflictList h' \<noteq> [] \<longrightarrow>
              conflicts (mode (rq' (hd (conflictList h')))) (grantedModes h'))"
proof -
  let ?note = "\<lambda>x. (x, resourceId h, LOCK_OK)"
  have dist: "distinct (grantedList h)" using ok by (simp add: head_ok_def)
  obtain rq1 h1 where run1: "grantConversions (rq, h, ns) (grantedList h) = Some (rq1, h1,
        ns @ map ?note (filter (\<lambda>x. converting rq x \<and> \<not> converting rq1 x) (grantedList h)))"
      (is "_ = Some (_, _, ?ns1)")
    and post1: "conv_post {} rq h (grantedList h) rq1 h1"
    using grantConversions_run [OF ok subset_refl dist, of "{}" ns] by auto
  have ok1: "head_ok rq1 h1" and fr: "conv_frame rq h rq1 h1"
    and bl1: "\<forall>x \<in> set (grantedList h). converting rq1 x \<longrightarrow> blocked rq1 (grantedList h) x"
    using post1 by (auto simp: conv_post_def)
  note same = conv_frame_lists [OF fr]
  show ?thesis
  proof (cases check)
    case True
    obtain gs h2 where run2: "grantConflicts (rq1, h1, ?ns1) False (conflictList h1) =
        Some (grant_all (set gs) rq1, h2, ?ns1 @ map ?note gs)"
      and post2: "conflict_post rq1 h1 False (conflictList h1) gs h2"
      using grantConflicts_run [OF ok1, of "[]" "conflictList h1" False ?ns1] same by auto
    let ?rq2 = "grant_all (set gs) rq1"
    have ok2: "head_ok ?rq2 h2" and gl2: "grantedList h2 = grantedList h1 @ gs"
      and cl2: "conflictList h2 = filter (\<lambda>x. x \<notin> set gs) (conflictList h1)"
      and fb2: "conflictList h2 \<noteq> [] \<longrightarrow>
                  conflicts (mode (rq1 (hd (conflictList h2)))) (grantedModes h2)"
      and gs: "set gs \<subseteq> set (conflictList h1)"
      using post2 by (auto simp: conflict_post_def)
    have dist2: "distinct gs" "set (grantedList h) \<inter> set gs = {}"
      using ok2 gl2 same by (auto simp: head_ok_def)
    have m2: "mode (?rq2 y) = mode (rq1 y)" for y by (simp add: grant_all_def grant_waiting_def)
    have "\<forall>x \<in> set (grantedList h2). converting ?rq2 x \<longrightarrow> blocked ?rq2 (grantedList h2) x"
    proof (intro ballI impI)
      fix x
      assume x: "x \<in> set (grantedList h2)" "converting ?rq2 x"
      then have xn: "x \<notin> set gs" by (auto simp: converting_def grant_all_def grant_waiting_def)
      with x have "x \<in> set (grantedList h)" "converting rq1 x"
        using gl2 same by (auto simp: converting_def grant_all_def)
      with bl1 have "blocked rq1 (grantedList h) x" by blast
      then obtain z where z: "z \<in> set (grantedList h)" "z \<noteq> x"
        "\<exists>k \<in># holds (rq1 z). mode_conflict (convertMode (rq1 x)) k"
        by (auto simp: blocked_def)
      moreover have "?rq2 z = rq1 z" "?rq2 x = rq1 x"
        using z(1) dist2(2) xn by (auto simp: grant_all_def)
      ultimately show "blocked ?rq2 (grantedList h2) x"
        unfolding blocked_def using gl2 same by (intro bexI [of _ z]) auto
    qed
    moreover have fb: "front_blocked ?rq2 h2"
      using fb2 m2 by (simp add: front_blocked_def)
    moreover have "conflictList h2 \<noteq> [] \<longrightarrow> grantedList h2 \<noteq> []"
      using fb2 masks_consistent(1) [OF ok2] by (auto simp: conflicts_def)
    ultimately have "head_inv ?rq2 h2"
      using ok2 by (simp add: head_inv_def)
    moreover have "(\<forall>x \<in> set (conflictList h). \<not> compatibleFirst (rq x)) \<longrightarrow>
        (\<exists>zs. conflictList h = gs @ zs)"
      using post2 same same_static_fields(3) [OF conv_frame_static [OF fr]]
      by (simp add: conflict_post_def)
    then have "rescan_frame rq h ?rq2 h2
        (filter (\<lambda>x. converting rq x \<and> \<not> converting rq1 x) (grantedList h) @ gs)"
      using post2 gs dist2(1) same
      by (intro rescan_frame_combine [OF ok fr]) (simp_all add: conflict_post_def)
    moreover have "onLockModeChanged (rq, h, ns) check = Some (?rq2, h2, ns @ map ?note
        (filter (\<lambda>x. converting rq x \<and> \<not> converting rq1 x) (grantedList h) @ gs))"
      using run1 run2 True masks_consistent [OF ok2] by (simp add: onLockModeChanged_def)
    moreover have "conflictList h2 \<noteq> [] \<longrightarrow>
        conflicts (mode (?rq2 (hd (conflictList h2)))) (grantedModes h2)"
      using fb2 m2 by simp
    ultimately show ?thesis by blast
  next
    case False
    then have fb: "front_blocked rq h" and ne: "conflictList h \<noteq> [] \<longrightarrow> grantedList h \<noteq> []"
      using stay by auto
    have "front_blocked rq1 h1"
      unfolding front_blocked_def
    proof
      assume cl: "conflictList h1 \<noteq> []"
      then have "hd (conflictList h1) \<in> set (conflictList h)"
        using same hd_in_set by metis
      then have "rq1 (hd (conflictList h1)) = rq (hd (conflictList h))"
        using fr ok same by (auto simp: conv_frame_def head_ok_def)
      with fb cl fr same show "conflicts (mode (rq1 (hd (conflictList h1)))) (grantedModes h1) \<or>
          enqueueAtFront (rq1 (hd (conflictList h1)))"
        by (auto simp: front_blocked_def conv_frame_def)
    qed
    then have "head_inv rq1 h1"
      using ok1 bl1 ne same by (simp add: head_inv_def)
    moreover have "rescan_frame rq h rq1 h1
        (filter (\<lambda>x. converting rq x \<and> \<not> converting rq1 x) (grantedList h))"
      using rescan_frame_combine [OF ok fr, of h1 "[]"] by simp
    moreover have "onLockModeChanged (rq, h, ns) check = Some (rq1, h1, ?ns1)"
      using run1 False masks_consistent [OF ok1] by (simp add: onLockModeChanged_def)
    ultimately show ?thesis using False by blast
  qed
qed

end
