(* ===== verification/Lock_Head_Requests.thy ===== *)
theory Lock_Head_Requests
  imports Lock_Head_Rescan
begin

text \<open>
  LockHead::newRequest and the changes of one granted request keep the head invariant: the
  lemmas that the operations of LockManager are proved from.
\<close>

abbreviation queued :: "LockHead \<Rightarrow> rid set" where
  "queued h \<equiv> set (grantedList h) \<union> set (conflictList h)"

text \<open>The fields of a request that its lock head looks at.\<close>

definition same_view :: "LockRequest \<Rightarrow> LockRequest \<Rightarrow> bool" where
  "same_view r r' \<longleftrightarrow> mode r' = mode r \<and> convertMode r' = convertMode r \<and> status r' = status r \<and>
     partitionedLock r' = partitionedLock r \<and> lock_ptr r' = lock_ptr r \<and>
     compatibleFirst r' = compatibleFirst r \<and> enqueueAtFront r' = enqueueAtFront r"

lemma same_view_refl [simp]: "same_view r r"
  by (simp add: same_view_def)

lemma same_view_simps [simp]:
  "same_view r (r\<lparr>recursiveCount := n\<rparr>)" "same_view r (r\<lparr>partitioned := b\<rparr>)"
  by (simp_all add: same_view_def)

lemma same_view_ok:
  assumes "same_view r r'"
  shows "holds r' = holds r" "granted_ok r' = granted_ok r" "waiting_ok r' = waiting_ok r"
  using assms by (simp_all add: same_view_def holds_def granted_ok_def waiting_ok_def)

lemma head_ok_cong:
  assumes same: "\<And>x. x \<in> queued h \<Longrightarrow> same_view (rq x) (rq' x)"
  shows "head_ok rq' h = head_ok rq h"
proof -
  have "heldModes rq' (grantedList h) = heldModes rq (grantedList h)"
    using same by (intro heldModes_cong same_view_ok) simp
  moreover have "waitModes rq' (conflictList h) = waitModes rq (conflictList h)"
    using same by (intro waitModes_cong) (simp add: same_view_def)
  moreover have "filter (converting rq') (grantedList h) = filter (converting rq) (grantedList h)"
    using same by (intro filter_cong) (simp_all add: converting_def same_view_def)
  moreover have "filter (\<lambda>x. compatibleFirst (rq' x)) (grantedList h) =
      filter (\<lambda>x. compatibleFirst (rq x)) (grantedList h)"
    using same by (intro filter_cong) (simp_all add: same_view_def)
  moreover have "granted_ok (rq' x) = granted_ok (rq x)" "waiting_ok (rq' x) = waiting_ok (rq x)"
    "lock_ptr (rq' x) = lock_ptr (rq x)" "mode (rq' x) = mode (rq x)" if "x \<in> queued h" for x
    using same [OF that] same_view_ok [OF same [OF that]] by (simp_all add: same_view_def)
  ultimately show ?thesis by (simp add: head_ok_def)
qed

lemma blocked_cong:
  assumes same: "\<And>x. x \<in> set gl \<Longrightarrow> same_view (rq x) (rq' x)" and x: "x \<in> set gl"
  shows "blocked rq' gl x = blocked rq gl x"
  using same_view_ok(1) [OF same] same [OF x] by (simp add: blocked_def same_view_def)

lemma head_inv_cong:
  assumes same: "\<And>x. x \<in> queued h \<Longrightarrow> same_view (rq x) (rq' x)"
  shows "head_inv rq' h = head_inv rq h"
proof -
  have "front_blocked rq' h = front_blocked rq h"
    using same by (cases "conflictList h") (simp_all add: front_blocked_def same_view_def)
  moreover have "blocked rq' (grantedList h) x = blocked rq (grantedList h) x"
    "converting rq' x = converting rq x" if "x \<in> set (grantedList h)" for x
    using same that
    by (intro blocked_cong, simp_all) (simp add: converting_def same_view_def)
  ultimately show ?thesis
    using head_ok_cong [of h rq rq'] same by (simp add: head_inv_def)
qed

lemma head_inv_init [simp]: "head_inv rq (initNew_head ptr resId)"
  by (simp add: head_inv_def head_ok_def front_blocked_def initNew_head_def grants_def waits_def
      fun_eq_iff)

lemma head_inv_partitions [simp]: "head_inv rq (h\<lparr>partitions := ps\<rparr>) = head_inv rq h"
  by (simp add: head_inv_def head_ok_def front_blocked_def)

lemma blocked_mono: "blocked rq gl x \<Longrightarrow> set gl \<subseteq> set gl' \<Longrightarrow> blocked rq gl' x"
  by (auto simp: blocked_def)

lemma head_ok_compatible:
  assumes "head_ok rq h" and "x \<in> set (grantedList h)" and "y \<in> set (grantedList h)" and "x \<noteq> y"
  shows "\<not> mode_conflict (mode (rq x)) (mode (rq y))"
  using assms by (simp add: head_ok_def)

subsection \<open>LockHead::newRequest\<close>

definition attach :: "LockHead \<Rightarrow> Status \<Rightarrow> LockRequest \<Rightarrow> LockRequest" where
  "attach h s r = r\<lparr>lock_ptr := Some (this h), status := s\<rparr>"

definition may_queue :: "LockRequest \<Rightarrow> bool" where
  "may_queue r \<longleftrightarrow> mode r \<noteq> MODE_NONE \<and> partitionedLock r = None \<and> convertMode r = MODE_NONE"

lemma newRequest_granted:
  assumes inv: "head_inv rq h" and new: "r \<notin> queued h" "may_queue (rq r)"
    and free: "\<not> conflicts (mode (rq r)) (grantedModes h)"
      "compatibleFirstCount h = 0 \<longrightarrow> \<not> conflicts (mode (rq r)) (conflictModes h)"
  defines "rq' \<equiv> rq(r := attach h STATUS_GRANTED (rq r))"
  defines "h' \<equiv> h\<lparr>grantedList := grantedList h @ [r],
      grantedCounts := count (add_mset (mode (rq r)) (heldModes rq (grantedList h))),
      grantedModes := modesMask (set_mset (add_mset (mode (rq r)) (heldModes rq (grantedList h)))),
      compatibleFirstCount := compatibleFirstCount h + (if compatibleFirst (rq r) then 1 else 0)\<rparr>"
  shows "head_newRequest rq h r = Some (LOCK_OK, rq', h')" and "head_inv rq' h'"
proof -
  let ?M = "heldModes rq (grantedList h)"
  have ok: "head_ok rq h" using inv by (simp add: head_inv_def)
  have gr: "grants h ?M" using ok by (simp add: head_ok_def)
  have "grants (h\<lparr>grantedList := grantedList h @ [r]\<rparr>) ?M" using gr by simp
  note inc = inc_granted [OF this, of "mode (rq r)"]
  have nb: "(compatibleFirstCount h = 0 \<and> conflicts (mode (rq r)) (conflictModes h)) = False"
    using free(2) by blast
  have same: "h\<lparr>grantedList := a, grantedCounts := b, grantedModes := c,
      compatibleFirstCount := compatibleFirstCount h\<rparr> =
      h\<lparr>grantedList := a, grantedCounts := b, grantedModes := c\<rparr>" for a b c
    by (cases h) simp
  show "head_newRequest rq h r = Some (LOCK_OK, rq', h')"
    using new free(1) inc
    by (simp add: nb same head_newRequest_def Let_def may_queue_def attach_def rq'_def h'_def)
  have held: "heldModes rq' (grantedList h') = add_mset (mode (rq r)) ?M"
    using new by (simp add: rq'_def h'_def attach_def holds_def)
  have wait: "waitModes rq' (conflictList h') = waitModes rq (conflictList h)"
    using new by (simp add: rq'_def h'_def)
  have compat: "\<not> mode_conflict (mode (rq r)) (mode (rq y))" if "y \<in> set (grantedList h)" for y
  proof -
    from that have "mode (rq y) \<in># ?M" by (auto simp: in_heldModes intro: mode_in_holds)
    with free(1) conflicts_granted [OF gr] show ?thesis by blast
  qed
  have conv: "length (filter (converting rq') (grantedList h')) = conversionsCount h'"
  proof -
    have "length (filter (converting rq') (grantedList h)) = length (filter (converting rq) (grantedList h))"
      using new by (intro filter_cong_length) (auto simp: rq'_def converting_def)
    then show ?thesis using ok by (simp add: h'_def head_ok_def rq'_def converting_def attach_def)
  qed
  have cf: "length (filter (\<lambda>x. compatibleFirst (rq' x)) (grantedList h')) = compatibleFirstCount h'"
  proof -
    have "length (filter (\<lambda>x. compatibleFirst (rq' x)) (grantedList h)) =
        length (filter (\<lambda>x. compatibleFirst (rq x)) (grantedList h))"
      using new by (intro filter_cong_length) (auto simp: rq'_def)
    then show ?thesis using ok by (simp add: h'_def head_ok_def rq'_def attach_def)
  qed
  have gok: "\<forall>x \<in> set (grantedList h'). granted_ok (rq' x) \<and> lock_ptr (rq' x) = Some (this h')"
    using ok new by (auto simp: head_ok_def h'_def rq'_def attach_def granted_ok_def may_queue_def)
  have wok: "\<forall>x \<in> set (conflictList h'). waiting_ok (rq' x) \<and> lock_ptr (rq' x) = Some (this h')"
    using ok new by (auto simp: head_ok_def h'_def rq'_def)
  have pair: "\<forall>x \<in> set (grantedList h'). \<forall>y \<in> set (grantedList h'). x \<noteq> y \<longrightarrow>
      \<not> mode_conflict (mode (rq' x)) (mode (rq' y))"
    using head_ok_compatible [OF ok] compat new
    by (auto simp: h'_def rq'_def attach_def mode_conflict_sym)
  have "head_ok rq' h'"
    unfolding head_ok_def held wait conv cf
    using gok wok pair ok new by (simp add: head_ok_def h'_def grants_def waits_def)
  moreover have "\<forall>x \<in> set (grantedList h'). converting rq' x \<longrightarrow> blocked rq' (grantedList h') x"
  proof (intro ballI impI)
    fix x assume x: "x \<in> set (grantedList h')" "converting rq' x"
    then have xr: "x \<noteq> r" by (auto simp: converting_def rq'_def attach_def)
    with x have x': "x \<in> set (grantedList h)" "converting rq x"
      by (auto simp: h'_def rq'_def converting_def)
    then have "blocked rq (grantedList h) x" using inv by (simp add: head_inv_def)
    then have "blocked rq' (grantedList h) x"
      using x' new by (subst blocked_cong [of _ rq]) (auto simp: rq'_def)
    then show "blocked rq' (grantedList h') x" by (rule blocked_mono) (auto simp: h'_def)
  qed
  moreover have "front_blocked rq' h'"
  proof (cases "conflictList h")
    case Nil
    then show ?thesis by (simp add: front_blocked_def h'_def)
  next
    case (Cons w ws)
    then have "w \<noteq> r" using new by auto
    have "conflicts (mode (rq w)) (grantedModes h) \<longrightarrow> conflicts (mode (rq w)) (grantedModes h')"
      using conflicts_granted [OF gr] by (auto simp: h'_def conflicts_modesMask)
    then show ?thesis
      using inv Cons \<open>w \<noteq> r\<close> by (auto simp: head_inv_def front_blocked_def h'_def rq'_def)
  qed
  ultimately show "head_inv rq' h'" by (simp add: head_inv_def h'_def)
qed

lemma newRequest_waiting:
  assumes inv: "head_inv rq h" and new: "r \<notin> queued h" "may_queue (rq r)"
    and busy: "conflicts (mode (rq r)) (grantedModes h) \<or>
      compatibleFirstCount h = 0 \<and> conflicts (mode (rq r)) (conflictModes h)"
  defines "rq' \<equiv> rq(r := attach h STATUS_WAITING (rq r))"
  defines "h' \<equiv> h\<lparr>conflictList := (if enqueueAtFront (rq r) then r # conflictList h
                                    else conflictList h @ [r]),
      conflictCounts := count (add_mset (mode (rq r)) (waitModes rq (conflictList h))),
      conflictModes := modesMask (set_mset (add_mset (mode (rq r)) (waitModes rq (conflictList h))))\<rparr>"
  shows "head_newRequest rq h r = Some (LOCK_WAITING, rq', h')" and "head_inv rq' h'"
proof -
  let ?W = "waitModes rq (conflictList h)"
  have ok: "head_ok rq h" using inv by (simp add: head_inv_def)
  have wt: "waits h ?W" and gr: "grants h (heldModes rq (grantedList h))"
    using ok by (simp_all add: head_ok_def)
  have "waits (h\<lparr>conflictList := xs\<rparr>) ?W" for xs using wt by simp
  from inc_conflict [OF this] show "head_newRequest rq h r = Some (LOCK_WAITING, rq', h')"
    using new busy
    by (simp add: head_newRequest_def Let_def may_queue_def attach_def rq'_def h'_def)
  have wait: "waitModes rq' (conflictList h') = add_mset (mode (rq r)) ?W"
    using new by (simp add: rq'_def h'_def attach_def)
  have held: "heldModes rq' (grantedList h') = heldModes rq (grantedList h)"
    using new by (simp add: rq'_def h'_def)
  have conv: "length (filter (converting rq') (grantedList h')) = conversionsCount h'"
  proof -
    have "length (filter (converting rq') (grantedList h)) = length (filter (converting rq) (grantedList h))"
      using new by (intro filter_cong_length) (auto simp: rq'_def converting_def)
    then show ?thesis using ok by (simp add: h'_def head_ok_def)
  qed
  have cf: "length (filter (\<lambda>x. compatibleFirst (rq' x)) (grantedList h')) = compatibleFirstCount h'"
  proof -
    have "length (filter (\<lambda>x. compatibleFirst (rq' x)) (grantedList h)) =
        length (filter (\<lambda>x. compatibleFirst (rq x)) (grantedList h))"
      using new by (intro filter_cong_length) (auto simp: rq'_def)
    then show ?thesis using ok by (simp add: h'_def head_ok_def)
  qed
  have gok: "\<forall>x \<in> set (grantedList h'). granted_ok (rq' x) \<and> lock_ptr (rq' x) = Some (this h')"
    using ok new by (auto simp: head_ok_def h'_def rq'_def)
  have wok: "\<forall>x \<in> set (conflictList h'). waiting_ok (rq' x) \<and> lock_ptr (rq' x) = Some (this h')"
    using ok new
    by (auto simp: head_ok_def h'_def rq'_def attach_def waiting_ok_def may_queue_def)
  have pair: "\<forall>x \<in> set (grantedList h'). \<forall>y \<in> set (grantedList h'). x \<noteq> y \<longrightarrow>
      \<not> mode_conflict (mode (rq' x)) (mode (rq' y))"
    using head_ok_compatible [OF ok] new by (auto simp: h'_def rq'_def)
  have dist: "distinct (grantedList h' @ conflictList h')"
    using ok new by (auto simp: head_ok_def h'_def)
  have "head_ok rq' h'"
    unfolding head_ok_def held wait conv cf
    using gok wok pair dist ok by (simp add: head_ok_def h'_def grants_def waits_def)
  moreover have "\<forall>x \<in> set (grantedList h'). converting rq' x \<longrightarrow> blocked rq' (grantedList h') x"
  proof (intro ballI impI)
    fix x assume x: "x \<in> set (grantedList h')" "converting rq' x"
    then have x': "x \<in> set (grantedList h)" "converting rq x"
      using new by (auto simp: h'_def rq'_def converting_def split: if_splits)
    then have "blocked rq (grantedList h) x" using inv by (simp add: head_inv_def)
    then show "blocked rq' (grantedList h') x"
      using x' new by (subst blocked_cong [of _ rq]) (auto simp: rq'_def h'_def)
  qed
  moreover have "front_blocked rq' h'"
  proof (cases "conflictList h")
    case Nil
    then have "conflictModes h = 0" using wt by (simp add: waits_def)
    then have "conflicts (mode (rq r)) (grantedModes h)"
      using busy by (auto simp: conflicts_def)
    then show ?thesis using Nil by (simp add: front_blocked_def h'_def rq'_def attach_def)
  next
    case (Cons w ws)
    then have "w \<noteq> r" using new by auto
    then show ?thesis
      using inv Cons by (auto simp: head_inv_def front_blocked_def h'_def rq'_def attach_def)
  qed
  moreover have "grantedList h' \<noteq> []"
  proof -
    have "grantedModes h = 0 \<and> conflictModes h = 0" if "grantedList h = []"
      using that inv wt gr by (auto simp: head_inv_def grants_def waits_def)
    then show ?thesis using busy by (auto simp: h'_def conflicts_def)
  qed
  ultimately show "head_inv rq' h'" by (simp add: head_inv_def)
qed

subsection \<open>Leaving the queues\<close>

lemma length_filter_other:
  assumes "\<And>y. y \<noteq> x \<Longrightarrow> P y = Q y" and "x \<in> set xs" and "distinct xs"
  shows "length (filter P (remove1 x xs)) = length (filter Q xs) - (if Q x then 1 else 0)"
proof -
  have "length (filter P (remove1 x xs)) = length (filter Q (remove1 x xs))"
    using assms by (intro filter_cong_length) (auto simp: set_remove1_eq)
  then show ?thesis using filter_remove1_length [OF assms(2), of Q] by simp
qed

lemma remove_granted_ok:
  assumes inv: "head_ok rq h" and r: "r \<in> set (grantedList h)" "status (rq r) = STATUS_GRANTED"
  defines "M \<equiv> heldModes rq (remove1 r (grantedList h))"
  shows "head_ok rq (set_grants M (h\<lparr>grantedList := remove1 r (grantedList h),
           compatibleFirstCount := compatibleFirstCount h - (if compatibleFirst (rq r) then 1 else 0)\<rparr>))"
proof -
  have dist: "distinct (grantedList h)" using inv by (simp add: head_ok_def)
  have conv: "length (filter (converting rq) (remove1 r (grantedList h))) = conversionsCount h"
  proof -
    have "\<not> converting rq r" using r(2) by (simp add: converting_def)
    then show ?thesis
      using length_filter_other [of r "converting rq" "converting rq", OF _ r(1) dist] inv
      by (simp add: head_ok_def)
  qed
  have cf: "length (filter (\<lambda>x. compatibleFirst (rq x)) (remove1 r (grantedList h))) =
      compatibleFirstCount h - (if compatibleFirst (rq r) then 1 else 0)"
    using length_filter_other [of r "\<lambda>x. compatibleFirst (rq x)" "\<lambda>x. compatibleFirst (rq x)",
        OF _ r(1) dist] inv
    by (simp add: head_ok_def)
  have sub: "set (remove1 r (grantedList h)) \<subseteq> set (grantedList h)" by (rule set_remove1_subset)
  show ?thesis
    unfolding head_ok_def
    using inv sub dist conv cf by (auto simp: head_ok_def M_def subset_iff)
qed

lemma remove_waiting_ok:
  assumes inv: "head_ok rq h" and r: "r \<in> set (conflictList h)"
  defines "M \<equiv> waitModes rq (remove1 r (conflictList h))"
  shows "head_ok rq (set_waits M (h\<lparr>conflictList := remove1 r (conflictList h)\<rparr>))"
proof -
  have sub: "set (remove1 r (conflictList h)) \<subseteq> set (conflictList h)" by (rule set_remove1_subset)
  show ?thesis
    unfolding head_ok_def
    using inv sub by (auto simp: head_ok_def M_def subset_iff)
qed

subsection \<open>Changing the mode of a granted request\<close>

lemma grants_other:
  assumes "head_ok rq h" and "r \<in> set (grantedList h)"
  shows "grants h (holds (rq r) + heldModes rq (remove1 r (grantedList h)))"
  using assms heldModes_remove1 [OF assms(2), of rq] by (simp add: head_ok_def)

lemma heldModes_fun_upd:
  assumes "r \<in> set xs" and "distinct xs"
  shows "heldModes (rq(r := q)) xs = holds q + heldModes rq (remove1 r xs)"
  using heldModes_remove1 [OF assms(1), of "rq(r := q)"] assms(2) by simp

lemma change_granted_ok:
  assumes ok: "head_ok rq h" and r: "r \<in> set (grantedList h)"
    and q: "granted_ok q" "lock_ptr q = Some (this h)" "compatibleFirst q = compatibleFirst (rq r)"
    and compat: "\<And>y. y \<in> set (grantedList h) \<Longrightarrow> y \<noteq> r \<Longrightarrow> \<not> mode_conflict (mode q) (mode (rq y))"
    and n: "n = conversionsCount h - (if converting rq r then 1 else 0) +
                (if status q = STATUS_CONVERTING then 1 else 0)"
  shows "head_ok (rq(r := q)) (set_grants (holds q + heldModes rq (remove1 r (grantedList h)))
           (h\<lparr>conversionsCount := n\<rparr>))"
proof -
  let ?rq = "rq(r := q)"
  have dist: "distinct (grantedList h)" "r \<notin> set (conflictList h)"
    using ok r by (auto simp: head_ok_def)
  have "length (filter (converting ?rq) (grantedList h)) =
      length (filter (converting ?rq) (remove1 r (grantedList h))) +
      (if status q = STATUS_CONVERTING then 1 else 0)"
    using filter_remove1_length [OF r, of "converting ?rq"] by (simp add: converting_def)
  moreover have "length (filter (converting ?rq) (remove1 r (grantedList h))) =
      length (filter (converting rq) (grantedList h)) - (if converting rq r then 1 else 0)"
    by (rule length_filter_other [OF _ r dist(1)]) (simp add: converting_def)
  ultimately have conv: "n = length (filter (converting ?rq) (grantedList h))"
    using n ok by (simp add: head_ok_def)
  have cf: "length (filter (\<lambda>x. compatibleFirst (?rq x)) (grantedList h)) = compatibleFirstCount h"
    using ok q(3) filter_cong_length [of "grantedList h" "\<lambda>x. compatibleFirst (?rq x)" "\<lambda>x. compatibleFirst (rq x)"]
    by (simp add: head_ok_def)
  have pair: "\<forall>x \<in> set (grantedList h). \<forall>y \<in> set (grantedList h). x \<noteq> y \<longrightarrow>
      \<not> mode_conflict (mode (?rq x)) (mode (?rq y))"
    using head_ok_compatible [OF ok] compat by (auto simp: mode_conflict_sym)
  have gok: "\<forall>x \<in> set (grantedList h). granted_ok (?rq x) \<and> lock_ptr (?rq x) = Some (this h)"
    using ok q by (auto simp: head_ok_def)
  have wok: "\<forall>x \<in> set (conflictList h). waiting_ok (?rq x) \<and> lock_ptr (?rq x) = Some (this h)"
    using ok dist by (auto simp: head_ok_def)
  show ?thesis
    unfolding head_ok_def
    using ok dist conv cf pair gok wok r by (simp add: head_ok_def heldModes_fun_upd grants_def)
qed

text \<open>Releasing one of several holders of a mode changes nothing for the waiting requests.\<close>

lemma release_stays:
  assumes inv: "head_inv rq h" and r: "r \<in> set (grantedList h)" "status (rq r) = STATUS_GRANTED"
  defines "M \<equiv> heldModes rq (remove1 r (grantedList h))"
  assumes more: "mode (rq r) \<in># M"
  shows "remove1 r (grantedList h) \<noteq> []" and "modesMask (set_mset M) = grantedModes h"
proof -
  show "remove1 r (grantedList h) \<noteq> []" using more by (auto simp: M_def)
  have "grants h (add_mset (mode (rq r)) M)"
    using grants_other [of rq h r] inv r by (simp add: head_inv_def M_def holds_def)
  then show "modesMask (set_mset M) = grantedModes h"
    using more by (simp add: grants_def insert_absorb)
qed

lemma covered_mono_blocked:
  assumes bl: "blocked rq gl x" and "x \<noteq> r" and r: "\<And>k m. k \<in># holds (rq r) \<Longrightarrow> mode_conflict m k \<Longrightarrow>
      \<exists>k' \<in># holds q. mode_conflict m k'"
  shows "blocked (rq(r := q)) gl x"
proof -
  from bl obtain y k where y: "y \<in> set gl" "y \<noteq> x" "k \<in># holds (rq y)"
    "mode_conflict (convertMode (rq x)) k" by (auto simp: blocked_def)
  have "\<exists>k \<in># holds ((rq(r := q)) y). mode_conflict (convertMode (rq x)) k"
    using y r by (cases "y = r") auto
  with y assms(2) show ?thesis unfolding blocked_def by (intro bexI [of _ y]) auto
qed

lemma convert_now:
  assumes inv: "head_inv rq h" and r: "r \<in> set (grantedList h)" "status (rq r) = STATUS_GRANTED"
    and cov: "isModeCovered (mode (rq r)) newMode" and "newMode \<noteq> MODE_NONE"
    and free: "\<not> (\<exists>k \<in># heldModes rq (remove1 r (grantedList h)). mode_conflict newMode k)"
  shows "head_inv (rq(r := (rq r)\<lparr>mode := newMode\<rparr>))
           (set_grants (add_mset newMode (heldModes rq (remove1 r (grantedList h)))) h)"
    (is "head_inv ?rq ?h")
proof -
  let ?q = "(rq r)\<lparr>mode := newMode\<rparr>"
  have ok: "head_ok rq h" using inv by (simp add: head_inv_def)
  have gr: "granted_ok (rq r)" "lock_ptr (rq r) = Some (this h)" "distinct (grantedList h)"
      "r \<notin> set (conflictList h)"
    using ok r by (auto simp: head_ok_def)
  have hq: "holds ?q = {#newMode#}" "holds (rq r) = {#mode (rq r)#}"
    using r by (simp_all add: holds_def)
  have same: "h\<lparr>conversionsCount := conversionsCount h\<rparr> = h" by simp
  have "\<not> mode_conflict newMode (mode (rq y))" if "y \<in> set (grantedList h)" "y \<noteq> r" for y
  proof -
    from that gr have "mode (rq y) \<in># heldModes rq (remove1 r (grantedList h))"
      by (auto simp: in_heldModes intro!: bexI [of _ y])
    with free show ?thesis by blast
  qed
  then have "head_ok ?rq ?h"
    using change_granted_ok [OF ok r(1), of ?q "conversionsCount h"] gr r(2) assms(5)
    by (simp add: hq converting_def granted_ok_def)
  moreover have "\<forall>x \<in> set (grantedList ?h). converting ?rq x \<longrightarrow> blocked ?rq (grantedList ?h) x"
  proof (intro ballI impI)
    fix x assume x: "x \<in> set (grantedList ?h)" "converting ?rq x"
    then have "x \<noteq> r" using r(2) by (auto simp: converting_def)
    with x have "blocked rq (grantedList h) x" using inv by (simp add: head_inv_def converting_def)
    then show "blocked ?rq (grantedList ?h) x"
      using covered_mono_blocked [OF _ \<open>x \<noteq> r\<close>, of rq "grantedList h" ?q] cov
      by (auto simp: hq intro: covered_conflict)
  qed
  moreover have "front_blocked ?rq ?h"
  proof (cases "conflictList h")
    case (Cons w ws)
    then have "w \<noteq> r" using gr by auto
    have "conflicts (mode (rq w)) (grantedModes h) \<Longrightarrow> conflicts (mode (rq w)) (grantedModes ?h)"
      using conflicts_granted [OF grants_other [OF ok r(1)]] cov
      by (auto simp: hq conflicts_modesMask intro: covered_conflict)
    then show ?thesis
      using inv Cons \<open>w \<noteq> r\<close> by (auto simp: head_inv_def front_blocked_def)
  qed (simp add: front_blocked_def)
  ultimately show ?thesis using inv by (simp add: head_inv_def)
qed

lemma convert_later:
  assumes inv: "head_inv rq h" and r: "r \<in> set (grantedList h)" "status (rq r) = STATUS_GRANTED"
    and cov: "isModeCovered (mode (rq r)) newMode" "\<not> isModeCovered newMode (mode (rq r))"
    and busy: "\<exists>k \<in># heldModes rq (remove1 r (grantedList h)). mode_conflict newMode k"
  shows "head_inv (rq(r := (rq r)\<lparr>status := STATUS_CONVERTING, convertMode := newMode\<rparr>))
           (set_grants (add_mset newMode (heldModes rq (grantedList h)))
             (h\<lparr>conversionsCount := conversionsCount h + 1\<rparr>))"
    (is "head_inv ?rq ?h")
proof -
  let ?q = "(rq r)\<lparr>status := STATUS_CONVERTING, convertMode := newMode\<rparr>"
  have ok: "head_ok rq h" using inv by (simp add: head_inv_def)
  have gr: "granted_ok (rq r)" "lock_ptr (rq r) = Some (this h)" "distinct (grantedList h)"
      "r \<notin> set (conflictList h)"
    using ok r by (auto simp: head_ok_def)
  have hq: "holds ?q = add_mset newMode (holds (rq r))"
    using r by (simp add: holds_def)
  have M: "add_mset newMode (heldModes rq (grantedList h)) =
      holds ?q + heldModes rq (remove1 r (grantedList h))"
    using heldModes_remove1 [OF r(1), of rq] by (simp add: hq)
  have "\<not> mode_conflict (mode ?q) (mode (rq y))" if "y \<in> set (grantedList h)" "y \<noteq> r" for y
    using head_ok_compatible [OF ok r(1), of y] that by simp
  then have "head_ok ?rq ?h"
    unfolding M using gr r(2) cov
    by (intro change_granted_ok [OF ok r(1)]) (simp_all add: converting_def granted_ok_def)
  moreover have "\<forall>x \<in> set (grantedList ?h). converting ?rq x \<longrightarrow> blocked ?rq (grantedList ?h) x"
  proof (intro ballI impI)
    fix x assume x: "x \<in> set (grantedList ?h)" "converting ?rq x"
    show "blocked ?rq (grantedList ?h) x"
    proof (cases "x = r")
      case True
      from busy obtain y k where "y \<in> set (remove1 r (grantedList h))" "k \<in># holds (rq y)"
        "mode_conflict newMode k" by (auto simp: in_heldModes)
      then show ?thesis using True gr(3) unfolding blocked_def by (intro bexI [of _ y]) auto
    next
      case False
      with x have "blocked rq (grantedList h) x"
        using inv by (simp add: head_inv_def converting_def)
      then show ?thesis
        using covered_mono_blocked [OF _ False, of rq "grantedList h" ?q] by (auto simp: hq)
    qed
  qed
  moreover have "front_blocked ?rq ?h"
  proof (cases "conflictList h")
    case (Cons w ws)
    then have "w \<noteq> r" using gr by auto
    have "conflicts (mode (rq w)) (grantedModes h) \<Longrightarrow> conflicts (mode (rq w)) (grantedModes ?h)"
      using conflicts_granted [of h "heldModes rq (grantedList h)"] ok
      by (auto simp: head_ok_def conflicts_modesMask)
    then show ?thesis
      using inv Cons \<open>w \<noteq> r\<close> by (auto simp: head_inv_def front_blocked_def)
  qed (simp add: front_blocked_def)
  ultimately show ?thesis using inv by (simp add: head_inv_def)
qed

lemma cancel_conversion_ok:
  assumes ok: "head_ok rq h" and r: "r \<in> set (grantedList h)" "status (rq r) = STATUS_CONVERTING"
  shows "head_ok (rq(r := (rq r)\<lparr>status := STATUS_GRANTED, convertMode := MODE_NONE\<rparr>))
           (set_grants (add_mset (mode (rq r)) (heldModes rq (remove1 r (grantedList h))))
             (h\<lparr>conversionsCount := conversionsCount h - 1\<rparr>))"
proof -
  let ?q = "(rq r)\<lparr>status := STATUS_GRANTED, convertMode := MODE_NONE\<rparr>"
  have gr: "granted_ok (rq r)" "lock_ptr (rq r) = Some (this h)"
    using ok r by (auto simp: head_ok_def)
  have hq: "holds ?q = {#mode (rq r)#}" by (simp add: holds_def)
  have "\<not> mode_conflict (mode ?q) (mode (rq y))" if "y \<in> set (grantedList h)" "y \<noteq> r" for y
    using head_ok_compatible [OF ok r(1), of y] that by simp
  then show ?thesis
    using change_granted_ok [OF ok r(1), of ?q "conversionsCount h - 1"] gr r(2)
    by (simp add: hq converting_def granted_ok_def)
qed

lemma downgrade_ok:
  assumes ok: "head_ok rq h" and r: "r \<in> set (grantedList h)" "status (rq r) = STATUS_GRANTED"
    and cov: "isModeCovered newMode (mode (rq r))" and "newMode \<noteq> MODE_NONE"
  shows "head_ok (rq(r := (rq r)\<lparr>mode := newMode\<rparr>))
           (set_grants (add_mset newMode (heldModes rq (remove1 r (grantedList h)))) h)"
proof -
  let ?q = "(rq r)\<lparr>mode := newMode\<rparr>"
  have gr: "granted_ok (rq r)" "lock_ptr (rq r) = Some (this h)"
    using ok r by (auto simp: head_ok_def)
  have hq: "holds ?q = {#newMode#}" using r by (simp add: holds_def)
  have "\<not> mode_conflict (mode ?q) (mode (rq y))" if "y \<in> set (grantedList h)" "y \<noteq> r" for y
    using head_ok_compatible [OF ok r(1), of y] that cov
    by (auto simp: isModeCovered_iff)
  then show ?thesis
    using change_granted_ok [OF ok r(1), of ?q "conversionsCount h"] gr r(2) assms(5)
    by (simp add: hq converting_def granted_ok_def)
qed

end
