(* ===== verification/Lock_Data_Properties.thy ===== *)
theory Lock_Data_Properties
  imports Lock_Head_Requests
begin

text \<open>
  Properties of the data the lock manager is built from: lock modes, resource identifiers,
  the intrusive request queues, and the order in which a lock head grants its waiting requests.
\<close>

subsection \<open>Modes and resources\<close>

text \<open>
  C15: isModeCovered, computed on the bit masks of the conflict table, means that whatever conflicts
  with a mode also conflicts with the mode that covers it; and the conflict table is symmetric.
\<close>

theorem mode_cover_is_conflict_inclusion:
  "(isModeCovered md coveringMode \<longleftrightarrow>
      (\<forall>k. conflicts k (modeMask md) \<longrightarrow> conflicts k (modeMask coveringMode))) \<and>
   conflicts md (modeMask coveringMode) = conflicts coveringMode (modeMask md)"
proof -
  have "isModeCovered md coveringMode \<longleftrightarrow> (\<forall>k. mode_conflict k md \<longrightarrow> mode_conflict k coveringMode)"
    unfolding isModeCovered_iff using mode_conflict_sym by blast
  then show ?thesis using mode_conflict_sym [of md coveringMode] by (simp add: mode_conflict_def)
qed

theorem mode_cover_is_conflict_inclusion_witness:
  "conflicts MODE_S (modeMask MODE_IX) \<and> conflicts MODE_S (modeMask MODE_X)"
proof -
  have "isModeCovered MODE_IX MODE_X" and "conflicts MODE_S (modeMask MODE_IX)" by code_simp+
  then show ?thesis using mode_cover_is_conflict_inclusion [of MODE_IX MODE_X] by blast
qed

text \<open>
  C16: a resource id keeps the type it was built from and the low 61 bits of the hash, and the order
  of resource ids is the order of the types first, of the hashes second: the canonical locking order.
\<close>

theorem resource_id_roundtrip_and_order:
  "getType (mk_ResourceId t h) = Some t \<and> getHashId (mk_ResourceId t h) = take_bit 61 h \<and>
   (mk_ResourceId t h < mk_ResourceId t' h' \<longleftrightarrow>
      resource_type_index t < resource_type_index t' \<or> t = t' \<and> take_bit 61 h < take_bit 61 h')"
  by (simp add: mk_ResourceId_less)

subsection \<open>Request queues\<close>

text \<open>
  C13: any sequence of push\_front, push\_back and remove calls on the intrusive doubly linked
  queue, starting from an empty one and using each request as its owner may, ends with pointers that
  represent exactly the list that the same operations build on plain lists; the requests that are not
  queued have null links again.
\<close>

theorem request_queue_refines_list:
  assumes "list_rep hp l []" and "\<forall>r \<in> R. list_detached hp r" and "legal_ops [] fs"
    and "ptr.op_rid ` set fs \<subseteq> R"
  shows "\<exists>hp' l'. ptr.run_ops (hp, l) fs = Some (hp', l') \<and>
     list_rep hp' l' (fold (\<lambda>f xs. spec_op xs f) fs []) \<and>
     (\<forall>r \<in> R - set (fold (\<lambda>f xs. spec_op xs f) fs []). list_detached hp' r)"
proof -
  have "ptr.owns R hp l []" using assms(1,2) by (simp add: ptr.owns_def)
  from ptr.run_ops_refines [OF this assms(3,4)] show ?thesis by (simp add: ptr.owns_def) blast
qed

theorem request_queue_refines_list_witness:
  "\<exists>hp' l'. ptr.run_ops (\<lambda>_. \<lparr>prev_ptr = None, next_ptr = None\<rparr>, \<lparr>front_ptr = None, back_ptr = None\<rparr>)
      [PushBack 1, PushFront 2, PushBack 3, Remove 1] = Some (hp', l') \<and> list_rep hp' l' [2, 3]"
  using request_queue_refines_list [of "\<lambda>_. \<lparr>prev_ptr = None, next_ptr = None\<rparr>"
      "\<lparr>front_ptr = None, back_ptr = None\<rparr>" "{1, 2, 3}" "[PushBack 1, PushFront 2, PushBack 3, Remove 1]"]
  by (auto simp: list_rep_def list_detached_def)



subsection \<open>The order of granting\<close>


text \<open>
  The example of the comment in \_onLockModeChanged: an X lock was freed and the queue is
  IS, IS, X, X, S, IS.
\<close>

definition comment_requests :: requests where
  "comment_requests r = \<lparr>locker = of_nat r, enqueueAtFront = False, compatibleFirst = False,
     partitioned = False, recursiveCount = 1, lock_ptr = Some (ManagedHead resourceIdGlobal),
     partitionedLock = None, status = STATUS_WAITING,
     mode = (if r = 3 \<or> r = 4 then MODE_X else if r = 5 then MODE_S else MODE_IS),
     convertMode = MODE_NONE, unlockPending = 0\<rparr>"

definition comment_head :: LockHead where
  "comment_head = (initNew_head (ManagedHead resourceIdGlobal) resourceIdGlobal)
     \<lparr>conflictList := [1, 2, 3, 4, 5, 6],
      conflictCounts := (\<lambda>m. case m of MODE_IS \<Rightarrow> 3 | MODE_X \<Rightarrow> 2 | MODE_S \<Rightarrow> 1 | _ \<Rightarrow> 0),
      conflictModes := modeMask MODE_IS OR modeMask MODE_X OR modeMask MODE_S\<rparr>"

lemma comment_head_ok: "head_ok comment_requests comment_head"
proof -
  have "waits comment_head (waitModes comment_requests [1, 2, 3, 4, 5, 6])"
  proof -
    have "waitModes comment_requests [1, 2, 3, 4, 5, 6] = {#MODE_IS, MODE_IS, MODE_X, MODE_X, MODE_S, MODE_IS#}"
      by (simp add: comment_requests_def)
    moreover have "conflictCounts comment_head m = count {#MODE_IS, MODE_IS, MODE_X, MODE_X, MODE_S, MODE_IS#} m" for m
      by (cases m) (simp_all add: comment_head_def)
    moreover have "conflictModes comment_head = modesMask {MODE_IS, MODE_X, MODE_S}"
      by (simp add: comment_head_def modesMask_def)
    ultimately show ?thesis by (simp add: waits_def fun_eq_iff insert_commute)
  qed
  then show ?thesis
    by (simp add: head_ok_def comment_head_def initNew_head_def grants_def waiting_ok_def fun_eq_iff)
      (simp add: comment_requests_def)
qed


text \<open>
  The comment says that the loop grants all IS and S requests of that queue. It grants the first
  two IS requests only: the loop breaks at the X request at the front.
\<close>

theorem comment_queue_only_prefix_granted:
  "map_option (\<lambda>(rq, h, ns). (grantedList h, conflictList h))
     (onLockModeChanged (comment_requests, comment_head, []) True) = Some ([1, 2], [3, 4, 5, 6])"
  by code_simp

end
