(* ===== verification/Lock_Manager.thy ===== *)
theory Lock_Manager
  imports Lock_Head_Requests
begin

text \<open>
  The lock manager: class LockManager of db/concurrency/lock_manager.h and lock_manager.cpp.
  The state holds the request objects, the hash buckets with one lock head per resource, the
  partitions with their partitioned lock heads, the heads of temporary resource queues, and
  the notifications delivered so far. Every operation runs to completion here, with the
  bucket and partition mutexes held as in the code; theory \<open>Lock_Manager_Race\<close> splits unlock at
  the point where it runs without a mutex.
\<close>

record PartitionedLockHead =
  partGrantedList :: "rid list"

record LockManager =
  reqs :: requests
  lockBuckets :: "nat \<Rightarrow> (ResourceId \<times> LockHead) list"
  lm_partitions :: "nat \<Rightarrow> (ResourceId \<times> PartitionedLockHead) list"
  tempQueues :: "(ResourceId \<times> LockHead) list"
  notified :: "notification list"

definition numLockBuckets :: u64 where
  "numLockBuckets = 128"

definition numPartitions :: u64 where
  "numPartitions = 32"

definition lm_init :: "requests \<Rightarrow> LockManager" where
  "lm_init rq = \<lparr>reqs = rq, lockBuckets = (\<lambda>_. []), lm_partitions = (\<lambda>_. []),
     tempQueues = [], notified = []\<rparr>"

definition getBucket :: "ResourceId \<Rightarrow> nat" where
  "getBucket resId = unat (full_hash resId mod numLockBuckets)"

definition getPartition :: "LockRequest \<Rightarrow> nat" where
  "getPartition r = unat (locker r mod numPartitions)"

text \<open>Following and writing through a \<open>LockHead*\<close>.\<close>

fun deref :: "LockManager \<Rightarrow> LockHeadPtr \<Rightarrow> LockHead option" where
  "deref m (ManagedHead res) = map_of (lockBuckets m (getBucket res)) res"
| "deref m (TemporaryHead res) = map_of (tempQueues m) res"

fun put_head_at :: "LockManager \<Rightarrow> LockHeadPtr \<Rightarrow> LockHead \<Rightarrow> LockManager" where
  "put_head_at m (ManagedHead res) h =
     m\<lparr>lockBuckets := (lockBuckets m)(getBucket res :=
         AList.update res h (lockBuckets m (getBucket res)))\<rparr>"
| "put_head_at m (TemporaryHead res) h = m\<lparr>tempQueues := AList.update res h (tempQueues m)\<rparr>"

definition put_head :: "LockManager \<Rightarrow> LockHead \<Rightarrow> LockManager" where
  "put_head m h = put_head_at m (this h) h"

definition upd_req :: "LockManager \<Rightarrow> rid \<Rightarrow> (LockRequest \<Rightarrow> LockRequest) \<Rightarrow> LockManager" where
  "upd_req m r f = m\<lparr>reqs := (reqs m)(r := f (reqs m r))\<rparr>"

subsection \<open>Buckets and partitions\<close>

definition bucket_findOrInsert :: "LockManager \<Rightarrow> ResourceId \<Rightarrow> LockManager" where
  "bucket_findOrInsert m resId =
     (case map_of (lockBuckets m (getBucket resId)) resId of
        Some _ \<Rightarrow> m
      | None \<Rightarrow> put_head m (initNew_head (ManagedHead resId) resId))"

definition partition_find :: "LockManager \<Rightarrow> nat \<Rightarrow> ResourceId \<Rightarrow> PartitionedLockHead option" where
  "partition_find m p resId = map_of (lm_partitions m p) resId"

definition put_partition ::
  "LockManager \<Rightarrow> nat \<Rightarrow> ResourceId \<Rightarrow> PartitionedLockHead \<Rightarrow> LockManager" where
  "put_partition m p resId pl =
     m\<lparr>lm_partitions := (lm_partitions m)(p := AList.update resId pl (lm_partitions m p))\<rparr>"

definition partition_findOrInsert :: "LockManager \<Rightarrow> nat \<Rightarrow> ResourceId \<Rightarrow> LockManager" where
  "partition_findOrInsert m p resId =
     (case partition_find m p resId of
        Some _ \<Rightarrow> m
      | None \<Rightarrow> put_partition m p resId \<lparr>partGrantedList = []\<rparr>)"

text \<open>PartitionedLockHead::newRequest, on the entry of a resource in a partition.\<close>

definition partitioned_newRequest ::
  "LockManager \<Rightarrow> nat \<Rightarrow> ResourceId \<Rightarrow> rid \<Rightarrow> LockManager option" where
  "partitioned_newRequest m p resId r = do {
     invariant (partitioned (reqs m r));
     invariant (lock_ptr (reqs m r) = None);
     pl \<leftarrow> partition_find m p resId;
     let m = upd_req m r (\<lambda>q. q\<lparr>partitionedLock := Some (p, resId), status := STATUS_GRANTED\<rparr>);
     Some (put_partition m p resId (pl\<lparr>partGrantedList := partGrantedList pl @ [r]\<rparr>))
   }"

subsection \<open>LockHead::migratePartitionedLockHeads\<close>

fun migrateRequests :: "requests \<Rightarrow> LockHead \<Rightarrow> rid list \<Rightarrow> (requests \<times> LockHead) option" where
  "migrateRequests rq h [] = Some (rq, h)"
| "migrateRequests rq h (r # rs) = do {
     let rq = rq(r := (rq r)\<lparr>partitionedLock := None\<rparr>);
     (res, rq, h) \<leftarrow> head_newRequest rq h r;
     invariant (res = LOCK_OK);
     migrateRequests rq h rs
   }"

text \<open>One turn of the outer loop, for the partition at the back of the head's vector.\<close>

definition migratePartition :: "LockManager \<Rightarrow> LockHeadPtr \<Rightarrow> nat \<Rightarrow> LockManager option" where
  "migratePartition m ptr p = do {
     h \<leftarrow> deref m ptr;
     (case partition_find m p (resourceId h) of
        Some pl \<Rightarrow> do {
          (rq, h) \<leftarrow> migrateRequests (reqs m) h (partGrantedList pl);
          let m = m\<lparr>reqs := rq, lm_partitions := (lm_partitions m)(p :=
                      AList.delete (resourceId h) (lm_partitions m p))\<rparr>;
          Some (put_head m (h\<lparr>partitions := butlast (partitions h)\<rparr>))
        }
      | None \<Rightarrow> Some (put_head m (h\<lparr>partitions := butlast (partitions h)\<rparr>)))
   }"

fun migrate_loop :: "LockManager \<Rightarrow> LockHeadPtr \<Rightarrow> nat list \<Rightarrow> LockManager option" where
  "migrate_loop m ptr [] = Some m"
| "migrate_loop m ptr (p # ps) = migratePartition m ptr p \<bind> (\<lambda>m. migrate_loop m ptr ps)"

definition migratePartitionedLockHeads :: "LockManager \<Rightarrow> LockHeadPtr \<Rightarrow> LockManager option" where
  "migratePartitionedLockHeads m ptr = do {
     h \<leftarrow> deref m ptr;
     invariant (head_partitioned h);
     invariant (ucast (grantedModes h) AND NOT intentModes = 0 \<and> conflictModes h = 0);
     migrate_loop m ptr (rev (partitions h))
   }"

definition migrate_if_partitioned :: "LockManager \<Rightarrow> LockHeadPtr \<Rightarrow> LockManager option" where
  "migrate_if_partitioned m ptr = do {
     h \<leftarrow> deref m ptr;
     if head_partitioned h then migratePartitionedLockHeads m ptr else Some m
   }"

subsection \<open>LockManager::lock\<close>

definition lock_bucket_section ::
  "LockManager \<Rightarrow> ResourceId \<Rightarrow> rid \<Rightarrow> (LockResult \<times> LockManager) option" where
  "lock_bucket_section m resId r = do {
     let m = bucket_findOrInsert m resId;
     let ptr = ManagedHead resId;
     h \<leftarrow> deref m ptr;
     if partitioned (reqs m r) \<and> ucast (grantedModes h) AND NOT intentModes = 0 \<and>
        conflictModes h = 0
     then do {
       let p = getPartition (reqs m r);
       let m = partition_findOrInsert m p resId;
       let m = put_head m (h\<lparr>partitions := partitions h @ [p]\<rparr>);
       m \<leftarrow> partitioned_newRequest m p resId r;
       Some (LOCK_OK, m)
     } else do {
       m \<leftarrow> migrate_if_partitioned m ptr;
       let m = upd_req m r (\<lambda>q. q\<lparr>partitioned := False\<rparr>);
       h \<leftarrow> deref m ptr;
       (res, rq, h) \<leftarrow> head_newRequest (reqs m) h r;
       Some (res, put_head (m\<lparr>reqs := rq\<rparr>) h)
     }
   }"

definition lm_lock ::
  "LockManager \<Rightarrow> ResourceId \<Rightarrow> rid \<Rightarrow> LockMode \<Rightarrow> (LockResult \<times> LockManager) option" where
  "lm_lock m resId r newMode = do {
     invariant (status (reqs m r) = STATUS_NEW);
     invariant (recursiveCount (reqs m r) = 1);
     let m = upd_req m r (\<lambda>q. q\<lparr>partitioned := (newMode = MODE_IX \<or> newMode = MODE_IS),
                                 mode := newMode\<rparr>);
     let p = getPartition (reqs m r);
     if partitioned (reqs m r) \<and> partition_find m p resId \<noteq> None then do {
       m \<leftarrow> partitioned_newRequest m p resId r;
       Some (LOCK_OK, m)
     } else lock_bucket_section m resId r
   }"

subsection \<open>LockManager::convert\<close>

definition lm_convert ::
  "LockManager \<Rightarrow> ResourceId \<Rightarrow> rid \<Rightarrow> LockMode \<Rightarrow> (LockResult \<times> LockManager) option" where
  "lm_convert m resId r newMode = do {
     invariant (status (reqs m r) = STATUS_GRANTED);
     invariant (recursiveCount (reqs m r) > 0);
     let m = upd_req m r (\<lambda>q. q\<lparr>recursiveCount := recursiveCount q + 1\<rparr>);
     if LockConflictsTable (mode (reqs m r)) OR LockConflictsTable newMode =
        LockConflictsTable (mode (reqs m r))
     then Some (LOCK_OK, m)
     else do {
       invariant (LockConflictsTable (mode (reqs m r)) OR LockConflictsTable newMode =
                  LockConflictsTable newMode);
       let ptr = ManagedHead resId;
       _ \<leftarrow> deref m ptr;
       m \<leftarrow> migrate_if_partitioned m ptr;
       h \<leftarrow> deref m ptr;
       let others = grantedModesWithout (grantedCounts h) (requestHolds (reqs m r));
       if conflicts newMode others then do {
         let m = upd_req m r (\<lambda>q. q\<lparr>status := STATUS_CONVERTING, convertMode := newMode\<rparr>);
         let h = h\<lparr>conversionsCount := conversionsCount h + 1\<rparr>;
         h \<leftarrow> incGrantedModeCount h newMode;
         Some (LOCK_WAITING, put_head m h)
       } else do {
         h \<leftarrow> incGrantedModeCount h newMode;
         h \<leftarrow> decGrantedModeCount h (mode (reqs m r));
         let m = upd_req m r (\<lambda>q. q\<lparr>mode := newMode\<rparr>);
         Some (LOCK_OK, put_head m h)
       }
     }
   }"

subsection \<open>LockManager::unlock\<close>

text \<open>Recomputing the grants of one head and writing everything back.\<close>

definition rescan :: "LockManager \<Rightarrow> requests \<Rightarrow> LockHead \<Rightarrow> bool \<Rightarrow> LockManager option" where
  "rescan m rq h check = do {
     (rq, h, ns) \<leftarrow> onLockModeChanged (rq, h, notified m) check;
     Some (put_head (m\<lparr>reqs := rq, notified := ns\<rparr>) h)
   }"

text \<open>The part of unlock that runs under the bucket mutex.\<close>

definition unlock_bucket_section :: "LockManager \<Rightarrow> rid \<Rightarrow> (bool \<times> LockManager) option" where
  "unlock_bucket_section m r = do {
     ptr \<leftarrow> lock_ptr (reqs m r);
     h \<leftarrow> deref m ptr;
     m \<leftarrow> (case status (reqs m r) of
        STATUS_GRANTED \<Rightarrow> do {
          let h = h\<lparr>grantedList := remove1 r (grantedList h)\<rparr>;
          h \<leftarrow> decGrantedModeCount h (mode (reqs m r));
          h \<leftarrow> (if compatibleFirst (reqs m r) then do {
                  invariant (compatibleFirstCount h > 0);
                  let h = h\<lparr>compatibleFirstCount := compatibleFirstCount h - 1\<rparr>;
                  invariant (compatibleFirstCount h = 0 \<or> grantedList h \<noteq> []);
                  Some h
                } else Some h);
          rescan m (reqs m) h (grantedCounts h (mode (reqs m r)) = 0)
        }
      | STATUS_WAITING \<Rightarrow> do {
          invariant (recursiveCount (reqs m r) = 0);
          let h = h\<lparr>conflictList := remove1 r (conflictList h)\<rparr>;
          h \<leftarrow> decConflictModeCount h (mode (reqs m r));
          rescan m (reqs m) h True
        }
      | STATUS_CONVERTING \<Rightarrow> do {
          invariant (recursiveCount (reqs m r) > 0);
          invariant (conversionsCount h > 0);
          let rq = (reqs m)(r := (reqs m r)\<lparr>status := STATUS_GRANTED\<rparr>);
          let h = h\<lparr>conversionsCount := conversionsCount h - 1\<rparr>;
          h \<leftarrow> decGrantedModeCount h (convertMode (rq r));
          let rq = rq(r := (rq r)\<lparr>convertMode := MODE_NONE\<rparr>);
          rescan m rq h (grantedCounts h (convertMode (rq r)) = 0)
        }
      | STATUS_NEW \<Rightarrow> None);
     Some (recursiveCount (reqs m r) = 0, m)
   }"

definition lm_unlock :: "LockManager \<Rightarrow> rid \<Rightarrow> (bool \<times> LockManager) option" where
  "lm_unlock m r = do {
     invariant (recursiveCount (reqs m r) > 0);
     let m = upd_req m r (\<lambda>q. q\<lparr>recursiveCount := recursiveCount q - 1\<rparr>);
     if status (reqs m r) = STATUS_GRANTED \<and> recursiveCount (reqs m r) > 0 then Some (False, m)
     else if partitioned (reqs m r) then do {
       invariant (status (reqs m r) = STATUS_GRANTED \<or> status (reqs m r) = STATUS_CONVERTING);
       (case partitionedLock (reqs m r) of
          Some (p, resId) \<Rightarrow> do {
            pl \<leftarrow> partition_find m p resId;
            Some (True, put_partition m p resId
                          (pl\<lparr>partGrantedList := remove1 r (partGrantedList pl)\<rparr>))
          }
        | None \<Rightarrow> unlock_bucket_section m r)
     } else unlock_bucket_section m r
   }"

subsection \<open>LockManager::downgrade and clean-up\<close>

definition lm_downgrade :: "LockManager \<Rightarrow> rid \<Rightarrow> LockMode \<Rightarrow> LockManager option" where
  "lm_downgrade m r newMode = do {
     ptr \<leftarrow> lock_ptr (reqs m r);
     invariant (status (reqs m r) = STATUS_GRANTED);
     invariant (recursiveCount (reqs m r) > 0);
     invariant (LockConflictsTable (mode (reqs m r)) OR LockConflictsTable newMode =
                LockConflictsTable (mode (reqs m r)));
     h \<leftarrow> deref m ptr;
     h \<leftarrow> incGrantedModeCount h newMode;
     h \<leftarrow> decGrantedModeCount h (mode (reqs m r));
     rescan m ((reqs m)(r := (reqs m r)\<lparr>mode := newMode\<rparr>)) h True
   }"

definition cleanup_head :: "LockManager \<Rightarrow> nat \<Rightarrow> ResourceId \<Rightarrow> LockManager option" where
  "cleanup_head m b resId = do {
     h \<leftarrow> map_of (lockBuckets m b) resId;
     m \<leftarrow> migrate_if_partitioned m (this h);
     h \<leftarrow> map_of (lockBuckets m b) resId;
     if grantedModes h = 0 then do {
       invariant (grantedList h = []);
       invariant (conflictModes h = 0);
       invariant (conflictList h = []);
       invariant (conversionsCount h = 0);
       invariant (compatibleFirstCount h = 0);
       Some (m\<lparr>lockBuckets := (lockBuckets m)(b := AList.delete resId (lockBuckets m b))\<rparr>)
     } else Some m
   }"

fun cleanup_heads :: "LockManager \<Rightarrow> nat \<Rightarrow> ResourceId list \<Rightarrow> LockManager option" where
  "cleanup_heads m b [] = Some m"
| "cleanup_heads m b (resId # ids) = cleanup_head m b resId \<bind> (\<lambda>m. cleanup_heads m b ids)"

definition cleanupUnusedLocksInBucket :: "LockManager \<Rightarrow> nat \<Rightarrow> LockManager option" where
  "cleanupUnusedLocksInBucket m b = cleanup_heads m b (map fst (lockBuckets m b))"

fun cleanup_buckets :: "LockManager \<Rightarrow> nat list \<Rightarrow> LockManager option" where
  "cleanup_buckets m [] = Some m"
| "cleanup_buckets m (b # bs) = cleanupUnusedLocksInBucket m b \<bind> (\<lambda>m. cleanup_buckets m bs)"

definition cleanupUnusedLocks :: "LockManager \<Rightarrow> LockManager option" where
  "cleanupUnusedLocks m = cleanup_buckets m [0..<unat numLockBuckets]"

end
