(* ===== verification/Lock_Manager_Invariant.thy ===== *)
theory Lock_Manager_Invariant
  imports Lock_Manager
begin

text \<open>
  The invariant of the lock manager. Every lock head satisfies the head invariant, a
  partitioned head holds intent modes only and has no waiting request, and every entry of
  a partition holds granted intent requests of lockers of that partition and is listed in
  the partitions of its head. The operations are then proved to keep it.
\<close>

subsection \<open>Reading after writing\<close>

lemma deref_put_head [simp]: "deref (put_head m h) = (deref m)(this h \<mapsto> h)"
proof
  fix ptr
  show "deref (put_head m h) ptr = ((deref m)(this h \<mapsto> h)) ptr"
    by (cases ptr; cases "this h") (auto simp: put_head_def)
qed

lemma deref_reqs [simp]: "deref (m\<lparr>reqs := rq\<rparr>) = deref m"
proof
  show "deref (m\<lparr>reqs := rq\<rparr>) ptr = deref m ptr" for ptr by (cases ptr) auto
qed

lemma deref_partitions [simp]: "deref (m\<lparr>lm_partitions := ps\<rparr>) = deref m"
proof
  show "deref (m\<lparr>lm_partitions := ps\<rparr>) ptr = deref m ptr" for ptr by (cases ptr) auto
qed

lemma deref_notified [simp]: "deref (m\<lparr>notified := ns\<rparr>) = deref m"
proof
  show "deref (m\<lparr>notified := ns\<rparr>) ptr = deref m ptr" for ptr by (cases ptr) auto
qed

lemma deref_upd_req [simp]: "deref (upd_req m r f) = deref m"
  by (simp add: upd_req_def)

lemma deref_put_partition [simp]: "deref (put_partition m p resId pl) = deref m"
  by (simp add: put_partition_def)

lemma reqs_put_head [simp]: "reqs (put_head m h) = reqs m"
  by (cases "this h") (simp_all add: put_head_def)

lemma reqs_upd_req [simp]: "reqs (upd_req m r f) = (reqs m)(r := f (reqs m r))"
  by (simp add: upd_req_def)

lemma reqs_put_partition [simp]: "reqs (put_partition m p resId pl) = reqs m"
  by (simp add: put_partition_def)

lemma notified_put_head [simp]: "notified (put_head m h) = notified m"
  by (cases "this h") (simp_all add: put_head_def)

lemma notified_upd_req [simp]: "notified (upd_req m r f) = notified m"
  by (simp add: upd_req_def)

lemma notified_put_partition [simp]: "notified (put_partition m p resId pl) = notified m"
  by (simp add: put_partition_def)

lemma lm_partitions_put_head [simp]: "lm_partitions (put_head m h) = lm_partitions m"
  by (cases "this h") (simp_all add: put_head_def)

lemma partition_find_put_head [simp]: "partition_find (put_head m h) = partition_find m"
  by (simp add: partition_find_def fun_eq_iff)

lemma partition_find_reqs [simp]:
  "partition_find (m\<lparr>reqs := rq\<rparr>) = partition_find m"
  "partition_find (m\<lparr>notified := ns\<rparr>) = partition_find m"
  "partition_find (m\<lparr>lockBuckets := bs\<rparr>) = partition_find m"
  "partition_find (upd_req m r f) = partition_find m"
  by (simp_all add: partition_find_def fun_eq_iff upd_req_def)

lemma partition_find_put_partition [simp]:
  "partition_find (put_partition m p resId pl) =
     (partition_find m)(p := (partition_find m p)(resId \<mapsto> pl))"
  by (auto simp: partition_find_def put_partition_def fun_eq_iff)

lemma partition_find_delete [simp]:
  "partition_find (m\<lparr>lm_partitions := (lm_partitions m)(p := AList.delete resId (lm_partitions m p))\<rparr>) =
     (partition_find m)(p := (partition_find m p)(resId := None))"
  by (auto simp: partition_find_def fun_eq_iff)

declare deref.simps [simp del]

subsection \<open>Well-formed tables\<close>

definition tables_ok :: "LockManager \<Rightarrow> bool" where
  "tables_ok m \<longleftrightarrow>
     (\<forall>b. distinct (map fst (lockBuckets m b)) \<and>
          (\<forall>resId h. map_of (lockBuckets m b) resId = Some h \<longrightarrow> getBucket resId = b)) \<and>
     (\<forall>p. distinct (map fst (lm_partitions m p))) \<and>
     distinct (map fst (tempQueues m))"

lemma tables_ok_put_head [simp]: "tables_ok m \<Longrightarrow> tables_ok (put_head m h)"
  by (cases "this h") (auto simp: tables_ok_def put_head_def simp del: map_of_eq_Some_iff split: if_splits)

lemma tables_ok_put_partition [simp]: "tables_ok m \<Longrightarrow> tables_ok (put_partition m p resId pl)"
  by (auto simp: tables_ok_def put_partition_def)

lemma tables_ok_fields [simp]:
  "tables_ok (m\<lparr>reqs := rq\<rparr>) = tables_ok m"
  "tables_ok (m\<lparr>notified := ns\<rparr>) = tables_ok m"
  "tables_ok (upd_req m r f) = tables_ok m"
  by (simp_all add: tables_ok_def upd_req_def)

lemma tables_ok_delete [simp]:
  "tables_ok m \<Longrightarrow> tables_ok (m\<lparr>lm_partitions := (lm_partitions m)(p := AList.delete resId (lm_partitions m p))\<rparr>)"
  by (auto simp: tables_ok_def)

subsection \<open>The invariant\<close>

type_synonym heads = "LockHeadPtr \<Rightarrow> LockHead option"
type_synonym parts = "nat \<Rightarrow> ResourceId \<Rightarrow> PartitionedLockHead option"

fun ptr_resource :: "LockHeadPtr \<Rightarrow> ResourceId" where
  "ptr_resource (ManagedHead resId) = resId"
| "ptr_resource (TemporaryHead resId) = resId"

fun is_managed :: "LockHeadPtr \<Rightarrow> bool" where
  "is_managed (ManagedHead resId) = True"
| "is_managed (TemporaryHead resId) = False"

abbreviation intents :: "LockMode set" where
  "intents \<equiv> {MODE_IS, MODE_IX}"

definition slot_ok :: "LockRequest \<Rightarrow> bool" where
  "slot_ok r \<longleftrightarrow> 1 \<le> recursiveCount r \<and>
     (status r = STATUS_CONVERTING \<longrightarrow> 2 \<le> recursiveCount r) \<and>
     (status r = STATUS_WAITING \<longrightarrow> recursiveCount r = 1 \<and> \<not> partitioned r)"

definition head_at :: "requests \<Rightarrow> LockHeadPtr \<Rightarrow> LockHead \<Rightarrow> bool" where
  "head_at rq ptr h \<longleftrightarrow>
     this h = ptr \<and> resourceId h = ptr_resource ptr \<and> head_inv rq h \<and>
     (\<forall>x \<in> queued h. slot_ok (rq x)) \<and>
     (partitions h \<noteq> [] \<longrightarrow> is_managed ptr \<and>
        set_mset (heldModes rq (grantedList h)) \<subseteq> intents \<and> conflictList h = [])"

definition part_ok :: "LockRequest \<Rightarrow> nat \<Rightarrow> ResourceId \<Rightarrow> bool" where
  "part_ok r p resId \<longleftrightarrow> status r = STATUS_GRANTED \<and> mode r \<in> intents \<and>
     convertMode r = MODE_NONE \<and> partitionedLock r = Some (p, resId) \<and> partitioned r \<and>
     getPartition r = p \<and> 1 \<le> recursiveCount r"

definition part_at :: "requests \<Rightarrow> heads \<Rightarrow> nat \<Rightarrow> ResourceId \<Rightarrow> PartitionedLockHead \<Rightarrow> bool" where
  "part_at rq D p resId pl \<longleftrightarrow>
     distinct (partGrantedList pl) \<and> (\<forall>x \<in> set (partGrantedList pl). part_ok (rq x) p resId) \<and>
     (\<exists>h. D (ManagedHead resId) = Some h \<and> p \<in> set (partitions h))"

definition state_ok :: "requests \<Rightarrow> heads \<Rightarrow> parts \<Rightarrow> bool" where
  "state_ok rq D P \<longleftrightarrow>
     (\<forall>ptr h. D ptr = Some h \<longrightarrow> head_at rq ptr h) \<and>
     (\<forall>p resId pl. P p resId = Some pl \<longrightarrow> part_at rq D p resId pl)"

definition lm_inv :: "LockManager \<Rightarrow> bool" where
  "lm_inv m \<longleftrightarrow> tables_ok m \<and> state_ok (reqs m) (deref m) (partition_find m)"

definition attached :: "heads \<Rightarrow> parts \<Rightarrow> rid \<Rightarrow> bool" where
  "attached D P x \<longleftrightarrow> (\<exists>ptr h. D ptr = Some h \<and> x \<in> queued h) \<or>
     (\<exists>p resId pl. P p resId = Some pl \<and> x \<in> set (partGrantedList pl))"

definition at_head :: "heads \<Rightarrow> LockHeadPtr \<Rightarrow> rid \<Rightarrow> bool" where
  "at_head D ptr x \<longleftrightarrow> (\<exists>h. D ptr = Some h \<and> x \<in> queued h)"

definition at_part :: "parts \<Rightarrow> nat \<Rightarrow> ResourceId \<Rightarrow> rid \<Rightarrow> bool" where
  "at_part P p resId x \<longleftrightarrow> (\<exists>pl. P p resId = Some pl \<and> x \<in> set (partGrantedList pl))"

lemma attached_iff:
  "attached D P x \<longleftrightarrow> (\<exists>ptr. at_head D ptr x) \<or> (\<exists>p resId. at_part P p resId x)"
  by (auto simp: attached_def at_head_def at_part_def)

lemma state_okD:
  assumes "state_ok rq D P"
  shows "D ptr = Some h \<Longrightarrow> head_at rq ptr h" and "P p resId = Some pl \<Longrightarrow> part_at rq D p resId pl"
  using assms by (simp_all add: state_ok_def)

lemma head_at_queued:
  assumes "head_at rq ptr h" and "x \<in> queued h"
  shows "lock_ptr (rq x) = Some ptr" "partitionedLock (rq x) = None" "slot_ok (rq x)"
proof -
  have ok: "head_ok rq h" "this h = ptr" using assms(1) by (simp_all add: head_at_def head_inv_def)
  then have "lock_ptr (rq x) = Some ptr \<and> (granted_ok (rq x) \<or> waiting_ok (rq x))"
    using assms(2) unfolding head_ok_def by blast
  then show "lock_ptr (rq x) = Some ptr" "partitionedLock (rq x) = None"
    by (auto simp: granted_ok_def waiting_ok_def)
  show "slot_ok (rq x)" using assms by (simp add: head_at_def)
qed

lemma at_head_fields:
  assumes "state_ok rq D P" and "at_head D ptr x"
  shows "lock_ptr (rq x) = Some ptr" "partitionedLock (rq x) = None"
  using assms state_okD(1) [OF assms(1)] by (auto simp: at_head_def dest: head_at_queued)

lemma at_part_fields:
  assumes "state_ok rq D P" and "at_part P p resId x"
  shows "partitionedLock (rq x) = Some (p, resId)" "part_ok (rq x) p resId"
  using assms state_okD(2) [OF assms(1)] by (auto simp: at_part_def part_at_def part_ok_def)

lemma one_place:
  assumes "state_ok rq D P"
  shows "at_head D ptr x \<Longrightarrow> at_head D ptr' x \<Longrightarrow> ptr = ptr'"
    and "at_part P p resId x \<Longrightarrow> at_part P p' resId' x \<Longrightarrow> p = p' \<and> resId = resId'"
    and "at_head D ptr x \<Longrightarrow> \<not> at_part P p resId x"
  using at_head_fields [OF assms, of ptr x] at_head_fields [OF assms, of ptr' x]
    at_part_fields(1) [OF assms, of p resId x] at_part_fields(1) [OF assms, of p' resId' x]
  by auto

text \<open>A change at one head, whose requests alone are written, keeps the rest.\<close>

lemma head_at_cong:
  assumes "head_at rq ptr h" and "\<And>x. x \<in> queued h \<Longrightarrow> rq' x = rq x"
  shows "head_at rq' ptr h"
proof -
  have "heldModes rq' (grantedList h) = heldModes rq (grantedList h)"
    using assms(2) by (intro heldModes_cong) simp
  moreover have "head_inv rq' h = head_inv rq h"
    using assms(2) by (intro head_inv_cong) simp
  ultimately show ?thesis using assms by (simp add: head_at_def)
qed

lemma part_at_cong:
  assumes "part_at rq D p resId pl" and "\<And>x. x \<in> set (partGrantedList pl) \<Longrightarrow> rq' x = rq x"
    and "\<And>h. D (ManagedHead resId) = Some h \<Longrightarrow> p \<in> set (partitions h) \<Longrightarrow>
           \<exists>h'. D' (ManagedHead resId) = Some h' \<and> p \<in> set (partitions h')"
  shows "part_at rq' D' p resId pl"
  using assms by (auto simp: part_at_def)

lemma state_ok_head:
  assumes ok: "state_ok rq D P"
    and new: "head_at rq' ptr h'"
    and parts: "\<And>h p. D ptr = Some h \<Longrightarrow> p \<in> set (partitions h) \<Longrightarrow> p \<in> set (partitions h')"
    and frame: "\<And>x. rq' x \<noteq> rq x \<Longrightarrow> at_head D ptr x \<or> \<not> attached D P x"
  shows "state_ok rq' (D(ptr \<mapsto> h')) P"
  unfolding state_ok_def
proof (intro conjI allI impI)
  fix ptr2 h2 assume h2: "(D(ptr \<mapsto> h')) ptr2 = Some h2"
  show "head_at rq' ptr2 h2"
  proof (cases "ptr2 = ptr")
    case False
    then have d: "D ptr2 = Some h2" using h2 by simp
    have "rq' x = rq x" if "x \<in> queued h2" for x
    proof (rule ccontr)
      assume "rq' x \<noteq> rq x"
      moreover have "at_head D ptr2 x" using that d by (auto simp: at_head_def)
      ultimately show False
        using frame [of x] one_place(1) [OF ok] False by (auto simp: attached_iff)
    qed
    then show ?thesis using state_okD(1) [OF ok d] by (rule head_at_cong [rotated])
  qed (use h2 new in simp)
next
  fix p resId pl assume pl: "P p resId = Some pl"
  have "rq' x = rq x" if "x \<in> set (partGrantedList pl)" for x
  proof (rule ccontr)
    assume "rq' x \<noteq> rq x"
    moreover have "at_part P p resId x" using that pl by (auto simp: at_part_def)
    ultimately show False
      using frame [of x] one_place(3) [OF ok] by (auto simp: attached_iff)
  qed
  then show "part_at rq' (D(ptr \<mapsto> h')) p resId pl"
    using part_at_cong [OF state_okD(2) [OF ok pl], of rq' "D(ptr \<mapsto> h')"] parts
    by (cases "ManagedHead resId = ptr") simp_all
qed

text \<open>The same for a change at one partition entry.\<close>

lemma state_ok_part:
  assumes ok: "state_ok rq D P"
    and new: "part_at rq' D p resId pl'"
    and frame: "\<And>x. rq' x \<noteq> rq x \<Longrightarrow> at_part P p resId x \<or> \<not> attached D P x"
  shows "state_ok rq' D (P(p := (P p)(resId \<mapsto> pl')))"
  unfolding state_ok_def
proof (intro conjI allI impI)
  fix ptr h assume h: "D ptr = Some h"
  have "rq' x = rq x" if "x \<in> queued h" for x
  proof (rule ccontr)
    assume "rq' x \<noteq> rq x"
    moreover have "at_head D ptr x" using that h by (auto simp: at_head_def)
    ultimately show False
      using frame [of x] one_place(3) [OF ok] by (auto simp: attached_iff)
  qed
  then show "head_at rq' ptr h" using state_okD(1) [OF ok h] by (rule head_at_cong [rotated])
next
  fix p2 resId2 pl assume pl: "(P(p := (P p)(resId \<mapsto> pl'))) p2 resId2 = Some pl"
  show "part_at rq' D p2 resId2 pl"
  proof (cases "p2 = p \<and> resId2 = resId")
    case False
    then have d: "P p2 resId2 = Some pl" using pl by (auto split: if_splits)
    have "rq' x = rq x" if "x \<in> set (partGrantedList pl)" for x
    proof (rule ccontr)
      assume "rq' x \<noteq> rq x"
      moreover have "at_part P p2 resId2 x" using that d by (auto simp: at_part_def)
      ultimately show False
        using frame [of x] one_place(2) [OF ok] False by (auto simp: attached_iff)
    qed
    then show ?thesis using part_at_cong [OF state_okD(2) [OF ok d], of rq' D] by simp
  qed (use pl new in auto)
qed

end
