(* ===== verification/Lock_Manager_Migrate.thy ===== *)
theory Lock_Manager_Migrate
  imports Lock_Manager_Invariant
begin

text \<open>
  LockHead::migratePartitionedLockHeads is total under the lock manager's invariant, keeps
  it, and moves exactly the requests of the resource's partition entries to the end of the
  granted queue of the head.
\<close>

definition to_head :: "LockHeadPtr \<Rightarrow> LockRequest \<Rightarrow> LockRequest" where
  "to_head ptr r = r\<lparr>partitionedLock := None, lock_ptr := Some ptr\<rparr>"

lemma to_head_idem [simp]: "to_head ptr (to_head ptr r) = to_head ptr r"
  by (simp add: to_head_def)

lemma to_head_fields [simp]:
  "mode (to_head ptr r) = mode r" "status (to_head ptr r) = status r"
  "recursiveCount (to_head ptr r) = recursiveCount r" "partitioned (to_head ptr r) = partitioned r"
  "locker (to_head ptr r) = locker r" "convertMode (to_head ptr r) = convertMode r"
  "enqueueAtFront (to_head ptr r) = enqueueAtFront r"
  "compatibleFirst (to_head ptr r) = compatibleFirst r"
  by (simp_all add: to_head_def)

lemma intents_compatible: "a \<in> intents \<Longrightarrow> b \<in> intents \<Longrightarrow> \<not> mode_conflict a b"
  by (auto simp: mode_conflict_iff)

lemma migrate_one:
  assumes inv: "head_inv rq h" and cl: "conflictList h = []"
    and held: "set_mset (heldModes rq (grantedList h)) \<subseteq> intents"
    and x: "part_ok (rq x) p resId" "x \<notin> queued h"
  shows "\<exists>h'. head_newRequest (rq(x := (rq x)\<lparr>partitionedLock := None\<rparr>)) h x =
           Some (LOCK_OK, rq(x := to_head (this h) (rq x)), h') \<and>
         head_inv (rq(x := to_head (this h) (rq x))) h' \<and>
         grantedList h' = grantedList h @ [x] \<and> conflictList h' = [] \<and>
         this h' = this h \<and> resourceId h' = resourceId h \<and> partitions h' = partitions h"
proof -
  define rq1 where "rq1 = rq(x := (rq x)\<lparr>partitionedLock := None\<rparr>)"
  have inv1: "head_inv rq1 h"
    using inv x(2) by (subst head_inv_cong [of h rq]) (auto simp: rq1_def)
  have may: "may_queue (rq1 x)"
    using x(1) by (auto simp: may_queue_def rq1_def part_ok_def)
  have m: "mode (rq1 x) \<in> intents" using x(1) by (auto simp: rq1_def part_ok_def)
  have ok1: "head_ok rq1 h" using inv1 by (simp add: head_inv_def)
  have "heldModes rq1 (grantedList h) = heldModes rq (grantedList h)"
    using x(2) by (simp add: rq1_def)
  then have free: "\<not> conflicts (mode (rq1 x)) (grantedModes h)"
    using conflicts_granted [of h "heldModes rq1 (grantedList h)"] ok1 held intents_compatible [OF m]
    by (auto simp: head_ok_def)
  have "\<not> conflicts (mode (rq1 x)) (conflictModes h)"
    using ok1 cl by (simp add: head_ok_def waits_def conflicts_def)
  note run = newRequest_granted [OF inv1 x(2) may free, OF impI, OF this]
  have "rq1(x := attach h STATUS_GRANTED (rq1 x)) = rq(x := to_head (this h) (rq x))"
    using x(1) by (cases "rq x") (simp add: rq1_def attach_def to_head_def part_ok_def)
  with run show ?thesis
    unfolding rq1_def [symmetric] using cl by simp
qed

lemma migrateRequests_run:
  assumes "head_inv rq h" and "conflictList h = []"
    and "set_mset (heldModes rq (grantedList h)) \<subseteq> intents"
    and "distinct xs" and "\<forall>x \<in> set xs. part_ok (rq x) p resId \<and> x \<notin> queued h"
  shows "\<exists>h'. migrateRequests rq h xs =
           Some (\<lambda>x. if x \<in> set xs then to_head (this h) (rq x) else rq x, h') \<and>
         head_inv (\<lambda>x. if x \<in> set xs then to_head (this h) (rq x) else rq x) h' \<and>
         grantedList h' = grantedList h @ xs \<and> conflictList h' = [] \<and>
         this h' = this h \<and> resourceId h' = resourceId h \<and> partitions h' = partitions h"
  using assms
proof (induction xs arbitrary: rq h)
  case (Cons x xs)
  let ?rq = "rq(x := to_head (this h) (rq x))"
  have px: "part_ok (rq x) p resId" "x \<notin> queued h" using Cons.prems(5) by auto
  obtain h1 where run: "head_newRequest (rq(x := (rq x)\<lparr>partitionedLock := None\<rparr>)) h x =
      Some (LOCK_OK, ?rq, h1)"
    and h1: "head_inv ?rq h1" "grantedList h1 = grantedList h @ [x]" "conflictList h1 = []"
      "this h1 = this h" "resourceId h1 = resourceId h" "partitions h1 = partitions h"
    using migrate_one [OF Cons.prems(1,2,3) px] by blast
  have "heldModes ?rq (grantedList h1) = heldModes rq (grantedList h) + holds (rq x)"
    using px by (simp add: h1 to_head_def holds_def)
  moreover have "holds (rq x) = {#mode (rq x)#}" "mode (rq x) \<in> intents"
    using px by (auto simp: part_ok_def holds_def)
  ultimately have held: "set_mset (heldModes ?rq (grantedList h1)) \<subseteq> intents"
    using Cons.prems(3) by simp
  have rest: "\<forall>y \<in> set xs. part_ok (?rq y) p resId \<and> y \<notin> queued h1" "distinct xs"
    using Cons.prems(4,5) h1 by auto
  have eq: "(\<lambda>y. if y \<in> set xs then to_head (this h1) (?rq y) else ?rq y) =
      (\<lambda>y. if y \<in> set (x # xs) then to_head (this h) (rq y) else rq y)"
    using rest(2) h1 by (auto simp: fun_eq_iff)
  obtain h2 where
    "migrateRequests ?rq h1 xs = Some (\<lambda>y. if y \<in> set xs then to_head (this h1) (?rq y) else ?rq y, h2)"
    and "head_inv (\<lambda>y. if y \<in> set xs then to_head (this h1) (?rq y) else ?rq y) h2"
      "grantedList h2 = grantedList h1 @ xs" "conflictList h2 = []"
      "this h2 = this h1" "resourceId h2 = resourceId h1" "partitions h2 = partitions h1"
    using Cons.IH [OF h1(1,3) held rest(2,1)] by blast
  then show ?case
    unfolding eq using run h1 by (intro exI [of _ h2]) simp
qed simp

definition migrated :: "LockHeadPtr \<Rightarrow> LockManager \<Rightarrow> LockManager \<Rightarrow> bool" where
  "migrated ptr m m' \<longleftrightarrow>
     notified m' = notified m \<and>
     (\<forall>x. reqs m' x = reqs m x \<or>
        reqs m' x = to_head ptr (reqs m x) \<and> (\<exists>p. at_part (partition_find m) p (ptr_resource ptr) x)) \<and>
     (\<forall>ptr'. ptr' \<noteq> ptr \<longrightarrow> deref m' ptr' = deref m ptr') \<and>
     (\<forall>p resId. resId \<noteq> ptr_resource ptr \<longrightarrow> partition_find m' p resId = partition_find m p resId) \<and>
     (\<forall>p x. at_part (partition_find m') p (ptr_resource ptr) x \<longrightarrow>
        at_part (partition_find m) p (ptr_resource ptr) x) \<and>
     (\<exists>h h' ys. deref m ptr = Some h \<and> deref m' ptr = Some h' \<and>
        grantedList h' = grantedList h @ ys \<and> conflictList h' = conflictList h \<and>
        set ys = {x. (\<exists>p. at_part (partition_find m) p (ptr_resource ptr) x) \<and>
                     \<not> (\<exists>p. at_part (partition_find m') p (ptr_resource ptr) x)})"

lemma migrated_refl: "deref m ptr = Some h \<Longrightarrow> migrated ptr m m"
  by (auto simp: migrated_def)

lemma migratedD:
  assumes "migrated ptr m m'"
  shows "notified m' = notified m"
    and "reqs m' x = reqs m x \<or>
        reqs m' x = to_head ptr (reqs m x) \<and> (\<exists>p. at_part (partition_find m) p (ptr_resource ptr) x)"
    and "ptr' \<noteq> ptr \<Longrightarrow> deref m' ptr' = deref m ptr'"
    and "resId \<noteq> ptr_resource ptr \<Longrightarrow> partition_find m' p resId = partition_find m p resId"
    and "at_part (partition_find m') p (ptr_resource ptr) x \<Longrightarrow>
        at_part (partition_find m) p (ptr_resource ptr) x"
    and "\<exists>h h' ys. deref m ptr = Some h \<and> deref m' ptr = Some h' \<and>
        grantedList h' = grantedList h @ ys \<and> conflictList h' = conflictList h \<and>
        set ys = {x. (\<exists>p. at_part (partition_find m) p (ptr_resource ptr) x) \<and>
                     \<not> (\<exists>p. at_part (partition_find m') p (ptr_resource ptr) x)}"
  using assms unfolding migrated_def by blast+

lemma migrated_trans:
  assumes a: "migrated ptr m1 m2" and b: "migrated ptr m2 m3"
  shows "migrated ptr m1 m3"
proof -
  let ?in = "\<lambda>m x. \<exists>p. at_part (partition_find m) p (ptr_resource ptr) x"
  have mono: "?in m2 x \<Longrightarrow> ?in m1 x" "?in m3 x \<Longrightarrow> ?in m2 x" for x
    using migratedD(5) [OF a] migratedD(5) [OF b] by blast+
  have rq: "reqs m3 x = reqs m1 x \<or> reqs m3 x = to_head ptr (reqs m1 x) \<and> ?in m1 x" for x
    using migratedD(2) [OF a, of x] migratedD(2) [OF b, of x] mono(1) [of x] to_head_idem by metis
  obtain h1 h2 ys where 1: "deref m1 ptr = Some h1" "deref m2 ptr = Some h2"
      "grantedList h2 = grantedList h1 @ ys" "conflictList h2 = conflictList h1"
      "set ys = {x. ?in m1 x \<and> \<not> ?in m2 x}"
    using migratedD(6) [OF a] by blast
  obtain h2' h3 zs where 2: "deref m2 ptr = Some h2'" "deref m3 ptr = Some h3"
      "grantedList h3 = grantedList h2' @ zs" "conflictList h3 = conflictList h2'"
      "set zs = {x. ?in m2 x \<and> \<not> ?in m3 x}"
    using migratedD(6) [OF b] by blast
  have "set (ys @ zs) = {x. ?in m1 x \<and> \<not> ?in m3 x}"
    unfolding set_append 1(5) 2(5) using mono by blast
  then have lists: "\<exists>h h' us. deref m1 ptr = Some h \<and> deref m3 ptr = Some h' \<and>
      grantedList h' = grantedList h @ us \<and> conflictList h' = conflictList h \<and>
      set us = {x. ?in m1 x \<and> \<not> ?in m3 x}"
    using 1(1-4) 2(1-4) by (intro exI [of _ h1] exI [of _ h3] exI [of _ "ys @ zs"]) simp
  have "notified m3 = notified m1" using migratedD(1) [OF a] migratedD(1) [OF b] by simp
  moreover have "deref m3 ptr' = deref m1 ptr'" if "ptr' \<noteq> ptr" for ptr'
    using migratedD(3) [OF a that] migratedD(3) [OF b that] by simp
  moreover have "partition_find m3 p resId = partition_find m1 p resId"
    if "resId \<noteq> ptr_resource ptr" for p resId
    using migratedD(4) [OF a that, of p] migratedD(4) [OF b that, of p] by simp
  moreover have "at_part (partition_find m1) p (ptr_resource ptr) x"
    if "at_part (partition_find m3) p (ptr_resource ptr) x" for p x
    using migratedD(5) [OF a migratedD(5) [OF b that]] .
  ultimately show ?thesis unfolding migrated_def using rq lists by simp
qed

subsection \<open>One partition\<close>

lemma state_ok_migrate:
  assumes ok: "state_ok rq D P" and d: "D (ManagedHead resId) = Some h"
    and ps: "partitions h = ps @ [p]" and new: "head_at rq' (ManagedHead resId) h'" "partitions h' = ps"
    and frame: "\<And>x. rq' x \<noteq> rq x \<Longrightarrow> at_part P p resId x"
  shows "state_ok rq' (D(ManagedHead resId \<mapsto> h')) (P(p := (P p)(resId := None)))"
  unfolding state_ok_def
proof (intro conjI allI impI)
  fix ptr2 h2 assume h2: "(D(ManagedHead resId \<mapsto> h')) ptr2 = Some h2"
  show "head_at rq' ptr2 h2"
  proof (cases "ptr2 = ManagedHead resId")
    case False
    then have d2: "D ptr2 = Some h2" using h2 by simp
    have "rq' x = rq x" if "x \<in> queued h2" for x
    proof (rule ccontr)
      assume "rq' x \<noteq> rq x"
      then have "at_part P p resId x" by (rule frame)
      moreover have "at_head D ptr2 x" using that d2 by (auto simp: at_head_def)
      ultimately show False using one_place(3) [OF ok] by blast
    qed
    then show ?thesis using state_okD(1) [OF ok d2] by (rule head_at_cong [rotated])
  qed (use h2 new in simp)
next
  fix p2 resId2 pl assume pl: "(P(p := (P p)(resId := None))) p2 resId2 = Some pl"
  then have d2: "P p2 resId2 = Some pl" and ne: "p2 \<noteq> p \<or> resId2 \<noteq> resId"
    by (auto split: if_splits)
  have same: "rq' x = rq x" if "x \<in> set (partGrantedList pl)" for x
  proof (rule ccontr)
    assume "rq' x \<noteq> rq x"
    then have "at_part P p resId x" by (rule frame)
    moreover have "at_part P p2 resId2 x" using that d2 by (auto simp: at_part_def)
    ultimately show False using one_place(2) [OF ok] ne by blast
  qed
  show "part_at rq' (D(ManagedHead resId \<mapsto> h')) p2 resId2 pl"
    using part_at_cong [OF state_okD(2) [OF ok d2] same, of "D(ManagedHead resId \<mapsto> h')"] d ps new(2) ne
    by (cases "resId2 = resId") auto
qed

lemma head_at_migrated:
  assumes h: "head_at rq (ManagedHead resId) h" and ps: "partitions h = ps @ [p]"
    and xs: "distinct xs" "\<forall>x \<in> set xs. part_ok (rq x) p resId \<and> x \<notin> queued h"
  defines "rq' \<equiv> \<lambda>x. if x \<in> set xs then to_head (ManagedHead resId) (rq x) else rq x"
  shows "\<exists>h'. migrateRequests rq h xs = Some (rq', h') \<and>
      head_at rq' (ManagedHead resId) (h'\<lparr>partitions := ps\<rparr>) \<and>
      grantedList h' = grantedList h @ xs \<and> conflictList h' = [] \<and> conflictList h = [] \<and>
      resourceId h' = resId \<and> this h' = ManagedHead resId \<and> partitions h' = ps @ [p]"
proof -
  have hd: "head_inv rq h" "conflictList h = []" "this h = ManagedHead resId" "resourceId h = resId"
    and held: "set_mset (heldModes rq (grantedList h)) \<subseteq> intents"
    and slots: "\<forall>x \<in> queued h. slot_ok (rq x)"
    using h ps by (simp_all add: head_at_def)
  obtain h' where run: "migrateRequests rq h xs = Some (rq', h')" and h': "head_inv rq' h'"
      "grantedList h' = grantedList h @ xs" "conflictList h' = []" "this h' = this h"
      "resourceId h' = resourceId h" "partitions h' = partitions h"
    using migrateRequests_run [OF hd(1,2) held xs] unfolding hd(3) rq'_def by blast
  have "slot_ok (rq' x)" if "x \<in> queued h'" for x
    using that slots xs(2) h' hd(2) by (auto simp: rq'_def slot_ok_def part_ok_def)
  moreover have "set_mset (heldModes rq' (grantedList h')) \<subseteq> intents"
  proof -
    have "heldModes rq' (grantedList h) = heldModes rq (grantedList h)"
      using xs(2) by (intro heldModes_cong) (auto simp: rq'_def)
    moreover have "k \<in> intents" if k: "k \<in># heldModes rq' xs" for k
    proof -
      from k obtain x where "x \<in> set xs" "k \<in># holds (rq' x)" by (auto simp: in_heldModes)
      then show ?thesis using xs(2) by (auto simp: rq'_def holds_def part_ok_def)
    qed
    ultimately show ?thesis using held h'(2) by auto
  qed
  ultimately have "head_at rq' (ManagedHead resId) (h'\<lparr>partitions := ps\<rparr>)"
    using h' hd by (simp add: head_at_def)
  then show ?thesis using run h' hd ps by (intro exI [of _ h']) simp
qed

lemma migratePartition_run:
  assumes inv: "lm_inv m" and d: "deref m (ManagedHead resId) = Some h" and ps: "partitions h = ps @ [p]"
  shows "\<exists>m' h'. migratePartition m (ManagedHead resId) p = Some m' \<and> lm_inv m' \<and>
      migrated (ManagedHead resId) m m' \<and> deref m' (ManagedHead resId) = Some h' \<and> partitions h' = ps"
proof -
  have ok: "state_ok (reqs m) (deref m) (partition_find m)" and tab: "tables_ok m"
    using inv by (simp_all add: lm_inv_def)
  have h: "head_at (reqs m) (ManagedHead resId) h" using state_okD(1) [OF ok d] .
  then have hd: "this h = ManagedHead resId" "resourceId h = resId" by (simp_all add: head_at_def)
  show ?thesis
  proof (cases "partition_find m p resId")
    case None
    let ?h = "h\<lparr>partitions := ps\<rparr>"
    have "(partition_find m)(p := (partition_find m p)(resId := None)) = partition_find m"
      using None by (simp add: fun_upd_idem)
    moreover have "head_at (reqs m) (ManagedHead resId) ?h" using h ps by (simp add: head_at_def)
    ultimately have "lm_inv (put_head m ?h)"
      using state_ok_migrate [OF ok d ps, of "reqs m" ?h] tab hd by (simp add: lm_inv_def)
    moreover have "migrated (ManagedHead resId) m (put_head m ?h)"
    proof -
      have "\<exists>h0 h' ys. deref m (ManagedHead resId) = Some h0 \<and>
          deref (put_head m ?h) (ManagedHead resId) = Some h' \<and>
          grantedList h' = grantedList h0 @ ys \<and> conflictList h' = conflictList h0 \<and>
          set ys = {x. (\<exists>q. at_part (partition_find m) q resId x) \<and>
                       \<not> (\<exists>q. at_part (partition_find m) q resId x)}"
      proof (intro exI)
        show "deref m (ManagedHead resId) = Some h \<and>
          deref (put_head m ?h) (ManagedHead resId) = Some ?h \<and>
          grantedList ?h = grantedList h @ [] \<and> conflictList ?h = conflictList h \<and>
          set [] = {x. (\<exists>q. at_part (partition_find m) q resId x) \<and>
                       \<not> (\<exists>q. at_part (partition_find m) q resId x)}"
          using d hd(1) by auto
      qed
      then show ?thesis unfolding migrated_def ptr_resource.simps using hd(1) by simp
    qed
    moreover have "migratePartition m (ManagedHead resId) p = Some (put_head m ?h)"
      using d None hd ps by (simp add: migratePartition_def)
    ultimately show ?thesis using hd by (intro exI [of _ "put_head m ?h"] exI [of _ ?h]) simp
  next
    case (Some pl)
    let ?xs = "partGrantedList pl"
    let ?rq = "\<lambda>x. if x \<in> set ?xs then to_head (ManagedHead resId) (reqs m x) else reqs m x"
    have xs: "distinct ?xs" "\<forall>x \<in> set ?xs. part_ok (reqs m x) p resId \<and> x \<notin> queued h"
      using state_okD(2) [OF ok Some] head_at_queued(2) [OF h]
      by (auto simp: part_at_def part_ok_def)
    obtain h1 where run: "migrateRequests (reqs m) h ?xs = Some (?rq, h1)"
      and at: "head_at ?rq (ManagedHead resId) (h1\<lparr>partitions := ps\<rparr>)"
      and h1: "grantedList h1 = grantedList h @ ?xs" "conflictList h1 = []" "conflictList h = []"
        "resourceId h1 = resId" "this h1 = ManagedHead resId" "partitions h1 = ps @ [p]"
      using head_at_migrated [OF h ps xs] by blast
    let ?m = "put_head (m\<lparr>reqs := ?rq, lm_partitions := (lm_partitions m)(p :=
                AList.delete resId (lm_partitions m p))\<rparr>) (h1\<lparr>partitions := ps\<rparr>)"
    let ?P = "(partition_find m)(p := (partition_find m p)(resId := None))"
    have P: "partition_find ?m = ?P"
      using partition_find_delete [of "m\<lparr>reqs := ?rq\<rparr>" p resId] by simp
    have D: "deref ?m = (deref m)(ManagedHead resId \<mapsto> h1\<lparr>partitions := ps\<rparr>)"
      using h1(5) by simp
    have "tables_ok ?m"
      using tab tables_ok_delete [of "m\<lparr>reqs := ?rq\<rparr>" p resId] by simp
    moreover have "state_ok ?rq (deref ?m) ?P"
      unfolding D by (rule state_ok_migrate [OF ok d ps at]) (auto simp: at_part_def Some split: if_splits)
    ultimately have lm: "lm_inv ?m" unfolding lm_inv_def P by simp
    have gone: "at_part ?P q resId x \<longleftrightarrow> q \<noteq> p \<and> at_part (partition_find m) q resId x" for q x
      by (auto simp: at_part_def)
    have here: "at_part (partition_find m) p resId x \<longleftrightarrow> x \<in> set ?xs" for x
      using Some by (simp add: at_part_def)
    have one: "q = p" if "at_part (partition_find m) q resId x" "x \<in> set ?xs" for q x
      using one_place(2) [OF ok that(1), of p resId] that(2) here by simp
    have "x \<in> set ?xs \<longleftrightarrow>
        (\<exists>q. at_part (partition_find m) q resId x) \<and> \<not> (\<exists>q. at_part ?P q resId x)" for x
      unfolding gone using here [of x] one [of _ x] by metis
    then have "set ?xs = {x. (\<exists>q. at_part (partition_find m) q resId x) \<and> \<not> (\<exists>q. at_part ?P q resId x)}"
      by blast
    then have lists: "\<exists>h h' ys. deref m (ManagedHead resId) = Some h \<and>
        deref ?m (ManagedHead resId) = Some h' \<and>
        grantedList h' = grantedList h @ ys \<and> conflictList h' = conflictList h \<and>
        set ys = {x. (\<exists>q. at_part (partition_find m) q resId x) \<and> \<not> (\<exists>q. at_part ?P q resId x)}"
      unfolding D using d h1(1-3)
      by (intro exI [of _ h] exI [of _ "h1\<lparr>partitions := ps\<rparr>"] exI [of _ ?xs]) simp
    have "?rq x = reqs m x \<or> ?rq x = to_head (ManagedHead resId) (reqs m x) \<and>
        (\<exists>q. at_part (partition_find m) q resId x)" for x
      using here [of x] by auto
    then have "migrated (ManagedHead resId) m ?m"
      unfolding migrated_def P ptr_resource.simps using lists gone by (simp add: h1(5))
    moreover have "migratePartition m (ManagedHead resId) p = Some ?m"
      using d Some hd run h1 by (simp add: migratePartition_def)
    moreover have "deref ?m (ManagedHead resId) = Some (h1\<lparr>partitions := ps\<rparr>)" unfolding D by simp
    ultimately show ?thesis using lm by (intro exI [of _ ?m] exI [of _ "h1\<lparr>partitions := ps\<rparr>"]) simp
  qed
qed

lemma migrate_loop_run:
  assumes "lm_inv m" and "deref m (ManagedHead resId) = Some h"
  shows "\<exists>m' h'. migrate_loop m (ManagedHead resId) (rev (partitions h)) = Some m' \<and> lm_inv m' \<and>
      migrated (ManagedHead resId) m m' \<and> deref m' (ManagedHead resId) = Some h' \<and> partitions h' = []"
  using assms
proof (induction "partitions h" arbitrary: m h rule: rev_induct)
  case Nil
  then show ?case using migrated_refl [of m] by simp
next
  case (snoc p ps)
  obtain m1 h1 where 1: "migratePartition m (ManagedHead resId) p = Some m1" "lm_inv m1"
      "migrated (ManagedHead resId) m m1" "deref m1 (ManagedHead resId) = Some h1" "partitions h1 = ps"
    using migratePartition_run [OF snoc.prems snoc.hyps(2) [symmetric]] by blast
  obtain m2 h2 where 2: "migrate_loop m1 (ManagedHead resId) (rev ps) = Some m2" "lm_inv m2"
      "migrated (ManagedHead resId) m1 m2" "deref m2 (ManagedHead resId) = Some h2" "partitions h2 = []"
    using snoc.hyps(1) [OF 1(5) [symmetric] 1(2) 1(4)] 1(5) by blast
  have "migrate_loop m (ManagedHead resId) (rev (partitions h)) = Some m2"
    using 1(1) 2(1) unfolding snoc.hyps(2) [symmetric] by simp
  with 2 migrated_trans [OF 1(3) 2(3)] show ?case by blast
qed

end
