(* ===== verification/Lock_Manager_Lock.thy ===== *)
theory Lock_Manager_Lock
  imports Lock_Manager_Migrate
begin

text \<open>
  LockManager::lock: under the invariant, a fresh request is granted or queued, no
  \<open>invariant\<close> of the code fails, the invariant is kept, and no other request is affected.
\<close>

subsection \<open>Who holds and who waits for a resource\<close>

definition holder :: "LockManager \<Rightarrow> ResourceId \<Rightarrow> rid \<Rightarrow> bool" where
  "holder m resId x \<longleftrightarrow>
     (\<exists>h. deref m (ManagedHead resId) = Some h \<and> x \<in> set (grantedList h)) \<or>
     (\<exists>p. at_part (partition_find m) p resId x)"

definition waiter :: "LockManager \<Rightarrow> ResourceId \<Rightarrow> rid \<Rightarrow> bool" where
  "waiter m resId x \<longleftrightarrow>
     (\<exists>h. deref m (ManagedHead resId) = Some h \<and> x \<in> set (conflictList h))"

definition lm_attached :: "LockManager \<Rightarrow> rid \<Rightarrow> bool" where
  "lm_attached m x \<longleftrightarrow> attached (deref m) (partition_find m) x"

lemma lm_attached_holder: "holder m resId x \<or> waiter m resId x \<Longrightarrow> lm_attached m x"
  unfolding holder_def waiter_def lm_attached_def attached_def at_part_def by blast

definition fresh_request :: "LockRequest \<Rightarrow> bool" where
  "fresh_request r \<longleftrightarrow> status r = STATUS_NEW \<and> recursiveCount r = 1 \<and> lock_ptr r = None \<and>
     partitionedLock r = None \<and> convertMode r = MODE_NONE"

lemma fresh_initNew [simp]: "fresh_request (initNew_request r lid)"
  by (simp add: fresh_request_def initNew_request_def)

text \<open>What an operation on one request leaves alone of another one.\<close>

definition same_claim :: "LockRequest \<Rightarrow> LockRequest \<Rightarrow> bool" where
  "same_claim r r' \<longleftrightarrow> mode r' = mode r \<and> status r' = status r \<and> convertMode r' = convertMode r \<and>
     recursiveCount r' = recursiveCount r \<and> locker r' = locker r"

definition others_kept :: "rid \<Rightarrow> LockManager \<Rightarrow> LockManager \<Rightarrow> bool" where
  "others_kept r m m' \<longleftrightarrow> (\<forall>x. x \<noteq> r \<longrightarrow> same_claim (reqs m x) (reqs m' x) \<and>
     (\<forall>resId. holder m' resId x = holder m resId x \<and> waiter m' resId x = waiter m resId x))"

lemma same_claim_refl [simp]: "same_claim r r" by (simp add: same_claim_def)

lemma same_claim_to_head [simp]: "same_claim r (to_head ptr r)" by (simp add: same_claim_def)

lemma same_claim_trans: "same_claim a b \<Longrightarrow> same_claim b c \<Longrightarrow> same_claim a c"
  by (simp add: same_claim_def)

lemma others_kept_refl [simp]: "others_kept r m m" by (simp add: others_kept_def)

lemma others_kept_trans:
  assumes "others_kept r a b" and "others_kept r b c"
  shows "others_kept r a c"
  using assms unfolding others_kept_def by (meson same_claim_trans)

subsection \<open>Migration seen from the requests\<close>

lemma migrated_places:
  assumes mig: "migrated (ManagedHead resId) m m'"
  shows "holder m' res x = holder m res x" and "waiter m' res x = waiter m res x"
    and "lm_attached m' x = lm_attached m x"
proof -
  let ?in = "\<lambda>m x. \<exists>p. at_part (partition_find m) p resId x"
  obtain h h' ys where h: "deref m (ManagedHead resId) = Some h" "deref m' (ManagedHead resId) = Some h'"
      "grantedList h' = grantedList h @ ys" "conflictList h' = conflictList h"
      "set ys = {x. ?in m x \<and> \<not> ?in m' x}"
    using migratedD(6) [OF mig] by (auto)
  have sub: "?in m' x \<Longrightarrow> ?in m x" for x using migratedD(5) [OF mig] by auto
  have here: "x \<in> set (grantedList h') \<or> ?in m' x \<longleftrightarrow> x \<in> set (grantedList h) \<or> ?in m x"
    unfolding h(3) set_append h(5) using sub [of x] by blast
  show "holder m' res x = holder m res x"
  proof (cases "res = resId")
    case True
    then show ?thesis using here h(1,2) by (simp add: holder_def)
  next
    case False
    then show ?thesis
      using migratedD(3) [OF mig, of "ManagedHead res"] migratedD(4) [OF mig, of res]
      by (simp add: holder_def at_part_def)
  qed
  show "waiter m' res x = waiter m res x"
    using h(1,2,4) migratedD(3) [OF mig, of "ManagedHead res"]
    by (cases "res = resId") (simp_all add: waiter_def)
  have eqh: "at_head (deref m') ptr x = at_head (deref m) ptr x" if "ptr \<noteq> ManagedHead resId" for ptr
    using migratedD(3) [OF mig that] by (simp add: at_head_def)
  have eqp: "at_part (partition_find m') p res x = at_part (partition_find m) p res x"
    if "res \<noteq> resId" for p res
    using migratedD(4) [OF mig, of res] that by (simp add: at_part_def)
  have hh: "at_head (deref m') (ManagedHead resId) x \<or> ?in m' x \<longleftrightarrow>
      at_head (deref m) (ManagedHead resId) x \<or> ?in m x"
    using here h(1,2,4) unfolding at_head_def by (auto)
  have split: "attached D P x \<longleftrightarrow> (at_head D (ManagedHead resId) x \<or> (\<exists>p. at_part P p resId x)) \<or>
      (\<exists>ptr. ptr \<noteq> ManagedHead resId \<and> at_head D ptr x) \<or>
      (\<exists>p res. res \<noteq> resId \<and> at_part P p res x)" for D P
    unfolding attached_iff by metis
  show "lm_attached m' x = lm_attached m x"
    unfolding lm_attached_def split hh using eqh eqp by blast
qed

lemma migrated_reqs: "migrated ptr m m' \<Longrightarrow> same_claim (reqs m x) (reqs m' x)"
  using migratedD(2) [of ptr m m' x] by auto

lemma migrated_unattached:
  assumes "migrated ptr m m'" and "\<not> lm_attached m x"
  shows "reqs m' x = reqs m x"
  using assms migratedD(2) [of ptr m m' x] by (auto simp: lm_attached_def attached_iff)

lemma migrated_kept: "migrated (ManagedHead resId) m m' \<Longrightarrow> others_kept r m m'"
  by (simp add: others_kept_def migrated_places migrated_reqs)

lemma no_parts_no_entries:
  assumes "lm_inv m" and "deref m (ManagedHead resId) = Some h" and "partitions h = []"
  shows "\<not> at_part (partition_find m) p resId x"
proof
  assume "at_part (partition_find m) p resId x"
  then obtain pl where "partition_find m p resId = Some pl" by (auto simp: at_part_def)
  then have "part_at (reqs m) (deref m) p resId pl"
    using assms(1) by (simp add: lm_inv_def state_ok_def)
  then show False using assms(2,3) by (simp add: part_at_def)
qed

lemma head_modes_intent:
  assumes "head_inv rq h"
  shows "ucast (grantedModes h) AND NOT intentModes = 0 \<longleftrightarrow>
           set_mset (heldModes rq (grantedList h)) \<subseteq> intents"
    and "conflictModes h = 0 \<longleftrightarrow> conflictList h = []"
  using assms by (simp_all add: head_inv_def head_ok_def grants_def waits_def modesMask_only_intent)

lemma migrate_run:
  assumes inv: "lm_inv m" and d: "deref m (ManagedHead resId) = Some h"
  shows "\<exists>m' h'. migrate_if_partitioned m (ManagedHead resId) = Some m' \<and> lm_inv m' \<and>
      migrated (ManagedHead resId) m m' \<and> deref m' (ManagedHead resId) = Some h' \<and> partitions h' = []"
proof (cases "partitions h = []")
  case True
  then have "migrate_if_partitioned m (ManagedHead resId) = Some m"
    using d by (simp add: migrate_if_partitioned_def head_partitioned_def)
  then show ?thesis using inv d True migrated_refl [OF d] by blast
next
  case False
  have at: "head_at (reqs m) (ManagedHead resId) h"
    using inv d by (simp add: lm_inv_def state_ok_def)
  then have hi: "head_inv (reqs m) h" by (simp add: head_at_def)
  have "ucast (grantedModes h) AND NOT intentModes = 0" "conflictModes h = 0"
    using head_modes_intent [OF hi] at False by (simp_all add: head_at_def)
  then have "migrate_if_partitioned m (ManagedHead resId) =
      migrate_loop m (ManagedHead resId) (rev (partitions h))"
    using d False by (simp add: migrate_if_partitioned_def migratePartitionedLockHeads_def
        head_partitioned_def)
  then show ?thesis using migrate_loop_run [OF inv d] by simp
qed

subsection \<open>A request outside all queues\<close>

lemma state_ok_unattached:
  assumes ok: "state_ok rq D P" and r: "\<not> attached D P r"
  shows "state_ok (rq(r := q)) D P"
  unfolding state_ok_def
proof (intro conjI allI impI)
  fix ptr h assume h: "D ptr = Some h"
  then have "r \<notin> queued h" using r unfolding attached_def by blast
  then show "head_at (rq(r := q)) ptr h"
    by (intro head_at_cong [OF state_okD(1) [OF ok h]]) auto
next
  fix p resId pl assume pl: "P p resId = Some pl"
  then have "r \<notin> set (partGrantedList pl)" using r unfolding attached_def by blast
  then show "part_at (rq(r := q)) D p resId pl"
    by (intro part_at_cong [OF state_okD(2) [OF ok pl]]) auto
qed

lemma lm_inv_unattached:
  "lm_inv m \<Longrightarrow> \<not> lm_attached m r \<Longrightarrow> lm_inv (upd_req m r f)"
  by (simp add: lm_inv_def lm_attached_def state_ok_unattached)

lemma lm_attached_upd_req [simp]: "lm_attached (upd_req m r f) x = lm_attached m x"
  by (simp add: lm_attached_def)

lemma holder_upd_req [simp]:
  "holder (upd_req m r f) resId x = holder m resId x"
  "waiter (upd_req m r f) resId x = waiter m resId x"
  by (simp_all add: holder_def waiter_def)

lemma others_kept_upd_req [simp]: "others_kept r m (upd_req m r f)"
  by (simp add: others_kept_def)

lemma bucket_findOrInsert_run:
  assumes inv: "lm_inv m"
  shows "\<exists>h. deref (bucket_findOrInsert m resId) (ManagedHead resId) = Some h \<and>
      lm_inv (bucket_findOrInsert m resId) \<and>
      reqs (bucket_findOrInsert m resId) = reqs m \<and>
      notified (bucket_findOrInsert m resId) = notified m \<and>
      (\<forall>x. lm_attached (bucket_findOrInsert m resId) x = lm_attached m x) \<and>
      (\<forall>r. others_kept r m (bucket_findOrInsert m resId))"
proof (cases "deref m (ManagedHead resId)")
  case (Some h)
  then have "bucket_findOrInsert m resId = m" by (simp add: bucket_findOrInsert_def deref.simps)
  then show ?thesis using inv Some by (simp)
next
  case None
  let ?h = "initNew_head (ManagedHead resId) resId"
  let ?m = "put_head m ?h"
  have m: "bucket_findOrInsert m resId = ?m" using None by (simp add: bucket_findOrInsert_def deref.simps)
  have th: "this ?h = ManagedHead resId" "grantedList ?h = []" "conflictList ?h = []"
      "partitions ?h = []" "resourceId ?h = resId"
    by (simp_all add: initNew_head_def)
  have "state_ok (reqs m) ((deref m)(ManagedHead resId \<mapsto> ?h)) (partition_find m)"
    using inv None th by (intro state_ok_head [of "reqs m"]) (simp_all add: lm_inv_def head_at_def)
  then have "lm_inv ?m" using inv th by (simp add: lm_inv_def)
  moreover have "lm_attached ?m x = lm_attached m x" for x
  proof -
    have "at_head (deref ?m) ptr x = at_head (deref m) ptr x" for ptr
      using None th by (simp add: at_head_def)
    then show ?thesis by (simp add: lm_attached_def attached_iff)
  qed
  moreover have "holder ?m res x = holder m res x" "waiter ?m res x = waiter m res x" for res x
    using None th by (simp_all add: holder_def waiter_def)
  ultimately show ?thesis unfolding m using th by (simp add: others_kept_def)
qed

subsection \<open>The two ways to queue a request\<close>

definition lock_outcome :: "LockManager \<Rightarrow> ResourceId \<Rightarrow> rid \<Rightarrow> LockMode \<Rightarrow> LockResult \<Rightarrow> bool" where
  "lock_outcome m resId r newMode res \<longleftrightarrow>
     mode (reqs m r) = newMode \<and> recursiveCount (reqs m r) = 1 \<and>
     (res = LOCK_OK \<and> status (reqs m r) = STATUS_GRANTED \<and> holder m resId r \<or>
      res = LOCK_WAITING \<and> status (reqs m r) = STATUS_WAITING \<and> waiter m resId r \<and>
      (\<exists>x. x \<noteq> r \<and> (holder m resId x \<and> (\<exists>k \<in># holds (reqs m x). mode_conflict newMode k) \<or>
                   waiter m resId x \<and> mode_conflict newMode (mode (reqs m x)))))"

lemma partition_entry_run:
  assumes inv: "lm_inv m" and pl: "partition_find m p resId = Some pl" and r: "\<not> lm_attached m r"
    and q: "partitioned (reqs m r)" "lock_ptr (reqs m r) = None" "mode (reqs m r) \<in> intents"
      "convertMode (reqs m r) = MODE_NONE" "getPartition (reqs m r) = p" "recursiveCount (reqs m r) = 1"
  shows "\<exists>m'. partitioned_newRequest m p resId r = Some m' \<and> lm_inv m' \<and> others_kept r m m' \<and>
      lock_outcome m' resId r (mode (reqs m r)) LOCK_OK \<and> notified m' = notified m"
proof -
  let ?q = "(reqs m r)\<lparr>partitionedLock := Some (p, resId), status := STATUS_GRANTED\<rparr>"
  let ?pl = "pl\<lparr>partGrantedList := partGrantedList pl @ [r]\<rparr>"
  let ?m = "put_partition (upd_req m r (\<lambda>q. q\<lparr>partitionedLock := Some (p, resId),
              status := STATUS_GRANTED\<rparr>)) p resId ?pl"
  have run: "partitioned_newRequest m p resId r = Some ?m"
    using q pl by (simp add: partitioned_newRequest_def)
  have ok: "state_ok (reqs m) (deref m) (partition_find m)" and "tables_ok m"
    using inv by (simp_all add: lm_inv_def)
  have nr: "r \<notin> set (partGrantedList pl)"
    using r pl unfolding lm_attached_def attached_def by blast
  have "part_ok ?q p resId" using q by (auto simp: part_ok_def getPartition_def)
  then have "part_at ((reqs m)(r := ?q)) (deref m) p resId ?pl"
    using state_okD(2) [OF ok pl] nr by (auto simp: part_at_def)
  then have "state_ok ((reqs m)(r := ?q)) (deref m)
      ((partition_find m)(p := (partition_find m p)(resId \<mapsto> ?pl)))"
    using r by (intro state_ok_part [OF ok]) (auto simp: lm_attached_def split: if_splits)
  then have "lm_inv ?m" using \<open>tables_ok m\<close> by (simp add: lm_inv_def)
  moreover have "at_part (partition_find ?m) p2 res x = at_part (partition_find m) p2 res x"
    if "x \<noteq> r" for p2 res x
    using pl that by (auto simp: at_part_def)
  then have "others_kept r m ?m" by (simp add: others_kept_def holder_def waiter_def)
  moreover have "at_part (partition_find ?m) p resId r" by (simp add: at_part_def)
  then have "holder ?m resId r" by (auto simp: holder_def)
  then have "lock_outcome ?m resId r (mode (reqs m r)) LOCK_OK"
    using q by (simp add: lock_outcome_def)
  ultimately show ?thesis using run by (intro exI [of _ ?m]) simp
qed

lemma slot_ok_attach:
  "recursiveCount r = 1 \<Longrightarrow> \<not> partitioned r \<Longrightarrow> s \<noteq> STATUS_CONVERTING \<Longrightarrow> slot_ok (attach h s r)"
  by (simp add: slot_ok_def attach_def)

text \<open>Writing back one head after one request was attached to it.\<close>

lemma attach_at_head:
  assumes inv: "lm_inv m" and d: "deref m ptr = Some h" and ps: "partitions h = []"
    and r: "\<not> lm_attached m r" "recursiveCount (reqs m r) = 1" "\<not> partitioned (reqs m r)"
    and h': "head_inv ((reqs m)(r := attach h s (reqs m r))) h'" "this h' = this h"
      "resourceId h' = resourceId h" "partitions h' = []" "queued h' = insert r (queued h)"
    and s: "s \<noteq> STATUS_CONVERTING"
  shows "lm_inv (put_head (m\<lparr>reqs := (reqs m)(r := attach h s (reqs m r))\<rparr>) h')"
proof -
  let ?rq = "(reqs m)(r := attach h s (reqs m r))"
  have ok: "state_ok (reqs m) (deref m) (partition_find m)" and "tables_ok m"
    using inv by (simp_all add: lm_inv_def)
  have at: "head_at (reqs m) ptr h" using state_okD(1) [OF ok d] .
  have th: "this h = ptr" using at by (simp add: head_at_def)
  have "\<forall>x \<in> queued h'. slot_ok (?rq x)"
    unfolding h'(5) using at r(2,3) s by (auto simp: head_at_def slot_ok_attach)
  then have "head_at ?rq ptr h'" using h' at by (simp add: head_at_def)
  then have "state_ok ?rq ((deref m)(ptr \<mapsto> h')) (partition_find m)"
    using r(1) d ps by (intro state_ok_head [OF ok]) (auto simp: lm_attached_def split: if_splits)
  then show ?thesis using \<open>tables_ok m\<close> h'(2) th by (simp add: lm_inv_def)
qed

lemma busy_cause:
  assumes hi: "head_inv rq h" and nq: "r \<notin> queued h"
    and busy: "conflicts md (grantedModes h) \<or> compatibleFirstCount h = 0 \<and> conflicts md (conflictModes h)"
  shows "\<exists>x. x \<noteq> r \<and> (x \<in> set (grantedList h) \<and> (\<exists>k \<in># holds (rq x). mode_conflict md k) \<or>
               x \<in> set (conflictList h) \<and> mode_conflict md (mode (rq x)))"
proof -
  have "grants h (heldModes rq (grantedList h))" "waits h (waitModes rq (conflictList h))"
    using hi by (simp_all add: head_inv_def head_ok_def)
  note busy [unfolded conflicts_granted [OF this(1)] conflicts_waiting [OF this(2)]
      Bex_def in_heldModes in_waitModes]
  moreover have "x \<noteq> r" if "x \<in> set (grantedList h) \<or> x \<in> set (conflictList h)" for x
    using nq that by blast
  ultimately show ?thesis by blast
qed

lemma enqueue_run:
  assumes inv: "lm_inv m" and d: "deref m (ManagedHead resId) = Some h" and ps: "partitions h = []"
    and r: "\<not> lm_attached m r" "recursiveCount (reqs m r) = 1" "\<not> partitioned (reqs m r)"
      "may_queue (reqs m r)"
  shows "\<exists>res rq h'. head_newRequest (reqs m) h r = Some (res, rq, h') \<and>
      lm_inv (put_head (m\<lparr>reqs := rq\<rparr>) h') \<and> others_kept r m (put_head (m\<lparr>reqs := rq\<rparr>) h') \<and>
      lock_outcome (put_head (m\<lparr>reqs := rq\<rparr>) h') resId r (mode (reqs m r)) res"
proof -
  have at: "head_at (reqs m) (ManagedHead resId) h"
    using inv d by (simp add: lm_inv_def state_ok_def)
  then have hi: "head_inv (reqs m) h" and th: "this h = ManagedHead resId"
    by (simp_all add: head_at_def)
  have nq: "r \<notin> queued h" using r(1) d unfolding lm_attached_def attached_def by blast
  have kept: "others_kept r m (put_head (m\<lparr>reqs := (reqs m)(r := q)\<rparr>) h')"
    if "this h' = ManagedHead resId" "\<And>x. x \<noteq> r \<Longrightarrow> x \<in> set (grantedList h') \<longleftrightarrow> x \<in> set (grantedList h)"
      "\<And>x. x \<noteq> r \<Longrightarrow> x \<in> set (conflictList h') \<longleftrightarrow> x \<in> set (conflictList h)" for q h'
    using that d by (auto simp: others_kept_def holder_def waiter_def)
  show ?thesis
  proof (cases "conflicts (mode (reqs m r)) (grantedModes h) \<or>
      compatibleFirstCount h = 0 \<and> conflicts (mode (reqs m r)) (conflictModes h)")
    case False
    let ?rq = "(reqs m)(r := attach h STATUS_GRANTED (reqs m r))"
    obtain h' where run: "head_newRequest (reqs m) h r = Some (LOCK_OK, ?rq, h')" "head_inv ?rq h'"
      and h': "grantedList h' = grantedList h @ [r]" "conflictList h' = conflictList h" "this h' = this h"
        "resourceId h' = resourceId h" "partitions h' = partitions h"
    proof -
      from False have "\<not> conflicts (mode (reqs m r)) (grantedModes h)"
        "compatibleFirstCount h = 0 \<longrightarrow> \<not> conflicts (mode (reqs m r)) (conflictModes h)" by blast+
      from that [OF newRequest_granted [OF hi nq r(4) this]] show thesis by simp
    qed
    let ?m = "put_head (m\<lparr>reqs := ?rq\<rparr>) h'"
    have "lm_inv ?m"
      by (rule attach_at_head [OF inv d ps r(1-3) run(2)]) (use h' ps in auto)
    moreover have "others_kept r m ?m" using h' th by (intro kept) auto
    moreover have "holder ?m resId r" using h' th by (simp add: holder_def)
    then have "lock_outcome ?m resId r (mode (reqs m r)) LOCK_OK"
      using r(2) by (simp add: lock_outcome_def attach_def)
    ultimately show ?thesis using run(1) by blast
  next
    case True
    let ?rq = "(reqs m)(r := attach h STATUS_WAITING (reqs m r))"
    obtain h' where run: "head_newRequest (reqs m) h r = Some (LOCK_WAITING, ?rq, h')" "head_inv ?rq h'"
      and h': "grantedList h' = grantedList h" "set (conflictList h') = insert r (set (conflictList h))"
        "this h' = this h" "resourceId h' = resourceId h" "partitions h' = partitions h"
      using newRequest_waiting [OF hi nq r(4) True] by simp
    let ?m = "put_head (m\<lparr>reqs := ?rq\<rparr>) h'"
    have "lm_inv ?m"
      by (rule attach_at_head [OF inv d ps r(1-3) run(2)]) (use h' ps in auto)
    moreover have "others_kept r m ?m" using h' th by (intro kept) auto
    moreover have "waiter ?m resId r" using h' th by (simp add: waiter_def)
    moreover have "\<exists>x. x \<noteq> r \<and>
        (holder ?m resId x \<and> (\<exists>k \<in># holds (reqs ?m x). mode_conflict (mode (reqs m r)) k) \<or>
         waiter ?m resId x \<and> mode_conflict (mode (reqs m r)) (mode (reqs ?m x)))"
    proof -
      obtain x where "x \<noteq> r" and x: "x \<in> set (grantedList h) \<and>
          (\<exists>k \<in># holds (reqs m x). mode_conflict (mode (reqs m r)) k) \<or>
          x \<in> set (conflictList h) \<and> mode_conflict (mode (reqs m r)) (mode (reqs m x))"
        using busy_cause [OF hi nq True] by blast
      moreover have "x \<in> set (grantedList h) \<Longrightarrow> holder ?m resId x"
        "x \<in> set (conflictList h) \<Longrightarrow> waiter ?m resId x" "reqs ?m x = reqs m x"
        using h' th \<open>x \<noteq> r\<close> by (simp_all add: holder_def waiter_def)
      ultimately show ?thesis by (intro exI [of _ x]) auto
    qed
    ultimately have "lock_outcome ?m resId r (mode (reqs m r)) LOCK_WAITING"
      using r(2) by (simp add: lock_outcome_def attach_def)
    with \<open>lm_inv ?m\<close> \<open>others_kept r m ?m\<close> show ?thesis using run(1) by blast
  qed
qed

subsection \<open>LockManager::lock\<close>

lemma start_partition_run:
  fixes p :: nat
  assumes inv: "lm_inv m" and d: "deref m (ManagedHead resId) = Some h"
    and held: "set_mset (heldModes (reqs m) (grantedList h)) \<subseteq> intents" "conflictList h = []"
  defines "m1 \<equiv> put_head (partition_findOrInsert m p resId) (h\<lparr>partitions := partitions h @ [p]\<rparr>)"
  shows "lm_inv m1" and "\<exists>pl. partition_find m1 p resId = Some pl"
    and "lm_attached m1 x = lm_attached m x" and "others_kept r m m1"
    and "reqs m1 = reqs m" and "notified m1 = notified m"
proof -
  let ?h = "h\<lparr>partitions := partitions h @ [p]\<rparr>"
  have ok: "state_ok (reqs m) (deref m) (partition_find m)" and tab: "tables_ok m"
    using inv by (simp_all add: lm_inv_def)
  have at: "head_at (reqs m) (ManagedHead resId) h" using state_okD(1) [OF ok d] .
  then have th: "this h = ManagedHead resId" by (simp add: head_at_def)
  have "head_at (reqs m) (ManagedHead resId) ?h" using at held by (simp add: head_at_def)
  then have ok1: "state_ok (reqs m) ((deref m)(ManagedHead resId \<mapsto> ?h)) (partition_find m)"
    using d by (intro state_ok_head [OF ok]) auto
  show "reqs m1 = reqs m" "notified m1 = notified m"
    by (simp_all add: m1_def partition_findOrInsert_def split: option.splits)
  have D: "deref m1 = (deref m)(ManagedHead resId \<mapsto> ?h)"
    using th by (simp add: m1_def partition_findOrInsert_def split: option.splits)
  have P: "partition_find m1 = (case partition_find m p resId of Some _ \<Rightarrow> partition_find m
      | None \<Rightarrow> (partition_find m)(p := (partition_find m p)(resId \<mapsto> \<lparr>partGrantedList = []\<rparr>)))"
    by (simp add: m1_def partition_findOrInsert_def split: option.splits)
  show "\<exists>pl. partition_find m1 p resId = Some pl" by (simp add: P split: option.splits)
  have "part_at (reqs m) ((deref m)(ManagedHead resId \<mapsto> ?h)) p resId \<lparr>partGrantedList = []\<rparr>"
    by (simp add: part_at_def)
  then have "state_ok (reqs m) ((deref m)(ManagedHead resId \<mapsto> ?h)) (partition_find m1)"
    using ok1 state_ok_part [OF ok1] by (auto simp: P split: option.splits)
  then show "lm_inv m1"
    using tab th by (simp add: lm_inv_def D m1_def partition_findOrInsert_def split: option.splits)
  have same: "at_part (partition_find m1) p2 res x = at_part (partition_find m) p2 res x" for p2 res x
    by (auto simp: P at_part_def split: option.splits)
  have "at_head (deref m1) ptr x = at_head (deref m) ptr x" for ptr x
    using d by (simp add: D at_head_def)
  with same show "lm_attached m1 x = lm_attached m x" by (simp add: lm_attached_def attached_iff)
  show "others_kept r m m1"
    using d same \<open>reqs m1 = reqs m\<close> by (simp add: others_kept_def holder_def waiter_def D)
qed

text \<open>The state of a request when lock has set its mode.\<close>

definition ready :: "LockManager \<Rightarrow> rid \<Rightarrow> LockMode \<Rightarrow> bool" where
  "ready m r newMode \<longleftrightarrow> \<not> lm_attached m r \<and> newMode \<noteq> MODE_NONE \<and> mode (reqs m r) = newMode \<and>
     recursiveCount (reqs m r) = 1 \<and> lock_ptr (reqs m r) = None \<and>
     partitionedLock (reqs m r) = None \<and> convertMode (reqs m r) = MODE_NONE \<and>
     (partitioned (reqs m r) \<longrightarrow> newMode \<in> intents)"

lemma lock_partitioned:
  assumes inv: "lm_inv m" and d: "deref m (ManagedHead resId) = Some h" and r: "ready m r newMode"
    and c: "partitioned (reqs m r)" "ucast (grantedModes h) AND NOT intentModes = 0" "conflictModes h = 0"
  defines "p \<equiv> getPartition (reqs m r)"
  shows "\<exists>m'. partitioned_newRequest (put_head (partition_findOrInsert m p resId)
           (h\<lparr>partitions := partitions h @ [p]\<rparr>)) p resId r = Some m' \<and> lm_inv m' \<and>
      others_kept r m m' \<and> lock_outcome m' resId r newMode LOCK_OK \<and> notified m' = notified m"
proof -
  let ?m = "put_head (partition_findOrInsert m p resId) (h\<lparr>partitions := partitions h @ [p]\<rparr>)"
  have "head_inv (reqs m) h" using inv d by (simp add: lm_inv_def state_ok_def head_at_def)
  from head_modes_intent [OF this] c
  have held: "set_mset (heldModes (reqs m) (grantedList h)) \<subseteq> intents" "conflictList h = []" by simp_all
  note sp = start_partition_run [OF inv d held, where p = p]
  obtain pl where pl: "partition_find ?m p resId = Some pl" using sp(2) by blast
  have q: "\<not> lm_attached ?m r" using sp(3) r by (simp add: ready_def)
  obtain m' where "partitioned_newRequest ?m p resId r = Some m'" "lm_inv m'"
      "others_kept r ?m m'" "lock_outcome m' resId r newMode LOCK_OK" "notified m' = notified ?m"
    using partition_entry_run [OF sp(1) pl q] sp(5) r c(1) by (auto simp: ready_def p_def)
  then show ?thesis using others_kept_trans [OF sp(4)] sp(6) by auto
qed

lemma lock_queued:
  assumes inv: "lm_inv m" and d: "deref m (ManagedHead resId) = Some h" and r: "ready m r newMode"
  shows "\<exists>m1 h1 res rq h'. migrate_if_partitioned m (ManagedHead resId) = Some m1 \<and>
      deref m1 (ManagedHead resId) = Some h1 \<and>
      head_newRequest (reqs (upd_req m1 r (\<lambda>q. q\<lparr>partitioned := False\<rparr>))) h1 r = Some (res, rq, h') \<and>
      lm_inv (put_head (upd_req m1 r (\<lambda>q. q\<lparr>partitioned := False\<rparr>)\<lparr>reqs := rq\<rparr>) h') \<and>
      others_kept r m (put_head (upd_req m1 r (\<lambda>q. q\<lparr>partitioned := False\<rparr>)\<lparr>reqs := rq\<rparr>) h') \<and>
      lock_outcome (put_head (upd_req m1 r (\<lambda>q. q\<lparr>partitioned := False\<rparr>)\<lparr>reqs := rq\<rparr>) h') resId r newMode res \<and>
      notified m1 = notified m"
proof -
  obtain m1 h1 where mig: "migrate_if_partitioned m (ManagedHead resId) = Some m1" "lm_inv m1"
      "migrated (ManagedHead resId) m m1" "deref m1 (ManagedHead resId) = Some h1" "partitions h1 = []"
    using migrate_run [OF inv d] by blast
  let ?m = "upd_req m1 r (\<lambda>q. q\<lparr>partitioned := False\<rparr>)"
  have r1: "\<not> lm_attached m1 r" "reqs m1 r = reqs m r"
    using migrated_places(3) [OF mig(3)] migrated_unattached [OF mig(3)] r by (simp_all add: ready_def)
  have r2: "\<not> lm_attached ?m r" "recursiveCount (reqs ?m r) = 1" "\<not> partitioned (reqs ?m r)"
      "may_queue (reqs ?m r)" "mode (reqs ?m r) = newMode"
    using r1 r by (simp_all add: ready_def may_queue_def)
  have d2: "deref ?m (ManagedHead resId) = Some h1" using mig(4) by simp
  obtain res rq h' where run: "head_newRequest (reqs ?m) h1 r = Some (res, rq, h')"
    and m': "lm_inv (put_head (?m\<lparr>reqs := rq\<rparr>) h')" "others_kept r ?m (put_head (?m\<lparr>reqs := rq\<rparr>) h')"
      "lock_outcome (put_head (?m\<lparr>reqs := rq\<rparr>) h') resId r newMode res"
    using enqueue_run [OF lm_inv_unattached [OF mig(2) r1(1)] d2 mig(5) r2(1-4)] r2(5) by auto
  have "others_kept r m (put_head (?m\<lparr>reqs := rq\<rparr>) h')"
    using others_kept_trans [OF migrated_kept [OF mig(3)] others_kept_trans [OF others_kept_upd_req m'(2)]] .
  with mig(1,4) run m' migratedD(1) [OF mig(3)] show ?thesis by blast
qed

lemma lock_bucket_section_run:
  assumes inv: "lm_inv m" and r: "ready m r newMode"
  shows "\<exists>res m'. lock_bucket_section m resId r = Some (res, m') \<and> lm_inv m' \<and> others_kept r m m' \<and>
      lock_outcome m' resId r newMode res \<and> notified m' = notified m"
proof -
  let ?m = "bucket_findOrInsert m resId"
  obtain h where d: "deref ?m (ManagedHead resId) = Some h" and inv1: "lm_inv ?m"
    and m: "reqs ?m = reqs m" "notified ?m = notified m" and k: "others_kept r m ?m"
    and att: "\<forall>x. lm_attached ?m x = lm_attached m x"
    using bucket_findOrInsert_run [OF inv] by blast
  have r1: "ready ?m r newMode" using r m att by (simp add: ready_def)
  show ?thesis
  proof (cases "partitioned (reqs ?m r) \<and> ucast (grantedModes h) AND NOT intentModes = 0 \<and>
      conflictModes h = 0")
    case True
    then show ?thesis
      using lock_partitioned [OF inv1 d r1] others_kept_trans [OF k] m(2) d
      by (auto simp: lock_bucket_section_def Let_def)
  next
    case False
    show ?thesis
      using lock_queued [OF inv1 d r1] others_kept_trans [OF k] m(2) d
      unfolding lock_bucket_section_def Let_def
      by (auto simp: if_not_P [OF False] simp del: reqs_upd_req)
  qed
qed

lemma lock_run:
  assumes inv: "lm_inv m" and r: "\<not> lm_attached m r" "fresh_request (reqs m r)"
    and md: "newMode \<noteq> MODE_NONE"
  shows "\<exists>res m'. lm_lock m resId r newMode = Some (res, m') \<and> lm_inv m' \<and> others_kept r m m' \<and>
      lock_outcome m' resId r newMode res \<and> notified m' = notified m"
proof -
  define m0 where "m0 = upd_req m r (\<lambda>q. q\<lparr>partitioned := (newMode = MODE_IX \<or> newMode = MODE_IS),
                                            mode := newMode\<rparr>)"
  let ?p = "getPartition (reqs m0 r)"
  have m0: "lm_inv m0" "others_kept r m m0" "notified m0 = notified m"
    using lm_inv_unattached [OF inv r(1)] r(1) by (simp_all add: m0_def)
  have r0: "ready m0 r newMode"
    using r md by (auto simp: fresh_request_def m0_def ready_def)
  have start: "lm_lock m resId r newMode =
      (if partitioned (reqs m0 r) \<and> partition_find m0 ?p resId \<noteq> None
       then partitioned_newRequest m0 ?p resId r \<bind> (\<lambda>m. Some (LOCK_OK, m))
       else lock_bucket_section m0 resId r)"
    unfolding lm_lock_def m0_def [symmetric] Let_def using r(2) by (simp add: fresh_request_def)
  show ?thesis
  proof (cases "partitioned (reqs m0 r) \<and> partition_find m0 ?p resId \<noteq> None")
    case True
    then obtain pl where pl: "partition_find m0 ?p resId = Some pl" by blast
    obtain m' where "partitioned_newRequest m0 ?p resId r = Some m'" "lm_inv m'" "others_kept r m0 m'"
        "lock_outcome m' resId r newMode LOCK_OK" "notified m' = notified m0"
      using partition_entry_run [OF m0(1) pl] True r0 by (auto simp: ready_def)
    then show ?thesis using start True others_kept_trans [OF m0(2)] m0(3) by auto
  next
    case False
    then have "lm_lock m resId r newMode = lock_bucket_section m0 resId r" using start by (simp only: if_False)
    then show ?thesis
      using lock_bucket_section_run [OF m0(1) r0, of resId] others_kept_trans [OF m0(2)] m0(3) by metis
  qed
qed

end
