(* ===== verification/Lock_Manager_Release.thy ===== *)
theory Lock_Manager_Release
  imports Lock_Manager_Lock
begin

text \<open>
  LockManager::convert, unlock, downgrade and cleanupUnusedLocks keep the invariant of the
  lock manager, fail no \<open>invariant\<close> of the code, and wake exactly the requests they notify.
\<close>

subsection \<open>Writing back one head\<close>

lemma head_write:
  assumes inv: "lm_inv m" and d: "deref m ptr = Some h" and h': "head_at rq ptr h'"
    and ps: "partitions h' = partitions h"
    and frame: "\<And>x. rq x \<noteq> reqs m x \<Longrightarrow> x \<in> queued h"
  shows "lm_inv (put_head (m\<lparr>reqs := rq, notified := ns\<rparr>) h')"
proof -
  have ok: "state_ok (reqs m) (deref m) (partition_find m)" and tab: "tables_ok m"
    using inv by (simp_all add: lm_inv_def)
  have at: "at_head (deref m) ptr x" if "rq x \<noteq> reqs m x" for x
    using frame [OF that] d by (simp add: at_head_def)
  have "state_ok rq ((deref m)(ptr \<mapsto> h')) (partition_find m)"
    using d ps at by (intro state_ok_head [OF ok h']) auto
  then show ?thesis using tab h' by (simp add: lm_inv_def head_at_def)
qed

lemma head_write_reqs:
  assumes "lm_inv m" and "deref m ptr = Some h" and "head_at rq ptr h'"
    and "partitions h' = partitions h" and "\<And>x. rq x \<noteq> reqs m x \<Longrightarrow> x \<in> queued h"
  shows "lm_inv (put_head (m\<lparr>reqs := rq\<rparr>) h')"
  using head_write [OF assms, of "notified m"] by simp

lemma lm_inv_head: "lm_inv m \<Longrightarrow> deref m ptr = Some h \<Longrightarrow> head_at (reqs m) ptr h"
  by (simp add: lm_inv_def state_ok_def)

lemma others_kept_put_head:
  assumes "this h' = ptr" and "deref m ptr = Some h" and "\<And>x. x \<noteq> r \<Longrightarrow> rq x = reqs m x"
    and "\<And>x. x \<noteq> r \<Longrightarrow> x \<in> set (grantedList h') \<longleftrightarrow> x \<in> set (grantedList h)"
    and "\<And>x. x \<noteq> r \<Longrightarrow> x \<in> set (conflictList h') \<longleftrightarrow> x \<in> set (conflictList h)"
  shows "others_kept r m (put_head (m\<lparr>reqs := rq\<rparr>) h')"
  using assms by (auto simp: others_kept_def holder_def waiter_def)

lemma lm_inv_recount:
  assumes inv: "lm_inv m" and r: "status (reqs m r) = STATUS_GRANTED" and n: "1 \<le> n"
  shows "lm_inv (upd_req m r (\<lambda>q. q\<lparr>recursiveCount := n\<rparr>))"
proof -
  let ?rq = "(reqs m)(r := (reqs m r)\<lparr>recursiveCount := n\<rparr>)"
  have ok: "state_ok (reqs m) (deref m) (partition_find m)" and tab: "tables_ok m"
    using inv by (simp_all add: lm_inv_def)
  have "head_at ?rq ptr h" if "deref m ptr = Some h" for ptr h
  proof -
    have at: "head_at (reqs m) ptr h" using state_okD(1) [OF ok that] .
    have "head_inv ?rq h = head_inv (reqs m) h" by (rule head_inv_cong) simp
    moreover have "heldModes ?rq (grantedList h) = heldModes (reqs m) (grantedList h)"
      by (rule heldModes_cong) (simp add: holds_def)
    ultimately show ?thesis using at r n by (auto simp: head_at_def slot_ok_def)
  qed
  moreover have "part_at ?rq (deref m) p resId pl" if "partition_find m p resId = Some pl" for p resId pl
    using state_okD(2) [OF ok that] n by (auto simp: part_at_def part_ok_def getPartition_def)
  ultimately show ?thesis using tab by (simp add: lm_inv_def state_ok_def)
qed

lemma lm_inv_part:
  "lm_inv m \<Longrightarrow> partition_find m p resId = Some pl \<Longrightarrow> part_at (reqs m) (deref m) p resId pl"
  by (simp add: lm_inv_def state_ok_def)

lemma holder_status:
  assumes inv: "lm_inv m" and r: "holder m resId r"
  shows "status (reqs m r) = STATUS_GRANTED \<or> status (reqs m r) = STATUS_CONVERTING"
    and "mode (reqs m r) \<noteq> MODE_NONE" and "1 \<le> recursiveCount (reqs m r)"
proof -
  have "(status (reqs m r) = STATUS_GRANTED \<or> status (reqs m r) = STATUS_CONVERTING) \<and>
      mode (reqs m r) \<noteq> MODE_NONE \<and> 1 \<le> recursiveCount (reqs m r)"
  proof (cases "\<exists>p. at_part (partition_find m) p resId r")
    case True
    then obtain p pl where "partition_find m p resId = Some pl" "r \<in> set (partGrantedList pl)"
      by (auto simp: at_part_def)
    then have "part_ok (reqs m r) p resId" using lm_inv_part [OF inv] by (auto simp: part_at_def)
    then show ?thesis by (auto simp: part_ok_def)
  next
    case False
    with r obtain h where d: "deref m (ManagedHead resId) = Some h" "r \<in> set (grantedList h)"
      unfolding holder_def by blast
    then have at: "head_at (reqs m) (ManagedHead resId) h" using lm_inv_head [OF inv] by blast
    then have "granted_ok (reqs m r)" "slot_ok (reqs m r)"
      using d(2) by (simp_all add: head_at_def head_inv_def head_ok_def)
    then show ?thesis by (auto simp: granted_ok_def slot_ok_def)
  qed
  then show "status (reqs m r) = STATUS_GRANTED \<or> status (reqs m r) = STATUS_CONVERTING"
    "mode (reqs m r) \<noteq> MODE_NONE" "1 \<le> recursiveCount (reqs m r)" by blast+
qed

lemma holder_has_head:
  assumes inv: "lm_inv m" and r: "holder m resId r"
  shows "\<exists>h. deref m (ManagedHead resId) = Some h"
proof (cases "\<exists>p. at_part (partition_find m) p resId r")
  case True
  then obtain p pl where "partition_find m p resId = Some pl" by (auto simp: at_part_def)
  from lm_inv_part [OF inv this] show ?thesis by (auto simp: part_at_def)
next
  case False
  with r show ?thesis unfolding holder_def by blast
qed

lemma heldModes_single: "status q = STATUS_GRANTED \<Longrightarrow> holds q = {#mode q#}"
  by (simp add: holds_def)

subsection \<open>LockManager::convert\<close>

definition convert_outcome ::
  "LockManager \<Rightarrow> LockManager \<Rightarrow> ResourceId \<Rightarrow> rid \<Rightarrow> LockMode \<Rightarrow> LockResult \<Rightarrow> bool" where
  "convert_outcome m m' resId r newMode res \<longleftrightarrow>
     holder m' resId r \<and> recursiveCount (reqs m' r) = recursiveCount (reqs m r) + 1 \<and>
     (res = LOCK_OK \<and> status (reqs m' r) = STATUS_GRANTED \<and>
        mode (reqs m' r) = (if isModeCovered newMode (mode (reqs m r)) then mode (reqs m r) else newMode) \<or>
      res = LOCK_WAITING \<and> status (reqs m' r) = STATUS_CONVERTING \<and>
        mode (reqs m' r) = mode (reqs m r) \<and> convertMode (reqs m' r) = newMode \<and>
        (\<exists>x. x \<noteq> r \<and> holder m' resId x \<and> (\<exists>k \<in># holds (reqs m' x). mode_conflict newMode k)))"

text \<open>A granted request with its head, seen apart from the other holders.\<close>

lemma head_at_others:
  assumes at: "head_at rq ptr h" and r: "r \<in> set (grantedList h)" "status (rq r) = STATUS_GRANTED"
  defines "M \<equiv> heldModes rq (remove1 r (grantedList h))"
  shows "grants h (add_mset (mode (rq r)) M)" and "heldModes rq (grantedList h) = add_mset (mode (rq r)) M"
    and "conflicts md (grantedModesWithout (grantedCounts h) (requestHolds (rq r))) \<longleftrightarrow>
           (\<exists>k \<in># M. mode_conflict md k)"
proof -
  have ok: "head_ok rq h" using at by (simp add: head_at_def head_inv_def)
  have single: "holds (rq r) = {#mode (rq r)#}" using r(2) by (simp add: holds_def)
  show gr: "grants h (add_mset (mode (rq r)) M)" using grants_other [OF ok r(1)] single by (simp add: M_def)
  show "heldModes rq (grantedList h) = add_mset (mode (rq r)) M"
    using heldModes_remove1 [OF r(1), of rq] single by (simp add: M_def)
  have "requestHolds (rq r) = count {#mode (rq r)#}" by (auto simp: requestHolds_def)
  then show "conflicts md (grantedModesWithout (grantedCounts h) (requestHolds (rq r))) \<longleftrightarrow>
      (\<exists>k \<in># M. mode_conflict md k)"
    using conflicts_without [of h "{#mode (rq r)#}" M md] gr by simp
qed

text \<open>The conversion of a request that is on the granted queue of an unpartitioned head.\<close>

lemma convert_wait_run:
  assumes inv: "lm_inv m" and d: "deref m (ManagedHead resId) = Some h" and ps: "partitions h = []"
    and r: "r \<in> set (grantedList h)" "status (reqs m r) = STATUS_GRANTED" "2 \<le> recursiveCount (reqs m r)"
    and cov: "isModeCovered (mode (reqs m r)) newMode" "\<not> isModeCovered newMode (mode (reqs m r))"
    and busy: "conflicts newMode (grantedModesWithout (grantedCounts h) (requestHolds (reqs m r)))"
  defines "m1 \<equiv> upd_req m r (\<lambda>q. q\<lparr>status := STATUS_CONVERTING, convertMode := newMode\<rparr>)"
  shows "\<exists>h1. incGrantedModeCount (h\<lparr>conversionsCount := conversionsCount h + 1\<rparr>) newMode = Some h1 \<and>
      lm_inv (put_head m1 h1) \<and> others_kept r m (put_head m1 h1) \<and> holder (put_head m1 h1) resId r \<and>
      (\<exists>x. x \<noteq> r \<and> holder (put_head m1 h1) resId x \<and>
           (\<exists>k \<in># holds (reqs (put_head m1 h1) x). mode_conflict newMode k))"
proof -
  let ?M = "heldModes (reqs m) (remove1 r (grantedList h))"
  let ?rq = "(reqs m)(r := (reqs m r)\<lparr>status := STATUS_CONVERTING, convertMode := newMode\<rparr>)"
  let ?h = "set_grants (add_mset newMode (heldModes (reqs m) (grantedList h)))
              (h\<lparr>conversionsCount := conversionsCount h + 1\<rparr>)"
  have at: "head_at (reqs m) (ManagedHead resId) h" using lm_inv_head [OF inv d] .
  then have hi: "head_inv (reqs m) h" and th: "this h = ManagedHead resId" by (simp_all add: head_at_def)
  have dist: "distinct (grantedList h)" using hi by (simp add: head_inv_def head_ok_def)
  have ex: "\<exists>k \<in># ?M. mode_conflict newMode k" using head_at_others(3) [OF at r(1,2)] busy by simp
  have "grants (h\<lparr>conversionsCount := conversionsCount h + 1\<rparr>) (heldModes (reqs m) (grantedList h))"
    using head_at_others(1,2) [OF at r(1,2)] by simp
  note run = inc_granted [OF this, of newMode]
  have "head_inv ?rq ?h" by (rule convert_later [OF hi r(1,2) cov ex])
  then have "head_at ?rq (ManagedHead resId) ?h"
    using at ps r(3) by (auto simp: head_at_def slot_ok_def)
  then have "lm_inv (put_head (m\<lparr>reqs := ?rq\<rparr>) ?h)"
    by (rule head_write_reqs [OF inv d]) (use r(1) in \<open>auto split: if_splits\<close>)
  moreover have "others_kept r m (put_head (m\<lparr>reqs := ?rq\<rparr>) ?h)"
    using th d by (intro others_kept_put_head) auto
  moreover have "holder (put_head m1 ?h) resId r" using th r(1) by (simp add: holder_def)
  moreover obtain x k where "x \<in> set (remove1 r (grantedList h))" "k \<in># holds (reqs m x)"
      "mode_conflict newMode k"
    using ex by (auto simp: in_heldModes)
  then have "x \<noteq> r \<and> holder (put_head m1 ?h) resId x \<and>
      (\<exists>k \<in># holds (reqs (put_head m1 ?h) x). mode_conflict newMode k)"
    using dist th by (auto simp: holder_def m1_def)
  ultimately show ?thesis using run unfolding m1_def upd_req_def by blast
qed

lemma convert_grant_run:
  assumes inv: "lm_inv m" and d: "deref m (ManagedHead resId) = Some h" and ps: "partitions h = []"
    and r: "r \<in> set (grantedList h)" "status (reqs m r) = STATUS_GRANTED"
    and cov: "isModeCovered (mode (reqs m r)) newMode" "\<not> isModeCovered newMode (mode (reqs m r))"
    and free: "\<not> conflicts newMode (grantedModesWithout (grantedCounts h) (requestHolds (reqs m r)))"
  defines "m1 \<equiv> upd_req m r (\<lambda>q. q\<lparr>mode := newMode\<rparr>)"
  shows "\<exists>h1 h2. incGrantedModeCount h newMode = Some h1 \<and>
      decGrantedModeCount h1 (mode (reqs m r)) = Some h2 \<and>
      lm_inv (put_head m1 h2) \<and> others_kept r m (put_head m1 h2) \<and> holder (put_head m1 h2) resId r"
proof -
  let ?M = "heldModes (reqs m) (remove1 r (grantedList h))"
  let ?rq = "(reqs m)(r := (reqs m r)\<lparr>mode := newMode\<rparr>)"
  let ?h1 = "set_grants (add_mset newMode (add_mset (mode (reqs m r)) ?M)) h"
  let ?h = "set_grants (add_mset newMode ?M) h"
  have at: "head_at (reqs m) (ManagedHead resId) h" using lm_inv_head [OF inv d] .
  then have hi: "head_inv (reqs m) h" and th: "this h = ManagedHead resId" by (simp_all add: head_at_def)
  have nn: "newMode \<noteq> MODE_NONE" using cov by auto
  have nc: "\<not> (\<exists>k \<in># ?M. mode_conflict newMode k)" using head_at_others(3) [OF at r] free by simp
  have i: "incGrantedModeCount h newMode = Some ?h1"
    using inc_granted [OF head_at_others(1) [OF at r]] .
  have "grants ?h1 (add_mset (mode (reqs m r)) (add_mset newMode ?M))"
    by (simp add: grants_def add_mset_commute)
  from dec_granted [OF this] have dec: "decGrantedModeCount ?h1 (mode (reqs m r)) = Some ?h" by simp
  have "head_inv ?rq ?h" by (rule convert_now [OF hi r cov(1) nn nc])
  then have "head_at ?rq (ManagedHead resId) ?h"
    using at ps by (auto simp: head_at_def slot_ok_def)
  then have "lm_inv (put_head (m\<lparr>reqs := ?rq\<rparr>) ?h)"
    by (rule head_write_reqs [OF inv d]) (use r(1) in \<open>auto split: if_splits\<close>)
  moreover have "others_kept r m (put_head (m\<lparr>reqs := ?rq\<rparr>) ?h)"
    using th d by (intro others_kept_put_head) auto
  moreover have "holder (put_head m1 ?h) resId r" using th r(1) by (simp add: holder_def)
  ultimately show ?thesis using i dec unfolding m1_def upd_req_def by blast
qed

lemma covered_table:
  "LockConflictsTable a OR LockConflictsTable b = LockConflictsTable a \<longleftrightarrow> isModeCovered b a"
  "LockConflictsTable a OR LockConflictsTable b = LockConflictsTable b \<longleftrightarrow> isModeCovered a b"
  by (simp_all add: isModeCovered_def or.commute)

lemma convert_run:
  assumes inv: "lm_inv m" and r: "holder m resId r" "status (reqs m r) = STATUS_GRANTED"
    and cov: "isModeCovered newMode (mode (reqs m r)) \<or> isModeCovered (mode (reqs m r)) newMode"
  shows "\<exists>res m'. lm_convert m resId r newMode = Some (res, m') \<and> lm_inv m' \<and> others_kept r m m' \<and>
      convert_outcome m m' resId r newMode res \<and> notified m' = notified m"
proof -
  define m0 where "m0 = upd_req m r (\<lambda>q. q\<lparr>recursiveCount := recursiveCount q + 1\<rparr>)"
  let ?q = "reqs m r"
  have count: "1 \<le> recursiveCount ?q" using holder_status(3) [OF inv r(1)] .
  have "m0 = upd_req m r (\<lambda>q. q\<lparr>recursiveCount := recursiveCount ?q + 1\<rparr>)"
    by (simp add: m0_def upd_req_def)
  then have inv0: "lm_inv m0" using lm_inv_recount [OF inv r(2)] by simp
  have q0: "reqs m0 r = ?q\<lparr>recursiveCount := recursiveCount ?q + 1\<rparr>" by (simp add: m0_def)
  have m0: "holder m0 resId r" "others_kept r m m0" "notified m0 = notified m"
    using r(1) by (simp_all add: m0_def)
  show ?thesis
  proof (cases "isModeCovered newMode (mode ?q)")
    case True
    then have "lm_convert m resId r newMode = Some (LOCK_OK, m0)"
      unfolding lm_convert_def m0_def [symmetric] Let_def
      using r(2) count by (simp add: q0 covered_table)
    moreover have "convert_outcome m m0 resId r newMode LOCK_OK"
      using True m0 r(2) by (simp add: convert_outcome_def q0)
    ultimately show ?thesis using inv0 m0 by blast
  next
    case False
    then have cov1: "isModeCovered (mode ?q) newMode" using cov by blast
    obtain h0 where d0: "deref m0 (ManagedHead resId) = Some h0"
      using holder_has_head [OF inv0 m0(1)] by blast
    obtain m1 h1 where mig: "migrate_if_partitioned m0 (ManagedHead resId) = Some m1" "lm_inv m1"
        "migrated (ManagedHead resId) m0 m1" "deref m1 (ManagedHead resId) = Some h1" "partitions h1 = []"
      using migrate_run [OF inv0 d0] by blast
    have "holder m1 resId r" using migrated_places(1) [OF mig(3)] m0(1) by simp
    then have rg: "r \<in> set (grantedList h1)"
      using no_parts_no_entries [OF mig(2,4,5)] mig(4) by (auto simp: holder_def)
    have q1: "mode (reqs m1 r) = mode ?q" "status (reqs m1 r) = STATUS_GRANTED"
        "recursiveCount (reqs m1 r) = recursiveCount ?q + 1"
      using migrated_reqs [OF mig(3), of r] r(2) by (simp_all add: same_claim_def q0)
    have k1: "others_kept r m m1" "notified m1 = notified m"
      using others_kept_trans [OF m0(2) migrated_kept [OF mig(3)]] migratedD(1) [OF mig(3)] m0(3) by simp_all
    have start: "lm_convert m resId r newMode =
       (if conflicts newMode (grantedModesWithout (grantedCounts h1) (requestHolds (reqs m1 r))) then do {
         h \<leftarrow> incGrantedModeCount (h1\<lparr>conversionsCount := conversionsCount h1 + 1\<rparr>) newMode;
         Some (LOCK_WAITING, put_head (upd_req m1 r
                 (\<lambda>q. q\<lparr>status := STATUS_CONVERTING, convertMode := newMode\<rparr>)) h)
       } else do {
         h \<leftarrow> incGrantedModeCount h1 newMode;
         h \<leftarrow> decGrantedModeCount h (mode (reqs m1 r));
         Some (LOCK_OK, put_head (upd_req m1 r (\<lambda>q. q\<lparr>mode := newMode\<rparr>)) h)
       })"
      unfolding lm_convert_def m0_def [symmetric] Let_def
      using r(2) count d0 mig(1,4) cov1 False by (simp add: q0 covered_table del: reqs_upd_req)
    show ?thesis
    proof (cases "conflicts newMode (grantedModesWithout (grantedCounts h1) (requestHolds (reqs m1 r)))")
      case True
      let ?m = "upd_req m1 r (\<lambda>q. q\<lparr>status := STATUS_CONVERTING, convertMode := newMode\<rparr>)"
      obtain h2 where run: "incGrantedModeCount (h1\<lparr>conversionsCount := conversionsCount h1 + 1\<rparr>) newMode = Some h2"
        and m2: "lm_inv (put_head ?m h2)" "others_kept r m1 (put_head ?m h2)" "holder (put_head ?m h2) resId r"
        and ex: "\<exists>x. x \<noteq> r \<and> holder (put_head ?m h2) resId x \<and>
           (\<exists>k \<in># holds (reqs (put_head ?m h2) x). mode_conflict newMode k)"
        using convert_wait_run [OF mig(2,4,5) rg q1(2) _ _ _ True] q1 cov1 False count by auto
      have "convert_outcome m (put_head ?m h2) resId r newMode LOCK_WAITING"
        unfolding convert_outcome_def using m2(3) ex q1 by (intro conjI disjI2) simp_all
      with run m2(1) others_kept_trans [OF k1(1) m2(2)] k1(2) start True show ?thesis by auto
    next
      case free: False
      then show ?thesis
        using convert_grant_run [OF mig(2,4,5) rg q1(2) _ _ free] q1 cov1 False start k1 others_kept_trans [OF k1(1)]
        by (auto simp: convert_outcome_def)
    qed
  qed
qed

end
