(* ===== verification/Lock_Manager_Unlock.thy ===== *)
theory Lock_Manager_Unlock
  imports Lock_Manager_Release
begin

text \<open>
  LockManager::unlock and downgrade: after a release or a downgrade the head is rescanned,
  and exactly the requests that become granted are notified.
\<close>

subsection \<open>Rescanning a head of the lock manager\<close>

definition wanted :: "LockRequest \<Rightarrow> LockMode" where
  "wanted q = (if status q = STATUS_CONVERTING then convertMode q else mode q)"

text \<open>
  The effect of an operation on \<open>r\<close>, whose head is \<open>ptr\<close>, on all other requests: those in
  \<open>news\<close> were blocked and are granted what they wanted, in the order they are notified; nothing
  changes for the rest.
\<close>

definition woken :: "LockHeadPtr \<Rightarrow> rid \<Rightarrow> LockManager \<Rightarrow> LockManager \<Rightarrow> rid list \<Rightarrow> bool" where
  "woken ptr r m m' news \<longleftrightarrow>
     notified m' = notified m @ map (\<lambda>x. (x, ptr_resource ptr, LOCK_OK)) news \<and>
     distinct news \<and> r \<notin> set news \<and>
     (\<forall>x \<in> set news. at_head (deref m) ptr x \<and>
        (status (reqs m x) = STATUS_WAITING \<or> status (reqs m x) = STATUS_CONVERTING) \<and>
        status (reqs m' x) = STATUS_GRANTED \<and> mode (reqs m' x) = wanted (reqs m x) \<and>
        (\<exists>h. deref m' ptr = Some h \<and> x \<in> set (grantedList h))) \<and>
     (\<forall>x. x \<noteq> r \<longrightarrow> x \<notin> set news \<longrightarrow> same_claim (reqs m x) (reqs m' x) \<and>
        (\<forall>resId. holder m' resId x = holder m resId x \<and> waiter m' resId x = waiter m resId x))"

lemma woken_none:
  "others_kept r m m' \<Longrightarrow> notified m' = notified m \<Longrightarrow> woken ptr r m m' []"
  by (simp add: woken_def others_kept_def)

lemma slot_ok_rescan:
  "slot_ok q \<Longrightarrow> q' = q \<or> q' = grant_conversion q \<or> q' = grant_waiting q \<Longrightarrow> slot_ok q'"
  by (auto simp: slot_ok_def grant_conversion_def grant_waiting_def)

lemma holds_granted_conversion:
  "status q = STATUS_CONVERTING \<Longrightarrow> set_mset (holds (grant_conversion q)) \<subseteq> set_mset (holds q)"
  by (simp add: holds_def grant_conversion_def)

lemma rescan_frame_fields:
  assumes "rescan_frame rq h rq' h' news"
  shows "this h' = this h" "resourceId h' = resourceId h" "partitions h' = partitions h"
  using assms unfolding rescan_frame_def by blast+

lemma head_at_rescan:
  assumes h: "this h = ptr" "resourceId h = ptr_resource ptr" and slots: "\<forall>x \<in> queued h. slot_ok (rq x)"
    and parts: "partitions h \<noteq> [] \<longrightarrow> is_managed ptr \<and>
        set_mset (heldModes rq (grantedList h)) \<subseteq> intents \<and> conflictList h = []"
    and inv: "head_inv rq' h'" and fr: "rescan_frame rq h rq' h' news"
  shows "head_at rq' ptr h'" and "queued h' = queued h"
proof -
  obtain gs where gs: "grantedList h' = grantedList h @ gs"
      "conflictList h' = filter (\<lambda>x. x \<notin> set gs) (conflictList h)" "set gs \<subseteq> set (conflictList h)"
    using fr unfolding rescan_frame_def by blast
  have rq: "rq' y = rq y \<or> converting rq y \<and> rq' y = grant_conversion (rq y) \<or>
      y \<in> set (conflictList h) \<and> rq' y = grant_waiting (rq y)" for y
    using fr unfolding rescan_frame_def by blast
  show q: "queued h' = queued h" unfolding gs(1,2) using gs(3) by auto
  have "\<forall>x \<in> queued h'. slot_ok (rq' x)"
    unfolding q using slots rq slot_ok_rescan by blast
  moreover have "set_mset (heldModes rq' (grantedList h')) \<subseteq> intents \<and> conflictList h' = []"
    if "partitions h \<noteq> []"
  proof -
    have cl: "conflictList h = []" and held: "set_mset (heldModes rq (grantedList h)) \<subseteq> intents"
      using parts that by simp_all
    have "set_mset (holds (rq' x)) \<subseteq> set_mset (holds (rq x))" for x
      using rq [of x] cl holds_granted_conversion [of "rq x"] by (auto simp: converting_def)
    then have "k \<in># heldModes rq (grantedList h)" if "k \<in># heldModes rq' (grantedList h)" for k
      using that unfolding in_heldModes by blast
    then show ?thesis using held gs cl by auto
  qed
  ultimately show "head_at rq' ptr h'"
    using inv h parts rescan_frame_fields [OF fr] by (simp add: head_at_def)
qed

text \<open>
  The state before an operation is \<open>m\<close>, with head \<open>h0\<close>; the operation has changed requests of that
  head to \<open>rq\<close> and the head to \<open>h\<close> when it calls \_onLockModeChanged.
\<close>

lemma rescan_run:
  assumes inv: "lm_inv m" and d: "deref m ptr = Some h0"
    and h: "head_ok rq h" "this h = ptr" "resourceId h = ptr_resource ptr" "partitions h = partitions h0"
      "set (grantedList h) \<subseteq> set (grantedList h0)" "set (conflictList h) \<subseteq> set (conflictList h0)"
    and stay: "check \<or> (conflictList h \<noteq> [] \<longrightarrow> grantedList h \<noteq> []) \<and> front_blocked rq h"
    and slots: "\<forall>x \<in> queued h. slot_ok (rq x)"
    and parts: "partitions h \<noteq> [] \<longrightarrow> set_mset (heldModes rq (grantedList h)) \<subseteq> intents"
    and frame: "\<And>x. rq x \<noteq> reqs m x \<Longrightarrow> x \<in> queued h0"
  shows "\<exists>rq' h' news. rescan m rq h check = Some (put_head (m\<lparr>reqs := rq', notified :=
             notified m @ map (\<lambda>x. (x, ptr_resource ptr, LOCK_OK)) news\<rparr>) h') \<and>
         lm_inv (put_head (m\<lparr>reqs := rq', notified :=
             notified m @ map (\<lambda>x. (x, ptr_resource ptr, LOCK_OK)) news\<rparr>) h') \<and>
         rescan_frame rq h rq' h' news"
proof -
  have at: "head_at (reqs m) ptr h0" using lm_inv_head [OF inv d] .
  then have p0: "partitions h0 \<noteq> [] \<longrightarrow> is_managed ptr \<and> conflictList h0 = []" by (simp add: head_at_def)
  obtain rq' h' news where run: "onLockModeChanged (rq, h, notified m) check =
        Some (rq', h', notified m @ map (\<lambda>x. (x, resourceId h, LOCK_OK)) news)"
      and inv': "head_inv rq' h'" and fr: "rescan_frame rq h rq' h' news"
    using onLockModeChanged_run [OF h(1) stay] by blast
  have "partitions h \<noteq> [] \<longrightarrow> is_managed ptr \<and>
      set_mset (heldModes rq (grantedList h)) \<subseteq> intents \<and> conflictList h = []"
    using parts p0 h(4,6) by auto
  note new = head_at_rescan [OF h(2,3) slots this inv' fr]
  have "partitions h' = partitions h0" using rescan_frame_fields [OF fr] h(4) by simp
  moreover have "x \<in> queued h0" if "rq' x \<noteq> reqs m x" for x
  proof (cases "rq x = reqs m x")
    case True
    with that have "rq' x \<noteq> rq x" by simp
    then have "x \<in> queued h" using fr unfolding rescan_frame_def by blast
    then show ?thesis using h(5,6) by auto
  qed (rule frame)
  ultimately have "lm_inv (put_head (m\<lparr>reqs := rq', notified :=
             notified m @ map (\<lambda>x. (x, ptr_resource ptr, LOCK_OK)) news\<rparr>) h')"
    by (intro head_write [OF inv d new(1)])
  moreover have "rescan m rq h check = Some (put_head (m\<lparr>reqs := rq', notified :=
             notified m @ map (\<lambda>x. (x, ptr_resource ptr, LOCK_OK)) news\<rparr>) h')"
    using run h(3) by (simp add: rescan_def)
  ultimately show ?thesis using fr by blast
qed

lemma rescan_frame_news:
  assumes ok: "head_ok rq h" and inv: "head_inv rq' h'" and fr: "rescan_frame rq h rq' h' news"
  shows "x \<in> set news \<Longrightarrow> x \<in> queued h \<and> (status (rq x) = STATUS_WAITING \<or> status (rq x) = STATUS_CONVERTING) \<and>
      status (rq' x) = STATUS_GRANTED \<and> mode (rq' x) = wanted (rq x) \<and> x \<in> set (grantedList h')"
    and "x \<notin> set news \<Longrightarrow> rq' x = rq x \<and> (x \<in> set (grantedList h') \<longleftrightarrow> x \<in> set (grantedList h)) \<and>
      (x \<in> set (conflictList h') \<longleftrightarrow> x \<in> set (conflictList h))"
proof -
  obtain gs where gs: "grantedList h' = grantedList h @ gs"
      "conflictList h' = filter (\<lambda>x. x \<notin> set gs) (conflictList h)" "set gs \<subseteq> set (conflictList h)"
    using fr unfolding rescan_frame_def by blast
  have st: "x \<in> set (conflictList h) \<Longrightarrow> status (rq x) = STATUS_WAITING"
      "x \<in> set (grantedList h) \<Longrightarrow> status (rq x) = STATUS_GRANTED \<or> status (rq x) = STATUS_CONVERTING" for x
    using ok by (auto simp: head_ok_def waiting_ok_def granted_ok_def)
  have st': "x \<in> set (conflictList h') \<Longrightarrow> status (rq' x) = STATUS_WAITING"
      "x \<in> set (grantedList h') \<Longrightarrow> status (rq' x) \<noteq> STATUS_WAITING" for x
    using inv by (auto simp: head_inv_def head_ok_def waiting_ok_def granted_ok_def)
  have rq: "rq' x = rq x \<or> status (rq x) = STATUS_CONVERTING \<and> rq' x = grant_conversion (rq x) \<or>
      x \<in> set (conflictList h) \<and> rq' x = grant_waiting (rq x)" for x
    using fr unfolding rescan_frame_def converting_def by blast
  have news: "x \<in> set news \<longleftrightarrow> x \<in> queued h \<and>
      status (rq x) \<noteq> STATUS_GRANTED \<and> status (rq' x) = STATUS_GRANTED" for x
    using fr unfolding rescan_frame_def by blast
  have q: "queued h' = queued h" unfolding gs(1,2) using gs(3) by auto
  {
    assume x: "x \<in> set news"
    then have nx: "x \<in> queued h" "status (rq x) \<noteq> STATUS_GRANTED" "status (rq' x) = STATUS_GRANTED"
      using news by blast+
    have "x \<notin> set (conflictList h')" using st'(1) [of x] nx(3) by auto
    then have "x \<in> set (grantedList h')" using nx(1) q by blast
    moreover have "status (rq x) = STATUS_WAITING \<or> status (rq x) = STATUS_CONVERTING"
      using st [of x] nx(1,2) by blast
    moreover have "mode (rq' x) = wanted (rq x)"
    proof -
      have "rq' x \<noteq> rq x" using nx(2,3) by auto
      with rq [of x] consider "status (rq x) = STATUS_CONVERTING" "rq' x = grant_conversion (rq x)"
        | "status (rq x) = STATUS_WAITING" "rq' x = grant_waiting (rq x)" using st(1) by blast
      then show ?thesis
        by cases (simp_all add: wanted_def grant_conversion_def grant_waiting_def)
    qed
    ultimately show "x \<in> queued h \<and> (status (rq x) = STATUS_WAITING \<or> status (rq x) = STATUS_CONVERTING) \<and>
      status (rq' x) = STATUS_GRANTED \<and> mode (rq' x) = wanted (rq x) \<and> x \<in> set (grantedList h')"
      using nx by blast
  }
  {
    assume x: "x \<notin> set news"
    then have eq: "rq' x = rq x" using fr unfolding rescan_frame_def by blast
    have "x \<notin> set gs"
    proof
      assume "x \<in> set gs"
      then have "status (rq x) = STATUS_WAITING" "status (rq' x) \<noteq> STATUS_WAITING"
        using st(1) [of x] st'(2) [of x] gs by auto
      with eq show False by simp
    qed
    with eq show "rq' x = rq x \<and> (x \<in> set (grantedList h') \<longleftrightarrow> x \<in> set (grantedList h)) \<and>
      (x \<in> set (conflictList h') \<longleftrightarrow> x \<in> set (conflictList h))"
      unfolding gs(1,2) by auto
  }
qed

lemma rescan_woken:
  assumes inv: "lm_inv m" and d: "deref m ptr = Some h0"
    and h: "head_ok rq h" "this h = ptr" "resourceId h = ptr_resource ptr" "partitions h = partitions h0"
      "\<And>x. x \<noteq> r \<Longrightarrow> x \<in> set (grantedList h) \<longleftrightarrow> x \<in> set (grantedList h0)"
      "\<And>x. x \<noteq> r \<Longrightarrow> x \<in> set (conflictList h) \<longleftrightarrow> x \<in> set (conflictList h0)"
    and r: "r \<in> queued h0" "r \<in> queued h \<Longrightarrow> r \<in> set (grantedList h0) \<and> status (rq r) = STATUS_GRANTED \<and> slot_ok (rq r)"
    and stay: "check \<or> (conflictList h \<noteq> [] \<longrightarrow> grantedList h \<noteq> []) \<and> front_blocked rq h"
    and parts: "partitions h \<noteq> [] \<longrightarrow> set_mset (heldModes rq (grantedList h)) \<subseteq> intents"
    and frame: "\<And>x. x \<noteq> r \<Longrightarrow> rq x = reqs m x"
  shows "\<exists>m' news. rescan m rq h check = Some m' \<and> lm_inv m' \<and> woken ptr r m m' news \<and>
      reqs m' r = rq r \<and> partition_find m' = partition_find m \<and> (\<forall>ptr'. ptr' \<noteq> ptr \<longrightarrow> deref m' ptr' = deref m ptr') \<and>
      (\<exists>h'. deref m' ptr = Some h' \<and> (r \<in> set (grantedList h') \<longleftrightarrow> r \<in> set (grantedList h)) \<and>
            (r \<in> set (conflictList h') \<longleftrightarrow> r \<in> set (conflictList h)))"
proof -
  have at: "head_at (reqs m) ptr h0" using lm_inv_head [OF inv d] .
  have rc: "r \<notin> set (conflictList h)"
    using h(1) r(2) by (auto simp: head_ok_def waiting_ok_def)
  have sub: "set (grantedList h) \<subseteq> set (grantedList h0)" "set (conflictList h) \<subseteq> set (conflictList h0)"
  proof -
    show "set (grantedList h) \<subseteq> set (grantedList h0)"
    proof
      show "x \<in> set (grantedList h0)" if "x \<in> set (grantedList h)" for x
        using that h(5) [of x] r(2) by (cases "x = r") auto
    qed
    show "set (conflictList h) \<subseteq> set (conflictList h0)"
    proof
      show "x \<in> set (conflictList h0)" if "x \<in> set (conflictList h)" for x
        using that h(6) [of x] rc by (cases "x = r") auto
    qed
  qed
  have slots: "\<forall>x \<in> queued h. slot_ok (rq x)"
  proof
    fix x assume x: "x \<in> queued h"
    show "slot_ok (rq x)"
      using x at sub frame [of x] r(2) by (cases "x = r") (auto simp: head_at_def)
  qed
  have fr0: "x \<in> queued h0" if "rq x \<noteq> reqs m x" for x using frame [of x] r(1) that by (cases "x = r") auto
  obtain rq' h' news where run: "rescan m rq h check = Some (put_head (m\<lparr>reqs := rq', notified :=
             notified m @ map (\<lambda>x. (x, ptr_resource ptr, LOCK_OK)) news\<rparr>) h')"
    and inv': "lm_inv (put_head (m\<lparr>reqs := rq', notified :=
             notified m @ map (\<lambda>x. (x, ptr_resource ptr, LOCK_OK)) news\<rparr>) h')"
    and fr: "rescan_frame rq h rq' h' news"
    using rescan_run [OF inv d h(1-4) sub stay slots parts fr0] by blast
  let ?m = "put_head (m\<lparr>reqs := rq', notified :=
             notified m @ map (\<lambda>x. (x, ptr_resource ptr, LOCK_OK)) news\<rparr>) h'"
  have th: "this h' = ptr" using rescan_frame_fields [OF fr] h(2) by simp
  then have D: "deref ?m = (deref m)(ptr \<mapsto> h')" by simp
  have "head_at rq' ptr h'" using lm_inv_head [OF inv', of ptr h'] th by simp
  then have hi: "head_inv rq' h'" by (simp add: head_at_def)
  note nw = rescan_frame_news [OF h(1) hi fr]
  have rn: "r \<notin> set news" using nw(1) [of r] r(2) by auto
  have "distinct news" using fr unfolding rescan_frame_def by blast
  moreover have "at_head (deref m) ptr x \<and>
        (status (reqs m x) = STATUS_WAITING \<or> status (reqs m x) = STATUS_CONVERTING) \<and>
        status (reqs ?m x) = STATUS_GRANTED \<and> mode (reqs ?m x) = wanted (reqs m x) \<and>
        (\<exists>h. deref ?m ptr = Some h \<and> x \<in> set (grantedList h))" if "x \<in> set news" for x
  proof -
    have "x \<noteq> r" using that rn by auto
    then have "rq x = reqs m x" by (rule frame)
    moreover have "at_head (deref m) ptr x" using nw(1) [OF that] sub d by (auto simp: at_head_def)
    ultimately show ?thesis using nw(1) [OF that] th by simp
  qed
  moreover have "same_claim (reqs m x) (reqs ?m x) \<and>
      (\<forall>resId. holder ?m resId x = holder m resId x \<and> waiter ?m resId x = waiter m resId x)"
    if "x \<noteq> r" "x \<notin> set news" for x
    using nw(2) [OF that(2)] frame [OF that(1)] h(5,6) that(1) d th
    by (simp add: holder_def waiter_def)
  ultimately have "woken ptr r m ?m news" using rn by (simp add: woken_def)
  moreover have "\<exists>h'. deref ?m ptr = Some h' \<and> (r \<in> set (grantedList h') \<longleftrightarrow> r \<in> set (grantedList h)) \<and>
            (r \<in> set (conflictList h') \<longleftrightarrow> r \<in> set (conflictList h))"
    using nw(2) [OF rn] th by simp
  ultimately show ?thesis using run inv' nw(2) [OF rn] D by (intro exI [of _ ?m] exI [of _ news]) simp
qed

subsection \<open>The three cases of unlock under the bucket mutex\<close>

lemma rescan_upd_req [simp]: "rescan (upd_req m r f) rq h check = rescan m rq h check"
  by (simp add: rescan_def upd_req_def)

lemma not_attached:
  assumes inv: "lm_inv m" and at: "at_head (deref m) ptr r"
    and m': "partition_find m' = partition_find m" "\<forall>ptr'. ptr' \<noteq> ptr \<longrightarrow> deref m' ptr' = deref m ptr'"
      "deref m' ptr = Some h'" "r \<notin> queued h'"
  shows "\<not> lm_attached m' r"
proof -
  have ok: "state_ok (reqs m) (deref m) (partition_find m)" using inv by (simp add: lm_inv_def)
  have "\<not> at_head (deref m') ptr' r" for ptr'
  proof (cases "ptr' = ptr")
    case False
    then have "at_head (deref m') ptr' r = at_head (deref m) ptr' r" using m'(2) by (simp add: at_head_def)
    then show ?thesis using one_place(1) [OF ok at] False by blast
  qed (use m'(3,4) in \<open>simp add: at_head_def\<close>)
  moreover have "\<not> at_part (partition_find m') p resId r" for p resId
    unfolding m'(1) using one_place(3) [OF ok at] .
  ultimately show ?thesis by (simp add: lm_attached_def attached_iff)
qed

lemma heldModes_remove1_subset:
  "set_mset (heldModes rq (remove1 r xs)) \<subseteq> set_mset (heldModes rq xs)"
  by (induction xs) auto

text \<open>The request as it is after the unsynchronised decrement.\<close>

abbreviation release_one :: "LockRequest \<Rightarrow> LockRequest" where
  "release_one q \<equiv> q\<lparr>recursiveCount := recursiveCount q - 1\<rparr>"

lemma unlock_granted_run:
  assumes inv: "lm_inv m" and d: "deref m ptr = Some h" and r: "r \<in> set (grantedList h)"
    "status (reqs m r) = STATUS_GRANTED" "recursiveCount (reqs m r) = 1"
  shows "\<exists>m' news. unlock_bucket_section (upd_req m r release_one) r = Some (True, m') \<and> lm_inv m' \<and>
      woken ptr r m m' news \<and> \<not> lm_attached m' r"
proof -
  define rq where "rq = (reqs m)(r := release_one (reqs m r))"
  let ?M = "heldModes rq (remove1 r (grantedList h))"
  let ?md = "mode (reqs m r)"
  have at: "head_at (reqs m) ptr h" using lm_inv_head [OF inv d] .
  have same: "\<And>x. same_view (reqs m x) (rq x)" by (simp add: rq_def)
  have hi: "head_inv rq h" using at head_inv_cong [of h "reqs m" rq] same by (simp add: head_at_def)
  then have ok: "head_ok rq h" by (simp add: head_inv_def)
  have rr: "status (rq r) = STATUS_GRANTED" "mode (rq r) = ?md" "recursiveCount (rq r) = 0"
      "compatibleFirst (rq r) = compatibleFirst (reqs m r)"
    using r(2,3) by (simp_all add: rq_def)
  have dist: "distinct (grantedList h)" using ok by (simp add: head_ok_def)
  have gr: "grants (h\<lparr>grantedList := remove1 r (grantedList h)\<rparr>) (add_mset ?md ?M)"
    using grants_other [OF ok r(1)] rr(1,2) by (simp add: holds_def)
  have dec: "decGrantedModeCount (h\<lparr>grantedList := remove1 r (grantedList h)\<rparr>) ?md =
      Some (set_grants ?M (h\<lparr>grantedList := remove1 r (grantedList h)\<rparr>))"
    using dec_granted [OF gr] .
  define h1 where "h1 = set_grants ?M (h\<lparr>grantedList := remove1 r (grantedList h),
      compatibleFirstCount := compatibleFirstCount h - (if compatibleFirst (rq r) then 1 else 0)\<rparr>)"
  have h1: "head_ok rq h1" unfolding h1_def by (rule remove_granted_ok [OF ok r(1) rr(1)])
  have cf: "0 < compatibleFirstCount h \<and> (compatibleFirstCount h1 = 0 \<or> remove1 r (grantedList h) \<noteq> [])"
    if "compatibleFirst (reqs m r)"
  proof -
    have "r \<in> set (filter (\<lambda>x. compatibleFirst (rq x)) (grantedList h))" using r(1) rr(4) that by simp
    from length_pos_if_in_set [OF this] have "0 < compatibleFirstCount h" using ok by (simp add: head_ok_def)
    moreover have "compatibleFirstCount h1 = 0" if "remove1 r (grantedList h) = []"
      using h1 that by (simp add: head_ok_def h1_def)
    ultimately show ?thesis by blast
  qed
  have h1_eq: "set_grants ?M (h\<lparr>grantedList := remove1 r (grantedList h)\<rparr>)\<lparr>compatibleFirstCount := compatibleFirstCount h - Suc 0\<rparr> = h1"
    if "compatibleFirst (reqs m r)" using that rr(4) unfolding h1_def by (cases h) simp
  have h1_eq': "set_grants ?M (h\<lparr>grantedList := remove1 r (grantedList h)\<rparr>) = h1"
    if "\<not> compatibleFirst (reqs m r)" using that rr(4) unfolding h1_def by (cases h) simp
  have stay: "grantedCounts h1 ?md = 0 \<or> (conflictList h1 \<noteq> [] \<longrightarrow> grantedList h1 \<noteq> []) \<and> front_blocked rq h1"
  proof (cases "?md \<in># ?M")
    case True
    then show ?thesis
      using release_stays [OF hi r(1) rr(1)] rr(2) hi by (simp add: h1_def front_blocked_def head_inv_def)
  qed (simp add: h1_def count_eq_zero_iff)
  have held: "partitions h1 \<noteq> [] \<longrightarrow> set_mset (heldModes rq (grantedList h1)) \<subseteq> intents"
  proof -
    have "heldModes rq (grantedList h) = heldModes (reqs m) (grantedList h)"
      by (rule heldModes_cong) (simp add: same_view_ok(1) [OF same])
    then show ?thesis
      using at subset_trans [OF heldModes_remove1_subset [of rq r "grantedList h"]]
      by (simp add: head_at_def h1_def)
  qed
  obtain m' news where run: "rescan m rq h1 (grantedCounts h1 ?md = 0) = Some m'" and m': "lm_inv m'"
      "woken ptr r m m' news" "reqs m' r = rq r" "partition_find m' = partition_find m"
      "\<forall>ptr'. ptr' \<noteq> ptr \<longrightarrow> deref m' ptr' = deref m ptr'"
      "\<exists>h'. deref m' ptr = Some h' \<and> (r \<in> set (grantedList h') \<longleftrightarrow> r \<in> set (grantedList h1)) \<and>
            (r \<in> set (conflictList h') \<longleftrightarrow> r \<in> set (conflictList h1))"
    using rescan_woken [OF inv d h1 _ _ _ _ _ _ _ stay held, of r] r at dist ok
    by (auto simp: h1_def head_at_def head_ok_def rq_def)
  have "unlock_bucket_section (upd_req m r release_one) r = Some (True, m')"
    using d run r(2) m'(3) rr h1_eq h1_eq' cf dec at r(1) head_at_queued(1) [OF at, of r]
    unfolding unlock_bucket_section_def by (cases "compatibleFirst (reqs m r)") (auto simp: rq_def h1_def [symmetric])
  moreover have "\<not> lm_attached m' r"
    using not_attached [OF inv _ m'(4,5), of r] m'(6) d r(1) dist ok
    by (auto simp: at_head_def h1_def head_ok_def)
  ultimately show ?thesis using m' by blast
qed

lemma unlock_waiting_run:
  assumes inv: "lm_inv m" and d: "deref m ptr = Some h" and r: "r \<in> set (conflictList h)"
  shows "\<exists>m' news. unlock_bucket_section (upd_req m r release_one) r = Some (True, m') \<and> lm_inv m' \<and>
      woken ptr r m m' news \<and> \<not> lm_attached m' r"
proof -
  define rq where "rq = (reqs m)(r := release_one (reqs m r))"
  let ?M = "waitModes rq (remove1 r (conflictList h))"
  have at: "head_at (reqs m) ptr h" using lm_inv_head [OF inv d] .
  have same: "\<And>x. same_view (reqs m x) (rq x)" by (simp add: rq_def)
  have "head_inv rq h" using at head_inv_cong [of h "reqs m" rq] same by (simp add: head_at_def)
  then have ok: "head_ok rq h" by (simp add: head_inv_def)
  have "slot_ok (reqs m r)" "status (rq r) = STATUS_WAITING"
    using at r ok by (simp_all add: head_at_def head_ok_def waiting_ok_def)
  then have rr: "status (rq r) = STATUS_WAITING" "recursiveCount (rq r) = 0"
      "mode (rq r) = mode (reqs m r)" "lock_ptr (rq r) = Some ptr"
    using head_at_queued(1) [OF at, of r] r by (simp_all add: rq_def slot_ok_def)
  have R: "reqs (upd_req m r release_one) = rq" by (simp add: rq_def)
  have dist: "distinct (conflictList h)" "r \<notin> set (grantedList h)" using ok r by (auto simp: head_ok_def)
  have "waits (h\<lparr>conflictList := remove1 r (conflictList h)\<rparr>) (add_mset (mode (reqs m r)) ?M)"
    using ok waitModes_remove1 [OF r, of rq] by (simp add: head_ok_def rq_def)
  from dec_conflict [OF this]
  have dec: "decConflictModeCount (h\<lparr>conflictList := remove1 r (conflictList h)\<rparr>) (mode (reqs m r)) =
      Some (set_waits ?M (h\<lparr>conflictList := remove1 r (conflictList h)\<rparr>))" .
  define h1 where "h1 = set_waits ?M (h\<lparr>conflictList := remove1 r (conflictList h)\<rparr>)"
  have h1: "head_ok rq h1" unfolding h1_def by (rule remove_waiting_ok [OF ok r])
  have "heldModes rq (grantedList h) = heldModes (reqs m) (grantedList h)"
    by (rule heldModes_cong) (simp add: same_view_ok(1) [OF same])
  then have held: "partitions h1 \<noteq> [] \<longrightarrow> set_mset (heldModes rq (grantedList h1)) \<subseteq> intents"
    using at by (simp add: head_at_def h1_def)
  obtain m' news where run: "rescan m rq h1 True = Some m'" and m': "lm_inv m'"
      "woken ptr r m m' news" "reqs m' r = rq r" "partition_find m' = partition_find m"
      "\<forall>ptr'. ptr' \<noteq> ptr \<longrightarrow> deref m' ptr' = deref m ptr'"
      "\<exists>h'. deref m' ptr = Some h' \<and> (r \<in> set (grantedList h') \<longleftrightarrow> r \<in> set (grantedList h1)) \<and>
            (r \<in> set (conflictList h') \<longleftrightarrow> r \<in> set (conflictList h1))"
    using rescan_woken [OF inv d h1 _ _ _ _ _ _ _ _ held, of r True] r at dist
    by (auto simp: h1_def head_at_def rq_def)
  have "unlock_bucket_section (upd_req m r release_one) r = Some (True, m')"
    unfolding unlock_bucket_section_def R using d run m'(3) rr dec [folded h1_def] by simp
  moreover have "\<not> lm_attached m' r"
    using not_attached [OF inv _ m'(4,5), of r] m'(6) d r dist by (auto simp: at_head_def h1_def)
  ultimately show ?thesis using m' by blast
qed

lemma unlock_converting_run:
  assumes inv: "lm_inv m" and d: "deref m ptr = Some h" and r: "r \<in> set (grantedList h)"
    "status (reqs m r) = STATUS_CONVERTING"
  shows "\<exists>m' news. unlock_bucket_section (upd_req m r release_one) r = Some (False, m') \<and> lm_inv m' \<and>
      woken ptr r m m' news \<and> at_head (deref m') ptr r \<and> reqs m' r = (reqs m r)\<lparr>recursiveCount :=
        recursiveCount (reqs m r) - 1, status := STATUS_GRANTED, convertMode := MODE_NONE\<rparr>"
proof -
  define rq0 where "rq0 = (reqs m)(r := release_one (reqs m r))"
  define rq where "rq = rq0(r := (rq0 r)\<lparr>status := STATUS_GRANTED, convertMode := MODE_NONE\<rparr>)"
  let ?M = "add_mset (mode (reqs m r)) (heldModes rq0 (remove1 r (grantedList h)))"
  have at: "head_at (reqs m) ptr h" using lm_inv_head [OF inv d] .
  have same: "\<And>x. same_view (reqs m x) (rq0 x)" by (simp add: rq0_def)
  have "head_inv rq0 h" using at head_inv_cong [of h "reqs m" rq0] same by (simp add: head_at_def)
  then have ok: "head_ok rq0 h" by (simp add: head_inv_def)
  have count: "2 \<le> recursiveCount (reqs m r)" using at r by (simp add: head_at_def slot_ok_def)
  have rr: "status (rq0 r) = STATUS_CONVERTING" "mode (rq0 r) = mode (reqs m r)"
      "convertMode (rq0 r) = convertMode (reqs m r)" "lock_ptr (rq0 r) = Some ptr" "0 < recursiveCount (rq0 r)"
    using r count head_at_queued(1) [OF at, of r] by (simp_all add: rq0_def)
  have R: "reqs (upd_req m r release_one) = rq0" by (simp add: rq0_def)
  have "r \<in> set (filter (converting rq0) (grantedList h))" using r(1) rr(1) by (simp add: converting_def)
  from length_pos_if_in_set [OF this] have cc: "0 < conversionsCount h" using ok by (simp add: head_ok_def)
  define h1 where "h1 = set_grants ?M (h\<lparr>conversionsCount := conversionsCount h - 1\<rparr>)"
  have h1: "head_ok rq h1"
    unfolding h1_def rq_def rr(2) [symmetric] by (rule cancel_conversion_ok [OF ok r(1) rr(1)])
  have "grants (h\<lparr>conversionsCount := conversionsCount h - 1\<rparr>) (add_mset (convertMode (reqs m r)) ?M)"
    using grants_other [OF ok r(1)] rr by (simp add: holds_def add_mset_commute)
  note dec = dec_granted [OF this, folded h1_def]
  have gl: "heldModes rq (grantedList h) = ?M"
    using ok r(1) heldModes_fun_upd [OF r(1), of rq0] by (simp add: rq_def head_ok_def holds_def rr(2))
  have "MODE_NONE \<notin># heldModes rq (grantedList h)"
  proof -
    have "MODE_NONE \<notin># holds (rq x)" if "x \<in> set (grantedList h)" for x
      using h1 that granted_ok_converting [of "rq x"]
      by (auto simp: head_ok_def h1_def holds_def granted_ok_def)
    then show ?thesis by (simp add: in_heldModes)
  qed
  then have check: "grantedCounts h1 MODE_NONE = 0" by (auto simp: gl h1_def count_eq_zero_iff)
  have "heldModes rq0 (grantedList h) = heldModes (reqs m) (grantedList h)"
    by (rule heldModes_cong) (simp add: same_view_ok(1) [OF same])
  then have whole: "heldModes (reqs m) (grantedList h) = add_mset (convertMode (reqs m r)) ?M"
    using heldModes_remove1 [OF r(1), of rq0] rr by (simp add: holds_def add_mset_commute)
  have "set_mset ?M \<subseteq> set_mset (heldModes (reqs m) (grantedList h))" unfolding whole by auto
  from subset_trans [OF this]
  have held: "partitions h1 \<noteq> [] \<longrightarrow> set_mset (heldModes rq (grantedList h1)) \<subseteq> intents"
    unfolding gl [symmetric] using at by (simp add: head_at_def h1_def)
  have slot: "slot_ok (rq r)" using count by (simp add: rq_def rq0_def slot_ok_def)
  obtain m' news where run: "rescan m rq h1 True = Some m'" and m': "lm_inv m'"
      "woken ptr r m m' news" "reqs m' r = rq r"
      "\<exists>h'. deref m' ptr = Some h' \<and> (r \<in> set (grantedList h') \<longleftrightarrow> r \<in> set (grantedList h1)) \<and>
            (r \<in> set (conflictList h') \<longleftrightarrow> r \<in> set (conflictList h1))"
    using rescan_woken [OF inv d h1 _ _ _ _ _ _ _ _ held, of r True] r(1) at slot
    by (auto simp: h1_def head_at_def rq_def rq0_def)
  have "unlock_bucket_section (upd_req m r release_one) r = Some (False, m')"
    unfolding unlock_bucket_section_def R using d run m'(3) rr dec cc check by (simp add: rq_def)
  moreover have "at_head (deref m') ptr r" using m'(4) r(1) by (auto simp: at_head_def h1_def)
  ultimately show ?thesis using m' by (auto simp: rq_def rq0_def)
qed

subsection \<open>LockManager::unlock\<close>

definition unlock_outcome :: "LockManager \<Rightarrow> LockManager \<Rightarrow> rid \<Rightarrow> bool \<Rightarrow> bool" where
  "unlock_outcome m m' r released \<longleftrightarrow>
     (released \<longleftrightarrow> recursiveCount (reqs m r) = 1) \<and>
     (released \<longrightarrow> \<not> lm_attached m' r) \<and>
     (\<not> released \<longrightarrow> lm_attached m' r \<and> status (reqs m' r) = STATUS_GRANTED \<and>
        mode (reqs m' r) = mode (reqs m r) \<and>
        recursiveCount (reqs m' r) = recursiveCount (reqs m r) - 1)"

lemma leave_partition_run:
  assumes inv: "lm_inv m" and pl: "partition_find m p resId = Some pl" and r: "r \<in> set (partGrantedList pl)"
  defines "m' \<equiv> put_partition (upd_req m r release_one) p resId
                  (pl\<lparr>partGrantedList := remove1 r (partGrantedList pl)\<rparr>)"
  shows "lm_inv m'" "others_kept r m m'" "\<not> lm_attached m' r"
proof -
  let ?pl = "pl\<lparr>partGrantedList := remove1 r (partGrantedList pl)\<rparr>"
  let ?rq = "(reqs m)(r := release_one (reqs m r))"
  have ok: "state_ok (reqs m) (deref m) (partition_find m)" and tab: "tables_ok m"
    using inv by (simp_all add: lm_inv_def)
  have pa: "part_at (reqs m) (deref m) p resId pl" using lm_inv_part [OF inv pl] .
  then have dist: "distinct (partGrantedList pl)" by (simp add: part_at_def)
  have here: "at_part (partition_find m) p resId r" using pl r by (simp add: at_part_def)
  have "part_at ?rq (deref m) p resId ?pl" using pa dist by (auto simp: part_at_def)
  then have "state_ok ?rq (deref m) ((partition_find m)(p := (partition_find m p)(resId \<mapsto> ?pl)))"
    using here by (intro state_ok_part [OF ok]) (auto split: if_splits)
  then show "lm_inv m'" using tab by (simp add: lm_inv_def m'_def)
  have parts: "at_part (partition_find m') p2 res x \<longleftrightarrow>
      at_part (partition_find m) p2 res x \<and> \<not> (p2 = p \<and> res = resId \<and> x = r)" for p2 res x
    using pl dist by (auto simp: m'_def at_part_def)
  then show "others_kept r m m'" by (simp add: others_kept_def holder_def waiter_def) (simp add: m'_def)
  have "\<not> at_part (partition_find m') p2 res r" for p2 res
    using parts [of p2 res r] one_place(2) [OF ok here, of p2 res] by auto
  moreover have "\<not> at_head (deref m') ptr r" for ptr
    using one_place(3) [OF ok, of ptr r p resId] here by (auto simp: m'_def)
  ultimately show "\<not> lm_attached m' r" by (simp add: lm_attached_def attached_iff)
qed

lemma unlock_run:
  assumes inv: "lm_inv m" and r: "lm_attached m r"
  shows "\<exists>released m' ptr news. lm_unlock m r = Some (released, m') \<and> lm_inv m' \<and>
      unlock_outcome m m' r released \<and> woken ptr r m m' news"
proof (cases "\<exists>p resId. at_part (partition_find m) p resId r")
  case True
  then obtain p resId pl where pl: "partition_find m p resId = Some pl" "r \<in> set (partGrantedList pl)"
    by (auto simp: at_part_def)
  have po: "part_ok (reqs m r) p resId" using lm_inv_part [OF inv pl(1)] pl(2) by (simp add: part_at_def)
  show ?thesis
  proof (cases "recursiveCount (reqs m r) = 1")
    case True
    let ?m = "put_partition (upd_req m r release_one) p resId
                (pl\<lparr>partGrantedList := remove1 r (partGrantedList pl)\<rparr>)"
    note lp = leave_partition_run [OF inv pl]
    have "lm_unlock m r = Some (True, ?m)"
      using po True pl(1) by (simp add: lm_unlock_def part_ok_def Let_def)
    moreover have "woken ptr r m ?m []" for ptr using lp(2) by (intro woken_none) simp_all
    ultimately show ?thesis using lp True unfolding unlock_outcome_def by blast
  next
    case False
    then have n: "2 \<le> recursiveCount (reqs m r)" using po by (simp add: part_ok_def)
    have "upd_req m r release_one = upd_req m r (\<lambda>q. q\<lparr>recursiveCount := recursiveCount (reqs m r) - 1\<rparr>)"
      by (simp add: upd_req_def)
    then have "lm_inv (upd_req m r release_one)"
      using lm_inv_recount [OF inv, of r "recursiveCount (reqs m r) - 1"] po n by (simp add: part_ok_def)
    moreover have "lm_unlock m r = Some (False, upd_req m r release_one)"
      using po n by (simp add: lm_unlock_def part_ok_def Let_def)
    moreover have "woken ptr r m (upd_req m r release_one) []" for ptr by (rule woken_none) simp_all
    ultimately show ?thesis using r po False unfolding unlock_outcome_def
      by (intro exI conjI) (auto simp: part_ok_def)
  qed
next
  case False
  then obtain ptr h where d: "deref m ptr = Some h" "r \<in> queued h"
    using r by (auto simp: lm_attached_def attached_iff at_head_def)
  have at: "head_at (reqs m) ptr h" using lm_inv_head [OF inv d(1)] .
  note q = head_at_queued [OF at d(2)]
  have sec: "lm_unlock m r = unlock_bucket_section (upd_req m r release_one) r"
    if "\<not> (status (reqs m r) = STATUS_GRANTED \<and> recursiveCount (reqs m r) > 1)"
  proof -
    have "status (reqs m r) \<noteq> STATUS_NEW"
      using at d(2) by (auto simp: head_at_def head_inv_def head_ok_def granted_ok_def waiting_ok_def)
    then show ?thesis using that q
      by (cases "status (reqs m r)") (simp_all add: lm_unlock_def Let_def slot_ok_def)
  qed
  consider (granted) "r \<in> set (grantedList h)" "status (reqs m r) = STATUS_GRANTED"
    | (converting) "r \<in> set (grantedList h)" "status (reqs m r) = STATUS_CONVERTING"
    | (waiting) "r \<in> set (conflictList h)" "status (reqs m r) = STATUS_WAITING"
    using at d(2) unfolding head_at_def head_inv_def head_ok_def granted_ok_def waiting_ok_def by blast
  then show ?thesis
  proof cases
    case granted
    show ?thesis
    proof (cases "recursiveCount (reqs m r) = 1")
      case True
      then show ?thesis
        using unlock_granted_run [OF inv d(1) granted True] sec unfolding unlock_outcome_def by auto
    next
      case False
      then have n: "2 \<le> recursiveCount (reqs m r)" using q(3) by (simp add: slot_ok_def)
      have "upd_req m r release_one = upd_req m r (\<lambda>q. q\<lparr>recursiveCount := recursiveCount (reqs m r) - 1\<rparr>)"
        by (simp add: upd_req_def)
      then have "lm_inv (upd_req m r release_one)"
        using lm_inv_recount [OF inv granted(2), of "recursiveCount (reqs m r) - 1"] n by simp
      moreover have "lm_unlock m r = Some (False, upd_req m r release_one)"
        using granted(2) n by (simp add: lm_unlock_def Let_def)
      moreover have "woken ptr r m (upd_req m r release_one) []" for ptr by (rule woken_none) simp_all
      ultimately show ?thesis using r granted(2) False unfolding unlock_outcome_def
        by (intro exI conjI) auto
    qed
  next
    case converting
    then have n: "2 \<le> recursiveCount (reqs m r)" using q(3) by (simp add: slot_ok_def)
    obtain m' news where "unlock_bucket_section (upd_req m r release_one) r = Some (False, m')" "lm_inv m'"
        "woken ptr r m m' news" "at_head (deref m') ptr r" "reqs m' r = (reqs m r)\<lparr>recursiveCount :=
          recursiveCount (reqs m r) - 1, status := STATUS_GRANTED, convertMode := MODE_NONE\<rparr>"
      using unlock_converting_run [OF inv d(1) converting] by blast
    moreover from this(4) have "lm_attached m' r" by (auto simp: lm_attached_def attached_iff)
    ultimately show ?thesis using sec converting(2) n unfolding unlock_outcome_def
      by (intro exI conjI) auto
  next
    case waiting
    then have "recursiveCount (reqs m r) = 1" using q(3) by (simp add: slot_ok_def)
    then show ?thesis
      using unlock_waiting_run [OF inv d(1) waiting(1)] sec unfolding unlock_outcome_def by auto
  qed
qed

subsection \<open>LockManager::downgrade\<close>

lemma downgrade_run:
  assumes inv: "lm_inv m" and d: "deref m ptr = Some h" and r: "r \<in> set (grantedList h)"
    "status (reqs m r) = STATUS_GRANTED"
    and md: "isModeCovered newMode (mode (reqs m r))" "newMode \<noteq> MODE_NONE"
  shows "\<exists>m' news. lm_downgrade m r newMode = Some m' \<and> lm_inv m' \<and> woken ptr r m m' news \<and>
      reqs m' r = (reqs m r)\<lparr>mode := newMode\<rparr> \<and> at_head (deref m') ptr r"
proof -
  let ?rq = "(reqs m)(r := (reqs m r)\<lparr>mode := newMode\<rparr>)"
  let ?M = "heldModes (reqs m) (remove1 r (grantedList h))"
  let ?h1 = "set_grants (add_mset newMode (add_mset (mode (reqs m r)) ?M)) h"
  let ?h = "set_grants (add_mset newMode ?M) h"
  have at: "head_at (reqs m) ptr h" using lm_inv_head [OF inv d] .
  then have ok: "head_ok (reqs m) h" by (simp add: head_at_def head_inv_def)
  have q: "lock_ptr (reqs m r) = Some ptr" "slot_ok (reqs m r)" using head_at_queued [OF at, of r] r(1) by auto
  have i: "incGrantedModeCount h newMode = Some ?h1"
    using inc_granted [OF head_at_others(1) [OF at r]] .
  have "grants ?h1 (add_mset (mode (reqs m r)) (add_mset newMode ?M))"
    by (simp add: grants_def add_mset_commute)
  from dec_granted [OF this] have dec: "decGrantedModeCount ?h1 (mode (reqs m r)) = Some ?h" by simp
  have h1: "head_ok ?rq ?h" by (rule downgrade_ok [OF ok r md])
  have gl: "heldModes ?rq (grantedList h) = add_mset newMode ?M"
    using heldModes_fun_upd [OF r(1), of "reqs m"] ok r(2) by (simp add: head_ok_def holds_def)
  have held: "partitions ?h \<noteq> [] \<longrightarrow> set_mset (heldModes ?rq (grantedList ?h)) \<subseteq> intents"
  proof
    assume "partitions ?h \<noteq> []"
    then have sub: "set_mset (add_mset (mode (reqs m r)) ?M) \<subseteq> intents"
      using at head_at_others(2) [OF at r] by (simp add: head_at_def)
    then have "mode (reqs m r) \<in> intents" by simp
    then have "newMode \<in> intents"
      using md by (cases newMode) (auto simp: isModeCovered_iff LockMode_all mode_conflict_iff)
    then show "set_mset (heldModes ?rq (grantedList ?h)) \<subseteq> intents" using sub gl by simp
  qed
  obtain m' news where run: "rescan m ?rq ?h True = Some m'" and m': "lm_inv m'"
      "woken ptr r m m' news" "reqs m' r = ?rq r"
      "\<exists>h'. deref m' ptr = Some h' \<and> (r \<in> set (grantedList h') \<longleftrightarrow> r \<in> set (grantedList ?h)) \<and>
            (r \<in> set (conflictList h') \<longleftrightarrow> r \<in> set (conflictList ?h))"
    using rescan_woken [OF inv d h1 _ _ _ _ _ _ _ _ held, of r True] r at q(2)
    by (auto simp: head_at_def slot_ok_def)
  have "lm_downgrade m r newMode = Some m'"
    using q r(2) md(1) d i dec run by (simp add: lm_downgrade_def covered_table slot_ok_def)
  moreover have "at_head (deref m') ptr r" using m'(4) r(1) by (auto simp: at_head_def)
  ultimately show ?thesis using m' by auto
qed

end
