(* ===== verification/Lock_Manager_Cleanup.thy ===== *)
theory Lock_Manager_Cleanup
  imports Lock_Manager_Unlock
begin

text \<open>
  LockManager::cleanupUnusedLocks is total under the invariant, changes no lock that is held
  or requested, and leaves only the heads of resources that somebody holds.
\<close>

definition all_kept :: "LockManager \<Rightarrow> LockManager \<Rightarrow> bool" where
  "all_kept m m' \<longleftrightarrow> notified m' = notified m \<and>
     (\<forall>x. same_claim (reqs m x) (reqs m' x) \<and>
       (\<forall>resId. holder m' resId x = holder m resId x \<and> waiter m' resId x = waiter m resId x))"

definition in_use :: "LockManager \<Rightarrow> ResourceId \<Rightarrow> bool" where
  "in_use m resId \<longleftrightarrow> deref m (ManagedHead resId) = None \<or> (\<exists>x. holder m resId x)"

definition heads_from :: "LockManager \<Rightarrow> LockManager \<Rightarrow> bool" where
  "heads_from m m' \<longleftrightarrow> (\<forall>resId. deref m (ManagedHead resId) = None \<longrightarrow> deref m' (ManagedHead resId) = None)"

lemma all_kept_trans:
  assumes "all_kept a b" and "all_kept b c"
  shows "all_kept a c"
  using assms unfolding all_kept_def by (auto intro: same_claim_trans)

lemma all_kept_refl [simp]: "all_kept m m" by (simp add: all_kept_def)

lemma in_use_mono: "in_use m resId \<Longrightarrow> all_kept m m' \<Longrightarrow> heads_from m m' \<Longrightarrow> in_use m' resId"
  by (auto simp: in_use_def all_kept_def heads_from_def)

lemma migrated_all_kept: "migrated (ManagedHead resId) m m' \<Longrightarrow> all_kept m m'"
  by (simp add: all_kept_def migrated_places migrated_reqs migratedD(1))

definition drop_head :: "LockManager \<Rightarrow> ResourceId \<Rightarrow> LockManager" where
  "drop_head m resId = m\<lparr>lockBuckets := (lockBuckets m)(getBucket resId :=
     AList.delete resId (lockBuckets m (getBucket resId)))\<rparr>"

lemma drop_head_simps [simp]:
  "deref (drop_head m resId) = (deref m)(ManagedHead resId := None)"
  "partition_find (drop_head m resId) = partition_find m"
  "reqs (drop_head m resId) = reqs m" "notified (drop_head m resId) = notified m"
proof -
  show "deref (drop_head m resId) = (deref m)(ManagedHead resId := None)"
  proof
    show "deref (drop_head m resId) ptr = ((deref m)(ManagedHead resId := None)) ptr" for ptr
      by (cases ptr) (auto simp: drop_head_def deref.simps)
  qed
qed (simp_all add: drop_head_def)

lemma tables_ok_drop_head: "tables_ok m \<Longrightarrow> tables_ok (drop_head m resId)"
  by (auto simp: tables_ok_def drop_head_def simp del: map_of_eq_Some_iff split: if_splits)

lemma no_parts_no_entry:
  assumes "lm_inv m" and "deref m (ManagedHead resId) = Some h" and "partitions h = []"
  shows "partition_find m p resId = None"
proof (rule ccontr)
  assume "partition_find m p resId \<noteq> None"
  then obtain pl where "partition_find m p resId = Some pl" by blast
  from lm_inv_part [OF assms(1) this] show False using assms(2,3) by (simp add: part_at_def)
qed

lemma drop_head_run:
  assumes inv: "lm_inv m" and d: "deref m (ManagedHead resId) = Some h"
    and empty: "partitions h = []" "grantedList h = []" "conflictList h = []"
  shows "lm_inv (drop_head m resId)" and "all_kept m (drop_head m resId)"
proof -
  have none: "partition_find m p resId = None" for p using no_parts_no_entry [OF inv d empty(1)] .
  have "part_at (reqs m) ((deref m)(ManagedHead resId := None)) p res pl"
    if "partition_find m p res = Some pl" for p res pl
    using lm_inv_part [OF inv that] none that by (auto simp: part_at_def)
  then have "state_ok (reqs m) ((deref m)(ManagedHead resId := None)) (partition_find m)"
    using inv by (simp add: lm_inv_def state_ok_def)
  then show "lm_inv (drop_head m resId)" using inv by (simp add: lm_inv_def tables_ok_drop_head)
  have "holder (drop_head m resId) res x = holder m res x" "waiter (drop_head m resId) res x = waiter m res x" for res x
    using d empty none by (auto simp: holder_def waiter_def at_part_def)
  then show "all_kept m (drop_head m resId)" by (simp add: all_kept_def)
qed

lemma empty_head:
  assumes "head_at rq ptr h" and "grantedModes h = 0"
  shows "grantedList h = []" "conflictList h = []" "conflictModes h = 0" "conversionsCount h = 0"
    "compatibleFirstCount h = 0"
proof -
  have hi: "head_inv rq h" and ok: "head_ok rq h" using assms(1) by (simp_all add: head_at_def head_inv_def)
  show gl: "grantedList h = []" using masks_consistent(1) [OF ok] assms(2) by simp
  then show cl: "conflictList h = []" using hi by (simp add: head_inv_def)
  show "conflictModes h = 0" using masks_consistent(2) [OF ok] cl by simp
  show "conversionsCount h = 0" "compatibleFirstCount h = 0" using ok gl by (simp_all add: head_ok_def)
qed

lemma cleanup_head_run:
  assumes inv: "lm_inv m" and d: "deref m (ManagedHead resId) = Some h"
  shows "\<exists>m'. cleanup_head m (getBucket resId) resId = Some m' \<and> lm_inv m' \<and> all_kept m m' \<and>
      heads_from m m' \<and> in_use m' resId \<and>
      (\<forall>res. res \<noteq> resId \<longrightarrow> deref m' (ManagedHead res) = deref m (ManagedHead res))"
proof -
  have th: "this h = ManagedHead resId" using lm_inv_head [OF inv d] by (simp add: head_at_def)
  obtain m1 h1 where mig: "migrate_if_partitioned m (ManagedHead resId) = Some m1" "lm_inv m1"
      "migrated (ManagedHead resId) m m1" "deref m1 (ManagedHead resId) = Some h1" "partitions h1 = []"
    using migrate_run [OF inv d] by blast
  have at: "head_at (reqs m1) (ManagedHead resId) h1" using lm_inv_head [OF mig(2,4)] .
  have same: "deref m1 (ManagedHead res) = deref m (ManagedHead res)" if "res \<noteq> resId" for res
    using migratedD(3) [OF mig(3), of "ManagedHead res"] that by simp
  have from1: "heads_from m m1" unfolding heads_from_def using same d by (metis option.distinct(1))
  show ?thesis
  proof (cases "grantedModes h1 = 0")
    case True
    note e = empty_head [OF at True]
    have "cleanup_head m (getBucket resId) resId = Some (drop_head m1 resId)"
      using d mig(1,4) th True e by (simp add: cleanup_head_def drop_head_def deref.simps)
    moreover note drop_head_run [OF mig(2,4,5) e(1,2)]
    moreover have "heads_from m (drop_head m1 resId)" using from1 by (simp add: heads_from_def)
    moreover have "in_use (drop_head m1 resId) resId" by (simp add: in_use_def)
    ultimately show ?thesis using same all_kept_trans [OF migrated_all_kept [OF mig(3)]] by auto
  next
    case False
    then have "grantedList h1 \<noteq> []"
      using at masks_consistent(1) [of "reqs m1" h1] by (simp add: head_at_def head_inv_def)
    then have "in_use m1 resId" using mig(4) by (auto simp: in_use_def holder_def neq_Nil_conv)
    moreover have "cleanup_head m (getBucket resId) resId = Some m1"
      using d mig(1,4) th False by (simp add: cleanup_head_def deref.simps)
    ultimately show ?thesis using mig(2) from1 same migrated_all_kept [OF mig(3)] by blast
  qed
qed

lemma heads_from_trans: "heads_from a b \<Longrightarrow> heads_from b c \<Longrightarrow> heads_from a c"
  by (simp add: heads_from_def)

lemma cleanup_heads_run:
  assumes "lm_inv m" and "distinct ids"
    and "\<forall>res \<in> set ids. getBucket res = b \<and> deref m (ManagedHead res) \<noteq> None"
  shows "\<exists>m'. cleanup_heads m b ids = Some m' \<and> lm_inv m' \<and> all_kept m m' \<and> heads_from m m' \<and>
      (\<forall>res \<in> set ids. in_use m' res)"
  using assms
proof (induction ids arbitrary: m)
  case (Cons res ids)
  obtain h where d: "deref m (ManagedHead res) = Some h" and b: "getBucket res = b"
    using Cons.prems(3) by auto
  obtain m1 where m1: "cleanup_head m b res = Some m1" "lm_inv m1" "all_kept m m1" "heads_from m m1"
      "in_use m1 res" "\<forall>r. r \<noteq> res \<longrightarrow> deref m1 (ManagedHead r) = deref m (ManagedHead r)"
    using cleanup_head_run [OF Cons.prems(1) d] b by blast
  have "\<forall>r \<in> set ids. getBucket r = b \<and> deref m1 (ManagedHead r) \<noteq> None"
    using Cons.prems(2,3) m1(6) by auto
  then obtain m2 where m2: "cleanup_heads m1 b ids = Some m2" "lm_inv m2" "all_kept m1 m2" "heads_from m1 m2"
      "\<forall>r \<in> set ids. in_use m2 r"
    using Cons.IH [OF m1(2)] Cons.prems(2) by auto
  have "in_use m2 res" using in_use_mono [OF m1(5) m2(3,4)] .
  then show ?case
    using m1(1) m2 all_kept_trans [OF m1(3) m2(3)] heads_from_trans [OF m1(4) m2(4)] by simp
qed (simp add: heads_from_def)

lemma cleanup_bucket_run:
  assumes inv: "lm_inv m"
  shows "\<exists>m'. cleanupUnusedLocksInBucket m b = Some m' \<and> lm_inv m' \<and> all_kept m m' \<and> heads_from m m' \<and>
      (\<forall>res. getBucket res = b \<longrightarrow> in_use m' res)"
proof -
  have tab: "distinct (map fst (lockBuckets m b))"
      "\<And>res h. map_of (lockBuckets m b) res = Some h \<Longrightarrow> getBucket res = b"
    using inv by (simp_all add: lm_inv_def tables_ok_def del: map_of_eq_Some_iff)
  have key: "res \<in> set (map fst (lockBuckets m b)) \<longleftrightarrow> getBucket res = b \<and> deref m (ManagedHead res) \<noteq> None" for res
  proof -
    have "res \<in> set (map fst (lockBuckets m b)) \<longleftrightarrow> (\<exists>h. map_of (lockBuckets m b) res = Some h)"
      by (metis map_of_eq_None_iff not_None_eq set_map)
    then show ?thesis using tab(2) by (auto simp: deref.simps simp del: map_of_eq_Some_iff)
  qed
  obtain m' where m': "cleanupUnusedLocksInBucket m b = Some m'" "lm_inv m'" "all_kept m m'" "heads_from m m'"
      "\<forall>res \<in> set (map fst (lockBuckets m b)). in_use m' res"
    using cleanup_heads_run [OF inv tab(1), of b] key unfolding cleanupUnusedLocksInBucket_def by blast
  have "in_use m' res" if "getBucket res = b" for res
  proof (cases "res \<in> set (map fst (lockBuckets m b))")
    case False
    then have "deref m (ManagedHead res) = None" using key that by blast
    then show ?thesis using m'(4) by (simp add: in_use_def heads_from_def)
  qed (use m'(5) in blast)
  then show ?thesis using m' by blast
qed

lemma cleanup_buckets_run:
  assumes "lm_inv m"
  shows "\<exists>m'. cleanup_buckets m bs = Some m' \<and> lm_inv m' \<and> all_kept m m' \<and> heads_from m m' \<and>
      (\<forall>res. getBucket res \<in> set bs \<longrightarrow> in_use m' res)"
  using assms
proof (induction bs arbitrary: m)
  case (Cons b bs)
  obtain m1 where m1: "cleanupUnusedLocksInBucket m b = Some m1" "lm_inv m1" "all_kept m m1" "heads_from m m1"
      "\<forall>res. getBucket res = b \<longrightarrow> in_use m1 res"
    using cleanup_bucket_run [OF Cons.prems] by blast
  obtain m2 where m2: "cleanup_buckets m1 bs = Some m2" "lm_inv m2" "all_kept m1 m2" "heads_from m1 m2"
      "\<forall>res. getBucket res \<in> set bs \<longrightarrow> in_use m2 res"
    using Cons.IH [OF m1(2)] by blast
  have "in_use m2 res" if "getBucket res = b" for res
    using in_use_mono [OF _ m2(3,4)] m1(5) that by blast
  then show ?case
    using m1(1) m2 all_kept_trans [OF m1(3) m2(3)] heads_from_trans [OF m1(4) m2(4)] by auto
qed (simp add: heads_from_def)

lemma cleanup_run:
  assumes "lm_inv m"
  shows "\<exists>m'. cleanupUnusedLocks m = Some m' \<and> lm_inv m' \<and> all_kept m m' \<and> (\<forall>res. in_use m' res)"
proof -
  have "getBucket res \<in> set [0..<unat numLockBuckets]" for res
    by (simp add: getBucket_def numLockBuckets_def unat_mod)
  then show ?thesis
    using cleanup_buckets_run [OF assms, of "[0..<unat numLockBuckets]"] unfolding cleanupUnusedLocks_def by blast
qed

end
