(* ===== verification/Operation_System.thy ===== *)
theory Operation_System
  imports Prelude
begin

text \<open>
  Sequences of operations on a component: an operation is legal in a state if its caller keeps
  the contract, and its execution fails if an \<open>invariant\<close> of the code fails. The locale
  states what a component promises: in a state that satisfies the invariant, every legal
  operation succeeds and establishes the invariant again. The lemmas lift this to whole runs.
\<close>

fun run_ops :: "('s \<Rightarrow> 'op \<Rightarrow> 's option) \<Rightarrow> 's \<Rightarrow> 'op list \<Rightarrow> 's option" where
  "run_ops exec s [] = Some s"
| "run_ops exec s (a # as) = exec s a \<bind> (\<lambda>s. run_ops exec s as)"

fun legal_run :: "('s \<Rightarrow> 'op \<Rightarrow> 's option) \<Rightarrow> ('s \<Rightarrow> 'op \<Rightarrow> bool) \<Rightarrow> 's \<Rightarrow> 'op list \<Rightarrow> bool" where
  "legal_run exec legal s [] = True"
| "legal_run exec legal s (a # as) =
     (legal s a \<and> (case exec s a of None \<Rightarrow> True | Some s \<Rightarrow> legal_run exec legal s as))"

lemma run_ops_append: "run_ops exec s (as @ bs) = run_ops exec s as \<bind> (\<lambda>s. run_ops exec s bs)"
  by (induction as arbitrary: s) (auto split: bind_splits)

text \<open>A run that returns is a run of operations that return.\<close>

lemma run_legal: "run_ops exec s as = Some s' \<Longrightarrow> legal_run exec (\<lambda>s a. exec s a \<noteq> None) s as"
  by (induction as arbitrary: s) (auto split: bind_splits)

locale operation_system =
  fixes exec :: "'s \<Rightarrow> 'op \<Rightarrow> 's option" and legal :: "'s \<Rightarrow> 'op \<Rightarrow> bool" and inv :: "'s \<Rightarrow> bool"
  assumes exec_legal: "inv s \<Longrightarrow> legal s a \<Longrightarrow> \<exists>s'. exec s a = Some s' \<and> inv s'"
begin

lemma run_total:
  assumes "inv s" and "legal_run exec legal s as"
  shows "\<exists>s'. run_ops exec s as = Some s' \<and> inv s'"
  using assms
proof (induction as arbitrary: s)
  case (Cons a as)
  then obtain s' where "exec s a = Some s'" "inv s'" using exec_legal [of s a] by auto
  with Cons show ?case by simp
qed simp

lemma run_inv:
  assumes "inv s" and "legal_run exec legal s as" and "run_ops exec s as = Some s'"
  shows "inv s'"
  using run_total [OF assms(1,2)] assms(3) by simp

lemma run_append:
  assumes "inv s" and "legal_run exec legal s (as @ bs)"
  shows "\<exists>s'. run_ops exec s as = Some s' \<and> inv s' \<and> legal_run exec legal s' bs"
  using assms
proof (induction as arbitrary: s)
  case (Cons a as)
  then obtain s' where "exec s a = Some s'" "inv s'" using exec_legal [of s a] by auto
  with Cons show ?case by simp
qed simp

end

end
