(* ===== verification/Lock_Manager_Safety.thy ===== *)
theory Lock_Manager_Safety
  imports Lock_Manager_Cleanup Operation_System
begin

text \<open>
  The lock manager as a system of operations: the contract its callers (LockerImpl) keep, and
  what then holds in every state that any sequence of operations leads to.
\<close>

subsection \<open>Operations and their contract\<close>

datatype lm_op =
    NewRequest rid LockerId bool bool
  | Lock ResourceId rid LockMode
  | Convert ResourceId rid LockMode
  | Unlock rid
  | Downgrade rid LockMode
  | Cleanup

text \<open>
  A request object is initialised with LockRequest::initNew, and its locker may then set
  enqueueAtFront and compatibleFirst before it is passed to lock.
\<close>

fun lm_exec :: "LockManager \<Rightarrow> lm_op \<Rightarrow> LockManager option" where
  "lm_exec m (NewRequest r lid atFront compatFirst) =
     Some (upd_req m r (\<lambda>q. (initNew_request q lid)\<lparr>enqueueAtFront := atFront, compatibleFirst := compatFirst\<rparr>))"
| "lm_exec m (Lock resId r md) = map_option snd (lm_lock m resId r md)"
| "lm_exec m (Convert resId r md) = map_option snd (lm_convert m resId r md)"
| "lm_exec m (Unlock r) = map_option snd (lm_unlock m r)"
| "lm_exec m (Downgrade r md) = lm_downgrade m r md"
| "lm_exec m Cleanup = cleanupUnusedLocks m"

definition comparable :: "LockMode \<Rightarrow> LockMode \<Rightarrow> bool" where
  "comparable a b \<longleftrightarrow> isModeCovered a b \<or> isModeCovered b a"

text \<open>
  Whether a request is on a queue, and whether it holds a lock on a resource, as its owner can
  tell: by following the request's own pointers, or by looking at its locker's partition.
\<close>

definition on_queue :: "LockManager \<Rightarrow> rid \<Rightarrow> bool" where
  "on_queue m r \<longleftrightarrow>
     (case lock_ptr (reqs m r) of None \<Rightarrow> False
      | Some ptr \<Rightarrow> (case deref m ptr of None \<Rightarrow> False
          | Some h \<Rightarrow> r \<in> set (grantedList h) \<or> r \<in> set (conflictList h))) \<or>
     (case partitionedLock (reqs m r) of None \<Rightarrow> False
      | Some (p, resId) \<Rightarrow> (case partition_find m p resId of None \<Rightarrow> False
          | Some pl \<Rightarrow> r \<in> set (partGrantedList pl)))"

definition holds_lock :: "LockManager \<Rightarrow> ResourceId \<Rightarrow> rid \<Rightarrow> bool" where
  "holds_lock m resId r \<longleftrightarrow>
     (case deref m (ManagedHead resId) of None \<Rightarrow> False | Some h \<Rightarrow> r \<in> set (grantedList h)) \<or>
     (case partition_find m (getPartition (reqs m r)) resId of None \<Rightarrow> False
      | Some pl \<Rightarrow> r \<in> set (partGrantedList pl))"

definition waits_for_lock :: "LockManager \<Rightarrow> ResourceId \<Rightarrow> rid \<Rightarrow> bool" where
  "waits_for_lock m resId r \<longleftrightarrow>
     (case deref m (ManagedHead resId) of None \<Rightarrow> False | Some h \<Rightarrow> r \<in> set (conflictList h))"

definition on_granted_queue :: "LockManager \<Rightarrow> rid \<Rightarrow> bool" where
  "on_granted_queue m r \<longleftrightarrow>
     (case lock_ptr (reqs m r) of None \<Rightarrow> False
      | Some ptr \<Rightarrow> (case deref m ptr of None \<Rightarrow> False | Some h \<Rightarrow> r \<in> set (grantedList h)))"

fun lm_legal :: "LockManager \<Rightarrow> lm_op \<Rightarrow> bool" where
  "lm_legal m (NewRequest r lid atFront compatFirst) = (\<not> on_queue m r)"
| "lm_legal m (Lock resId r md) = (\<not> on_queue m r \<and> fresh_request (reqs m r) \<and> md \<noteq> MODE_NONE)"
| "lm_legal m (Convert resId r md) =
     (holds_lock m resId r \<and> status (reqs m r) = STATUS_GRANTED \<and> comparable md (mode (reqs m r)))"
| "lm_legal m (Unlock r) = on_queue m r"
| "lm_legal m (Downgrade r md) =
     (on_granted_queue m r \<and> status (reqs m r) = STATUS_GRANTED \<and>
      isModeCovered md (mode (reqs m r)) \<and> md \<noteq> MODE_NONE)"
| "lm_legal m Cleanup = True"

lemma on_queue_iff:
  assumes inv: "lm_inv m"
  shows "on_queue m r \<longleftrightarrow> lm_attached m r"
proof -
  have ok: "state_ok (reqs m) (deref m) (partition_find m)" using inv by (simp add: lm_inv_def)
  have "at_head (deref m) ptr r \<longrightarrow> lock_ptr (reqs m r) = Some ptr" for ptr
    using at_head_fields(1) [OF ok] by blast
  moreover have "at_part (partition_find m) p resId r \<longrightarrow> partitionedLock (reqs m r) = Some (p, resId)" for p resId
    using at_part_fields(1) [OF ok] by blast
  moreover have "on_queue m r \<longleftrightarrow> (\<exists>ptr. lock_ptr (reqs m r) = Some ptr \<and> at_head (deref m) ptr r) \<or>
      (\<exists>p resId. partitionedLock (reqs m r) = Some (p, resId) \<and> at_part (partition_find m) p resId r)"
    by (auto simp: on_queue_def at_head_def at_part_def split: option.splits)
  ultimately show ?thesis unfolding lm_attached_def attached_iff by blast
qed

lemma holds_lock_iff:
  assumes inv: "lm_inv m"
  shows "holds_lock m resId r \<longleftrightarrow> holder m resId r"
proof -
  have ok: "state_ok (reqs m) (deref m) (partition_find m)" using inv by (simp add: lm_inv_def)
  have "at_part (partition_find m) p resId r \<Longrightarrow> getPartition (reqs m r) = p" for p
    using at_part_fields(2) [OF ok, of p resId r] by (simp add: part_ok_def)
  then have "(\<exists>p. at_part (partition_find m) p resId r) \<longleftrightarrow>
      at_part (partition_find m) (getPartition (reqs m r)) resId r" by blast
  then show ?thesis by (auto simp: holds_lock_def holder_def at_part_def split: option.splits)
qed

lemma waits_for_lock_iff: "waits_for_lock m resId r \<longleftrightarrow> waiter m resId r"
  by (auto simp: waits_for_lock_def waiter_def split: option.splits)

lemma on_granted_queueD: "on_granted_queue m r \<Longrightarrow> \<exists>ptr h. deref m ptr = Some h \<and> r \<in> set (grantedList h)"
  by (auto simp: on_granted_queue_def split: option.splits)

lemma lm_exec_legal:
  assumes inv: "lm_inv m" and legal: "lm_legal m a"
  shows "\<exists>m'. lm_exec m a = Some m' \<and> lm_inv m'"
proof (cases a)
  case (NewRequest r lid atFront compatFirst)
  then show ?thesis using lm_inv_unattached [OF inv] legal on_queue_iff [OF inv] by simp
next
  case (Lock resId r md)
  then have "\<not> lm_attached m r" "fresh_request (reqs m r)" "md \<noteq> MODE_NONE"
    using legal on_queue_iff [OF inv] by simp_all
  from lock_run [OF inv this, of resId] show ?thesis using Lock by auto
next
  case (Convert resId r md)
  then show ?thesis
    using convert_run [OF inv, of resId r md] legal holds_lock_iff [OF inv] by (auto simp: comparable_def)
next
  case (Unlock r)
  then show ?thesis using unlock_run [OF inv, of r] legal on_queue_iff [OF inv] by auto
next
  case (Downgrade r md)
  then obtain ptr h where "deref m ptr = Some h" "r \<in> set (grantedList h)"
    using legal on_granted_queueD [of m r] by auto
  then show ?thesis using downgrade_run [OF inv, of ptr h r md] legal Downgrade by auto
next
  case Cleanup
  then show ?thesis using cleanup_run [OF inv] by auto
qed

interpretation lms: operation_system lm_exec lm_legal lm_inv
  by unfold_locales (rule lm_exec_legal)

lemma lm_inv_init: "lm_inv (lm_init rq)"
proof -
  have "deref (lm_init rq) ptr = None" for ptr by (cases ptr) (simp_all add: lm_init_def deref.simps)
  then show ?thesis
    by (simp add: lm_inv_def state_ok_def tables_ok_def partition_find_def) (simp add: lm_init_def)
qed

subsection \<open>What the invariant promises\<close>

lemma holders_compatible:
  assumes inv: "lm_inv m" and x: "holder m resId x" and y: "holder m resId y" and "x \<noteq> y"
  shows "\<not> mode_conflict (mode (reqs m x)) (mode (reqs m y))"
proof -
  obtain h where d: "deref m (ManagedHead resId) = Some h" using holder_has_head [OF inv x] by blast
  have at: "head_at (reqs m) (ManagedHead resId) h" using lm_inv_head [OF inv d] .
  have part: "mode (reqs m z) \<in> intents \<and> partitions h \<noteq> []"
    if "at_part (partition_find m) p resId z" for p z
  proof -
    from that obtain pl where "partition_find m p resId = Some pl" "z \<in> set (partGrantedList pl)"
      by (auto simp: at_part_def)
    from lm_inv_part [OF inv this(1)] this(2) show ?thesis
      using d by (auto simp: part_at_def part_ok_def)
  qed
  have head: "mode (reqs m z) \<in> intents" if "z \<in> set (grantedList h)" "partitions h \<noteq> []" for z
  proof -
    have "mode (reqs m z) \<in># heldModes (reqs m) (grantedList h)"
      using that(1) mode_in_holds in_heldModes by metis
    then show ?thesis using at that(2) unfolding head_at_def by blast
  qed
  have hx: "z \<in> set (grantedList h) \<or> (\<exists>p. at_part (partition_find m) p resId z)" if "holder m resId z" for z
    using that d by (simp add: holder_def)
  show ?thesis
  proof (cases "x \<in> set (grantedList h) \<and> y \<in> set (grantedList h)")
    case True
    then show ?thesis
      using at \<open>x \<noteq> y\<close> head_ok_compatible [of "reqs m" h x y] by (simp add: head_at_def head_inv_def)
  next
    case False
    then have "partitions h \<noteq> []" using hx [OF x] hx [OF y] part by blast
    then have "mode (reqs m x) \<in> intents" "mode (reqs m y) \<in> intents"
      using hx [OF x] hx [OF y] part head by blast+
    then show ?thesis by (rule intents_compatible)
  qed
qed

lemma waiter_has_holder:
  assumes inv: "lm_inv m" and x: "waiter m resId x"
  shows "\<exists>y. holder m resId y"
proof -
  obtain h where d: "deref m (ManagedHead resId) = Some h" "x \<in> set (conflictList h)"
    using x by (auto simp: waiter_def)
  have "head_inv (reqs m) h" using lm_inv_head [OF inv d(1)] by (simp add: head_at_def)
  then have "grantedList h \<noteq> []" using d(2) by (auto simp: head_inv_def)
  then show ?thesis using d(1) by (auto simp: holder_def neq_Nil_conv)
qed

lemma converting_blocked:
  assumes inv: "lm_inv m" and x: "holder m resId x" "status (reqs m x) = STATUS_CONVERTING"
  shows "\<exists>y k. y \<noteq> x \<and> holder m resId y \<and> k \<in># holds (reqs m y) \<and> mode_conflict (convertMode (reqs m x)) k"
proof -
  have "\<not> at_part (partition_find m) p resId x" for p
  proof
    assume "at_part (partition_find m) p resId x"
    then obtain pl where "partition_find m p resId = Some pl" "x \<in> set (partGrantedList pl)"
      by (auto simp: at_part_def)
    from lm_inv_part [OF inv this(1)] this(2) show False using x(2) by (auto simp: part_at_def part_ok_def)
  qed
  with x(1) obtain h where d: "deref m (ManagedHead resId) = Some h" "x \<in> set (grantedList h)"
    unfolding holder_def by blast
  have "head_inv (reqs m) h" using lm_inv_head [OF inv d(1)] by (simp add: head_at_def)
  then have "blocked (reqs m) (grantedList h) x" using d(2) x(2) by (simp add: head_inv_def converting_def)
  then obtain y k where "y \<in> set (grantedList h)" "y \<noteq> x" "k \<in># holds (reqs m y)"
      "mode_conflict (convertMode (reqs m x)) k" by (auto simp: blocked_def)
  then show ?thesis using d(1) by (auto simp: holder_def)
qed

subsection \<open>Runs of the lock manager\<close>

definition lm_reached :: "requests \<Rightarrow> lm_op list \<Rightarrow> LockManager \<Rightarrow> bool" where
  "lm_reached rq ops m \<longleftrightarrow>
     legal_run lm_exec lm_legal (lm_init rq) ops \<and> run_ops lm_exec (lm_init rq) ops = Some m"

lemma lm_reached_inv: "lm_reached rq ops m \<Longrightarrow> lm_inv m"
  using lms.run_inv [OF lm_inv_init] by (auto simp: lm_reached_def)

end
