(* ===== verification/Lock_Manager_Properties.thy ===== *)
theory Lock_Manager_Properties
  imports Lock_Manager_Safety
begin

text \<open>
  The properties of the lock manager, stated for every state that a legal sequence of
  operations reaches from an empty lock manager, and a concrete run that witnesses them.
\<close>

subsection \<open>A concrete run\<close>

text \<open>
  Lockers 1 and 2 take database 5 in IX and IS through their partitions, locker 3 asks for X
  and waits, locker 1 upgrades to X and waits for the conversion, locker 4 holds S on
  database 6.
\<close>

definition demo_requests :: requests where
  "demo_requests = (\<lambda>_. \<lparr>locker = 0, enqueueAtFront = False, compatibleFirst = False,
     partitioned = False, recursiveCount = 1, lock_ptr = None, partitionedLock = None,
     status = STATUS_NEW, mode = MODE_NONE, convertMode = MODE_NONE, unlockPending = 0\<rparr>)"

definition demo_db :: ResourceId where
  "demo_db = mk_ResourceId RESOURCE_DATABASE 5"

definition demo_db2 :: ResourceId where
  "demo_db2 = mk_ResourceId RESOURCE_DATABASE 6"

definition demo_ops :: "lm_op list" where
  "demo_ops =
     [NewRequest 1 1 False False, Lock demo_db 1 MODE_IX,
      NewRequest 2 2 False False, Lock demo_db 2 MODE_IS,
      NewRequest 3 3 False False, Lock demo_db 3 MODE_X,
      Convert demo_db 1 MODE_X,
      NewRequest 4 4 False False, Lock demo_db2 4 MODE_S,
      NewRequest 5 5 False False]"

definition demo_state :: LockManager where
  "demo_state = the (run_ops lm_exec (lm_init demo_requests) demo_ops)"

lemma demo_legal: "legal_run lm_exec lm_legal (lm_init demo_requests) demo_ops"
  by code_simp

lemma demo_reached: "lm_reached demo_requests demo_ops demo_state"
proof -
  obtain m where "run_ops lm_exec (lm_init demo_requests) demo_ops = Some m"
    using lms.run_total [OF lm_inv_init demo_legal] by blast
  then show ?thesis using demo_legal by (simp add: lm_reached_def demo_state_def)
qed

definition demo_check :: "LockManager \<Rightarrow> bool" where
  "demo_check m \<longleftrightarrow>
     holds_lock m demo_db 1 \<and> holds_lock m demo_db 2 \<and> waits_for_lock m demo_db 3 \<and>
     holds_lock m demo_db2 4 \<and> on_queue m 2 \<and> \<not> on_queue m 5 \<and> fresh_request (reqs m 5) \<and>
     status (reqs m 1) = STATUS_CONVERTING \<and> status (reqs m 4) = STATUS_GRANTED \<and>
     mode (reqs m 4) = MODE_S \<and> on_granted_queue m 4"

lemma demo_checked: "demo_check demo_state"
proof -
  have "case run_ops lm_exec (lm_init demo_requests) demo_ops of None \<Rightarrow> False | Some m \<Rightarrow> demo_check m"
    by code_simp
  then show ?thesis by (simp add: demo_state_def split: option.splits)
qed

lemmas demo_facts = demo_checked [unfolded demo_check_def]

subsection \<open>Properties\<close>

text \<open>
  C1: whatever sequence of operations the lockers perform within their contract, the requests
  that hold a resource at the same time, on the lock head and in all partitions, have
  pairwise compatible modes.
\<close>

theorem granted_requests_compatible:
  assumes "lm_reached rq ops m" and "holds_lock m resId x" and "holds_lock m resId y" and "x \<noteq> y"
  shows "\<not> conflicts (mode (reqs m x)) (modeMask (mode (reqs m y)))"
  using holders_compatible [OF lm_reached_inv [OF assms(1)]] assms(2-4)
  by (simp add: holds_lock_iff [OF lm_reached_inv [OF assms(1)]] mode_conflict_def)

theorem granted_requests_compatible_witness:
  "\<not> conflicts (mode (reqs demo_state 1)) (modeMask (mode (reqs demo_state 2)))"
  using granted_requests_compatible [OF demo_reached, of demo_db 1 2] demo_facts by simp

text \<open>
  C2: no legal sequence of lock, convert, unlock, downgrade and clean-up calls fails one of the
  \<open>invariant\<close> checks of the lock manager: every call returns.
\<close>

theorem lock_manager_never_aborts:
  assumes "legal_run lm_exec lm_legal (lm_init rq) ops"
  shows "\<exists>m. run_ops lm_exec (lm_init rq) ops = Some m"
  using lms.run_total [OF lm_inv_init assms] by blast

theorem lock_manager_never_aborts_witness:
  "\<exists>m. run_ops lm_exec (lm_init demo_requests) demo_ops = Some m"
  using lock_manager_never_aborts [OF demo_legal] .

text \<open>
  C3: lock on a fresh request always returns. It answers LOCK\_OK exactly with the request holding
  the resource in the requested mode, or LOCK\_WAITING with the request on the conflict queue and
  another request that holds, converts to or waits for a conflicting mode. No other request
  changes, and nobody is notified.
\<close>

theorem lock_grants_or_queues:
  assumes "lm_reached rq ops m" and "\<not> on_queue m r" and "fresh_request (reqs m r)" and "newMode \<noteq> MODE_NONE"
  shows "\<exists>res m'. lm_lock m resId r newMode = Some (res, m') \<and> mode (reqs m' r) = newMode \<and>
     (res = LOCK_OK \<and> status (reqs m' r) = STATUS_GRANTED \<and> holds_lock m' resId r \<or>
      res = LOCK_WAITING \<and> status (reqs m' r) = STATUS_WAITING \<and> waits_for_lock m' resId r \<and>
      (\<exists>x. x \<noteq> r \<and> (holds_lock m' resId x \<and> (\<exists>k \<in># holds (reqs m' x). mode_conflict newMode k) \<or>
                   waits_for_lock m' resId x \<and> mode_conflict newMode (mode (reqs m' x))))) \<and>
     (\<forall>x. x \<noteq> r \<longrightarrow> same_claim (reqs m x) (reqs m' x)) \<and> notified m' = notified m"
proof -
  have inv: "lm_inv m" by (rule lm_reached_inv [OF assms(1)])
  have "\<not> lm_attached m r" using assms(2) on_queue_iff [OF inv] by simp
  then obtain res m' where run: "lm_lock m resId r newMode = Some (res, m')" "lm_inv m'"
      "others_kept r m m'" "lock_outcome m' resId r newMode res" "notified m' = notified m"
    using lock_run [OF inv _ assms(3,4), of resId] by blast
  have "\<forall>x. x \<noteq> r \<longrightarrow> same_claim (reqs m x) (reqs m' x)" using run(3) by (simp add: others_kept_def)
  moreover note run(4) [unfolded lock_outcome_def holds_lock_iff [OF run(2), symmetric]
      waits_for_lock_iff [symmetric]]
  ultimately show ?thesis using run(1,5) by blast
qed

theorem lock_grants_or_queues_witness:
  "\<exists>res m'. lm_lock demo_state demo_db2 5 MODE_X = Some (res, m') \<and> mode (reqs m' 5) = MODE_X"
  using lock_grants_or_queues [OF demo_reached, of 5 MODE_X demo_db2] demo_facts by auto

text \<open>
  C5: convert on a granted request, to a mode comparable with the held one, always returns. A
  mode that the held one covers only counts a reference; otherwise the request is upgraded at once,
  or it keeps its mode, is marked as converting and some other holder conflicts with the new mode.
\<close>

theorem convert_upgrades_or_waits:
  assumes "lm_reached rq ops m" and "holds_lock m resId r" and "status (reqs m r) = STATUS_GRANTED"
    and "comparable newMode (mode (reqs m r))"
  shows "\<exists>res m'. lm_convert m resId r newMode = Some (res, m') \<and> holds_lock m' resId r \<and>
     recursiveCount (reqs m' r) = recursiveCount (reqs m r) + 1 \<and>
     (res = LOCK_OK \<and> status (reqs m' r) = STATUS_GRANTED \<and>
        mode (reqs m' r) = (if isModeCovered newMode (mode (reqs m r)) then mode (reqs m r) else newMode) \<or>
      res = LOCK_WAITING \<and> status (reqs m' r) = STATUS_CONVERTING \<and>
        mode (reqs m' r) = mode (reqs m r) \<and> convertMode (reqs m' r) = newMode \<and>
        (\<exists>x. x \<noteq> r \<and> holds_lock m' resId x \<and> (\<exists>k \<in># holds (reqs m' x). mode_conflict newMode k))) \<and>
     (\<forall>x. x \<noteq> r \<longrightarrow> same_claim (reqs m x) (reqs m' x))"
proof -
  have inv: "lm_inv m" by (rule lm_reached_inv [OF assms(1)])
  obtain res m' where run: "lm_convert m resId r newMode = Some (res, m')" "lm_inv m'"
      "others_kept r m m'" "convert_outcome m m' resId r newMode res"
    using convert_run [OF inv, of resId r newMode] assms(2-4) holds_lock_iff [OF inv]
    unfolding comparable_def by blast
  have "\<forall>x. x \<noteq> r \<longrightarrow> same_claim (reqs m x) (reqs m' x)" using run(3) by (simp add: others_kept_def)
  moreover note run(4) [unfolded convert_outcome_def holds_lock_iff [OF run(2), symmetric]]
  ultimately show ?thesis using run(1) by blast
qed

theorem convert_upgrades_or_waits_witness:
  "\<exists>res m'. lm_convert demo_state demo_db2 4 MODE_X = Some (res, m') \<and> holds_lock m' demo_db2 4"
proof -
  have "comparable MODE_X (mode (reqs demo_state 4))"
    using demo_facts by (simp add: comparable_def isModeCovered_iff LockMode_all mode_conflict_iff)
  then show ?thesis
    using convert_upgrades_or_waits [OF demo_reached, of demo_db2 4 MODE_X] demo_facts by blast
qed

text \<open>
  C4: unlock of a queued request always returns, and returns true exactly when it drops the last
  reference; then the request is on no queue any more. Otherwise the request stays granted in
  its old mode (a pending conversion is cancelled). The requests that are notified are exactly the
  blocked requests that become granted, each in the mode it wanted; nothing changes for the others.
\<close>

theorem unlock_releases_and_wakes:
  assumes "lm_reached rq ops m" and "on_queue m r"
  shows "\<exists>released m' ptr news. lm_unlock m r = Some (released, m') \<and>
     (released \<longleftrightarrow> recursiveCount (reqs m r) = 1) \<and> (released \<longrightarrow> \<not> on_queue m' r) \<and>
     (\<not> released \<longrightarrow> on_queue m' r \<and> status (reqs m' r) = STATUS_GRANTED \<and>
        mode (reqs m' r) = mode (reqs m r)) \<and>
     notified m' = notified m @ map (\<lambda>x. (x, ptr_resource ptr, LOCK_OK)) news \<and>
     (\<forall>x \<in> set news. (status (reqs m x) = STATUS_WAITING \<or> status (reqs m x) = STATUS_CONVERTING) \<and>
        status (reqs m' x) = STATUS_GRANTED \<and> mode (reqs m' x) = wanted (reqs m x)) \<and>
     (\<forall>x. x \<noteq> r \<longrightarrow> x \<notin> set news \<longrightarrow> same_claim (reqs m x) (reqs m' x))"
proof -
  have inv: "lm_inv m" by (rule lm_reached_inv [OF assms(1)])
  obtain released m' ptr news where run: "lm_unlock m r = Some (released, m')" "lm_inv m'"
      "unlock_outcome m m' r released" "woken ptr r m m' news"
    using unlock_run [OF inv] assms(2) on_queue_iff [OF inv] by blast
  note out = run(3) [unfolded unlock_outcome_def on_queue_iff [OF run(2), symmetric]]
  show ?thesis using run(1) out run(4) [unfolded woken_def] by blast
qed

theorem unlock_releases_and_wakes_witness:
  "\<exists>released m'. lm_unlock demo_state 2 = Some (released, m')"
  using unlock_releases_and_wakes [OF demo_reached, of 2] demo_facts by blast

text \<open>
  C6: downgrade of a granted request to a weaker mode always returns, leaves the request granted in
  that mode, and grants and notifies blocked requests only.
\<close>

theorem downgrade_weakens_and_wakes:
  assumes "lm_reached rq ops m" and "on_granted_queue m r" and "status (reqs m r) = STATUS_GRANTED"
    and "isModeCovered newMode (mode (reqs m r))" and "newMode \<noteq> MODE_NONE"
  shows "\<exists>m' ptr news. lm_downgrade m r newMode = Some m' \<and> mode (reqs m' r) = newMode \<and>
     status (reqs m' r) = STATUS_GRANTED \<and> on_queue m' r \<and>
     notified m' = notified m @ map (\<lambda>x. (x, ptr_resource ptr, LOCK_OK)) news \<and>
     (\<forall>x \<in> set news. (status (reqs m x) = STATUS_WAITING \<or> status (reqs m x) = STATUS_CONVERTING) \<and>
        status (reqs m' x) = STATUS_GRANTED \<and> mode (reqs m' x) = wanted (reqs m x)) \<and>
     (\<forall>x. x \<noteq> r \<longrightarrow> x \<notin> set news \<longrightarrow> same_claim (reqs m x) (reqs m' x))"
proof -
  have inv: "lm_inv m" by (rule lm_reached_inv [OF assms(1)])
  obtain ptr h where "deref m ptr = Some h" "r \<in> set (grantedList h)"
    using on_granted_queueD [OF assms(2)] by blast
  from downgrade_run [OF inv this assms(3-5)]
  obtain m' news where run: "lm_downgrade m r newMode = Some m'" "lm_inv m'" "woken ptr r m m' news"
      "reqs m' r = (reqs m r)\<lparr>mode := newMode\<rparr>" "at_head (deref m') ptr r"
    by blast
  have "on_queue m' r"
    using run(5) on_queue_iff [OF run(2)] by (auto simp: lm_attached_def attached_iff)
  moreover have "mode (reqs m' r) = newMode" "status (reqs m' r) = STATUS_GRANTED"
    using run(4) assms(3) by simp_all
  ultimately show ?thesis using run(1,3) unfolding woken_def by blast
qed

theorem downgrade_weakens_and_wakes_witness:
  "\<exists>m'. lm_downgrade demo_state 4 MODE_IS = Some m' \<and> mode (reqs m' 4) = MODE_IS"
proof -
  have "isModeCovered MODE_IS (mode (reqs demo_state 4))"
    using demo_facts by (simp add: isModeCovered_iff LockMode_all mode_conflict_iff)
  then show ?thesis
    using downgrade_weakens_and_wakes [OF demo_reached, of 4 MODE_IS] demo_facts by blast
qed



text \<open>
  C11: clean-up of unused locks always returns. It changes no request and no holder, and afterwards
  every lock head in the buckets belongs to a resource that somebody holds.
\<close>

theorem cleanup_keeps_used_locks:
  assumes "lm_reached rq ops m"
  shows "\<exists>m'. cleanupUnusedLocks m = Some m' \<and>
     (\<forall>x. same_claim (reqs m x) (reqs m' x)) \<and>
     (\<forall>resId x. holds_lock m' resId x = holds_lock m resId x \<and>
                waits_for_lock m' resId x = waits_for_lock m resId x) \<and>
     (\<forall>resId h. deref m' (ManagedHead resId) = Some h \<longrightarrow> (\<exists>x. holds_lock m' resId x))"
proof -
  have inv: "lm_inv m" by (rule lm_reached_inv [OF assms])
  obtain m' where run: "cleanupUnusedLocks m = Some m'" "lm_inv m'" "all_kept m m'" "\<forall>res. in_use m' res"
    using cleanup_run [OF inv] by blast
  note kept = run(3) [unfolded all_kept_def holds_lock_iff [OF run(2), symmetric]
      holds_lock_iff [OF inv, symmetric] waits_for_lock_iff [symmetric]]
  have "\<exists>x. holds_lock m' resId x" if "deref m' (ManagedHead resId) = Some h" for resId h
    using spec [OF run(4), of resId] that by (simp add: in_use_def holds_lock_iff [OF run(2)])
  then show ?thesis using run(1) kept by blast
qed

theorem cleanup_keeps_used_locks_witness:
  "\<exists>m'. cleanupUnusedLocks demo_state = Some m' \<and> holds_lock m' demo_db 1"
  using cleanup_keeps_used_locks [OF demo_reached] demo_facts by blast

end
