(* ===== verification/Lock_Manager_Race.thy ===== *)
theory Lock_Manager_Race
  imports Lock_Manager_Properties
begin

text \<open>
  LockManager::unlock decrements the recursive count and reads the status of the request before
  it takes a mutex. This theory splits unlock at that point, so that an operation of another
  thread can run in between.
\<close>

datatype unlock_progress = Returned bool | Continues

definition unlock_begin :: "LockManager \<Rightarrow> rid \<Rightarrow> (unlock_progress \<times> LockManager) option" where
  "unlock_begin m r = do {
     invariant (recursiveCount (reqs m r) > 0);
     let m = upd_req m r (\<lambda>q. q\<lparr>recursiveCount := recursiveCount q - 1\<rparr>);
     if status (reqs m r) = STATUS_GRANTED \<and> recursiveCount (reqs m r) > 0
     then Some (Returned False, m) else Some (Continues, m)
   }"

definition unlock_finish :: "LockManager \<Rightarrow> rid \<Rightarrow> (bool \<times> LockManager) option" where
  "unlock_finish m r =
     (if partitioned (reqs m r) then do {
        invariant (status (reqs m r) = STATUS_GRANTED \<or> status (reqs m r) = STATUS_CONVERTING);
        (case partitionedLock (reqs m r) of
           Some (p, resId) \<Rightarrow> do {
             pl \<leftarrow> partition_find m p resId;
             Some (True, put_partition m p resId
                           (pl\<lparr>partGrantedList := remove1 r (partGrantedList pl)\<rparr>))
           }
         | None \<Rightarrow> unlock_bucket_section m r)
      } else unlock_bucket_section m r)"


text \<open>
  Requests 1 and 2 hold a database in IS, request 1 waits for its conversion to X. The locker of
  request 1 cancels the conversion; between the two parts of its unlock, request 2 is released,
  which grants the conversion.
\<close>

definition race_ops :: "lm_op list" where
  "race_ops =
     [NewRequest 1 1 False False, Lock demo_db 1 MODE_IS,
      NewRequest 2 2 False False, Lock demo_db 2 MODE_IS,
      Convert demo_db 1 MODE_X]"

definition race_run :: "(bool \<times> LockManager) option" where
  "race_run = do {
     m \<leftarrow> run_ops lm_exec (lm_init demo_requests) race_ops;
     (progress, m) \<leftarrow> unlock_begin m 1;
     invariant (progress = Continues);
     (_, m) \<leftarrow> lm_unlock m 2;
     unlock_finish m 1
   }"


end
