(* ===== verification/Fast_Map.thy ===== *)
theory Fast_Map
  imports Prelude
begin

text \<open>
  Class FastMapNoAlloc of db/concurrency/fast_map_noalloc.h: a map whose entries are marked as unused
  instead of being freed, so that the address of a value stays valid. An entry stores the address of its
  value; a new entry takes the address \<open>fresh\<close>, which the allocator provides. An iterator is a
  position in the deque, and the end is its length.
\<close>

subsection \<open>The map\<close>

record ('k, 'v) PreallocEntry =
  inUse :: bool
  entry_key :: 'k
  entry_addr :: 'v

record ('k, 'v) FastMapNoAlloc =
  fastAccess :: "('k, 'v) PreallocEntry list"
  fastAccessUsedSize :: nat

definition FastMapNoAlloc_new :: "('k, 'v) FastMapNoAlloc" where
  "FastMapNoAlloc_new = \<lparr>fastAccess = [], fastAccessUsedSize = 0\<rparr>"

definition first_index :: "('a \<Rightarrow> bool) \<Rightarrow> 'a list \<Rightarrow> nat" where
  "first_index P xs = length (takeWhile (\<lambda>x. \<not> P x) xs)"

definition it_begin :: "('k, 'v) FastMapNoAlloc \<Rightarrow> nat" where
  "it_begin m = first_index inUse (fastAccess m)"

definition it_find :: "('k, 'v) FastMapNoAlloc \<Rightarrow> 'k \<Rightarrow> nat" where
  "it_find m key = first_index (\<lambda>e. inUse e \<and> entry_key e = key) (fastAccess m)"

definition it_finished :: "('k, 'v) FastMapNoAlloc \<Rightarrow> nat \<Rightarrow> bool" where
  "it_finished m it \<longleftrightarrow> it = length (fastAccess m)"

definition it_objAddr :: "('k, 'v) FastMapNoAlloc \<Rightarrow> nat \<Rightarrow> 'v option" where
  "it_objAddr m it = do {
     invariant (\<not> it_finished m it);
     Some (entry_addr (fastAccess m ! it)) }"

definition it_key :: "('k, 'v) FastMapNoAlloc \<Rightarrow> nat \<Rightarrow> 'k option" where
  "it_key m it = do {
     invariant (\<not> it_finished m it);
     Some (entry_key (fastAccess m ! it)) }"

definition it_next :: "('k, 'v) FastMapNoAlloc \<Rightarrow> nat \<Rightarrow> nat option" where
  "it_next m it = do {
     invariant (\<not> it_finished m it);
     Some (Suc it + first_index inUse (drop (Suc it) (fastAccess m))) }"

definition it_remove :: "('k, 'v) FastMapNoAlloc \<Rightarrow> nat \<Rightarrow> (nat \<times> ('k, 'v) FastMapNoAlloc) option" where
  "it_remove m it = do {
     invariant (\<not> it_finished m it);
     invariant (inUse (fastAccess m ! it));
     let m = m\<lparr>fastAccess := (fastAccess m)[it := (fastAccess m ! it)\<lparr>inUse := False\<rparr>],
               fastAccessUsedSize := fastAccessUsedSize m - 1\<rparr>;
     it \<leftarrow> it_next m it;
     Some (it, m) }"

definition fm_insert :: "('k, 'v) FastMapNoAlloc \<Rightarrow> 'k \<Rightarrow> 'v \<Rightarrow> (nat \<times> ('k, 'v) FastMapNoAlloc) option" where
  "fm_insert m key fresh =
     (let es = (if fastAccessUsedSize m = length (fastAccess m)
                then \<lparr>inUse = False, entry_key = key, entry_addr = fresh\<rparr> # fastAccess m
                else fastAccess m);
          it = first_index (\<lambda>e. \<not> inUse e) es
      in do {
        invariant (it \<noteq> length es \<and> \<not> inUse (es ! it));
        Some (it, m\<lparr>fastAccess := es[it := (es ! it)\<lparr>inUse := True, entry_key := key\<rparr>],
                    fastAccessUsedSize := Suc (fastAccessUsedSize m)\<rparr>) })"

definition fm_size :: "('k, 'v) FastMapNoAlloc \<Rightarrow> nat" where
  "fm_size m = fastAccessUsedSize m"

definition fm_empty :: "('k, 'v) FastMapNoAlloc \<Rightarrow> bool" where
  "fm_empty m \<longleftrightarrow> fastAccessUsedSize m = 0"

subsection \<open>What a map of addresses promises\<close>

text \<open>
  The view of a client: looking up the address of a key, inserting a key and erasing it. The slots are
  all addresses the map owns, also those of unused entries.
\<close>

definition fm_lookup :: "('k, 'v) FastMapNoAlloc \<Rightarrow> 'k \<Rightarrow> 'v option" where
  "fm_lookup m key = it_objAddr m (it_find m key)"

definition fm_add :: "('k, 'v) FastMapNoAlloc \<Rightarrow> 'k \<Rightarrow> 'v \<Rightarrow> ('v \<times> ('k, 'v) FastMapNoAlloc) option" where
  "fm_add m key fresh = do {
     (it, m) \<leftarrow> fm_insert m key fresh;
     x \<leftarrow> it_objAddr m it;
     Some (x, m) }"

definition fm_erase :: "('k, 'v) FastMapNoAlloc \<Rightarrow> 'k \<Rightarrow> ('k, 'v) FastMapNoAlloc option" where
  "fm_erase m key = map_option snd (it_remove m (it_find m key))"

definition fm_slots :: "('k, 'v) FastMapNoAlloc \<Rightarrow> 'v set" where
  "fm_slots m = entry_addr ` set (fastAccess m)"

definition fm_wf :: "('k, 'v) FastMapNoAlloc \<Rightarrow> bool" where
  "fm_wf m \<longleftrightarrow>
     fastAccessUsedSize m = length (filter inUse (fastAccess m)) \<and>
     distinct (map entry_key (filter inUse (fastAccess m))) \<and>
     distinct (map entry_addr (fastAccess m))"

locale address_map =
  fixes lookup :: "'m \<Rightarrow> 'k \<Rightarrow> 'v option" and add :: "'m \<Rightarrow> 'k \<Rightarrow> 'v \<Rightarrow> ('v \<times> 'm) option"
    and erase :: "'m \<Rightarrow> 'k \<Rightarrow> 'm option" and slots :: "'m \<Rightarrow> 'v set" and wf :: "'m \<Rightarrow> bool"
  assumes add_ok: "wf m \<Longrightarrow> lookup m k = None \<Longrightarrow> fresh \<notin> slots m \<Longrightarrow>
      \<exists>x m'. add m k fresh = Some (x, m') \<and> wf m' \<and> lookup m' = (lookup m)(k \<mapsto> x) \<and>
        (x = fresh \<or> x \<in> slots m) \<and> x \<notin> ran (lookup m) \<and> slots m' = insert x (slots m)"
    and erase_ok: "wf m \<Longrightarrow> lookup m k \<noteq> None \<Longrightarrow>
      \<exists>m'. erase m k = Some m' \<and> wf m' \<and> lookup m' = (lookup m)(k := None) \<and> slots m' = slots m"
    and lookup_slot: "wf m \<Longrightarrow> lookup m k = Some x \<Longrightarrow> x \<in> slots m"
    and lookup_inj: "wf m \<Longrightarrow> lookup m k = Some x \<Longrightarrow> lookup m k' = Some x \<Longrightarrow> k' = k"
begin

lemma erase_frees:
  assumes "wf m" and "lookup m k = Some x" and "erase m k = Some m'"
  shows "x \<in> slots m'" and "x \<notin> ran (lookup m')"
proof -
  have l: "lookup m' = (lookup m)(k := None)" "slots m' = slots m"
    using erase_ok [OF assms(1), of k] assms(2,3) by auto
  show "x \<in> slots m'" using lookup_slot [OF assms(1,2)] l by simp
  show "x \<notin> ran (lookup m')" using lookup_inj [OF assms(1,2)] l by (auto simp: ran_def split: if_splits)
qed

lemma add_erase:
  assumes "wf m" and "lookup m k = None" and "fresh \<notin> slots m"
  shows "\<exists>x m' m''. add m k fresh = Some (x, m') \<and> erase m' k = Some m'' \<and> lookup m'' = lookup m"
proof -
  obtain x m' where m': "add m k fresh = Some (x, m')" "wf m'" "lookup m' = (lookup m)(k \<mapsto> x)"
    using add_ok [OF assms] by blast
  then obtain m'' where "erase m' k = Some m''" "lookup m'' = (lookup m')(k := None)"
    using erase_ok [OF m'(2), of k] by auto
  then show ?thesis using m' assms(2) by (auto simp: fun_upd_idem)
qed

end

subsection \<open>Positions\<close>

lemma first_index_le: "first_index P xs \<le> length xs"
  unfolding first_index_def by (rule length_takeWhile_le)

lemma first_index_end: "first_index P xs = length xs \<longleftrightarrow> (\<forall>x \<in> set xs. \<not> P x)"
  by (induction xs) (auto simp: first_index_def)

lemma first_index_hit: "first_index P xs \<noteq> length xs \<Longrightarrow> first_index P xs < length xs \<and> P (xs ! first_index P xs)"
  by (induction xs) (auto simp: first_index_def)

lemma first_index_unique:
  assumes "i < length xs" and "P (xs ! i)" and "\<And>j. j < length xs \<Longrightarrow> P (xs ! j) \<Longrightarrow> j = i"
  shows "first_index P xs = i"
proof -
  have "first_index P xs \<noteq> length xs" using assms(1,2) by (auto simp: first_index_end)
  from first_index_hit [OF this] show ?thesis using assms(3) by blast
qed

lemma distinct_filter_nth:
  "distinct (map f (filter P xs)) \<longleftrightarrow>
     (\<forall>i < length xs. \<forall>j < length xs. P (xs ! i) \<longrightarrow> P (xs ! j) \<longrightarrow> f (xs ! i) = f (xs ! j) \<longrightarrow> i = j)"
proof (induction xs)
  case (Cons x xs)
  have head: "f x \<notin> f ` (set xs \<inter> {x. P x}) \<longleftrightarrow> (\<forall>j < length xs. P (xs ! j) \<longrightarrow> f x \<noteq> f (xs ! j))"
  proof -
    have "f x \<notin> f ` (set xs \<inter> {x. P x}) \<longleftrightarrow> (\<forall>y \<in> set xs. P y \<longrightarrow> f x \<noteq> f y)" by auto
    then show ?thesis by (simp add: all_set_conv_all_nth)
  qed
  have "distinct (map f (filter P (x # xs))) \<longleftrightarrow>
      (P x \<longrightarrow> f x \<notin> f ` (set xs \<inter> {x. P x})) \<and> distinct (map f (filter P xs))" by auto
  then show ?case unfolding Cons.IH head length_Cons All_less_Suc2 nth_Cons_0 nth_Cons_Suc
    by auto
qed simp

lemma length_filter_update:
  assumes "i < length xs"
  shows "length (filter P (xs[i := y])) + (if P (xs ! i) then 1 else 0) =
    length (filter P xs) + (if P y then 1 else 0)"
  using assms
proof (induction xs arbitrary: i)
  case (Cons x xs)
  then show ?case using Cons.IH [of "i - 1"] by (cases i) (auto split: if_splits)
qed simp

lemma map_eqI:
  assumes "\<And>k y. f k = Some y \<longleftrightarrow> g k = Some y"
  shows "f = g"
proof
  fix k
  show "f k = g k"
  proof (cases "f k")
    case None
    then show ?thesis using assms [of k "the (g k)"] by (cases "g k") simp_all
  next
    case (Some y)
    then show ?thesis using assms [of k y] by simp
  qed
qed

lemma length_filter_full:
  assumes "length (filter P xs) \<noteq> length xs"
  shows "\<exists>x \<in> set xs. \<not> P x"
  using assms by (metis filter_True)

text \<open>The entries in use, by position.\<close>

definition entry_at :: "('k, 'v) FastMapNoAlloc \<Rightarrow> nat \<Rightarrow> 'k \<Rightarrow> 'v \<Rightarrow> bool" where
  "entry_at m i key x \<longleftrightarrow> i < length (fastAccess m) \<and> inUse (fastAccess m ! i) \<and>
     entry_key (fastAccess m ! i) = key \<and> entry_addr (fastAccess m ! i) = x"

lemma fm_wfD:
  assumes "fm_wf m"
  shows "entry_at m i k x \<Longrightarrow> entry_at m j k y \<Longrightarrow> j = i"
    and "entry_at m i k x \<Longrightarrow> entry_at m j k' x \<Longrightarrow> j = i"
    and "i < length (fastAccess m) \<Longrightarrow> j < length (fastAccess m) \<Longrightarrow>
      entry_addr (fastAccess m ! j) = entry_addr (fastAccess m ! i) \<Longrightarrow> j = i"
proof -
  have k: "\<forall>i < length (fastAccess m). \<forall>j < length (fastAccess m). inUse (fastAccess m ! i) \<longrightarrow>
      inUse (fastAccess m ! j) \<longrightarrow> entry_key (fastAccess m ! i) = entry_key (fastAccess m ! j) \<longrightarrow> i = j"
    using assms unfolding fm_wf_def distinct_filter_nth by blast
  have a: "\<forall>i < length (fastAccess m). \<forall>j < length (fastAccess m).
      entry_addr (fastAccess m ! i) = entry_addr (fastAccess m ! j) \<longrightarrow> i = j"
    using assms unfolding fm_wf_def distinct_conv_nth by (metis length_map nth_map)
  show "entry_at m i k x \<Longrightarrow> entry_at m j k y \<Longrightarrow> j = i" using k unfolding entry_at_def by metis
  show "entry_at m i k x \<Longrightarrow> entry_at m j k' x \<Longrightarrow> j = i" using a unfolding entry_at_def by metis
  show "i < length (fastAccess m) \<Longrightarrow> j < length (fastAccess m) \<Longrightarrow>
      entry_addr (fastAccess m ! j) = entry_addr (fastAccess m ! i) \<Longrightarrow> j = i" using a by metis
qed

lemma it_find_at:
  assumes "fm_wf m" and "entry_at m i k x"
  shows "it_find m k = i"
  unfolding it_find_def
  by (rule first_index_unique) (use assms fm_wfD(1) [OF assms] in \<open>auto simp: entry_at_def\<close>)

lemma it_find_Some:
  assumes "it_find m k \<noteq> length (fastAccess m)"
  shows "\<exists>x. entry_at m (it_find m k) k x"
  using first_index_hit [OF assms [unfolded it_find_def]] unfolding it_find_def entry_at_def by auto

lemma fm_lookup_iff:
  assumes "fm_wf m"
  shows "fm_lookup m k = Some x \<longleftrightarrow> (\<exists>i. entry_at m i k x)"
proof
  assume "fm_lookup m k = Some x"
  then have "it_find m k \<noteq> length (fastAccess m)" "entry_addr (fastAccess m ! it_find m k) = x"
    by (auto simp: fm_lookup_def it_objAddr_def it_finished_def abort_simps)
  with it_find_Some [OF this(1)] show "\<exists>i. entry_at m i k x" by (auto simp: entry_at_def)
next
  assume "\<exists>i. entry_at m i k x"
  then obtain i where i: "entry_at m i k x" ..
  then show "fm_lookup m k = Some x"
    using it_find_at [OF assms i] by (auto simp: fm_lookup_def it_objAddr_def it_finished_def entry_at_def)
qed

lemma fm_lookup_None: "fm_lookup m k = None \<longleftrightarrow> it_finished m (it_find m k)"
  by (simp add: fm_lookup_def it_objAddr_def invariant_def)

subsection \<open>Changing one entry\<close>

lemma it_remove_at:
  assumes wf: "fm_wf m" and i: "entry_at m i k x"
  shows "\<exists>it m'. it_remove m i = Some (it, m') \<and> fm_wf m' \<and> fm_lookup m' = (fm_lookup m)(k := None) \<and>
    fm_slots m' = fm_slots m \<and> length (fastAccess m') = length (fastAccess m) \<and>
    (\<forall>j k' y. entry_at m' j k' y \<longleftrightarrow> entry_at m j k' y \<and> j \<noteq> i)"
proof -
  let ?es = "(fastAccess m)[i := (fastAccess m ! i)\<lparr>inUse := False\<rparr>]"
  let ?m = "m\<lparr>fastAccess := ?es, fastAccessUsedSize := fastAccessUsedSize m - 1\<rparr>"
  have len: "i < length (fastAccess m)" and use: "inUse (fastAccess m ! i)" using i by (simp_all add: entry_at_def)
  have at: "entry_at ?m j k' y \<longleftrightarrow> entry_at m j k' y \<and> j \<noteq> i" for j k' y
    using len by (auto simp: entry_at_def nth_list_update)
  have addr: "map entry_addr ?es = map entry_addr (fastAccess m)"
    using len by (simp add: map_update list_update_same_conv)
  have "Suc (length (filter inUse ?es)) = length (filter inUse (fastAccess m))"
    using length_filter_update [OF len, of inUse "(fastAccess m ! i)\<lparr>inUse := False\<rparr>"] use by simp
  moreover have "distinct (map entry_key (filter inUse ?es))"
    using wf len unfolding fm_wf_def distinct_filter_nth by (simp add: nth_list_update)
  ultimately have wf': "fm_wf ?m" using wf by (simp add: fm_wf_def addr)
  have "fm_lookup ?m k' = Some y \<longleftrightarrow> ((fm_lookup m)(k := None)) k' = Some y" for k' y
    using at fm_wfD(1) [OF wf i] i unfolding fm_lookup_iff [OF wf'] fun_upd_apply
    by (cases "k' = k") (auto simp: fm_lookup_iff [OF wf] entry_at_def)
  then have "fm_lookup ?m = (fm_lookup m)(k := None)" by (intro map_eqI)
  moreover have "fm_slots ?m = fm_slots m"
    unfolding fm_slots_def using arg_cong [OF addr, of set] by simp
  moreover have "\<exists>it. it_remove m i = Some (it, ?m)"
    using len use by (simp add: it_remove_def it_next_def it_finished_def Let_def)
  ultimately show ?thesis using wf' at by auto
qed

lemma fm_insert_new:
  assumes wf: "fm_wf m" and k: "fm_lookup m k = None" and fresh: "fresh \<notin> fm_slots m"
  shows "\<exists>i x m'. fm_insert m k fresh = Some (i, m') \<and> fm_wf m' \<and> entry_at m' i k x \<and>
    fm_lookup m' = (fm_lookup m)(k \<mapsto> x) \<and> (x = fresh \<or> x \<in> fm_slots m) \<and> x \<notin> ran (fm_lookup m) \<and>
    fm_slots m' = insert x (fm_slots m)"
proof -
  define es where "es = (if fastAccessUsedSize m = length (fastAccess m)
    then \<lparr>inUse = False, entry_key = k, entry_addr = fresh\<rparr> # fastAccess m else fastAccess m)"
  let ?i = "first_index (\<lambda>e. \<not> inUse e) es"
  let ?x = "entry_addr (es ! ?i)"
  let ?es = "es[?i := (es ! ?i)\<lparr>inUse := True, entry_key := k\<rparr>]"
  let ?m = "m\<lparr>fastAccess := ?es, fastAccessUsedSize := Suc (fastAccessUsedSize m)\<rparr>"
  let ?n = "\<lparr>fastAccess = es, fastAccessUsedSize = fastAccessUsedSize m\<rparr>"
  have slots: "fm_slots ?n = (if fastAccessUsedSize m = length (fastAccess m) then insert fresh (fm_slots m)
      else fm_slots m)" by (simp add: fm_slots_def es_def)
  have wfn: "fm_wf ?n" using wf fresh by (auto simp: fm_wf_def es_def fm_slots_def)
  have ex: "(\<exists>i. entry_at ?n i k' y) \<longleftrightarrow> (\<exists>i. entry_at m i k' y)" for k' y
  proof -
    have "(\<exists>i. entry_at q i k' y) \<longleftrightarrow>
        (\<exists>e \<in> set (fastAccess q). inUse e \<and> entry_key e = k' \<and> entry_addr e = y)" for q :: "('a, 'b) FastMapNoAlloc"
      unfolding entry_at_def Bex_def in_set_conv_nth by blast
    then show ?thesis by (simp add: es_def)
  qed
  have "\<exists>e \<in> set es. \<not> inUse e"
  proof (cases "fastAccessUsedSize m = length (fastAccess m)")
    case False
    then show ?thesis using wf length_filter_full [of inUse "fastAccess m"] by (simp add: es_def fm_wf_def)
  qed (simp add: es_def)
  then have "?i \<noteq> length es" by (auto simp: first_index_end)
  from first_index_hit [OF this] have i: "?i < length es" "\<not> inUse (es ! ?i)" by simp_all
  have run: "fm_insert m k fresh = Some (?i, ?m)"
    unfolding fm_insert_def es_def [symmetric] using i by (simp add: Let_def)
  have free: "\<not> entry_at ?n j k' ?x" for j k'
  proof
    assume "entry_at ?n j k' ?x"
    with fm_wfD(3) [OF wfn, of ?i j] i show False by (auto simp: entry_at_def)
  qed
  have nokey: "\<not> entry_at ?n j k y" for j y
    using ex [of k y] fm_lookup_iff [OF wf, of k y] k by auto
  have other: "entry_at ?n j k' y \<Longrightarrow> j \<noteq> ?i" for j k' y using i(2) by (auto simp: entry_at_def)
  have at: "entry_at ?m j k' y \<longleftrightarrow> (if j = ?i then k' = k \<and> y = ?x else entry_at ?n j k' y)" for j k' y
    using i by (auto simp: entry_at_def nth_list_update)
  have addr: "map entry_addr ?es = map entry_addr es"
    using i by (simp add: map_update list_update_same_conv)
  have "length (filter inUse ?es) = Suc (length (filter inUse es))"
    using length_filter_update [OF i(1), of inUse "(es ! ?i)\<lparr>inUse := True, entry_key := k\<rparr>"] i(2) by simp
  moreover have "distinct (map entry_key (filter inUse ?es))"
    unfolding distinct_filter_nth
  proof (intro allI impI)
    fix a b assume "a < length ?es" "b < length ?es" "inUse (?es ! a)" "inUse (?es ! b)"
      "entry_key (?es ! a) = entry_key (?es ! b)"
    then obtain y z where ab: "entry_at ?m a (entry_key (?es ! a)) y" "entry_at ?m b (entry_key (?es ! a)) z"
      by (auto simp: entry_at_def)
    then show "a = b" unfolding at using nokey fm_wfD(1) [OF wfn] by (auto split: if_splits)
  qed
  ultimately have wf': "fm_wf ?m" using wfn by (simp add: fm_wf_def addr)
  have "fm_lookup ?m k' = Some y \<longleftrightarrow> ((fm_lookup m)(k \<mapsto> ?x)) k' = Some y" for k' y
  proof -
    have "fm_lookup ?m k' = Some y \<longleftrightarrow> (\<exists>j. if j = ?i then k' = k \<and> y = ?x else entry_at ?n j k' y)"
      unfolding fm_lookup_iff [OF wf'] at ..
    also have "\<dots> \<longleftrightarrow> (if k' = k then y = ?x else \<exists>j. entry_at ?n j k' y)"
      using nokey other by (cases "k' = k") (simp_all, metis+)
    finally show ?thesis using fm_lookup_iff [OF wf, of k' y] ex by auto
  qed
  then have look: "fm_lookup ?m = (fm_lookup m)(k \<mapsto> ?x)" by (intro map_eqI)
  have "?x \<in> fm_slots ?n" using i(1) by (auto simp: fm_slots_def)
  then have inslot: "?x = fresh \<or> ?x \<in> fm_slots m" unfolding slots by (auto split: if_splits)
  have notran: "?x \<notin> ran (fm_lookup m)"
    using free ex fm_lookup_iff [OF wf] by (fastforce simp: ran_def)
  have "fm_slots ?m = fm_slots ?n" unfolding fm_slots_def using arg_cong [OF addr, of set] by simp
  moreover have "fm_slots ?n = insert ?x (fm_slots m)"
  proof (cases "fastAccessUsedSize m = length (fastAccess m)")
    case True
    then have "?i = 0" by (simp add: es_def first_index_def)
    then show ?thesis using True unfolding slots by (simp add: es_def)
  next
    case False
    then show ?thesis using \<open>?x \<in> fm_slots ?n\<close> unfolding slots by auto
  qed
  moreover have "entry_at ?m ?i k ?x" unfolding at by simp
  ultimately show ?thesis using run wf' look inslot notran by (intro exI [of _ ?i] exI [of _ ?x] exI [of _ ?m]) simp
qed

interpretation fm: address_map fm_lookup fm_add fm_erase fm_slots fm_wf
proof
  fix m :: "('k, 'v) FastMapNoAlloc" and k x k' fresh
  show "\<exists>x m'. fm_add m k fresh = Some (x, m') \<and> fm_wf m' \<and> fm_lookup m' = (fm_lookup m)(k \<mapsto> x) \<and>
        (x = fresh \<or> x \<in> fm_slots m) \<and> x \<notin> ran (fm_lookup m) \<and> fm_slots m' = insert x (fm_slots m)"
    if new: "fm_wf m" "fm_lookup m k = None" "fresh \<notin> fm_slots m"
  proof -
    obtain i x m' where "fm_insert m k fresh = Some (i, m')" "fm_wf m'" "entry_at m' i k x"
        "fm_lookup m' = (fm_lookup m)(k \<mapsto> x)" "x = fresh \<or> x \<in> fm_slots m" "x \<notin> ran (fm_lookup m)"
        "fm_slots m' = insert x (fm_slots m)"
      using fm_insert_new [OF new] by blast
    then show ?thesis
      by (intro exI [of _ x] exI [of _ m']) (simp add: fm_add_def it_objAddr_def it_finished_def entry_at_def)
  qed
  show "\<exists>m'. fm_erase m k = Some m' \<and> fm_wf m' \<and> fm_lookup m' = (fm_lookup m)(k := None) \<and>
      fm_slots m' = fm_slots m" if old: "fm_wf m" "fm_lookup m k \<noteq> None"
  proof -
    obtain y i where i: "entry_at m i k y" using old fm_lookup_iff [OF old(1)] by blast
    show ?thesis using it_remove_at [OF old(1) i] it_find_at [OF old(1) i] by (auto simp: fm_erase_def)
  qed
  show "x \<in> fm_slots m" if slot: "fm_wf m" "fm_lookup m k = Some x"
  proof -
    obtain i where "entry_at m i k x" using slot(2) unfolding fm_lookup_iff [OF slot(1)] by blast
    then show ?thesis by (auto simp: entry_at_def fm_slots_def)
  qed
  show "k' = k" if both: "fm_wf m" "fm_lookup m k = Some x" "fm_lookup m k' = Some x"
  proof -
    obtain i j where ij: "entry_at m i k x" "entry_at m j k' x"
      using both(2,3) unfolding fm_lookup_iff [OF both(1)] by blast
    from fm_wfD(2) [OF both(1) this] ij show ?thesis by (simp add: entry_at_def)
  qed
qed

lemma fm_wf_new [simp]: "fm_wf FastMapNoAlloc_new"
  by (simp add: fm_wf_def FastMapNoAlloc_new_def)

lemma fm_new [simp]: "fm_lookup FastMapNoAlloc_new = Map.empty" "fm_slots FastMapNoAlloc_new = {}"
  by (auto simp: fm_lookup_def it_find_def it_objAddr_def it_finished_def first_index_def
      FastMapNoAlloc_new_def fm_slots_def)

end
