(* ===== verification/Deadlock_Detector.thy ===== *)
theory Deadlock_Detector
  imports Lock_Manager_Properties
begin

text \<open>
  Class DeadlockDetector of db/concurrency/lock_manager.h and lock_manager.cpp: the search for a
  cycle through the initial locker in the wait-for graph of a lock manager state. The resource
  each locker waits for, Locker::getWaitingResource, is the argument \<open>waiting\<close>.
\<close>

subsection \<open>The detector\<close>

type_synonym UnprocessedNode = "LockerId \<times> ResourceId"

record DeadlockDetector =
  initialLockerId :: LockerId
  dd_queue :: "UnprocessedNode list"
  dd_graph :: "(LockerId \<times> ResourceId \<times> LockerId list) list"
  foundCycle :: bool

definition DeadlockDetector_new :: "(LockerId \<Rightarrow> ResourceId) \<Rightarrow> LockerId \<Rightarrow> DeadlockDetector" where
  "DeadlockDetector_new waiting initial =
     \<lparr>initialLockerId = initial,
      dd_queue = (if isValid (waiting initial) then [(initial, waiting initial)] else []),
      dd_graph = [], foundCycle = False\<rparr>"

text \<open>
  The loop over the granted queue, from the back; \<open>seen\<close> tells whether the request itself has been
  passed. The result lists the owners in the order they are visited.
\<close>

fun granted_owners ::
  "requests \<Rightarrow> (LockerId \<Rightarrow> ResourceId) \<Rightarrow> rid \<Rightarrow> bool \<Rightarrow> rid list \<Rightarrow> LockerId list option" where
  "granted_owners rq waiting request seen [] = Some []"
| "granted_owners rq waiting request seen (it # rest) =
     (if it = request then granted_owners rq waiting request True rest
      else do {
        found \<leftarrow>
          (if status (rq request) = STATUS_WAITING then
             Some (conflicts (mode (rq request)) (modeMask (mode (rq it))) \<or>
                   conflicts (mode (rq request)) (modeMask (convertMode (rq it))))
           else do {
             invariant (status (rq request) = STATUS_CONVERTING);
             Some (conflicts (convertMode (rq request)) (modeMask (mode (rq it))) \<or>
                   seen \<and> conflicts (convertMode (rq request)) (modeMask (convertMode (rq it))))
           });
        owners \<leftarrow> granted_owners rq waiting request seen rest;
        Some (if found \<and> isValid (waiting (locker (rq it))) then locker (rq it) # owners else owners)
      })"

text \<open>The loop over the conflict queue: the waiting requests in front of the request.\<close>

definition waiting_owners ::
  "requests \<Rightarrow> (LockerId \<Rightarrow> ResourceId) \<Rightarrow> LockHead \<Rightarrow> rid \<Rightarrow> LockerId list" where
  "waiting_owners rq waiting h request =
     (if status (rq request) = STATUS_WAITING then
        map (\<lambda>it. locker (rq it))
          (filter (\<lambda>it. conflicts (mode (rq request)) (modeMask (mode (rq it))) \<and>
                        isValid (waiting (locker (rq it))))
             (rev (takeWhile (\<lambda>it. it \<noteq> request) (conflictList h))))
      else [])"

definition processNextNode ::
  "LockManager \<Rightarrow> (LockerId \<Rightarrow> ResourceId) \<Rightarrow> UnprocessedNode \<Rightarrow> DeadlockDetector \<Rightarrow>
   DeadlockDetector option" where
  "processNextNode m waiting node d =
     (case node of (lockerId, resId) \<Rightarrow>
       (case deref m (ManagedHead resId) of
          None \<Rightarrow> Some d
        | Some h \<Rightarrow>
           (case findRequest (reqs m) h lockerId of
              None \<Rightarrow> Some d
            | Some request \<Rightarrow>
                if status (reqs m request) = STATUS_GRANTED then Some d
                else if map_of (dd_graph d) lockerId \<noteq> None then
                  Some (if foundCycle d then d else d\<lparr>foundCycle := (lockerId = initialLockerId d)\<rparr>)
                else do {
                  gs \<leftarrow> granted_owners (reqs m) waiting request False (rev (grantedList h));
                  let owners = gs @ waiting_owners (reqs m) waiting h request;
                  Some (d\<lparr>dd_graph := (lockerId, resId, owners) # dd_graph d,
                          dd_queue := rev (map (\<lambda>l. (l, waiting l)) owners) @ dd_queue d\<rparr>)
                })))"

definition dd_next ::
  "LockManager \<Rightarrow> (LockerId \<Rightarrow> ResourceId) \<Rightarrow> DeadlockDetector \<Rightarrow> (bool \<times> DeadlockDetector) option" where
  "dd_next m waiting d =
     (case dd_queue d of
        [] \<Rightarrow> Some (False, d)
      | front # rest \<Rightarrow> do {
          d \<leftarrow> processNextNode m waiting front (d\<lparr>dd_queue := rest\<rparr>);
          Some (dd_queue d \<noteq> [], d)
        })"

definition seen_lockers :: "DeadlockDetector \<Rightarrow> LockerId set" where
  "seen_lockers d = fst ` set (dd_graph d)"

text \<open>
  Every turn of the loop either shortens the queue or adds one of finitely many locker ids to the
  graph.
\<close>

lemma processNextNode_progress:
  assumes "processNextNode m waiting node d = Some d'"
  shows "dd_queue d' = dd_queue d \<and> dd_graph d' = dd_graph d \<or>
    fst node \<notin> seen_lockers d \<and> seen_lockers d' = insert (fst node) (seen_lockers d)"
  using assms
  by (auto simp: processNextNode_def seen_lockers_def map_of_eq_None_iff Let_def
      split: prod.splits option.splits if_splits bind_splits)

lemma card_unseen_less:
  assumes "l \<notin> seen_lockers d" and "seen_lockers d' = insert l (seen_lockers d)"
  shows "card (- seen_lockers d') < card (- seen_lockers d)"
  using assms by (intro psubset_card_mono) auto

function (sequential) dd_check ::
  "LockManager \<Rightarrow> (LockerId \<Rightarrow> ResourceId) \<Rightarrow> DeadlockDetector \<Rightarrow> DeadlockDetector option" where
  "dd_check m waiting d =
     (case dd_next m waiting d of
        None \<Rightarrow> None
      | Some (True, d) \<Rightarrow> dd_check m waiting d
      | Some (False, d) \<Rightarrow> Some d)"
  by pat_completeness auto

termination
proof (relation "measures [\<lambda>(m, waiting, d). card (- seen_lockers d), \<lambda>(m, waiting, d). length (dd_queue d)]", goal_cases)
  case (2 m waiting d a b d')
  then obtain front rest where q: "dd_queue d = front # rest"
    and run: "processNextNode m waiting front (d\<lparr>dd_queue := rest\<rparr>) = Some d'"
    by (auto simp: dd_next_def split: list.splits bind_splits)
  have "seen_lockers (d\<lparr>dd_queue := rest\<rparr>) = seen_lockers d" by (simp add: seen_lockers_def)
  with processNextNode_progress [OF run] card_unseen_less [of "fst front" d d'] q
  show ?case by (auto simp: seen_lockers_def)
qed simp

definition hasCycle :: "DeadlockDetector \<Rightarrow> bool option" where
  "hasCycle d = do { invariant (dd_queue d = []); Some (foundCycle d) }"

subsection \<open>The wait-for graph\<close>

text \<open>
  A request \<open>x\<close> stands in the way of the blocked request \<open>r\<close> of the same head: it is granted, or its
  conversion is served first, or it waits in front of \<open>r\<close>.
\<close>

definition blocks :: "requests \<Rightarrow> LockHead \<Rightarrow> rid \<Rightarrow> rid \<Rightarrow> bool" where
  "blocks rq h x r \<longleftrightarrow>
     (if status (rq r) = STATUS_WAITING then
        x \<in> set (grantedList h) \<and> x \<noteq> r \<and>
          (mode_conflict (mode (rq r)) (mode (rq x)) \<or> mode_conflict (mode (rq r)) (convertMode (rq x))) \<or>
        x \<in> set (takeWhile (\<lambda>y. y \<noteq> r) (conflictList h)) \<and> mode_conflict (mode (rq r)) (mode (rq x))
      else
        (\<exists>before after. grantedList h = before @ x # after \<and> x \<noteq> r \<and>
           (mode_conflict (convertMode (rq r)) (mode (rq x)) \<or>
            r \<in> set after \<and> mode_conflict (convertMode (rq r)) (convertMode (rq x)))))"

definition pending :: "LockManager \<Rightarrow> (LockerId \<Rightarrow> ResourceId) \<Rightarrow> LockerId \<Rightarrow> LockHead \<Rightarrow> rid \<Rightarrow> bool" where
  "pending m waiting l h r \<longleftrightarrow> isValid (waiting l) \<and> deref m (ManagedHead (waiting l)) = Some h \<and>
     findRequest (reqs m) h l = Some r \<and> status (reqs m r) \<noteq> STATUS_GRANTED"

text \<open>Locker \<open>l\<close> waits for locker \<open>l'\<close>, which itself waits for something.\<close>

definition waits_on ::
  "LockManager \<Rightarrow> (LockerId \<Rightarrow> ResourceId) \<Rightarrow> LockerId \<Rightarrow> LockerId \<Rightarrow> bool" where
  "waits_on m waiting l l' \<longleftrightarrow> isValid (waiting l') \<and>
     (\<exists>h r x. pending m waiting l h r \<and> blocks (reqs m) h x r \<and> locker (reqs m x) = l')"

lemma pending_unique:
  "pending m waiting l h r \<Longrightarrow> pending m waiting l h' r' \<Longrightarrow> h' = h \<and> r' = r"
  by (simp add: pending_def)

lemma split_first:
  "(\<exists>a x b. y # ys = a @ x # b \<and> Q a x) \<longleftrightarrow> Q [] y \<or> (\<exists>a x b. ys = a @ x # b \<and> Q (y # a) x)"
  by (auto simp: Cons_eq_append_conv)

lemma granted_owners_run:
  assumes "status (rq r) = STATUS_WAITING \<or> status (rq r) = STATUS_CONVERTING"
  shows "\<exists>os. granted_owners rq waiting r seen xs = Some os \<and>
     (\<forall>l. l \<in> set os \<longleftrightarrow> isValid (waiting l) \<and>
        (\<exists>a x b. xs = a @ x # b \<and> x \<noteq> r \<and> locker (rq x) = l \<and>
          (if status (rq r) = STATUS_WAITING then
             mode_conflict (mode (rq r)) (mode (rq x)) \<or> mode_conflict (mode (rq r)) (convertMode (rq x))
           else mode_conflict (convertMode (rq r)) (mode (rq x)) \<or>
             (seen \<or> r \<in> set a) \<and> mode_conflict (convertMode (rq r)) (convertMode (rq x)))))"
    (is "\<exists>os. _ \<and> (\<forall>l. _ \<longleftrightarrow> _ \<and> ?P seen xs l)")
proof (induction xs arbitrary: seen)
  case (Cons it rest)
  have split: "?P seen (it # rest) l \<longleftrightarrow>
      it \<noteq> r \<and> locker (rq it) = l \<and>
        (if status (rq r) = STATUS_WAITING then
           mode_conflict (mode (rq r)) (mode (rq it)) \<or> mode_conflict (mode (rq r)) (convertMode (rq it))
         else mode_conflict (convertMode (rq r)) (mode (rq it)) \<or>
           seen \<and> mode_conflict (convertMode (rq r)) (convertMode (rq it))) \<or>
      ?P (seen \<or> it = r) rest l" for l
    by (subst split_first) (simp add: eq_commute [of r] disj_assoc)
  obtain os where os: "granted_owners rq waiting r (seen \<or> it = r) rest = Some os"
      "\<forall>l. l \<in> set os \<longleftrightarrow> isValid (waiting l) \<and> ?P (seen \<or> it = r) rest l"
    using Cons.IH [of "seen \<or> it = r"] by blast
  define rest_found where "rest_found l \<longleftrightarrow> ?P (seen \<or> it = r) rest l" for l
  define found where "found \<longleftrightarrow> (if status (rq r) = STATUS_WAITING then
      mode_conflict (mode (rq r)) (mode (rq it)) \<or> mode_conflict (mode (rq r)) (convertMode (rq it))
    else mode_conflict (convertMode (rq r)) (mode (rq it)) \<or>
      seen \<and> mode_conflict (convertMode (rq r)) (convertMode (rq it)))"
  have os': "l \<in> set os \<longleftrightarrow> isValid (waiting l) \<and> rest_found l" for l
    using os(2) by (simp only: rest_found_def)
  have run: "granted_owners rq waiting r seen (it # rest) =
      Some (if it \<noteq> r \<and> isValid (waiting (locker (rq it))) \<and> found then locker (rq it) # os else os)"
    using os(1) assms by (auto simp: mode_conflict_def found_def)
  have "?P seen (it # rest) l \<longleftrightarrow> it \<noteq> r \<and> locker (rq it) = l \<and> found \<or> rest_found l" for l
    unfolding split rest_found_def found_def ..
  then show ?case
    using os' by (simp only: run option.inject ex_simps simp_thms) auto
qed simp

subsection \<open>One node of the search\<close>

lemma findRequest_queued: "findRequest rq h l = Some r \<Longrightarrow> r \<in> queued h"
  by (auto simp: findRequest_def find_Some_iff split: option.splits)

lemma pending_status:
  assumes "lm_inv m" and "pending m waiting l h r"
  shows "status (reqs m r) = STATUS_WAITING \<or> status (reqs m r) = STATUS_CONVERTING"
proof -
  have "head_at (reqs m) (ManagedHead (waiting l)) h"
    using assms by (simp add: lm_inv_def state_ok_def pending_def)
  then have "head_ok (reqs m) h" by (simp add: head_at_def head_inv_def)
  moreover have "r \<in> queued h" using assms(2) findRequest_queued by (auto simp: pending_def)
  ultimately show ?thesis
    using assms(2) by (auto simp: head_ok_def granted_ok_def waiting_ok_def pending_def)
qed

lemma waiting_owners_set:
  "set (waiting_owners rq waiting h r) =
     {l. isValid (waiting l) \<and> status (rq r) = STATUS_WAITING \<and>
       (\<exists>x \<in> set (takeWhile (\<lambda>y. y \<noteq> r) (conflictList h)).
          mode_conflict (mode (rq r)) (mode (rq x)) \<and> locker (rq x) = l)}"
  by (auto simp: waiting_owners_def mode_conflict_def)

lemma split_any: "(\<exists>a x b. xs = a @ x # b \<and> Q x) \<longleftrightarrow> (\<exists>x \<in> set xs. Q x)"
  by (metis in_set_conv_decomp)

lemma rev_split: "(\<exists>a b. rev xs = a @ x # b \<and> P a) \<longleftrightarrow> (\<exists>a b. xs = a @ x # b \<and> P (rev b))"
  by (metis rev_append rev_rev_ident rev.simps(2) append_assoc append_Cons append_Nil)

text \<open>A node that is expanded for the first time records and queues exactly its successors.\<close>

lemma processNextNode_expand:
  assumes inv: "lm_inv m" and pend: "pending m waiting l h r" and new: "l \<notin> seen_lockers d"
  shows "\<exists>os. processNextNode m waiting (l, waiting l) d =
      Some (d\<lparr>dd_graph := (l, waiting l, os) # dd_graph d,
              dd_queue := rev (map (\<lambda>l. (l, waiting l)) os) @ dd_queue d\<rparr>) \<and>
    set os = {l'. waits_on m waiting l l'}"
proof -
  have st: "status (reqs m r) = STATUS_WAITING \<or> status (reqs m r) = STATUS_CONVERTING"
    by (rule pending_status [OF inv pend])
  obtain gs where gs: "granted_owners (reqs m) waiting r False (rev (grantedList h)) = Some gs"
    and gs_set: "\<forall>l. l \<in> set gs \<longleftrightarrow> isValid (waiting l) \<and>
        (\<exists>a x b. rev (grantedList h) = a @ x # b \<and> x \<noteq> r \<and> locker (reqs m x) = l \<and>
          (if status (reqs m r) = STATUS_WAITING then
             mode_conflict (mode (reqs m r)) (mode (reqs m x)) \<or>
             mode_conflict (mode (reqs m r)) (convertMode (reqs m x))
           else mode_conflict (convertMode (reqs m r)) (mode (reqs m x)) \<or>
             (False \<or> r \<in> set a) \<and> mode_conflict (convertMode (reqs m r)) (convertMode (reqs m x))))"
    using granted_owners_run [of "reqs m" r waiting False "rev (grantedList h)"] st by blast
  let ?os = "gs @ waiting_owners (reqs m) waiting h r"
  have "l' \<in> set ?os \<longleftrightarrow> isValid (waiting l') \<and> (\<exists>x. blocks (reqs m) h x r \<and> locker (reqs m x) = l')" for l'
  proof (cases "status (reqs m r) = STATUS_WAITING")
    case True
    have "l' \<in> set gs \<longleftrightarrow> isValid (waiting l') \<and>
        (\<exists>x \<in> set (rev (grantedList h)). x \<noteq> r \<and> locker (reqs m x) = l' \<and>
           (mode_conflict (mode (reqs m r)) (mode (reqs m x)) \<or>
             mode_conflict (mode (reqs m r)) (convertMode (reqs m x))))"
      unfolding split_any [symmetric] gs_set [rule_format] using True by simp
    then show ?thesis
      using True by (auto simp: blocks_def waiting_owners_set)
  next
    case False
    have "l' \<in> set gs \<longleftrightarrow> isValid (waiting l') \<and>
        (\<exists>x. (\<exists>a b. rev (grantedList h) = a @ x # b \<and> x \<noteq> r \<and> locker (reqs m x) = l' \<and>
           (mode_conflict (convertMode (reqs m r)) (mode (reqs m x)) \<or>
             r \<in> set a \<and> mode_conflict (convertMode (reqs m r)) (convertMode (reqs m x)))))"
      unfolding gs_set [rule_format] using False by auto
    then show ?thesis
      unfolding rev_split using False by (auto simp: blocks_def waiting_owners_set)
  qed
  then have "set ?os = {l'. waits_on m waiting l l'}"
    using pend pending_unique [OF pend] unfolding waits_on_def by blast
  moreover have "processNextNode m waiting (l, waiting l) d =
      Some (d\<lparr>dd_graph := (l, waiting l, ?os) # dd_graph d,
              dd_queue := rev (map (\<lambda>l. (l, waiting l)) ?os) @ dd_queue d\<rparr>)"
    using pend new gs by (simp add: processNextNode_def pending_def seen_lockers_def map_of_eq_None_iff)
  ultimately show ?thesis by blast
qed

lemma processNextNode_seen:
  assumes "pending m waiting l h r" and "l \<in> seen_lockers d"
  shows "processNextNode m waiting (l, waiting l) d =
    Some (d\<lparr>foundCycle := (foundCycle d \<or> l = initialLockerId d)\<rparr>)"
proof -
  have "map_of (dd_graph d) l \<noteq> None" using assms(2) by (simp add: seen_lockers_def map_of_eq_None_iff)
  then show ?thesis using assms(1) by (simp add: processNextNode_def pending_def)
qed

lemma processNextNode_idle:
  assumes "isValid (waiting l)" and "\<nexists>h r. pending m waiting l h r"
  shows "processNextNode m waiting (l, waiting l) d = Some d"
  using assms by (simp add: processNextNode_def pending_def split: option.splits)

subsection \<open>The search\<close>

text \<open>
  The loop invariant over any graph \<open>edge\<close> whose expandable nodes are \<open>live\<close>: \<open>seen\<close> are the expanded
  nodes, \<open>open_nodes\<close> the queued ones.
\<close>

definition search_inv ::
  "('a \<Rightarrow> 'a \<Rightarrow> bool) \<Rightarrow> ('a \<Rightarrow> bool) \<Rightarrow> 'a \<Rightarrow> 'a set \<Rightarrow> 'a set \<Rightarrow> bool \<Rightarrow> bool" where
  "search_inv edge live i seen open_nodes found \<longleftrightarrow>
     (\<forall>l \<in> open_nodes. l = i \<and> seen = {} \<or> (\<exists>k \<in> seen. edge k l)) \<and>
     (\<forall>k \<in> seen. edge\<^sup>*\<^sup>* i k \<and> live k) \<and>
     (\<forall>k \<in> seen. \<forall>l. edge k l \<longrightarrow> live l \<longrightarrow> l \<in> seen \<union> open_nodes) \<and>
     (\<forall>k \<in> seen. edge k i \<longrightarrow> found \<or> i \<in> open_nodes) \<and>
     (found \<longrightarrow> edge\<^sup>+\<^sup>+ i i) \<and>
     (live i \<longrightarrow> i \<in> seen \<union> open_nodes) \<and>
     (seen = {} \<or> i \<in> seen)"

lemma search_inv_idle:
  assumes "search_inv edge live i seen (insert l open_nodes) found" and "\<not> live l"
  shows "search_inv edge live i seen open_nodes found"
proof -
  note inv = assms(1) [unfolded search_inv_def]
  have "l \<noteq> i" if "seen \<noteq> {}" using inv that assms(2) by metis
  moreover have "l \<notin> seen" using inv assms(2) by metis
  ultimately show ?thesis
    using inv assms(2) unfolding search_inv_def
    by (intro conjI) (metis insertI2, metis, metis UnE UnI1 UnI2 insertE, metis emptyE insertE, metis,
      metis UnE UnI1 UnI2 insertE, metis)
qed

lemma search_inv_seen:
  assumes "search_inv edge live i seen (insert l open_nodes) found" and "l \<in> seen"
  shows "search_inv edge live i seen open_nodes (found \<or> l = i)"
proof -
  note inv = assms(1) [unfolded search_inv_def]
  have "edge\<^sup>+\<^sup>+ i i" if "l = i"
    using inv assms(2) that by (metis empty_iff insertI1 rtranclp_into_tranclp1)
  then show ?thesis
    using inv assms(2) unfolding search_inv_def
    by (intro conjI) (metis insertI2, metis, metis UnE UnI1 UnI2 insertE, metis insertE, metis,
      metis UnE UnI1 UnI2 insertE, metis)
qed

lemma search_inv_expand:
  assumes "search_inv edge live i seen (insert l open_nodes) found" and "live l" and "l \<notin> seen"
    and single: "seen = {} \<Longrightarrow> open_nodes = {}"
  shows "search_inv edge live i (insert l seen) ({l'. edge l l'} \<union> open_nodes) found"
proof -
  note inv = assms(1) [unfolded search_inv_def]
  have "edge\<^sup>*\<^sup>* i l" using inv by (metis insertI1 rtranclp.simps)
  then have "\<forall>k \<in> insert l seen. edge\<^sup>*\<^sup>* i k \<and> live k" using inv assms(2) by simp
  moreover have "\<forall>k \<in> open_nodes. \<exists>k' \<in> seen. edge k' k" using inv single by (metis emptyE insertI2)
  then have "\<forall>k \<in> {l'. edge l l'} \<union> open_nodes. \<exists>k' \<in> insert l seen. edge k' k" by blast
  moreover have "\<forall>k \<in> seen. \<forall>l'. edge k l' \<longrightarrow> live l' \<longrightarrow> l' \<in> seen \<union> insert l open_nodes"
    using inv by (elim conjE)
  then have "\<forall>k \<in> insert l seen. \<forall>l'. edge k l' \<longrightarrow> live l' \<longrightarrow>
      l' \<in> insert l seen \<union> ({l'. edge l l'} \<union> open_nodes)" by blast
  moreover have "edge k i \<Longrightarrow> k \<in> seen \<Longrightarrow> found \<or> i \<in> open_nodes" for k
    using inv assms(3) by (metis emptyE insertE)
  then have "\<forall>k \<in> insert l seen. edge k i \<longrightarrow> found \<or> i \<in> {l'. edge l l'} \<union> open_nodes" by blast
  moreover have "i \<in> insert l seen" using inv by (metis emptyE insertI1 insertI2)
  moreover have "found \<longrightarrow> edge\<^sup>+\<^sup>+ i i" using inv by (elim conjE)
  ultimately show ?thesis unfolding search_inv_def by (simp; fast)
qed

lemma search_inv_end:
  assumes inv: "search_inv edge live i seen {} found" and live: "\<And>k l. edge k l \<Longrightarrow> live k"
  shows "found \<longleftrightarrow> edge\<^sup>+\<^sup>+ i i"
proof
  assume "edge\<^sup>+\<^sup>+ i i"
  then obtain k where k: "edge\<^sup>*\<^sup>* i k" "edge k i"
    by (cases rule: tranclp.cases) (blast, blast intro: tranclp_into_rtranclp)
  note inv' = inv [unfolded search_inv_def]
  have start: "live i \<Longrightarrow> i \<in> seen" using inv' by blast
  have closed: "k \<in> seen \<Longrightarrow> edge k l \<Longrightarrow> live l \<Longrightarrow> l \<in> seen" for k l using inv' by blast
  have returns: "k \<in> seen \<Longrightarrow> edge k i \<Longrightarrow> found" for k using inv' by blast
  have "live k \<Longrightarrow> k \<in> seen" using k(1)
    by (induction rule: rtranclp_induct) (use start closed live in \<open>metis\<close>)+
  then show found using returns live [OF k(2)] k(2) by blast
qed (use inv in \<open>simp add: search_inv_def\<close>)

abbreviation is_pending :: "LockManager \<Rightarrow> (LockerId \<Rightarrow> ResourceId) \<Rightarrow> LockerId \<Rightarrow> bool" where
  "is_pending m waiting l \<equiv> \<exists>h r. pending m waiting l h r"

definition dd_inv :: "LockManager \<Rightarrow> (LockerId \<Rightarrow> ResourceId) \<Rightarrow> DeadlockDetector \<Rightarrow> bool" where
  "dd_inv m waiting d \<longleftrightarrow>
     (\<forall>(l, resId) \<in> set (dd_queue d). resId = waiting l \<and> isValid (waiting l)) \<and>
     (dd_graph d = [] \<longrightarrow> length (dd_queue d) \<le> 1) \<and>
     search_inv (waits_on m waiting) (is_pending m waiting) (initialLockerId d)
       (seen_lockers d) (fst ` set (dd_queue d)) (foundCycle d)"

lemma dd_inv_new: "dd_inv m waiting (DeadlockDetector_new waiting l)"
  by (auto simp: dd_inv_def DeadlockDetector_new_def search_inv_def seen_lockers_def pending_def)

lemma dd_next_inv:
  assumes inv: "lm_inv m" and dd: "dd_inv m waiting d"
  shows "\<exists>d'. dd_next m waiting d = Some (dd_queue d' \<noteq> [], d') \<and> dd_inv m waiting d' \<and>
    initialLockerId d' = initialLockerId d"
proof (cases "dd_queue d")
  case Nil
  then show ?thesis using dd by (simp add: dd_next_def)
next
  case (Cons front rest)
  then obtain l where front: "front = (l, waiting l)" "isValid (waiting l)"
    using dd by (cases front) (auto simp: dd_inv_def)
  let ?d = "d\<lparr>dd_queue := rest\<rparr>"
  have rest: "\<forall>(l, resId) \<in> set rest. resId = waiting l \<and> isValid (waiting l)"
    using dd Cons by (auto simp: dd_inv_def)
  have s: "search_inv (waits_on m waiting) (is_pending m waiting) (initialLockerId d)
       (seen_lockers d) (insert l (fst ` set rest)) (foundCycle d)"
    using dd Cons front by (simp add: dd_inv_def)
  have single: "dd_graph d = [] \<Longrightarrow> rest = []" using dd Cons by (simp add: dd_inv_def)
  have seen: "seen_lockers ?d = seen_lockers d" by (simp add: seen_lockers_def)
  have "\<exists>d'. processNextNode m waiting front ?d = Some d' \<and> dd_inv m waiting d' \<and>
      initialLockerId d' = initialLockerId d"
  proof (cases "is_pending m waiting l")
    case False
    then show ?thesis
      using processNextNode_idle [of waiting l m ?d] search_inv_idle [OF s] rest front single
      by (simp add: dd_inv_def seen)
  next
    case True
    then obtain h r where pend: "pending m waiting l h r" by blast
    show ?thesis
    proof (cases "l \<in> seen_lockers d")
      case True
      then show ?thesis
        using processNextNode_seen [OF pend, of ?d] search_inv_seen [OF s] rest front single
        by (simp add: dd_inv_def seen_lockers_def)
    next
      case False
      obtain os where run: "processNextNode m waiting (l, waiting l) ?d =
          Some (?d\<lparr>dd_graph := (l, waiting l, os) # dd_graph d,
              dd_queue := rev (map (\<lambda>l. (l, waiting l)) os) @ rest\<rparr>)"
        and os: "set os = {l'. waits_on m waiting l l'}"
        using processNextNode_expand [OF inv pend, of ?d] False seen by auto
      have "fst ` set (rev (map (\<lambda>l. (l, waiting l)) os) @ rest) = {l'. waits_on m waiting l l'} \<union> fst ` set rest"
        using os by (auto simp: image_Un image_image)
      moreover have "isValid (waiting l')" if "l' \<in> set os" for l' using that os by (auto simp: waits_on_def)
      moreover have "search_inv (waits_on m waiting) (is_pending m waiting) (initialLockerId d)
          (insert l (seen_lockers d)) ({l'. waits_on m waiting l l'} \<union> fst ` set rest) (foundCycle d)"
        using single by (intro search_inv_expand [OF s True False]) (simp add: seen_lockers_def)
      ultimately have "dd_inv m waiting (?d\<lparr>dd_graph := (l, waiting l, os) # dd_graph d,
              dd_queue := rev (map (\<lambda>l. (l, waiting l)) os) @ rest\<rparr>)"
        using rest unfolding dd_inv_def by (simp add: seen_lockers_def ball_Un)
      then show ?thesis using run front by simp
    qed
  qed
  then show ?thesis using Cons by (auto simp: dd_next_def)
qed

lemma dd_check_run:
  assumes "lm_inv m" and "dd_inv m waiting d"
  shows "\<exists>d'. dd_check m waiting d = Some d' \<and> dd_inv m waiting d' \<and> dd_queue d' = [] \<and>
    initialLockerId d' = initialLockerId d"
  using assms
proof (induction m waiting d rule: dd_check.induct)
  case (1 m waiting d)
  obtain d' where step: "dd_next m waiting d = Some (dd_queue d' \<noteq> [], d')" "dd_inv m waiting d'"
      "initialLockerId d' = initialLockerId d"
    using dd_next_inv [OF 1(2,3)] by blast
  show ?case
  proof (cases "dd_queue d' = []")
    case True
    then show ?thesis using step by simp
  next
    case False
    then show ?thesis
      using 1(1) [OF step(1) _ _ 1(2) step(2)] step by simp
  qed
qed

lemma dd_check_cycle:
  assumes inv: "lm_inv m"
  shows "\<exists>d. dd_check m waiting (DeadlockDetector_new waiting l) = Some d \<and>
    hasCycle d = Some ((waits_on m waiting)\<^sup>+\<^sup>+ l l)"
proof -
  obtain d where d: "dd_check m waiting (DeadlockDetector_new waiting l) = Some d"
      "dd_inv m waiting d" "dd_queue d = []" "initialLockerId d = l"
    using dd_check_run [OF inv dd_inv_new, of waiting l] by (auto simp: DeadlockDetector_new_def)
  have "search_inv (waits_on m waiting) (is_pending m waiting) l (seen_lockers d) {} (foundCycle d)"
    using d by (simp add: dd_inv_def)
  moreover have "waits_on m waiting k l' \<Longrightarrow> is_pending m waiting k" for k l'
    unfolding waits_on_def by blast
  ultimately have "foundCycle d \<longleftrightarrow> (waits_on m waiting)\<^sup>+\<^sup>+ l l"
    by (rule search_inv_end)
  then show ?thesis using d by (simp add: hasCycle_def)
qed

subsection \<open>Properties\<close>

text \<open>
  C7: on every reachable state of the lock manager the search of the deadlock detector ends without
  failing a check, and it reports a cycle exactly when the initial locker waits, through a chain
  of blocked lockers, for itself.
\<close>

theorem deadlock_check_exact:
  assumes "lm_reached rq ops m"
  shows "\<exists>d. dd_check m waiting (DeadlockDetector_new waiting initial) = Some d \<and>
    hasCycle d = Some ((waits_on m waiting)\<^sup>+\<^sup>+ initial initial)"
  by (rule dd_check_cycle [OF lm_reached_inv [OF assms]])

text \<open>
  Lockers 1 and 2 each hold one collection in X and wait for the other one.
\<close>

definition crossed_ops :: "lm_op list" where
  "crossed_ops =
     [NewRequest 1 1 False False, Lock (mk_ResourceId RESOURCE_COLLECTION 5) 1 MODE_X,
      NewRequest 2 2 False False, Lock (mk_ResourceId RESOURCE_COLLECTION 6) 2 MODE_X,
      NewRequest 3 1 False False, Lock (mk_ResourceId RESOURCE_COLLECTION 6) 3 MODE_S,
      NewRequest 4 2 False False, Lock (mk_ResourceId RESOURCE_COLLECTION 5) 4 MODE_S]"

definition crossed_waiting :: "LockerId \<Rightarrow> ResourceId" where
  "crossed_waiting l = mk_ResourceId RESOURCE_COLLECTION (if l = 1 then 6 else 5)"

lemma crossed_legal: "legal_run lm_exec lm_legal (lm_init demo_requests) crossed_ops"
  by code_simp

lemma crossed_cycle:
  "case run_ops lm_exec (lm_init demo_requests) crossed_ops of None \<Rightarrow> False
   | Some m \<Rightarrow> (case dd_check m crossed_waiting (DeadlockDetector_new crossed_waiting 1) of
       None \<Rightarrow> False | Some d \<Rightarrow> hasCycle d = Some True)"
  by code_simp

theorem deadlock_check_exact_witness:
  "\<exists>m. run_ops lm_exec (lm_init demo_requests) crossed_ops = Some m \<and>
    (waits_on m crossed_waiting)\<^sup>+\<^sup>+ 1 1"
proof -
  obtain m where m: "run_ops lm_exec (lm_init demo_requests) crossed_ops = Some m"
    using crossed_cycle by (cases "run_ops lm_exec (lm_init demo_requests) crossed_ops") simp_all
  then have "lm_reached demo_requests crossed_ops m" using crossed_legal by (simp add: lm_reached_def)
  from deadlock_check_exact [OF this, of crossed_waiting 1] crossed_cycle m
  show ?thesis by (auto simp del: dd_check.simps)
qed

end
