(* ===== verification/Locker.thy ===== *)
theory Locker
  imports Fast_Map Deadlock_Detector
begin

text \<open>
  Class LockerImpl of db/concurrency/lock_state.h and lock_state.cpp, with the fields of its base class
  in locker.h: the locks of one operation, on top of the lock manager. The state of the system is the
  lock manager, the lockers by their id and the ticket holders (util/concurrency/ticketholder.cpp). The
  requests of a locker are objects in the store of the lock manager; the map of the locker has their addresses.

  A call that blocks in the code is cut at the point where it waits: \<open>lockBegin\<close> posts a request, and
  \<open>lockComplete_pass\<close> is one round of the loop in lockComplete after the wait returned. How a wait for a
  ticket ends, whether the operation was interrupted, and the time that passed are arguments. Checks that
  only debug builds run (dassert, DEV) and the statistics are left out. Save and restore of locks
  use the lock manager's own heads; the temporary global resource of prepared transactions is not modelled.
\<close>

subsection \<open>State\<close>

datatype ClientState = kInactive | kActiveReader | kActiveWriter | kQueuedReader | kQueuedWriter

record Locker =
  lk_requests :: "(ResourceId, rid) FastMapNoAlloc"
  notify_result :: LockResult
  wuowNestingLevel :: nat
  numResourcesToUnlockAtEndUnitOfWork :: nat
  modeForTicket :: LockMode
  clientState :: ClientState
  sharedLocksShouldTwoPhaseLock :: bool
  prepareModeForLockYields :: bool
  maxLockTimeout :: "int option"
  uninterruptibleLocksRequested :: nat
  shouldConflictWithSecondaryBatchApplication :: bool
  shouldAcquireTicket :: bool

definition LockerImpl_new :: Locker where
  "LockerImpl_new = \<lparr>lk_requests = FastMapNoAlloc_new, notify_result = LOCK_INVALID, wuowNestingLevel = 0,
     numResourcesToUnlockAtEndUnitOfWork = 0, modeForTicket = MODE_NONE, clientState = kInactive,
     sharedLocksShouldTwoPhaseLock = False, prepareModeForLockYields = False, maxLockTimeout = None,
     uninterruptibleLocksRequested = 0, shouldConflictWithSecondaryBatchApplication = True,
     shouldAcquireTicket = True\<rparr>"

text \<open>The ticket holders that setGlobalThrottling installs, and the number of tickets each has left.\<close>

datatype TicketKind = Reading | Writing

record LockSystem =
  sy_lm :: LockManager
  sy_lockers :: "LockerId \<Rightarrow> Locker"
  sy_tickets :: "(TicketKind \<Rightarrow> nat) option"
  sy_next :: rid
  sy_supportsDBLocking :: bool

text \<open>A request object starts without a pending unlock; initNew sets all its other fields.\<close>

definition sy_init :: "requests \<Rightarrow> (TicketKind \<Rightarrow> nat) option \<Rightarrow> bool \<Rightarrow> LockSystem" where
  "sy_init rq tickets dbLocking = \<lparr>sy_lm = lm_init (\<lambda>x. (rq x)\<lparr>unlockPending := 0\<rparr>), sy_lockers = (\<lambda>_. LockerImpl_new), sy_tickets = tickets,
     sy_next = 0, sy_supportsDBLocking = dbLocking\<rparr>"

definition upd_locker :: "LockSystem \<Rightarrow> LockerId \<Rightarrow> (Locker \<Rightarrow> Locker) \<Rightarrow> LockSystem" where
  "upd_locker s l f = s\<lparr>sy_lockers := (sy_lockers s)(l := f (sy_lockers s l))\<rparr>"

definition upd_request :: "LockSystem \<Rightarrow> rid \<Rightarrow> (LockRequest \<Rightarrow> LockRequest) \<Rightarrow> LockSystem" where
  "upd_request s x f = s\<lparr>sy_lm := upd_req (sy_lm s) x f\<rparr>"

abbreviation request_of :: "LockSystem \<Rightarrow> rid \<Rightarrow> LockRequest" where
  "request_of s x \<equiv> reqs (sy_lm s) x"

abbreviation map_of_locker :: "LockSystem \<Rightarrow> LockerId \<Rightarrow> (ResourceId, rid) FastMapNoAlloc" where
  "map_of_locker s l \<equiv> lk_requests (sy_lockers s l)"

subsection \<open>Notifications\<close>

text \<open>
  The lock manager notifies a granted request through its locker (CondVarLockGrantNotification::notify),
  which checks that no result is pending. \<open>with_lm\<close> installs the state after a call of the lock manager and
  delivers what the call notified.
\<close>

definition cv_notify :: "LockSystem \<Rightarrow> LockerId \<Rightarrow> LockResult \<Rightarrow> LockSystem option" where
  "cv_notify s l result = do {
     invariant (notify_result (sy_lockers s l) = LOCK_INVALID);
     Some (upd_locker s l (\<lambda>k. k\<lparr>notify_result := result\<rparr>)) }"

fun deliver :: "notification list \<Rightarrow> LockSystem \<Rightarrow> LockSystem option" where
  "deliver [] s = Some s"
| "deliver ((x, resId, result) # ns) s = do {
     s \<leftarrow> cv_notify s (locker (request_of s x)) result;
     deliver ns s }"

definition with_lm :: "LockSystem \<Rightarrow> LockManager \<Rightarrow> LockSystem option" where
  "with_lm s m = deliver (drop (length (notified (sy_lm s))) (notified m)) (s\<lparr>sy_lm := m\<rparr>)"

subsection \<open>What a locker holds\<close>

definition getLockMode :: "LockSystem \<Rightarrow> LockerId \<Rightarrow> ResourceId \<Rightarrow> LockMode" where
  "getLockMode s l resId =
     (case fm_lookup (map_of_locker s l) resId of None \<Rightarrow> MODE_NONE | Some x \<Rightarrow> mode (request_of s x))"

definition isLockHeldForMode :: "LockSystem \<Rightarrow> LockerId \<Rightarrow> ResourceId \<Rightarrow> LockMode \<Rightarrow> bool" where
  "isLockHeldForMode s l resId md = isModeCovered md (getLockMode s l resId)"

definition isW :: "LockSystem \<Rightarrow> LockerId \<Rightarrow> bool" where
  "isW s l \<longleftrightarrow> getLockMode s l resourceIdGlobal = MODE_X"

definition isR :: "LockSystem \<Rightarrow> LockerId \<Rightarrow> bool" where
  "isR s l \<longleftrightarrow> getLockMode s l resourceIdGlobal = MODE_S"

definition isLocked :: "LockSystem \<Rightarrow> LockerId \<Rightarrow> bool" where
  "isLocked s l \<longleftrightarrow> getLockMode s l resourceIdGlobal \<noteq> MODE_NONE"

definition isWriteLocked :: "LockSystem \<Rightarrow> LockerId \<Rightarrow> bool" where
  "isWriteLocked s l = isLockHeldForMode s l resourceIdGlobal MODE_IX"

definition isReadLocked :: "LockSystem \<Rightarrow> LockerId \<Rightarrow> bool" where
  "isReadLocked s l = isLockHeldForMode s l resourceIdGlobal MODE_IS"

definition isGlobalLockedRecursively :: "LockSystem \<Rightarrow> LockerId \<Rightarrow> bool" where
  "isGlobalLockedRecursively s l =
     (case fm_lookup (map_of_locker s l) resourceIdGlobal of None \<Rightarrow> False
      | Some x \<Rightarrow> recursiveCount (request_of s x) > 1)"

text \<open>The resource ids of a database and a collection are hashes of their names and are arguments here.\<close>

definition isDbLockedForMode :: "LockSystem \<Rightarrow> LockerId \<Rightarrow> ResourceId \<Rightarrow> LockMode \<Rightarrow> bool" where
  "isDbLockedForMode s l resIdDb md =
     (if isW s l then True
      else if isR s l \<and> isSharedLockMode md then True
      else isLockHeldForMode s l resIdDb md)"

definition isCollectionLockedForMode ::
  "LockSystem \<Rightarrow> LockerId \<Rightarrow> ResourceId \<Rightarrow> ResourceId \<Rightarrow> LockMode \<Rightarrow> bool" where
  "isCollectionLockedForMode s l resIdDb resIdColl md =
     (if isW s l then True
      else if isR s l \<and> isSharedLockMode md then True
      else let dbMode = getLockMode s l resIdDb in
        if \<not> shouldConflictWithSecondaryBatchApplication (sy_lockers s l) then True
        else (case dbMode of
           MODE_NONE \<Rightarrow> False
         | MODE_X \<Rightarrow> True
         | MODE_S \<Rightarrow> isSharedLockMode md
         | MODE_IX \<Rightarrow> isLockHeldForMode s l resIdColl md
         | MODE_IS \<Rightarrow> isLockHeldForMode s l resIdColl md))"

definition blocked_status :: "Status \<Rightarrow> bool" where
  "blocked_status st \<longleftrightarrow> st = STATUS_WAITING \<or> st = STATUS_CONVERTING"

definition getWaitingResource :: "LockSystem \<Rightarrow> LockerId \<Rightarrow> ResourceId" where
  "getWaitingResource s l =
     (case filter (\<lambda>e. inUse e \<and> blocked_status (status (request_of s (entry_addr e))))
             (fastAccess (map_of_locker s l)) of
        [] \<Rightarrow> invalid_ResourceId
      | e # _ \<Rightarrow> entry_key e)"

definition hasLockPending :: "LockSystem \<Rightarrow> LockerId \<Rightarrow> bool" where
  "hasLockPending s l = isValid (getWaitingResource s l)"

definition getClientState :: "LockSystem \<Rightarrow> LockerId \<Rightarrow> ClientState" where
  "getClientState s l =
     (let state = clientState (sy_lockers s l);
          state = (if state = kActiveReader \<and> hasLockPending s l then kQueuedReader else state)
      in if state = kActiveWriter \<and> hasLockPending s l then kQueuedWriter else state)"

definition inAWriteUnitOfWork :: "LockSystem \<Rightarrow> LockerId \<Rightarrow> bool" where
  "inAWriteUnitOfWork s l \<longleftrightarrow> wuowNestingLevel (sy_lockers s l) > 0"

subsection \<open>Tickets\<close>

text \<open>How a wait for a ticket ends, and the errors that lock calls throw.\<close>

datatype ticket_wait = TicketAcquired | TicketTimedOut | TicketInterrupted

datatype lock_error = Interrupted | LockTimeout

fun ticketHolder :: "LockSystem \<Rightarrow> LockMode \<Rightarrow> TicketKind option" where
  "ticketHolder s MODE_S = (case sy_tickets s of None \<Rightarrow> None | Some _ \<Rightarrow> Some Reading)"
| "ticketHolder s MODE_IS = (case sy_tickets s of None \<Rightarrow> None | Some _ \<Rightarrow> Some Reading)"
| "ticketHolder s MODE_IX = (case sy_tickets s of None \<Rightarrow> None | Some _ \<Rightarrow> Some Writing)"
| "ticketHolder s _ = None"

definition upd_tickets :: "LockSystem \<Rightarrow> TicketKind \<Rightarrow> (nat \<Rightarrow> nat) \<Rightarrow> LockSystem" where
  "upd_tickets s t f = s\<lparr>sy_tickets := map_option (\<lambda>n. n(t := f (n t))) (sy_tickets s)\<rparr>"

definition holder_for :: "LockSystem \<Rightarrow> LockerId \<Rightarrow> LockMode \<Rightarrow> TicketKind option" where
  "holder_for s l md = (if shouldAcquireTicket (sy_lockers s l) then ticketHolder s md else None)"

definition acquireTicket ::
  "LockSystem \<Rightarrow> LockerId \<Rightarrow> LockMode \<Rightarrow> ticket_wait \<Rightarrow> (lock_error + LockResult) \<times> LockSystem" where
  "acquireTicket s l md wait =
     (let active = upd_locker s l (\<lambda>k. k\<lparr>clientState := (if isSharedLockMode md then kActiveReader else kActiveWriter)\<rparr>);
          inactive = upd_locker s l (\<lambda>k. k\<lparr>clientState := kInactive\<rparr>)
      in case holder_for s l md of
           None \<Rightarrow> (Inr LOCK_OK, active)
         | Some t \<Rightarrow> (case wait of
             TicketAcquired \<Rightarrow> (Inr LOCK_OK, upd_tickets active t (\<lambda>n. n - 1))
           | TicketTimedOut \<Rightarrow> (Inr LOCK_TIMEOUT, inactive)
           | TicketInterrupted \<Rightarrow> (Inl Interrupted, inactive)))"

definition releaseTicket_impl :: "LockSystem \<Rightarrow> LockerId \<Rightarrow> LockSystem" where
  "releaseTicket_impl s l =
     (let s = (case holder_for s l (modeForTicket (sy_lockers s l)) of
                 None \<Rightarrow> s | Some t \<Rightarrow> upd_tickets s t Suc)
      in upd_locker s l (\<lambda>k. k\<lparr>clientState := kInactive\<rparr>))"

definition releaseTicket :: "LockSystem \<Rightarrow> LockerId \<Rightarrow> LockSystem option" where
  "releaseTicket s l = do {
     invariant (modeForTicket (sy_lockers s l) \<noteq> MODE_NONE);
     Some (releaseTicket_impl s l) }"

definition reacquireTicket ::
  "LockSystem \<Rightarrow> LockerId \<Rightarrow> ticket_wait \<Rightarrow> ((lock_error + unit) \<times> LockSystem) option" where
  "reacquireTicket s l wait = (
     let k = sy_lockers s l; reader = isSharedLockMode (modeForTicket k) in do {
     invariant (modeForTicket k \<noteq> MODE_NONE);
     invariant (clientState k = kInactive \<or> clientState k = kActiveReader \<and> reader \<or>
                clientState k = kActiveWriter \<and> \<not> reader);
     if clientState k \<noteq> kInactive then Some (Inr (), s)
     else (case acquireTicket s l (modeForTicket k) wait of
        (Inl e, s) \<Rightarrow> Some (Inl e, s)
      | (Inr result, s) \<Rightarrow>
          if \<not> (result = LOCK_OK \<or> maxLockTimeout k = None) then Some (Inl LockTimeout, s)
          else do { invariant (result = LOCK_OK); Some (Inr (), s) }) })"

subsection \<open>Release\<close>

definition shouldDelayUnlock :: "Locker \<Rightarrow> ResourceId \<Rightarrow> LockMode \<Rightarrow> bool option" where
  "shouldDelayUnlock k resId md =
     (if prepareModeForLockYields k then Some False
      else (case getType resId of
          Some RESOURCE_MUTEX \<Rightarrow> Some False
        | Some RESOURCE_INVALID \<Rightarrow> None
        | None \<Rightarrow> None
        | _ \<Rightarrow> (case md of
              MODE_X \<Rightarrow> Some True
            | MODE_IX \<Rightarrow> Some True
            | MODE_IS \<Rightarrow> Some (sharedLocksShouldTwoPhaseLock k)
            | MODE_S \<Rightarrow> Some (sharedLocksShouldTwoPhaseLock k)
            | MODE_NONE \<Rightarrow> None)))"

text \<open>The release of the ticket when the last reference to the global lock goes away.\<close>

definition drop_global :: "LockSystem \<Rightarrow> LockerId \<Rightarrow> LockSystem option" where
  "drop_global s l = do {
     invariant (modeForTicket (sy_lockers s l) \<noteq> MODE_NONE);
     let s = (if clientState (sy_lockers s l) \<noteq> kInactive then releaseTicket_impl s l else s);
     Some (upd_locker s l (\<lambda>k. k\<lparr>modeForTicket := MODE_NONE\<rparr>)) }"

definition unlockImpl :: "LockSystem \<Rightarrow> LockerId \<Rightarrow> nat \<Rightarrow> (bool \<times> LockSystem) option" where
  "unlockImpl s l it = do {
     x \<leftarrow> it_objAddr (map_of_locker s l) it;
     (released, m) \<leftarrow> lm_unlock (sy_lm s) x;
     s \<leftarrow> with_lm s m;
     if released then do {
       key \<leftarrow> it_key (map_of_locker s l) it;
       s \<leftarrow> (if key = resourceIdGlobal then drop_global s l else Some s);
       (_, rs) \<leftarrow> it_remove (map_of_locker s l) it;
       Some (True, upd_locker s l (\<lambda>k. k\<lparr>lk_requests := rs\<rparr>)) }
     else Some (False, s) }"

definition LockModesCount :: nat where
  "LockModesCount = 5"

definition delay_unlock :: "LockSystem \<Rightarrow> LockerId \<Rightarrow> rid \<Rightarrow> LockSystem option" where
  "delay_unlock s l x = (
     let s = (if unlockPending (request_of s x) = 0
              then upd_locker s l (\<lambda>k. k\<lparr>numResourcesToUnlockAtEndUnitOfWork := Suc (numResourcesToUnlockAtEndUnitOfWork k)\<rparr>)
              else s);
         s = upd_request s x (\<lambda>q. q\<lparr>unlockPending := Suc (unlockPending q)\<rparr>)
     in do {
       invariant (unlockPending (request_of s x) < LockModesCount);
       Some s })"

definition lk_unlock :: "LockSystem \<Rightarrow> LockerId \<Rightarrow> ResourceId \<Rightarrow> (bool \<times> LockSystem) option" where
  "lk_unlock s l resId = (
     let rs = map_of_locker s l; it = it_find rs resId in do {
     delay \<leftarrow> (if inAWriteUnitOfWork s l then do {
                 key \<leftarrow> it_key rs it;
                 x \<leftarrow> it_objAddr rs it;
                 shouldDelayUnlock (sy_lockers s l) key (mode (request_of s x)) }
               else Some False);
     if delay then do {
       x \<leftarrow> it_objAddr rs it;
       s \<leftarrow> delay_unlock s l x;
       Some (False, s) }
     else if it_finished rs it then Some (False, s)
     else unlockImpl s l it })"

text \<open>
  A loop over the map visits the positions in order and skips what is not in use, which is what
  \<open>it_begin\<close> and \<open>it_next\<close> do.
\<close>

fun unlock_rest :: "LockSystem \<Rightarrow> LockerId \<Rightarrow> nat list \<Rightarrow> LockSystem option" where
  "unlock_rest s l [] = Some s"
| "unlock_rest s l (i # is) = (
     let e = fastAccess (map_of_locker s l) ! i in
     if \<not> inUse e then unlock_rest s l is
     else if getType (entry_key e) = Some RESOURCE_GLOBAL \<or> getType (entry_key e) = Some RESOURCE_MUTEX
     then unlock_rest s l is
     else do {
       (released, s) \<leftarrow> unlockImpl s l i;
       invariant released;
       unlock_rest s l is })"

definition positions :: "LockSystem \<Rightarrow> LockerId \<Rightarrow> nat list" where
  "positions s l = [0..<length (fastAccess (map_of_locker s l))]"

definition unlockGlobal :: "LockSystem \<Rightarrow> LockerId \<Rightarrow> (bool \<times> LockSystem) option" where
  "unlockGlobal s l = do {
     (released, s) \<leftarrow> lk_unlock s l resourceIdGlobal;
     if \<not> released then Some (False, s)
     else do {
       invariant (\<not> inAWriteUnitOfWork s l);
       s \<leftarrow> unlock_rest s l (positions s l);
       Some (True, s) } }"

definition lk_downgrade :: "LockSystem \<Rightarrow> LockerId \<Rightarrow> ResourceId \<Rightarrow> LockMode \<Rightarrow> LockSystem option" where
  "lk_downgrade s l resId newMode = do {
     x \<leftarrow> it_objAddr (map_of_locker s l) (it_find (map_of_locker s l) resId);
     m \<leftarrow> lm_downgrade (sy_lm s) x newMode;
     with_lm s m }"

subsection \<open>Write units of work\<close>

definition beginWriteUnitOfWork :: "LockSystem \<Rightarrow> LockerId \<Rightarrow> LockSystem" where
  "beginWriteUnitOfWork s l = upd_locker s l (\<lambda>k. k\<lparr>wuowNestingLevel := Suc (wuowNestingLevel k)\<rparr>)"

text \<open>The inner loop of endWriteUnitOfWork runs once for each pending unlock of the request.\<close>

fun unlock_pending :: "LockSystem \<Rightarrow> LockerId \<Rightarrow> rid \<Rightarrow> ResourceId \<Rightarrow> nat \<Rightarrow> LockSystem option" where
  "unlock_pending s l x key 0 = Some s"
| "unlock_pending s l x key (Suc n) = do {
     (_, s) \<leftarrow> lk_unlock (upd_request s x (\<lambda>q. q\<lparr>unlockPending := unlockPending q - 1\<rparr>)) l key;
     unlock_pending s l x key n }"

fun end_unlocks :: "LockSystem \<Rightarrow> LockerId \<Rightarrow> nat list \<Rightarrow> LockSystem option" where
  "end_unlocks s l [] = do {
     invariant (numResourcesToUnlockAtEndUnitOfWork (sy_lockers s l) = 0);
     Some s }"
| "end_unlocks s l (i # is) = (
     let e = fastAccess (map_of_locker s l) ! i; x = entry_addr e in
     if numResourcesToUnlockAtEndUnitOfWork (sy_lockers s l) = 0 then Some s
     else if \<not> inUse e then end_unlocks s l is
     else do {
       let n = unlockPending (request_of s x);
       let s = (if n \<noteq> 0
                then upd_locker s l (\<lambda>k. k\<lparr>numResourcesToUnlockAtEndUnitOfWork := numResourcesToUnlockAtEndUnitOfWork k - 1\<rparr>)
                else s);
       s \<leftarrow> unlock_pending s l x (entry_key e) n;
       end_unlocks s l is })"

definition endWriteUnitOfWork :: "LockSystem \<Rightarrow> LockerId \<Rightarrow> LockSystem option" where
  "endWriteUnitOfWork s l = do {
     invariant (wuowNestingLevel (sy_lockers s l) > 0);
     let s = upd_locker s l (\<lambda>k. k\<lparr>wuowNestingLevel := wuowNestingLevel k - 1\<rparr>);
     if wuowNestingLevel (sy_lockers s l) > 0 then Some s
     else end_unlocks s l (positions s l) }"

subsection \<open>Acquisition\<close>

text \<open>The request for a resource: the one the locker has, or a new one in a free entry of its map.\<close>

definition find_request :: "LockSystem \<Rightarrow> LockerId \<Rightarrow> ResourceId \<Rightarrow> (bool \<times> rid \<times> LockSystem) option" where
  "find_request s l resId = (
     let rs = map_of_locker s l in
     case fm_lookup rs resId of
       None \<Rightarrow> do {
         (x, rs) \<leftarrow> fm_add rs resId (sy_next s);
         let s = upd_locker s l (\<lambda>k. k\<lparr>lk_requests := rs\<rparr>)\<lparr>sy_next := Suc (sy_next s)\<rparr>;
         Some (True, x, upd_request s x (\<lambda>q. initNew_request q l)) }
     | Some x \<Rightarrow> Some (False, x, s))"

definition reuse_pending :: "LockSystem \<Rightarrow> LockerId \<Rightarrow> rid \<Rightarrow> LockSystem" where
  "reuse_pending s l x = (
     let s = upd_request s x (\<lambda>q. q\<lparr>unlockPending := unlockPending q - 1\<rparr>) in
     if unlockPending (request_of s x) = 0
     then upd_locker s l (\<lambda>k. k\<lparr>numResourcesToUnlockAtEndUnitOfWork := numResourcesToUnlockAtEndUnitOfWork k - 1\<rparr>)
     else s)"

text \<open>The last argument says that there is an operation context and that it is marked as interrupted.\<close>

definition lockBegin ::
  "LockSystem \<Rightarrow> LockerId \<Rightarrow> ResourceId \<Rightarrow> LockMode \<Rightarrow> bool \<Rightarrow> ((lock_error + LockResult) \<times> LockSystem) option" where
  "lockBegin s l resId md interrupted = do {
     (isNew, x, s) \<leftarrow> find_request s l resId;
     if unlockPending (request_of s x) \<noteq> 0 \<and> isModeCovered md (mode (request_of s x))
     then Some (Inr LOCK_OK, reuse_pending s l x)
     else do {
       let s = (if getType resId = Some RESOURCE_GLOBAL \<and> (md = MODE_S \<or> md = MODE_X)
                then upd_request s x (\<lambda>q. q\<lparr>enqueueAtFront := True, compatibleFirst := True\<rparr>) else s);
       let s = upd_locker s l (\<lambda>k. k\<lparr>notify_result := LOCK_INVALID\<rparr>);
       (result, m) \<leftarrow> (if isNew then lm_lock (sy_lm s) resId x md else lm_convert (sy_lm s) resId x md);
       s \<leftarrow> with_lm s m;
       if result = LOCK_OK \<and> interrupted \<and> uninterruptibleLocksRequested (sy_lockers s l) = 0 then do {
         let it = it_find (map_of_locker s l) resId;
         invariant (\<not> it_finished (map_of_locker s l) it);
         (_, s) \<leftarrow> unlockImpl s l it;
         Some (Inl Interrupted, s) }
       else Some (Inr result, s) } }"

definition lockGlobalBegin ::
  "LockSystem \<Rightarrow> LockerId \<Rightarrow> LockMode \<Rightarrow> ticket_wait \<Rightarrow> bool \<Rightarrow> ((lock_error + LockResult) \<times> LockSystem) option" where
  "lockGlobalBegin s l md wait interrupted = (
     let ticket = (if modeForTicket (sy_lockers s l) = MODE_NONE then acquireTicket s l md wait
                   else (Inr LOCK_OK, s))
     in case ticket of
       (Inl e, s) \<Rightarrow> Some (Inl e, s)
     | (Inr LOCK_OK, s) \<Rightarrow> do {
         let s = (if modeForTicket (sy_lockers s l) = MODE_NONE
                  then upd_locker s l (\<lambda>k. k\<lparr>modeForTicket := md\<rparr>) else s);
         let actual = (if sy_supportsDBLocking s then md else if isSharedLockMode md then MODE_S else MODE_X);
         (result, s) \<leftarrow> lockBegin s l resourceIdGlobal actual interrupted;
         invariant (result = Inr LOCK_OK \<or> result = Inr LOCK_WAITING \<or> isl result);
         Some (result, s) }
     | (Inr result, s) \<Rightarrow> Some (Inr result, s))"

text \<open>
  Waiting. A deadline of \<open>None\<close> is Date\_t::max(), a timeout of \<open>None\<close> is Milliseconds::max(). A wait is
  interrupted or returns, with the time that has passed since the first one began.
\<close>

datatype wake = WaitInterrupted | WaitReturned int

definition lock_timeout :: "Locker \<Rightarrow> int option \<Rightarrow> int \<Rightarrow> int option" where
  "lock_timeout k deadline now = (
     let timeout = map_option (\<lambda>d. d - now) deadline in
     case maxLockTimeout k of
       None \<Rightarrow> timeout
     | Some t \<Rightarrow> if uninterruptibleLocksRequested k = 0
         then Some (case timeout of None \<Rightarrow> t | Some d \<Rightarrow> min d t) else timeout)"

definition cv_result :: "Locker \<Rightarrow> LockResult" where
  "cv_result k = (if notify_result k \<noteq> LOCK_INVALID then notify_result k else LOCK_TIMEOUT)"

definition fail_lock ::
  "LockSystem \<Rightarrow> LockerId \<Rightarrow> ResourceId \<Rightarrow> lock_error + LockResult \<Rightarrow>
   ((lock_error + LockResult) option \<times> LockSystem) option" where
  "fail_lock s l resId result = do {
     (_, s) \<leftarrow> unlockImpl s l (it_find (map_of_locker s l) resId);
     Some (Some result, s) }"

definition lockComplete_pass ::
  "LockSystem \<Rightarrow> LockerId \<Rightarrow> ResourceId \<Rightarrow> int option \<Rightarrow> int option \<Rightarrow> bool \<Rightarrow> wake \<Rightarrow>
   ((lock_error + LockResult) option \<times> LockSystem) option" where
  "lockComplete_pass s l resId deadline timeout checkDeadlock wake =
     (case wake of
        WaitInterrupted \<Rightarrow> fail_lock s l resId (Inl Interrupted)
      | WaitReturned totalBlockTime \<Rightarrow> (
          let result = cv_result (sy_lockers s l) in
          if result = LOCK_OK then Some (Some (Inr LOCK_OK), s)
          else do {
            cycle \<leftarrow> (if checkDeadlock
                      then dd_check (sy_lm s) (getWaitingResource s) (DeadlockDetector_new (getWaitingResource s) l) \<bind> hasCycle
                      else Some False);
            if cycle then fail_lock s l resId (Inr LOCK_DEADLOCK)
            else (case timeout of
                None \<Rightarrow> Some (None, s)
              | Some t \<Rightarrow>
                  if totalBlockTime < t then Some (None, s)
                  else if maxLockTimeout (sy_lockers s l) \<noteq> None \<and> deadline = None
                  then fail_lock s l resId (Inl LockTimeout)
                  else fail_lock s l resId (Inr result)) }))"

subsection \<open>Yielding\<close>

record LockSnapshot =
  globalMode :: LockMode
  snapshot_locks :: "(ResourceId \<times> LockMode) list"

fun save_rest :: "LockSystem \<Rightarrow> LockerId \<Rightarrow> nat list \<Rightarrow> ((ResourceId \<times> LockMode) list \<times> LockSystem) option" where
  "save_rest s l [] = Some ([], s)"
| "save_rest s l (i # is) = (
     let e = fastAccess (map_of_locker s l) ! i; resId = entry_key e;
         md = mode (request_of s (entry_addr e)) in
     if \<not> inUse e then save_rest s l is
     else if getType resId = Some RESOURCE_MUTEX then save_rest s l is
     else do {
       invariant (getType resId = Some RESOURCE_DATABASE \<or> getType resId = Some RESOURCE_COLLECTION \<or>
                  getType resId = Some RESOURCE_GLOBAL \<and> isSharedLockMode md);
       (released, s) \<leftarrow> lk_unlock s l resId;
       invariant released;
       (locks, s) \<leftarrow> save_rest s l is;
       Some ((resId, md) # locks, s) })"

definition saveLockStateAndUnlock :: "LockSystem \<Rightarrow> LockerId \<Rightarrow> (LockSnapshot option \<times> LockSystem) option" where
  "saveLockStateAndUnlock s l = do {
     invariant (\<not> inAWriteUnitOfWork s l \<or> prepareModeForLockYields (sy_lockers s l));
     case fm_lookup (map_of_locker s l) resourceIdGlobal of
       None \<Rightarrow> do {
         invariant (\<forall>e \<in> set (fastAccess (map_of_locker s l)).
           inUse e \<longrightarrow> getType (entry_key e) = Some RESOURCE_MUTEX);
         Some (None, s) }
     | Some x \<Rightarrow>
         if recursiveCount (request_of s x) > 1 then Some (None, s)
         else do {
           let md = mode (request_of s x);
           (released, s) \<leftarrow> lk_unlock s l resourceIdGlobal;
           invariant released;
           (locks, s) \<leftarrow> save_rest s l (positions s l);
           invariant (\<not> isLocked s l);
           Some (Some \<lparr>globalMode = md, snapshot_locks = sort_key fst locks\<rparr>, s) } }"

definition saveLockStateAndUnlockForPrepare ::
  "LockSystem \<Rightarrow> LockerId \<Rightarrow> (LockSnapshot option \<times> LockSystem) option" where
  "saveLockStateAndUnlockForPrepare s l = do {
     invariant (\<not> prepareModeForLockYields (sy_lockers s l));
     (saved, s) \<leftarrow> saveLockStateAndUnlock (upd_locker s l (\<lambda>k. k\<lparr>prepareModeForLockYields := True\<rparr>)) l;
     Some (saved, upd_locker s l (\<lambda>k. k\<lparr>prepareModeForLockYields := False\<rparr>)) }"

subsection \<open>Settings and the end of a locker\<close>

definition setSharedLocksShouldTwoPhaseLock :: "LockSystem \<Rightarrow> LockerId \<Rightarrow> bool \<Rightarrow> LockSystem" where
  "setSharedLocksShouldTwoPhaseLock s l b = upd_locker s l (\<lambda>k. k\<lparr>sharedLocksShouldTwoPhaseLock := b\<rparr>)"

definition setMaxLockTimeout :: "LockSystem \<Rightarrow> LockerId \<Rightarrow> int option \<Rightarrow> LockSystem" where
  "setMaxLockTimeout s l t = upd_locker s l (\<lambda>k. k\<lparr>maxLockTimeout := t\<rparr>)"

definition setShouldConflictWithSecondaryBatchApplication :: "LockSystem \<Rightarrow> LockerId \<Rightarrow> bool \<Rightarrow> LockSystem" where
  "setShouldConflictWithSecondaryBatchApplication s l b =
     upd_locker s l (\<lambda>k. k\<lparr>shouldConflictWithSecondaryBatchApplication := b\<rparr>)"

definition setShouldAcquireTicket :: "LockSystem \<Rightarrow> LockerId \<Rightarrow> bool \<Rightarrow> LockSystem option" where
  "setShouldAcquireTicket s l b = do {
     invariant (\<not> isLocked s l);
     Some (upd_locker s l (\<lambda>k. k\<lparr>shouldAcquireTicket := b\<rparr>)) }"

definition UninterruptibleLockGuard_begin :: "LockSystem \<Rightarrow> LockerId \<Rightarrow> LockSystem option" where
  "UninterruptibleLockGuard_begin s l = do {
     invariant (uninterruptibleLocksRequested (sy_lockers s l) < 2147483647);
     Some (upd_locker s l (\<lambda>k. k\<lparr>uninterruptibleLocksRequested := Suc (uninterruptibleLocksRequested k)\<rparr>)) }"

definition UninterruptibleLockGuard_end :: "LockSystem \<Rightarrow> LockerId \<Rightarrow> LockSystem option" where
  "UninterruptibleLockGuard_end s l = do {
     invariant (uninterruptibleLocksRequested (sy_lockers s l) > 0);
     Some (upd_locker s l (\<lambda>k. k\<lparr>uninterruptibleLocksRequested := uninterruptibleLocksRequested k - 1\<rparr>)) }"

definition LockerImpl_destroy :: "LockSystem \<Rightarrow> LockerId \<Rightarrow> unit option" where
  "LockerImpl_destroy s l = do {
     invariant (\<not> inAWriteUnitOfWork s l);
     invariant (numResourcesToUnlockAtEndUnitOfWork (sy_lockers s l) = 0);
     invariant (fm_empty (map_of_locker s l));
     invariant (modeForTicket (sy_lockers s l) = MODE_NONE) }"

end
