(* ===== verification/Lock_Manager_Frame.thy ===== *)
theory Lock_Manager_Frame
  imports Lock_Manager_Safety
begin

text \<open>
  What the lock manager leaves alone of the request objects it is given: their owner and the pending
  unlocks, which belong to the locker, and the recursive count of all requests but the one it is called
  with. Also the place of a request across an unlock that does not release it.
\<close>

definition framed :: "rid set \<Rightarrow> requests \<Rightarrow> requests \<Rightarrow> bool" where
  "framed A rq rq' \<longleftrightarrow> (\<forall>x. locker (rq' x) = locker (rq x) \<and> unlockPending (rq' x) = unlockPending (rq x) \<and>
     (x \<notin> A \<longrightarrow> recursiveCount (rq' x) = recursiveCount (rq x)))"

lemma framed_refl [simp]: "framed A rq rq" by (simp add: framed_def)

lemma framed_trans: "framed A a b \<Longrightarrow> framed A b c \<Longrightarrow> framed A a c" by (simp add: framed_def)

lemma framed_mono: "framed {} a b \<Longrightarrow> framed A a b" by (simp add: framed_def)

lemma framed_head_newRequest:
  "head_newRequest rq h r = Some (res, rq', h') \<Longrightarrow> framed {} rq rq'"
  by (auto simp: head_newRequest_def framed_def Let_def abort_simps split: bind_splits if_splits)

lemma framed_migrateRequests: "migrateRequests rq h rs = Some (rq', h') \<Longrightarrow> framed {} rq rq'"
proof (induction rs arbitrary: rq h)
  case (Cons r rs)
  let ?rq = "rq(r := (rq r)\<lparr>partitionedLock := None\<rparr>)"
  obtain rq1 h1 where "head_newRequest ?rq h r = Some (LOCK_OK, rq1, h1)"
    and rest: "migrateRequests rq1 h1 rs = Some (rq', h')"
    using Cons.prems by (auto simp: Let_def abort_simps split: bind_splits)
  from framed_head_newRequest [OF this(1)] have "framed {} rq rq1" by (auto simp: framed_def)
  then show ?case using framed_trans Cons.IH [OF rest] by blast
qed simp

lemma reqs_put [simp]: "reqs (put_head m h) = reqs m" "notified (put_head m h) = notified m"
  "reqs (put_partition m p res pl) = reqs m"
  by (simp_all add: put_head_def put_partition_def) (cases "this h"; simp)+

lemma framed_migratePartition: "migratePartition m ptr p = Some m' \<Longrightarrow> framed {} (reqs m) (reqs m')"
  by (auto simp: migratePartition_def Let_def dest!: framed_migrateRequests split: bind_splits option.splits)

lemma framed_migrate_loop: "migrate_loop m ptr ps = Some m' \<Longrightarrow> framed {} (reqs m) (reqs m')"
proof (induction ps arbitrary: m)
  case (Cons p ps)
  then obtain m1 where "migratePartition m ptr p = Some m1" "migrate_loop m1 ptr ps = Some m'"
    by (auto split: bind_splits)
  then show ?case using framed_migratePartition Cons.IH framed_trans by blast
qed simp

lemma framed_migrate: "migrate_if_partitioned m ptr = Some m' \<Longrightarrow> framed {} (reqs m) (reqs m')"
  by (auto simp: migrate_if_partitioned_def migratePartitionedLockHeads_def abort_simps
      split: bind_splits if_splits intro: framed_migrate_loop)

lemma framed_grantConversions:
  "grantConversions (rq, h, ns) is = Some (rq', h', ns') \<Longrightarrow> framed {} rq rq'"
proof (induction "is" arbitrary: rq h ns)
  case (Cons i "is")
  then show ?case
    by (fastforce simp: Let_def abort_simps framed_def split: bind_splits if_splits dest: Cons.IH)
qed simp

lemma framed_grantConflicts:
  "grantConflicts (rq, h, ns) newly is = Some (rq', h', ns') \<Longrightarrow> framed {} rq rq'"
proof (induction "is" arbitrary: rq h ns newly)
  case (Cons i "is")
  show ?case
  proof (cases "conflicts (mode (rq i)) (grantedModes h)")
    case True
    then show ?thesis using Cons by (auto simp: abort_simps split: if_splits)
  next
    case False
    let ?rq = "rq(i := (rq i)\<lparr>status := STATUS_GRANTED\<rparr>)"
    have step: "framed {} rq ?rq" by (simp add: framed_def)
    from Cons.prems False have "rq' = ?rq \<or> (\<exists>h2 ns2 newly2. grantConflicts (?rq, h2, ns2) newly2 is = Some (rq', h', ns'))"
      by (auto simp: Let_def abort_simps split: bind_splits if_splits)
    then show ?thesis using Cons.IH framed_trans [OF step] step by blast
  qed
qed simp

lemma framed_rescan: "rescan m rq h check = Some m' \<Longrightarrow> framed {} rq (reqs m')"
  by (auto simp: rescan_def onLockModeChanged_def abort_simps split: bind_splits if_splits
      dest!: framed_grantConversions framed_grantConflicts) (erule (1) framed_trans)+

lemma framed_partitioned_newRequest:
  "partitioned_newRequest m p res r = Some m' \<Longrightarrow> framed {} (reqs m) (reqs m')"
  by (auto simp: partitioned_newRequest_def Let_def abort_simps framed_def upd_req_def split: bind_splits)

lemma framed_upd_req:
  "(\<And>q. locker (f q) = locker q \<and> unlockPending (f q) = unlockPending q) \<Longrightarrow> framed {r} (reqs m) (reqs (upd_req m r f))"
  by (simp add: framed_def upd_req_def)

lemma reqs_findOrInsert [simp]: "reqs (bucket_findOrInsert m res) = reqs m" "reqs (partition_findOrInsert m p res) = reqs m"
  by (simp_all add: bucket_findOrInsert_def partition_findOrInsert_def split: option.splits)

lemma framed_lock_section: "lock_bucket_section m res r = Some (result, m') \<Longrightarrow> framed {r} (reqs m) (reqs m')"
proof -
  assume run: "lock_bucket_section m res r = Some (result, m')"
  let ?m = "bucket_findOrInsert m res"
  obtain h where h: "deref ?m (ManagedHead res) = Some h"
    using run by (auto simp: lock_bucket_section_def Let_def split: bind_splits)
  show ?thesis
  proof (cases "partitioned (reqs m r) \<and> ucast (grantedModes h) AND NOT intentModes = 0 \<and> conflictModes h = 0")
    case True
    then obtain m1 where "partitioned_newRequest m1 (getPartition (reqs m r)) res r = Some m'" "reqs m1 = reqs m"
      using run h by (auto simp: lock_bucket_section_def Let_def split: bind_splits)
    then show ?thesis using framed_mono [OF framed_partitioned_newRequest] by metis
  next
    case False
    then obtain m1 rq h1 h2 where mig: "migrate_if_partitioned ?m (ManagedHead res) = Some m1"
      and new: "head_newRequest (reqs (upd_req m1 r (\<lambda>q. q\<lparr>partitioned := False\<rparr>))) h1 r = Some (result, rq, h2)"
      and m': "reqs m' = rq"
      using run h by (auto simp: lock_bucket_section_def Let_def split: bind_splits)
    have "framed {r} (reqs m) (reqs m1)" using framed_mono [OF framed_migrate [OF mig]] by simp
    moreover have "framed {r} (reqs m1) (reqs (upd_req m1 r (\<lambda>q. q\<lparr>partitioned := False\<rparr>)))"
      by (rule framed_upd_req) simp
    ultimately show ?thesis
      using framed_trans framed_mono [OF framed_head_newRequest [OF new]] m' by metis
  qed
qed

lemma framed_lock: "lm_lock m res r md = Some (result, m') \<Longrightarrow> framed {r} (reqs m) (reqs m')"
proof -
  assume run: "lm_lock m res r md = Some (result, m')"
  define m0 where "m0 = upd_req m r (\<lambda>q. q\<lparr>partitioned := (md = MODE_IX \<or> md = MODE_IS), mode := md\<rparr>)"
  have "framed {r} (reqs m) (reqs m0)" unfolding m0_def by (rule framed_upd_req) simp
  moreover have "(\<exists>p. partitioned_newRequest m0 p res r = Some m') \<or> lock_bucket_section m0 res r = Some (result, m')"
    using run unfolding lm_lock_def Let_def m0_def [symmetric] by (auto simp: abort_simps split: bind_splits if_splits)
  then have "framed {r} (reqs m0) (reqs m')"
    using framed_mono [OF framed_partitioned_newRequest] framed_lock_section by blast
  ultimately show ?thesis by (rule framed_trans)
qed

lemma framed_convert: "lm_convert m res r md = Some (result, m') \<Longrightarrow> framed {r} (reqs m) (reqs m')"
proof -
  assume run: "lm_convert m res r md = Some (result, m')"
  let ?m = "upd_req m r (\<lambda>q. q\<lparr>recursiveCount := recursiveCount q + 1\<rparr>)"
  have first: "framed {r} (reqs m) (reqs ?m)" by (rule framed_upd_req) simp
  have "m' = ?m \<or> (\<exists>m1. migrate_if_partitioned ?m (ManagedHead res) = Some m1 \<and>
      (reqs m' = reqs (upd_req m1 r (\<lambda>q. q\<lparr>status := STATUS_CONVERTING, convertMode := md\<rparr>)) \<or>
       reqs m' = reqs (upd_req m1 r (\<lambda>q. q\<lparr>mode := md\<rparr>))))"
    using run by (auto simp: lm_convert_def Let_def abort_simps split: bind_splits if_splits)
  then show ?thesis
  proof (elim disjE exE conjE)
    assume "m' = ?m"
    then show ?thesis using first by simp
  next
    fix m1 assume mig: "migrate_if_partitioned ?m (ManagedHead res) = Some m1"
      and m': "reqs m' = reqs (upd_req m1 r (\<lambda>q. q\<lparr>status := STATUS_CONVERTING, convertMode := md\<rparr>))"
    show ?thesis unfolding m'
      by (rule framed_trans [OF first framed_trans [OF framed_mono [OF framed_migrate [OF mig]] framed_upd_req]]) simp
  next
    fix m1 assume mig: "migrate_if_partitioned ?m (ManagedHead res) = Some m1"
      and m': "reqs m' = reqs (upd_req m1 r (\<lambda>q. q\<lparr>mode := md\<rparr>))"
    show ?thesis unfolding m'
      by (rule framed_trans [OF first framed_trans [OF framed_mono [OF framed_migrate [OF mig]] framed_upd_req]]) simp
  qed
qed

lemma framed_unlock_section: "unlock_bucket_section m r = Some (result, m') \<Longrightarrow> framed {} (reqs m) (reqs m')"
proof -
  assume run: "unlock_bucket_section m r = Some (result, m')"
  obtain ptr h where h: "lock_ptr (reqs m r) = Some ptr" "deref m ptr = Some h"
    using run by (auto simp: unlock_bucket_section_def split: bind_splits)
  let ?rq = "(reqs m)(r := (reqs m r)\<lparr>status := STATUS_GRANTED, convertMode := MODE_NONE\<rparr>)"
  have "(\<exists>h1 check. rescan m (reqs m) h1 check = Some m') \<or> (\<exists>h1 check. rescan m ?rq h1 check = Some m')"
    using run h by (cases "status (reqs m r)")
      (auto simp: unlock_bucket_section_def Let_def abort_simps split: bind_splits if_splits)
  moreover have "framed {} (reqs m) ?rq" by (simp add: framed_def)
  ultimately show ?thesis using framed_rescan framed_trans by blast
qed

lemma framed_unlock: "lm_unlock m r = Some (result, m') \<Longrightarrow> framed {r} (reqs m) (reqs m')"
proof -
  assume run: "lm_unlock m r = Some (result, m')"
  let ?m = "upd_req m r (\<lambda>q. q\<lparr>recursiveCount := recursiveCount q - 1\<rparr>)"
  have "framed {r} (reqs m) (reqs ?m)" by (rule framed_upd_req) simp
  moreover have "framed {r} (reqs ?m) (reqs m')"
    using run framed_mono [OF framed_unlock_section [of ?m]]
    by (auto simp: lm_unlock_def Let_def abort_simps split: bind_splits if_splits option.splits)
  ultimately show ?thesis by (rule framed_trans)
qed

lemma framed_downgrade: "lm_downgrade m r md = Some m' \<Longrightarrow> framed {} (reqs m) (reqs m')"
proof -
  assume "lm_downgrade m r md = Some m'"
  then obtain h where "rescan m ((reqs m)(r := (reqs m r)\<lparr>mode := md\<rparr>)) h True = Some m'"
    by (auto simp: lm_downgrade_def abort_simps split: bind_splits)
  from framed_rescan [OF this] show ?thesis by (auto simp: framed_def)
qed

subsection \<open>The place of a request\<close>

lemma at_head_granted:
  assumes inv: "lm_inv m" and "at_head (deref m) (ManagedHead res) r" and "status (reqs m r) = STATUS_GRANTED"
  shows "holder m res r"
proof -
  obtain h where d: "deref m (ManagedHead res) = Some h" "r \<in> queued h" using assms(2) by (auto simp: at_head_def)
  have "r \<notin> set (conflictList h)"
    using lm_inv_head [OF inv d(1)] assms(3) by (auto simp: head_at_def head_inv_def head_ok_def waiting_ok_def)
  then show ?thesis using d by (auto simp: holder_def)
qed

lemma unlock_keeps_place:
  assumes inv: "lm_inv m" and r: "holder m res r" and run: "lm_unlock m r = Some (False, m')"
  shows "holder m' res r"
proof -
  have at: "lm_attached m r" using lm_attached_holder r by blast
  have one: "recursiveCount (reqs m r) \<noteq> 1" using unlock_run [OF inv at] run by (auto simp: unlock_outcome_def)
  have ge: "1 \<le> recursiveCount (reqs m r)" using holder_status(3) [OF inv r] .
  show ?thesis
  proof (cases "status (reqs m r) = STATUS_GRANTED")
    case True
    then have "m' = upd_req m r (\<lambda>q. q\<lparr>recursiveCount := recursiveCount q - 1\<rparr>)"
      using run one ge by (simp add: lm_unlock_def Let_def abort_simps)
    then show ?thesis using r by simp
  next
    case False
    then have conv: "status (reqs m r) = STATUS_CONVERTING" using holder_status(1) [OF inv r] by blast
    have "\<not> at_part (partition_find m) p res r" for p
    proof
      assume "at_part (partition_find m) p res r"
      then obtain pl where "partition_find m p res = Some pl" "r \<in> set (partGrantedList pl)" by (auto simp: at_part_def)
      from lm_inv_part [OF inv this(1)] this(2) show False using conv by (auto simp: part_at_def part_ok_def)
    qed
    with r obtain h where d: "deref m (ManagedHead res) = Some h" "r \<in> set (grantedList h)"
      unfolding holder_def by blast
    have q: "partitionedLock (reqs m r) = None"
      using head_at_queued(2) [OF lm_inv_head [OF inv d(1)], of r] d(2) by auto
    have "unlock_bucket_section (upd_req m r release_one) r = Some (False, m')"
      using run conv q by (simp add: lm_unlock_def Let_def abort_simps split: if_splits)
    with unlock_converting_run [OF inv d conv] show ?thesis
      by (auto intro: at_head_granted)
  qed
qed

subsection \<open>Heads of the table only\<close>

text \<open>Without temporary resource queues, every head the lock manager reaches is one of its own table.\<close>

definition no_temp :: "LockManager \<Rightarrow> bool" where
  "no_temp m \<longleftrightarrow> tempQueues m = [] \<and> (\<forall>b res h. map_of (lockBuckets m b) res = Some h \<longrightarrow> is_managed (this h))"

lemma no_temp_deref: "no_temp m \<Longrightarrow> deref m ptr = Some h \<Longrightarrow> is_managed (this h)"
  by (cases ptr) (auto simp: no_temp_def deref.simps)

lemma no_temp_put:
  assumes "no_temp m" and "is_managed (this h)"
  shows "no_temp (put_head m h)"
  using assms by (cases "this h") (auto simp: no_temp_def put_head_def)

lemma no_temp_fields [simp]:
  "no_temp (upd_req m r f) = no_temp m" "no_temp (m\<lparr>reqs := rq\<rparr>) = no_temp m"
  "no_temp (m\<lparr>notified := ns\<rparr>) = no_temp m" "no_temp (put_partition m p res pl) = no_temp m"
  "no_temp (m\<lparr>lm_partitions := ps\<rparr>) = no_temp m"
  by (simp_all add: no_temp_def upd_req_def put_partition_def)

lemma this_counts:
  "incGrantedModeCount h md = Some h' \<Longrightarrow> this h' = this h" "decGrantedModeCount h md = Some h' \<Longrightarrow> this h' = this h"
  "incConflictModeCount h md = Some h' \<Longrightarrow> this h' = this h" "decConflictModeCount h md = Some h' \<Longrightarrow> this h' = this h"
  by (auto simp: incGrantedModeCount_def decGrantedModeCount_def incConflictModeCount_def decConflictModeCount_def
      Let_def abort_simps split: if_splits)

lemma this_newRequest: "head_newRequest rq h r = Some (res, rq', h') \<Longrightarrow> this h' = this h"
  by (auto simp: head_newRequest_def Let_def abort_simps dest!: this_counts split: bind_splits if_splits)

lemma this_migrateRequests: "migrateRequests rq h rs = Some (rq', h') \<Longrightarrow> this h' = this h"
  by (induction rs arbitrary: rq h)
    (auto simp: Let_def abort_simps dest!: this_newRequest split: bind_splits)

lemma this_grantConversions: "grantConversions (rq, h, ns) is = Some (rq', h', ns') \<Longrightarrow> this h' = this h"
  by (induction "is" arbitrary: rq h ns)
    (fastforce simp: Let_def abort_simps dest: this_counts split: bind_splits if_splits)+

lemma this_grantConflicts: "grantConflicts (rq, h, ns) newly is = Some (rq', h', ns') \<Longrightarrow> this h' = this h"
proof (induction "is" arbitrary: rq h ns newly)
  case (Cons i "is")
  show ?case
  proof (cases "conflicts (mode (rq i)) (grantedModes h)")
    case True
    then show ?thesis using Cons by (auto simp: abort_simps split: if_splits)
  next
    case False
    then show ?thesis using Cons.prems
      by (auto simp: Let_def abort_simps dest!: this_counts Cons.IH split: bind_splits if_splits)
  qed
qed simp

lemma no_temp_rescan:
  assumes "no_temp m" and "is_managed (this h)" and "rescan m rq h check = Some m'"
  shows "no_temp m'"
proof -
  obtain rq1 h1 ns1 where run: "onLockModeChanged (rq, h, notified m) check = Some (rq1, h1, ns1)"
    and m': "m' = put_head (m\<lparr>reqs := rq1, notified := ns1\<rparr>) h1"
    using assms(3) by (auto simp: rescan_def split: bind_splits)
  have "this h1 = this h"
    using run by (auto simp: onLockModeChanged_def abort_simps dest!: this_grantConversions this_grantConflicts
        split: bind_splits if_splits)
  then show ?thesis unfolding m' using assms by (intro no_temp_put) simp_all
qed

lemma no_temp_migratePartition:
  assumes nt: "no_temp m" and run: "migratePartition m ptr p = Some m'"
  shows "no_temp m'"
proof -
  obtain h where h: "deref m ptr = Some h" using run by (auto simp: migratePartition_def split: bind_splits)
  note man = no_temp_deref [OF nt h]
  show ?thesis
    using run nt man h
    by (auto simp: migratePartition_def Let_def dest!: this_migrateRequests split: bind_splits option.splits
        intro!: no_temp_put)
qed

lemma no_temp_migrate:
  assumes "no_temp m" and "migrate_if_partitioned m ptr = Some m'"
  shows "no_temp m'"
proof -
  have "no_temp m'" if "no_temp m" "migrate_loop m ptr ps = Some m'" for ps m
    using that by (induction ps arbitrary: m) (auto dest: no_temp_migratePartition split: bind_splits)
  then show ?thesis
    using assms by (auto simp: migrate_if_partitioned_def migratePartitionedLockHeads_def abort_simps
        split: bind_splits if_splits)
qed

lemma no_temp_find:
  "no_temp m \<Longrightarrow> no_temp (bucket_findOrInsert m res)" "no_temp (partition_findOrInsert m p res) = no_temp m"
  by (auto simp: bucket_findOrInsert_def partition_findOrInsert_def initNew_head_def intro!: no_temp_put split: option.splits)

lemma no_temp_partitioned: "no_temp m \<Longrightarrow> partitioned_newRequest m p res r = Some m' \<Longrightarrow> no_temp m'"
  by (auto simp: partitioned_newRequest_def Let_def abort_simps split: bind_splits)

lemma no_temp_lock:
  assumes nt: "no_temp m" and run: "lm_lock m res r md = Some (result, m')"
  shows "no_temp m'"
proof -
  define m0 where "m0 = upd_req m r (\<lambda>q. q\<lparr>partitioned := (md = MODE_IX \<or> md = MODE_IS), mode := md\<rparr>)"
  have nt0: "no_temp m0" using nt by (simp add: m0_def)
  consider (part) p where "partitioned_newRequest m0 p res r = Some m'"
    | (bucket) "lock_bucket_section m0 res r = Some (result, m')"
    using run unfolding lm_lock_def Let_def m0_def [symmetric] by (auto simp: abort_simps split: bind_splits if_splits)
  then show ?thesis
  proof cases
    case bucket
    define m1 where "m1 = bucket_findOrInsert m0 res"
    have nt1: "no_temp m1" using nt0 by (simp add: m1_def no_temp_find)
    obtain h where h: "deref m1 (ManagedHead res) = Some h"
      using bucket by (auto simp: lock_bucket_section_def Let_def m1_def split: bind_splits)
    have man: "is_managed (this h)" using no_temp_deref [OF nt1 h] .
    consider (here) p where "partitioned_newRequest (put_head (partition_findOrInsert m1 p res)
          (h\<lparr>partitions := partitions h @ [p]\<rparr>)) p res r = Some m'"
      | (queue) m2 h2 rq h3 where "migrate_if_partitioned m1 (ManagedHead res) = Some m2"
          "deref (upd_req m2 r (\<lambda>q. q\<lparr>partitioned := False\<rparr>)) (ManagedHead res) = Some h2"
          "head_newRequest (reqs (upd_req m2 r (\<lambda>q. q\<lparr>partitioned := False\<rparr>))) h2 r = Some (result, rq, h3)"
          "m' = put_head (upd_req m2 r (\<lambda>q. q\<lparr>partitioned := False\<rparr>)\<lparr>reqs := rq\<rparr>) h3"
      using bucket h unfolding lock_bucket_section_def Let_def m1_def [symmetric]
      by (auto split: bind_splits if_splits)
    then show ?thesis
    proof cases
      case (here p)
      then show ?thesis by (rule no_temp_partitioned [rotated]) (simp add: no_temp_put no_temp_find nt1 man)
    next
      case queue
      have nt2: "no_temp (upd_req m2 r (\<lambda>q. q\<lparr>partitioned := False\<rparr>))" using no_temp_migrate [OF nt1 queue(1)] by simp
      have "is_managed (this h3)" using no_temp_deref [OF nt2 queue(2)] this_newRequest [OF queue(3)] by simp
      then show ?thesis unfolding queue(4) using nt2 by (simp add: no_temp_put)
    qed
  qed (rule no_temp_partitioned [OF nt0])
qed

lemma no_temp_convert:
  assumes nt: "no_temp m" and run: "lm_convert m res r md = Some (result, m')"
  shows "no_temp m'"
proof -
  define m0 where "m0 = upd_req m r (\<lambda>q. q\<lparr>recursiveCount := recursiveCount q + 1\<rparr>)"
  have nt0: "no_temp m0" using nt by (simp add: m0_def)
  consider (covered) "m' = m0"
    | (changed) m1 h f h1 where "migrate_if_partitioned m0 (ManagedHead res) = Some m1"
      "deref m1 (ManagedHead res) = Some h" "this h1 = this h" "m' = put_head (upd_req m1 r f) h1"
    using run unfolding lm_convert_def Let_def m0_def [symmetric]
    by (fastforce simp: abort_simps dest: this_counts split: bind_splits if_splits)
  then show ?thesis
  proof cases
    case changed
    have nt1: "no_temp m1" using no_temp_migrate [OF nt0 changed(1)] .
    then show ?thesis
      unfolding changed(4) using no_temp_deref [OF nt1 changed(2)] changed(3) by (simp add: no_temp_put)
  qed (simp add: nt0)
qed

lemma no_temp_unlock:
  assumes nt: "no_temp m" and run: "lm_unlock m r = Some (result, m')"
  shows "no_temp m'"
proof -
  define m0 where "m0 = upd_req m r (\<lambda>q. q\<lparr>recursiveCount := recursiveCount q - 1\<rparr>)"
  have nt0: "no_temp m0" using nt by (simp add: m0_def)
  consider (early) "m' = m0" | (part) p res pl where "m' = put_partition m0 p res pl"
    | (bucket) "unlock_bucket_section m0 r = Some (result, m')"
    using run unfolding lm_unlock_def Let_def m0_def [symmetric]
    by (auto simp: abort_simps split: bind_splits if_splits option.splits)
  then show ?thesis
  proof cases
    case bucket
    obtain ptr h where h: "deref m0 ptr = Some h" "lock_ptr (reqs m0 r) = Some ptr"
      using bucket by (auto simp: unlock_bucket_section_def split: bind_splits)
    have "\<exists>rq h1 check. rescan m0 rq h1 check = Some m' \<and> this h1 = this h"
      using bucket h by (cases "status (reqs m0 r)")
        (fastforce simp: unlock_bucket_section_def Let_def abort_simps dest: this_counts split: bind_splits if_splits)+
    then show ?thesis using no_temp_rescan [OF nt0] no_temp_deref [OF nt0 h(1)] by metis
  qed (simp_all add: nt0)
qed

lemma no_temp_downgrade:
  assumes nt: "no_temp m" and run: "lm_downgrade m r md = Some m'"
  shows "no_temp m'"
proof -
  obtain ptr h h1 where "deref m ptr = Some h" "this h1 = this h"
      "rescan m ((reqs m)(r := (reqs m r)\<lparr>mode := md\<rparr>)) h1 True = Some m'"
    using run by (fastforce simp: lm_downgrade_def abort_simps dest: this_counts split: bind_splits)
  then show ?thesis using no_temp_rescan [OF nt] no_temp_deref [OF nt] by metis
qed

lemma cleanup_head_frame:
  assumes "no_temp m" and "cleanup_head m b res = Some m'"
  shows "no_temp m' \<and> framed {} (reqs m) (reqs m')"
proof -
  obtain h :: LockHead and m1 where mig: "migrate_if_partitioned m (this h) = Some m1"
    and m': "m' = m1 \<or> m' = m1\<lparr>lockBuckets := (lockBuckets m1)(b := AList.delete res (lockBuckets m1 b))\<rparr>"
    using assms(2) by (auto simp: cleanup_head_def abort_simps split: bind_splits if_splits)
  have "no_temp m1" using no_temp_migrate [OF assms(1) mig] .
  then have "no_temp m'" using m' by (auto simp: no_temp_def split: if_splits)
  then show ?thesis using framed_migrate [OF mig] m' by auto
qed

lemma cleanup_frame:
  assumes "no_temp m" and "cleanupUnusedLocks m = Some m'"
  shows "no_temp m' \<and> framed {} (reqs m) (reqs m')"
proof -
  have heads: "no_temp m' \<and> framed {} (reqs m) (reqs m')" if "no_temp m" "cleanup_heads m b ids = Some m'" for ids b m m'
    using that
  proof (induction ids arbitrary: m)
    case (Cons res ids)
    then obtain m1 where "cleanup_head m b res = Some m1" "cleanup_heads m1 b ids = Some m'"
      by (auto split: bind_splits)
    then show ?case using cleanup_head_frame [OF Cons.prems(1)] Cons.IH [of m1] framed_trans by blast
  qed simp
  have "no_temp m' \<and> framed {} (reqs m) (reqs m')" if "no_temp m" "cleanup_buckets m bs = Some m'" for bs m m'
    using that
  proof (induction bs arbitrary: m)
    case (Cons b bs)
    then obtain m1 where "cleanupUnusedLocksInBucket m b = Some m1" "cleanup_buckets m1 bs = Some m'"
      by (auto split: bind_splits)
    then show ?case
      using heads [OF Cons.prems(1)] Cons.IH [of m1] framed_trans unfolding cleanupUnusedLocksInBucket_def by blast
  qed simp
  then show ?thesis using assms unfolding cleanupUnusedLocks_def by blast
qed

lemma lm_inv_pending:
  assumes inv: "lm_inv m"
  shows "lm_inv (upd_req m r (\<lambda>q. q\<lparr>unlockPending := n\<rparr>))"
proof -
  let ?rq = "(reqs m)(r := (reqs m r)\<lparr>unlockPending := n\<rparr>)"
  have ok: "state_ok (reqs m) (deref m) (partition_find m)" and tab: "tables_ok m"
    using inv by (simp_all add: lm_inv_def)
  have "head_at ?rq ptr h" if "deref m ptr = Some h" for ptr h
  proof -
    have at: "head_at (reqs m) ptr h" using state_okD(1) [OF ok that] .
    have "head_inv ?rq h = head_inv (reqs m) h" by (rule head_inv_cong) (simp add: same_view_def)
    moreover have "heldModes ?rq (grantedList h) = heldModes (reqs m) (grantedList h)"
      by (rule heldModes_cong) (simp add: holds_def)
    ultimately show ?thesis using at by (auto simp: head_at_def slot_ok_def)
  qed
  moreover have "part_at ?rq (deref m) p resId pl" if "partition_find m p resId = Some pl" for p resId pl
    using state_okD(2) [OF ok that] by (auto simp: part_at_def part_ok_def getPartition_def)
  ultimately show ?thesis using tab by (simp add: lm_inv_def state_ok_def)
qed

lemma no_temp_init: "no_temp (lm_init rq)"
  by (simp add: no_temp_def lm_init_def)

lemma attached_claimed:
  assumes "no_temp m" and "lm_attached m x"
  shows "\<exists>res. holder m res x \<or> waiter m res x"
proof -
  have "deref m (TemporaryHead res) = None" for res using assms(1) by (simp add: no_temp_def deref.simps)
  then have "\<not> at_head (deref m) (TemporaryHead res) x" for res by (simp add: at_head_def)
  then consider res where "at_head (deref m) (ManagedHead res) x" | p res where "at_part (partition_find m) p res x"
    using assms(2) unfolding lm_attached_def attached_iff by (metis LockHeadPtr.exhaust)
  then show ?thesis by cases (auto simp: at_head_def holder_def waiter_def)
qed

end
