(* ===== verification/Locker_Invariant.thy ===== *)
theory Locker_Invariant
  imports Locker Lock_Manager_Frame
begin

text \<open>
  The invariant of all lockers together with the lock manager: the maps of the lockers have exactly the
  requests that are on a queue of the lock manager, under the resource they claim; a locker waits for one
  resource at most; pending unlocks are counted and occur in write units of work only; and a locker that
  holds the global lock has a mode for its ticket.
\<close>

abbreviation lookup :: "LockSystem \<Rightarrow> LockerId \<Rightarrow> ResourceId \<Rightarrow> rid option" where
  "lookup s l \<equiv> fm_lookup (map_of_locker s l)"

definition maps_ok :: "LockSystem \<Rightarrow> bool" where
  "maps_ok s \<longleftrightarrow> (\<forall>l. fm_wf (map_of_locker s l)) \<and>
     (\<forall>l x. x \<in> fm_slots (map_of_locker s l) \<longrightarrow> x < sy_next s \<and>
        (\<forall>l'. x \<in> fm_slots (map_of_locker s l') \<longrightarrow> l' = l))"

text \<open>The next two exempt the requests in \<open>R\<close>, which are being changed.\<close>

definition owned_ok :: "rid set \<Rightarrow> LockSystem \<Rightarrow> bool" where
  "owned_ok R s \<longleftrightarrow>
     (\<forall>l k x. lookup s l k = Some x \<longrightarrow> x \<notin> R \<longrightarrow>
        locker (request_of s x) = l \<and> (holder (sy_lm s) k x \<or> waiter (sy_lm s) k x) \<and>
        unlockPending (request_of s x) \<le> recursiveCount (request_of s x)) \<and>
     (\<forall>x. x \<notin> R \<longrightarrow> (\<exists>k. holder (sy_lm s) k x \<or> waiter (sy_lm s) k x) \<longrightarrow> (\<exists>l k. lookup s l k = Some x)) \<and>
     (\<forall>x. x \<notin> R \<longrightarrow> (\<forall>l k. lookup s l k \<noteq> Some x) \<longrightarrow> unlockPending (request_of s x) = 0)"

definition is_blocked :: "LockSystem \<Rightarrow> rid \<Rightarrow> bool" where
  "is_blocked s x = blocked_status (status (request_of s x))"

definition waits_ok :: "rid set \<Rightarrow> LockSystem \<Rightarrow> bool" where
  "waits_ok R s \<longleftrightarrow> (\<forall>l k x. lookup s l k = Some x \<longrightarrow> x \<notin> R \<longrightarrow> is_blocked s x \<longrightarrow>
     notify_result (sy_lockers s l) = LOCK_INVALID \<and>
     (\<forall>k' y. lookup s l k' = Some y \<longrightarrow> y \<notin> R \<longrightarrow> is_blocked s y \<longrightarrow> y = x))"

definition pending_keys :: "LockSystem \<Rightarrow> LockerId \<Rightarrow> ResourceId set" where
  "pending_keys s l = {k. \<exists>x. lookup s l k = Some x \<and> unlockPending (request_of s x) \<noteq> 0}"

definition counts_ok :: "LockSystem \<Rightarrow> bool" where
  "counts_ok s \<longleftrightarrow> (\<forall>l. numResourcesToUnlockAtEndUnitOfWork (sy_lockers s l) = card (pending_keys s l) \<and>
     (wuowNestingLevel (sy_lockers s l) = 0 \<longrightarrow> pending_keys s l = {}))"

definition active_state :: "LockMode \<Rightarrow> ClientState" where
  "active_state md = (if isSharedLockMode md then kActiveReader else kActiveWriter)"

definition tickets_ok :: "LockSystem \<Rightarrow> bool" where
  "tickets_ok s \<longleftrightarrow> (\<forall>l. let k = sy_lockers s l in
     (modeForTicket k = MODE_NONE \<longleftrightarrow> lookup s l resourceIdGlobal = None) \<and>
     (clientState k = kInactive \<or> clientState k = active_state (modeForTicket k)))"

definition sy_inv :: "LockSystem \<Rightarrow> bool" where
  "sy_inv s \<longleftrightarrow> lm_inv (sy_lm s) \<and> no_temp (sy_lm s) \<and> maps_ok s \<and> owned_ok {} s \<and> waits_ok {} s \<and>
     counts_ok s \<and> tickets_ok s"

lemma sy_invD:
  assumes "sy_inv s"
  shows "lm_inv (sy_lm s)" "no_temp (sy_lm s)" "maps_ok s" "owned_ok {} s" "waits_ok {} s" "counts_ok s" "tickets_ok s"
  using assms by (simp_all add: sy_inv_def)

lemma owned_ok_mono: "owned_ok {} s \<Longrightarrow> owned_ok R s"
  unfolding owned_ok_def by simp

lemma waits_ok_mono: "waits_ok {} s \<Longrightarrow> waits_ok R s"
  unfolding waits_ok_def by simp

subsection \<open>The effect of a call of the lock manager\<close>

definition lm_effect :: "rid \<Rightarrow> LockManager \<Rightarrow> LockManager \<Rightarrow> rid list \<Rightarrow> bool" where
  "lm_effect r m m' news \<longleftrightarrow> lm_inv m' \<and> no_temp m' \<and> framed {r} (reqs m) (reqs m') \<and>
     (\<exists>res. notified m' = notified m @ map (\<lambda>x. (x, res, LOCK_OK)) news) \<and> distinct news \<and> r \<notin> set news \<and>
     (\<forall>x \<in> set news. (\<exists>k. holder m k x \<or> waiter m k x) \<and> blocked_status (status (reqs m x)) \<and>
        status (reqs m' x) = STATUS_GRANTED \<and> mode (reqs m' x) = wanted (reqs m x) \<and>
        (\<forall>k. holder m k x \<or> waiter m k x \<longrightarrow> holder m' k x)) \<and>
     (\<forall>x. x \<noteq> r \<longrightarrow> x \<notin> set news \<longrightarrow> same_claim (reqs m x) (reqs m' x) \<and>
        (\<forall>k. holder m' k x = holder m k x \<and> waiter m' k x = waiter m k x))"

lemma claim_at_head:
  assumes inv: "lm_inv m" and x: "at_head (deref m) ptr x" and k: "holder m k x \<or> waiter m k x"
  shows "ptr = ManagedHead k"
proof -
  have ok: "state_ok (reqs m) (deref m) (partition_find m)" using inv by (simp add: lm_inv_def)
  have "at_head (deref m) (ManagedHead k) x"
    using k one_place(3) [OF ok x] by (auto simp: holder_def waiter_def at_head_def)
  then show ?thesis using one_place(1) [OF ok x] by blast
qed

lemma effect_woken:
  assumes inv: "lm_inv m" "no_temp m" and m': "lm_inv m'" "no_temp m'" "framed {r} (reqs m) (reqs m')"
    and w: "woken ptr r m m' news"
  shows "lm_effect r m m' news"
proof -
  have news: "(\<exists>k. holder m k x \<or> waiter m k x) \<and> blocked_status (status (reqs m x)) \<and>
        status (reqs m' x) = STATUS_GRANTED \<and> mode (reqs m' x) = wanted (reqs m x) \<and>
        (\<forall>k. holder m k x \<or> waiter m k x \<longrightarrow> holder m' k x)" if "x \<in> set news" for x
  proof -
    have x: "at_head (deref m) ptr x" "status (reqs m' x) = STATUS_GRANTED" "mode (reqs m' x) = wanted (reqs m x)"
        "blocked_status (status (reqs m x))" "\<exists>h. deref m' ptr = Some h \<and> x \<in> set (grantedList h)"
      using w that unfolding woken_def blocked_status_def by blast+
    have "lm_attached m x" using x(1) by (auto simp: lm_attached_def attached_iff)
    then have "\<exists>k. holder m k x \<or> waiter m k x" by (rule attached_claimed [OF inv(2)])
    moreover have "holder m' k x" if "holder m k x \<or> waiter m k x" for k
      using claim_at_head [OF inv(1) x(1) that] x(5) by (auto simp: holder_def)
    ultimately show ?thesis using x by blast
  qed
  have "\<exists>res. notified m' = notified m @ map (\<lambda>x. (x, res, LOCK_OK)) news" "distinct news" "r \<notin> set news"
      "\<forall>x. x \<noteq> r \<longrightarrow> x \<notin> set news \<longrightarrow> same_claim (reqs m x) (reqs m' x) \<and>
        (\<forall>k. holder m' k x = holder m k x \<and> waiter m' k x = waiter m k x)"
    using w unfolding woken_def by blast+
  then show ?thesis unfolding lm_effect_def using m' news by blast
qed

lemma effect_kept:
  assumes "lm_inv m'" "no_temp m'" "framed {r} (reqs m) (reqs m')" "others_kept r m m'" "notified m' = notified m"
  shows "lm_effect r m m' []"
  using assms by (simp add: lm_effect_def others_kept_def)

subsection \<open>Delivering notifications\<close>

definition notify_only :: "LockSystem \<Rightarrow> LockSystem \<Rightarrow> bool" where
  "notify_only s s' \<longleftrightarrow> sy_lm s' = sy_lm s \<and> sy_tickets s' = sy_tickets s \<and> sy_next s' = sy_next s \<and>
     sy_supportsDBLocking s' = sy_supportsDBLocking s \<and>
     (\<forall>l. \<exists>n. sy_lockers s' l = (sy_lockers s l)\<lparr>notify_result := n\<rparr>)"

lemma notify_same: "\<exists>n. (k :: Locker) = k\<lparr>notify_result := n\<rparr>"
  by (rule exI [of _ "notify_result k"]) simp

lemma notify_only_refl: "notify_only s s"
  by (simp add: notify_only_def notify_same)

lemma notify_onlyD:
  assumes "notify_only s s'"
  shows "sy_lm s' = sy_lm s" "sy_tickets s' = sy_tickets s" "sy_next s' = sy_next s"
    "sy_supportsDBLocking s' = sy_supportsDBLocking s"
    "lk_requests (sy_lockers s' l) = lk_requests (sy_lockers s l)"
    "wuowNestingLevel (sy_lockers s' l) = wuowNestingLevel (sy_lockers s l)"
    "numResourcesToUnlockAtEndUnitOfWork (sy_lockers s' l) = numResourcesToUnlockAtEndUnitOfWork (sy_lockers s l)"
    "modeForTicket (sy_lockers s' l) = modeForTicket (sy_lockers s l)"
    "clientState (sy_lockers s' l) = clientState (sy_lockers s l)"
    "sharedLocksShouldTwoPhaseLock (sy_lockers s' l) = sharedLocksShouldTwoPhaseLock (sy_lockers s l)"
    "prepareModeForLockYields (sy_lockers s' l) = prepareModeForLockYields (sy_lockers s l)"
    "shouldAcquireTicket (sy_lockers s' l) = shouldAcquireTicket (sy_lockers s l)"
    "uninterruptibleLocksRequested (sy_lockers s' l) = uninterruptibleLocksRequested (sy_lockers s l)"
proof -
  obtain n where "sy_lockers s' l = (sy_lockers s l)\<lparr>notify_result := n\<rparr>" using assms by (auto simp: notify_only_def)
  then show "lk_requests (sy_lockers s' l) = lk_requests (sy_lockers s l)"
    "wuowNestingLevel (sy_lockers s' l) = wuowNestingLevel (sy_lockers s l)"
    "numResourcesToUnlockAtEndUnitOfWork (sy_lockers s' l) = numResourcesToUnlockAtEndUnitOfWork (sy_lockers s l)"
    "modeForTicket (sy_lockers s' l) = modeForTicket (sy_lockers s l)"
    "clientState (sy_lockers s' l) = clientState (sy_lockers s l)"
    "sharedLocksShouldTwoPhaseLock (sy_lockers s' l) = sharedLocksShouldTwoPhaseLock (sy_lockers s l)"
    "prepareModeForLockYields (sy_lockers s' l) = prepareModeForLockYields (sy_lockers s l)"
    "shouldAcquireTicket (sy_lockers s' l) = shouldAcquireTicket (sy_lockers s l)"
    "uninterruptibleLocksRequested (sy_lockers s' l) = uninterruptibleLocksRequested (sy_lockers s l)"
    by simp_all
qed (use assms in \<open>simp_all add: notify_only_def\<close>)

lemma notify_only_trans:
  assumes "notify_only a b" and "notify_only b c"
  shows "notify_only a c"
proof -
  have "\<exists>n. sy_lockers c l = (sy_lockers a l)\<lparr>notify_result := n\<rparr>" for l
  proof -
    obtain n n' where "sy_lockers b l = (sy_lockers a l)\<lparr>notify_result := n\<rparr>"
        "sy_lockers c l = (sy_lockers b l)\<lparr>notify_result := n'\<rparr>"
      using assms unfolding notify_only_def by blast
    then show ?thesis by auto
  qed
  then show ?thesis using assms by (simp add: notify_only_def)
qed

lemma deliver_ok:
  assumes "distinct (map (\<lambda>x. locker (request_of s x)) news)"
    and "\<And>x. x \<in> set news \<Longrightarrow> notify_result (sy_lockers s (locker (request_of s x))) = LOCK_INVALID"
  shows "\<exists>s'. deliver (map (\<lambda>x. (x, res, LOCK_OK)) news) s = Some s' \<and> notify_only s s' \<and>
    (\<forall>l. l \<notin> (\<lambda>x. locker (request_of s x)) ` set news \<longrightarrow> sy_lockers s' l = sy_lockers s l)"
  using assms
proof (induction news arbitrary: s)
  case Nil
  then show ?case by (simp add: notify_only_refl)
next
  case (Cons x news)
  let ?l = "locker (request_of s x)"
  let ?s = "upd_locker s ?l (\<lambda>k. k\<lparr>notify_result := LOCK_OK\<rparr>)"
  have step: "cv_notify s ?l LOCK_OK = Some ?s" using Cons.prems(2) [of x] by (simp add: cv_notify_def)
  have lm: "sy_lm ?s = sy_lm s" by (simp add: upd_locker_def)
  have only: "notify_only s ?s"
    unfolding notify_only_def upd_locker_def by (auto simp: notify_same)
  have "notify_result (sy_lockers ?s (locker (request_of ?s y))) = LOCK_INVALID" if "y \<in> set news" for y
  proof -
    have "?l \<notin> (\<lambda>x. locker (request_of s x)) ` set news" using Cons.prems(1) by simp
    then have "locker (request_of s y) \<noteq> ?l" using that by (metis imageI)
    then show ?thesis using Cons.prems(2) [of y] that by (simp add: upd_locker_def)
  qed
  moreover have "distinct (map (\<lambda>x. locker (request_of ?s x)) news)" using Cons.prems(1) lm by simp
  ultimately obtain s' where s': "deliver (map (\<lambda>x. (x, res, LOCK_OK)) news) ?s = Some s'" "notify_only ?s s'"
      "\<forall>l. l \<notin> (\<lambda>x. locker (request_of ?s x)) ` set news \<longrightarrow> sy_lockers s' l = sy_lockers ?s l"
    using Cons.IH [of ?s] by blast
  have "sy_lockers s' l = sy_lockers s l" if "l \<notin> (\<lambda>x. locker (request_of s x)) ` set (x # news)" for l
    using s'(3) that lm by (simp add: upd_locker_def)
  then show ?case using s'(1) notify_only_trans [OF only s'(2)] step by auto
qed

text \<open>
  A call of the lock manager on request \<open>r\<close>: its notifications can be delivered, and everything that the
  invariant says of the other requests is kept. A locker that has no other blocked request is not notified.
\<close>

lemma with_lm_ok:
  assumes own: "owned_ok {r} s" and wt: "waits_ok {r} s" and eff: "lm_effect r (sy_lm s) m' news"
  shows "\<exists>s'. with_lm s m' = Some s' \<and> notify_only (s\<lparr>sy_lm := m'\<rparr>) s' \<and> owned_ok {r} s' \<and> waits_ok {r} s' \<and>
    (\<forall>l. (\<forall>k x. lookup s l k = Some x \<longrightarrow> x \<noteq> r \<longrightarrow> \<not> is_blocked s x) \<longrightarrow> sy_lockers s' l = sy_lockers s l)"
proof -
  let ?m = "sy_lm s" and ?s = "s\<lparr>sy_lm := m'\<rparr>"
  obtain res where ns: "notified m' = notified ?m @ map (\<lambda>x. (x, res, LOCK_OK)) news" and d: "distinct news"
    and r: "r \<notin> set news" and fr: "framed {r} (reqs ?m) (reqs m')"
    using eff by (auto simp: lm_effect_def)
  have lk: "locker (reqs m' x) = locker (reqs ?m x)" "unlockPending (reqs m' x) = unlockPending (reqs ?m x)" for x
    using fr by (simp_all add: framed_def)
  have rc: "recursiveCount (reqs m' x) = recursiveCount (reqs ?m x)" if "x \<noteq> r" for x
    using fr that by (simp add: framed_def)
  have new: "x \<noteq> r \<and> is_blocked s x \<and> (\<exists>k. lookup s (locker (reqs ?m x)) k = Some x)" if "x \<in> set news" for x
  proof -
    have "x \<noteq> r" using that r by blast
    moreover have "is_blocked s x" "\<exists>k. holder ?m k x \<or> waiter ?m k x"
      using eff that unfolding lm_effect_def is_blocked_def by blast+
    moreover obtain l k where "lookup s l k = Some x"
      using own calculation unfolding owned_ok_def by blast
    moreover from this have "locker (reqs ?m x) = l" using own \<open>x \<noteq> r\<close> unfolding owned_ok_def by blast
    ultimately show ?thesis by blast
  qed
  have inj: "x = y" if xy: "x \<in> set news" "y \<in> set news" "locker (reqs ?m x) = locker (reqs ?m y)" for x y
  proof -
    obtain k k' where "lookup s (locker (reqs ?m y)) k = Some y" "lookup s (locker (reqs ?m y)) k' = Some x"
      using new [OF xy(1)] new [OF xy(2)] xy(3) by auto
    with wt new [OF xy(1)] new [OF xy(2)] show ?thesis unfolding waits_ok_def by blast
  qed
  have dist: "distinct (map (\<lambda>x. locker (request_of ?s x)) news)"
    using d inj lk(1) by (auto simp: distinct_map inj_on_def)
  have inval: "notify_result (sy_lockers ?s (locker (request_of ?s x))) = LOCK_INVALID" if "x \<in> set news" for x
    using new [OF that] wt lk(1) unfolding waits_ok_def by (auto simp: is_blocked_def)
  obtain s' where s': "deliver (map (\<lambda>x. (x, res, LOCK_OK)) news) ?s = Some s'" "notify_only ?s s'"
      "\<forall>l. l \<notin> (\<lambda>x. locker (request_of ?s x)) ` set news \<longrightarrow> sy_lockers s' l = sy_lockers ?s l"
    using deliver_ok [OF dist inval] by blast
  have run: "with_lm s m' = Some s'" using s'(1) ns by (simp add: with_lm_def)
  have lm: "sy_lm s' = m'" using notify_onlyD(1) [OF s'(2)] by simp
  have look: "lookup s' l = lookup s l" for l using notify_onlyD(5) [OF s'(2), of l] by simp
  have claim: "holder m' k x \<or> waiter m' k x \<longleftrightarrow> holder ?m k x \<or> waiter ?m k x" if "x \<noteq> r" "x \<notin> set news" for x k
    using eff that unfolding lm_effect_def by blast
  have stat: "status (reqs m' x) = status (reqs ?m x)" if "x \<noteq> r" "x \<notin> set news" for x
    using eff that unfolding lm_effect_def same_claim_def by blast
  have granted: "status (reqs m' x) = STATUS_GRANTED" "\<exists>k. holder ?m k x \<or> waiter ?m k x"
      "holder ?m k x \<or> waiter ?m k x \<Longrightarrow> holder m' k x" if "x \<in> set news" for x k
    using eff that unfolding lm_effect_def by blast+
  have still: "x \<notin> set news \<and> is_blocked s x" if "x \<noteq> r" "is_blocked s' x" for x
  proof -
    have "x \<notin> set news" using granted(1) [of x] that(2) by (auto simp: is_blocked_def lm blocked_status_def)
    then show ?thesis using stat [OF that(1)] that(2) by (simp add: is_blocked_def lm)
  qed
  have "owned_ok {r} s'"
    unfolding owned_ok_def
  proof (intro conjI allI impI)
    fix l k x assume x: "lookup s' l k = Some x" "x \<notin> {r}"
    then have o: "locker (reqs ?m x) = l" "holder ?m k x \<or> waiter ?m k x"
        "unlockPending (reqs ?m x) \<le> recursiveCount (reqs ?m x)"
      using own look unfolding owned_ok_def by auto
    show "locker (request_of s' x) = l" using o(1) lk(1) lm by simp
    show "holder (sy_lm s') k x \<or> waiter (sy_lm s') k x"
      using o(2) claim [of x k] granted(3) [of x k] x(2) unfolding lm by blast
    show "unlockPending (request_of s' x) \<le> recursiveCount (request_of s' x)"
      using o(3) lk(2) rc x(2) lm by simp
  next
    fix x assume x: "x \<notin> {r}" "\<exists>k. holder (sy_lm s') k x \<or> waiter (sy_lm s') k x"
    then have "\<exists>k. holder ?m k x \<or> waiter ?m k x" using claim granted(2) unfolding lm by blast
    then show "\<exists>l k. lookup s' l k = Some x" using own x(1) unfolding owned_ok_def look by blast
  next
    fix x assume x: "x \<notin> {r}" "\<forall>l k. lookup s' l k \<noteq> Some x"
    then show "unlockPending (request_of s' x) = 0" using own lk(2) unfolding owned_ok_def look lm by simp
  qed
  moreover have "waits_ok {r} s'"
    unfolding waits_ok_def
  proof (intro allI impI conjI)
    fix l k x assume x: "lookup s' l k = Some x" "x \<notin> {r}" "is_blocked s' x"
    then have old: "x \<notin> set news" "is_blocked s x" using still by simp_all
    then have w: "notify_result (sy_lockers s l) = LOCK_INVALID"
        "\<forall>k' y. lookup s l k' = Some y \<longrightarrow> y \<notin> {r} \<longrightarrow> is_blocked s y \<longrightarrow> y = x"
      using wt x unfolding waits_ok_def look by blast+
    have "l \<notin> (\<lambda>x. locker (request_of ?s x)) ` set news"
    proof
      assume "l \<in> (\<lambda>x. locker (request_of ?s x)) ` set news"
      then obtain y where y: "y \<in> set news" "locker (reqs ?m y) = l" using lk(1) by auto
      with new [OF y(1)] w(2) old(1) show False by auto
    qed
    then show "notify_result (sy_lockers s' l) = LOCK_INVALID" using s'(3) w(1) by simp
    fix k' y assume y: "lookup s' l k' = Some y" "y \<notin> {r}" "is_blocked s' y"
    then have "y \<notin> set news" "is_blocked s y" using still by simp_all
    then show "y = x" using w(2) y look by simp
  qed
  moreover have "sy_lockers s' l = sy_lockers s l"
    if free: "\<forall>k x. lookup s l k = Some x \<longrightarrow> x \<noteq> r \<longrightarrow> \<not> is_blocked s x" for l
  proof -
    have "l \<notin> (\<lambda>x. locker (request_of ?s x)) ` set news"
    proof
      assume "l \<in> (\<lambda>x. locker (request_of ?s x)) ` set news"
      then obtain y where y: "y \<in> set news" "locker (reqs ?m y) = l" using lk(1) by auto
      with new [OF y(1)] free show False by auto
    qed
    then show ?thesis using s'(3) by simp
  qed
  ultimately show ?thesis using run s'(2) by blast
qed

end
