(* ===== verification/Locker_Steps.thy ===== *)
theory Locker_Steps
  imports Locker_Invariant
begin

text \<open>
  The operations of a locker keep the invariant and fail no check of the code, as long as the caller
  keeps the contract: release first, then acquisition.
\<close>

subsection \<open>Closing an exemption\<close>

definition sy_core :: "LockSystem \<Rightarrow> bool" where
  "sy_core s \<longleftrightarrow> lm_inv (sy_lm s) \<and> no_temp (sy_lm s) \<and> maps_ok s \<and> owned_ok {} s \<and> waits_ok {} s \<and> tickets_ok s"

lemma sy_inv_core: "sy_inv s \<longleftrightarrow> sy_core s \<and> counts_ok s"
  by (auto simp: sy_inv_def sy_core_def)

lemma sy_coreD:
  assumes "sy_core s"
  shows "lm_inv (sy_lm s)" "no_temp (sy_lm s)" "maps_ok s" "owned_ok {} s" "waits_ok {} s" "tickets_ok s"
  using assms by (simp_all add: sy_core_def)

lemma lookup_unique:
  assumes "maps_ok s" and "lookup s l k = Some x" and "lookup s l' k' = Some x"
  shows "l' = l" and "k' = k"
proof -
  have wf: "fm_wf (map_of_locker s l)" "fm_wf (map_of_locker s l')" using assms(1) by (simp_all add: maps_ok_def)
  show l: "l' = l"
    using fm.lookup_slot [OF wf(1) assms(2)] fm.lookup_slot [OF wf(2) assms(3)] assms(1) unfolding maps_ok_def by blast
  show "k' = k" using fm.lookup_inj [OF wf(1) assms(2)] assms(3) l by blast
qed

lemma owned_close:
  assumes "owned_ok {x} s"
    and "\<And>l k. lookup s l k = Some x \<Longrightarrow> locker (request_of s x) = l \<and> (holder (sy_lm s) k x \<or> waiter (sy_lm s) k x) \<and>
      unlockPending (request_of s x) \<le> recursiveCount (request_of s x)"
    and "\<And>k. holder (sy_lm s) k x \<or> waiter (sy_lm s) k x \<Longrightarrow> \<exists>l k. lookup s l k = Some x"
    and "(\<And>l k. lookup s l k \<noteq> Some x) \<Longrightarrow> unlockPending (request_of s x) = 0"
  shows "owned_ok {} s"
  unfolding owned_ok_def
proof (intro conjI allI impI)
  fix l k y assume y: "lookup s l k = Some y"
  have "locker (request_of s y) = l \<and> (holder (sy_lm s) k y \<or> waiter (sy_lm s) k y) \<and>
      unlockPending (request_of s y) \<le> recursiveCount (request_of s y)"
    using assms(1) assms(2) y unfolding owned_ok_def by (cases "y = x") auto
  then show "locker (request_of s y) = l" "holder (sy_lm s) k y \<or> waiter (sy_lm s) k y"
      "unlockPending (request_of s y) \<le> recursiveCount (request_of s y)" by blast+
next
  fix y assume "\<exists>k. holder (sy_lm s) k y \<or> waiter (sy_lm s) k y"
  then show "\<exists>l k. lookup s l k = Some y"
    using assms(1) assms(3) unfolding owned_ok_def by (cases "y = x") auto
next
  fix y assume "\<forall>l k. lookup s l k \<noteq> Some y"
  then show "unlockPending (request_of s y) = 0"
    using assms(1) assms(4) unfolding owned_ok_def by (cases "y = x") auto
qed

lemma waits_close:
  assumes "waits_ok {x} s" and "\<And>l k. lookup s l k = Some x \<Longrightarrow> is_blocked s x \<Longrightarrow>
      notify_result (sy_lockers s l) = LOCK_INVALID \<and>
      (\<forall>k' y. lookup s l k' = Some y \<longrightarrow> y \<noteq> x \<longrightarrow> \<not> is_blocked s y)"
  shows "waits_ok {} s"
  unfolding waits_ok_def
proof (intro allI impI)
  fix l k y assume y: "lookup s l k = Some y" "y \<notin> {}" "is_blocked s y"
  show "notify_result (sy_lockers s l) = LOCK_INVALID \<and>
      (\<forall>k' z. lookup s l k' = Some z \<longrightarrow> z \<notin> {} \<longrightarrow> is_blocked s z \<longrightarrow> z = y)"
  proof (cases "y = x")
    case True
    then show ?thesis using assms(2) [of l k] y by auto
  next
    case False
    then have old: "notify_result (sy_lockers s l) = LOCK_INVALID"
        "\<forall>k' z. lookup s l k' = Some z \<longrightarrow> z \<noteq> x \<longrightarrow> is_blocked s z \<longrightarrow> z = y"
      using assms(1) y unfolding waits_ok_def by blast+
    have "\<not> (lookup s l k' = Some x \<and> is_blocked s x)" for k' using assms(2) [of l k'] False y by blast
    then show ?thesis using old by blast
  qed
qed

subsection \<open>Tickets and fields\<close>

lemma upd_locker_sel [simp]:
  "sy_lm (upd_locker s l f) = sy_lm s" "sy_next (upd_locker s l f) = sy_next s"
  "sy_supportsDBLocking (upd_locker s l f) = sy_supportsDBLocking s" "sy_tickets (upd_locker s l f) = sy_tickets s"
  "sy_lockers (upd_locker s l f) = (sy_lockers s)(l := f (sy_lockers s l))"
  by (simp_all add: upd_locker_def)

lemma upd_tickets_sel [simp]:
  "sy_lm (upd_tickets s t f) = sy_lm s" "sy_next (upd_tickets s t f) = sy_next s"
  "sy_supportsDBLocking (upd_tickets s t f) = sy_supportsDBLocking s" "sy_lockers (upd_tickets s t f) = sy_lockers s"
  by (simp_all add: upd_tickets_def)

lemma upd_request_sel [simp]:
  "sy_lm (upd_request s x f) = upd_req (sy_lm s) x f" "sy_next (upd_request s x f) = sy_next s"
  "sy_supportsDBLocking (upd_request s x f) = sy_supportsDBLocking s" "sy_lockers (upd_request s x f) = sy_lockers s"
  "sy_tickets (upd_request s x f) = sy_tickets s"
  by (simp_all add: upd_request_def)

lemma releaseTicket_impl_sel [simp]:
  "sy_lm (releaseTicket_impl s l) = sy_lm s" "sy_next (releaseTicket_impl s l) = sy_next s"
  "sy_supportsDBLocking (releaseTicket_impl s l) = sy_supportsDBLocking s"
  "sy_lockers (releaseTicket_impl s l) = (sy_lockers s)(l := (sy_lockers s l)\<lparr>clientState := kInactive\<rparr>)"
  by (simp_all add: releaseTicket_impl_def split: option.splits)

lemma drop_global_ok:
  assumes "modeForTicket (sy_lockers s l) \<noteq> MODE_NONE"
  shows "\<exists>s'. drop_global s l = Some s' \<and> sy_lm s' = sy_lm s \<and> sy_next s' = sy_next s \<and>
    sy_supportsDBLocking s' = sy_supportsDBLocking s \<and>
    sy_lockers s' = (sy_lockers s)(l := (sy_lockers s l)\<lparr>clientState := kInactive, modeForTicket := MODE_NONE\<rparr>)"
proof (cases "clientState (sy_lockers s l) = kInactive")
  case True
  then have eq: "(sy_lockers s l)\<lparr>modeForTicket := MODE_NONE\<rparr> = (sy_lockers s l)\<lparr>clientState := kInactive, modeForTicket := MODE_NONE\<rparr>"
    by (cases "sy_lockers s l") simp
  show ?thesis using assms True by (simp add: drop_global_def) (subst eq, rule refl)
qed (use assms in \<open>simp add: drop_global_def\<close>)

subsection \<open>Release\<close>

definition same_fields :: "Locker \<Rightarrow> Locker \<Rightarrow> bool" where
  "same_fields k k' \<longleftrightarrow> wuowNestingLevel k' = wuowNestingLevel k \<and>
     numResourcesToUnlockAtEndUnitOfWork k' = numResourcesToUnlockAtEndUnitOfWork k \<and>
     sharedLocksShouldTwoPhaseLock k' = sharedLocksShouldTwoPhaseLock k \<and>
     prepareModeForLockYields k' = prepareModeForLockYields k \<and>
     uninterruptibleLocksRequested k' = uninterruptibleLocksRequested k"

lemma same_fields_refl [simp]: "same_fields k k" by (simp add: same_fields_def)

lemma same_fields_trans: "same_fields a b \<Longrightarrow> same_fields b c \<Longrightarrow> same_fields a c" by (simp add: same_fields_def)

lemma notify_only_fields: "notify_only s s' \<Longrightarrow> same_fields (sy_lockers s l) (sy_lockers s' l)"
  by (simp add: same_fields_def notify_onlyD)

text \<open>What one reference to the lock on \<open>k\<close>, dropped by locker \<open>l\<close>, changes.\<close>

definition drops :: "LockerId \<Rightarrow> ResourceId \<Rightarrow> rid \<Rightarrow> nat \<Rightarrow> bool \<Rightarrow> LockSystem \<Rightarrow> LockSystem \<Rightarrow> bool" where
  "drops l k x i b s s' \<longleftrightarrow> (\<exists>news. lm_effect x (sy_lm s) (sy_lm s') news) \<and>
     unlock_outcome (sy_lm s) (sy_lm s') x b \<and>
     (\<forall>l'. l' \<noteq> l \<longrightarrow> lookup s' l' = lookup s l') \<and>
     lookup s' l = (if b then (lookup s l)(k := None) else lookup s l) \<and>
     length (fastAccess (map_of_locker s' l)) = length (fastAccess (map_of_locker s l)) \<and>
     (\<forall>j k' y. entry_at (map_of_locker s' l) j k' y \<longleftrightarrow> entry_at (map_of_locker s l) j k' y \<and> (b \<longrightarrow> j \<noteq> i)) \<and>
     (\<forall>l'. same_fields (sy_lockers s l') (sy_lockers s' l'))"

lemma tickets_ok_cong:
  assumes "tickets_ok s" and "\<And>l. modeForTicket (sy_lockers s' l) = modeForTicket (sy_lockers s l)"
    and "\<And>l. clientState (sy_lockers s' l) = clientState (sy_lockers s l)"
    and "\<And>l. lookup s' l resourceIdGlobal = lookup s l resourceIdGlobal"
  shows "tickets_ok s'"
  using assms by (simp add: tickets_ok_def Let_def)

lemma unlock_kept_ok:
  assumes core: "sy_core s" and x: "lookup s l k = Some x"
    and p: "unlockPending (request_of s x) < recursiveCount (request_of s x)"
    and out: "lm_unlock (sy_lm s) x = Some (False, m')" "unlock_outcome (sy_lm s) m' x False"
      "lm_effect x (sy_lm s) m' news"
    and s': "notify_only (s\<lparr>sy_lm := m'\<rparr>) s'" "owned_ok {x} s'" "waits_ok {x} s'"
  shows "sy_core s'"
proof -
  note c = sy_coreD [OF core]
  have lm: "sy_lm s' = m'" using notify_onlyD(1) [OF s'(1)] by simp
  have look: "lookup s' l' = lookup s l'" for l' using notify_onlyD(5) [OF s'(1), of l'] by simp
  have own: "locker (request_of s x) = l" "holder (sy_lm s) k x \<or> waiter (sy_lm s) k x"
    using c(4) x unfolding owned_ok_def by blast+
  have rc: "recursiveCount (request_of s x) \<noteq> 1" using out(2) by (simp add: unlock_outcome_def)
  have h: "holder (sy_lm s) k x"
  proof (rule ccontr)
    assume "\<not> holder (sy_lm s) k x"
    then obtain h where "deref (sy_lm s) (ManagedHead k) = Some h" "x \<in> set (conflictList h)"
      using own(2) by (auto simp: waiter_def)
    then have "recursiveCount (request_of s x) = 1"
      using lm_inv_head [OF c(1)] by (fastforce simp: head_at_def head_inv_def head_ok_def waiting_ok_def slot_ok_def)
    then show False using rc by blast
  qed
  have hold: "holder m' k x" by (rule unlock_keeps_place [OF c(1) h out(1)])
  have fr: "locker (reqs m' x) = l" "unlockPending (reqs m' x) = unlockPending (request_of s x)"
    using out(3) own(1) by (simp_all add: lm_effect_def framed_def)
  have st: "status (reqs m' x) = STATUS_GRANTED" "recursiveCount (reqs m' x) = recursiveCount (request_of s x) - 1"
    using out(2) by (simp_all add: unlock_outcome_def)
  have "owned_ok {} s'"
  proof (rule owned_close [OF s'(2)])
    fix l' k' assume "lookup s' l' k' = Some x"
    then have "l' = l" "k' = k" using lookup_unique [OF c(3) x] look by simp_all
    then show "locker (request_of s' x) = l' \<and> (holder (sy_lm s') k' x \<or> waiter (sy_lm s') k' x) \<and>
        unlockPending (request_of s' x) \<le> recursiveCount (request_of s' x)"
      using fr hold st(2) p by (simp add: lm)
  qed (use x look in auto)
  moreover have "waits_ok {} s'"
    by (rule waits_close [OF s'(3)]) (use st(1) in \<open>simp add: is_blocked_def lm blocked_status_def\<close>)
  moreover have "maps_ok s'"
    using c(3) notify_onlyD(3) [OF s'(1)] notify_onlyD(5) [OF s'(1)] by (simp add: maps_ok_def)
  moreover have "tickets_ok s'"
    by (rule tickets_ok_cong [OF c(6)]) (simp_all add: notify_onlyD [OF s'(1)])
  moreover have "lm_inv m'" "no_temp m'" using out(3) by (simp_all add: lm_effect_def)
  ultimately show ?thesis by (simp add: sy_core_def lm)
qed

lemma unlock_gone_ok:
  assumes core: "sy_core s" and e: "entry_at (map_of_locker s l) i k x" and p: "unlockPending (request_of s x) = 0"
    and out: "unlock_outcome (sy_lm s) m' x True" "lm_effect x (sy_lm s) m' news"
    and s1: "notify_only (s\<lparr>sy_lm := m'\<rparr>) s1" "owned_ok {x} s1" "waits_ok {x} s1"
    and s2: "sy_lm s2 = m'" "sy_next s2 = sy_next s1"
      "sy_lockers s2 = (if k = resourceIdGlobal
         then (sy_lockers s1)(l := (sy_lockers s1 l)\<lparr>clientState := kInactive, modeForTicket := MODE_NONE\<rparr>)
         else sy_lockers s1)"
    and rs: "fm_wf rs" "fm_lookup rs = (lookup s l)(k := None)" "fm_slots rs = fm_slots (map_of_locker s l)"
  shows "sy_core (upd_locker s2 l (\<lambda>q. q\<lparr>lk_requests := rs\<rparr>))"
proof -
  let ?s = "upd_locker s2 l (\<lambda>q. q\<lparr>lk_requests := rs\<rparr>)"
  note c = sy_coreD [OF core]
  have wf: "fm_wf (map_of_locker s l)" using c(3) by (simp add: maps_ok_def)
  have x: "lookup s l k = Some x" using e fm_lookup_iff [OF wf] by blast
  have lm1: "sy_lm s1 = m'" using notify_onlyD(1) [OF s1(1)] by simp
  have map1: "map_of_locker s1 l' = map_of_locker s l'" for l' using notify_onlyD(5) [OF s1(1), of l'] by simp
  have maps: "map_of_locker ?s l' = (if l' = l then rs else map_of_locker s l')" for l'
    using map1 s2(3) by simp
  have note2: "notify_result (sy_lockers ?s l') = notify_result (sy_lockers s1 l')" for l' using s2(3) by simp
  have look: "lookup ?s l' k' = Some y \<longleftrightarrow> lookup s l' k' = Some y \<and> \<not> (l' = l \<and> k' = k)" for l' k' y
    unfolding maps using rs(2) by simp
  have gone: "lookup ?s l' k' \<noteq> Some x" for l' k' unfolding look using lookup_unique [OF c(3) x] by blast
  have free: "\<not> (holder m' k' x \<or> waiter m' k' x)" for k'
    using out(1) lm_attached_holder by (auto simp: unlock_outcome_def)
  have "owned_ok {} ?s"
  proof (rule owned_close)
    show "owned_ok {x} ?s"
      unfolding owned_ok_def
    proof (intro conjI allI impI)
      fix l' k' y assume y: "lookup ?s l' k' = Some y" "y \<notin> {x}"
      then have "lookup s1 l' k' = Some y" unfolding look map1 by blast
      then have "locker (request_of s1 y) = l' \<and> (holder (sy_lm s1) k' y \<or> waiter (sy_lm s1) k' y) \<and>
          unlockPending (request_of s1 y) \<le> recursiveCount (request_of s1 y)"
        using s1(2) y(2) unfolding owned_ok_def by blast
      then show "locker (request_of ?s y) = l'" "holder (sy_lm ?s) k' y \<or> waiter (sy_lm ?s) k' y"
          "unlockPending (request_of ?s y) \<le> recursiveCount (request_of ?s y)"
        using lm1 s2(1) by simp_all
    next
      fix y assume y: "y \<notin> {x}" "\<exists>k. holder (sy_lm ?s) k y \<or> waiter (sy_lm ?s) k y"
      then obtain l' k' where "lookup s l' k' = Some y"
        using s1(2) lm1 s2(1) unfolding owned_ok_def map1 by auto
      then have "lookup ?s l' k' = Some y" unfolding look using x y(1) by auto
      then show "\<exists>l k. lookup ?s l k = Some y" by blast
    next
      fix y assume y: "y \<notin> {x}" "\<forall>l k. lookup ?s l k \<noteq> Some y"
      then have "\<forall>l k. lookup s1 l k \<noteq> Some y" unfolding look map1 using x by auto
      then show "unlockPending (request_of ?s y) = 0" using s1(2) y(1) lm1 s2(1) unfolding owned_ok_def by simp
    qed
    show "\<exists>l k. lookup ?s l k = Some x" if "holder (sy_lm ?s) k' x \<or> waiter (sy_lm ?s) k' x" for k'
      using free that s2(1) by simp
    show "unlockPending (request_of ?s x) = 0"
      using out(2) p s2(1) by (simp add: lm_effect_def framed_def)
  qed (use gone in blast)
  moreover have "waits_ok {} ?s"
  proof (rule waits_close)
    show "waits_ok {x} ?s"
      using s1(3) look note2 lm1 s2(1) unfolding waits_ok_def map1 is_blocked_def by auto
  qed (use gone in blast)
  moreover have "maps_ok ?s"
    using c(3) rs(1,3) s2(2) notify_onlyD(3) [OF s1(1)] unfolding maps_ok_def maps by (auto split: if_splits)
  moreover have "tickets_ok ?s"
    unfolding tickets_ok_def Let_def
  proof (intro allI)
    fix l'
    have "(modeForTicket (sy_lockers s l') = MODE_NONE \<longleftrightarrow> lookup s l' resourceIdGlobal = None) \<and>
        (clientState (sy_lockers s l') = kInactive \<or> clientState (sy_lockers s l') = active_state (modeForTicket (sy_lockers s l')))"
      using c(6) by (simp add: tickets_ok_def Let_def)
    then show "(modeForTicket (sy_lockers ?s l') = MODE_NONE \<longleftrightarrow> lookup ?s l' resourceIdGlobal = None) \<and>
        (clientState (sy_lockers ?s l') = kInactive \<or> clientState (sy_lockers ?s l') = active_state (modeForTicket (sy_lockers ?s l')))"
      using s2(3) rs(2) notify_onlyD(8) [OF s1(1), of l'] notify_onlyD(9) [OF s1(1), of l'] map1 [of l']
      by (cases "l' = l"; cases "k = resourceIdGlobal") simp_all
  qed
  moreover have "lm_inv m'" "no_temp m'" using out(2) by (simp_all add: lm_effect_def)
  ultimately show ?thesis by (simp add: sy_core_def s2(1))
qed

lemma unlockImpl_ok:
  assumes core: "sy_core s" and e: "entry_at (map_of_locker s l) i k x"
    and p: "unlockPending (request_of s x) < recursiveCount (request_of s x)"
  shows "\<exists>b s'. unlockImpl s l i = Some (b, s') \<and> sy_core s' \<and> drops l k x i b s s'"
proof -
  note c = sy_coreD [OF core]
  have wf: "fm_wf (map_of_locker s l)" using c(3) by (simp add: maps_ok_def)
  have x: "lookup s l k = Some x" using e fm_lookup_iff [OF wf] by blast
  have addr: "it_objAddr (map_of_locker s l) i = Some x" "it_key (map_of_locker s l) i = Some k"
    using e by (simp_all add: it_objAddr_def it_key_def it_finished_def entry_at_def)
  have "lm_attached (sy_lm s) x" using c(4) x lm_attached_holder unfolding owned_ok_def by blast
  then obtain b m' ptr news where run: "lm_unlock (sy_lm s) x = Some (b, m')" and inv': "lm_inv m'"
    and out: "unlock_outcome (sy_lm s) m' x b" and w: "woken ptr x (sy_lm s) m' news"
    using unlock_run [OF c(1)] by blast
  have eff: "lm_effect x (sy_lm s) m' news"
    by (rule effect_woken [OF c(1,2) inv' no_temp_unlock [OF c(2) run] framed_unlock [OF run] w])
  obtain s1 where s1: "with_lm s m' = Some s1" "notify_only (s\<lparr>sy_lm := m'\<rparr>) s1" "owned_ok {x} s1" "waits_ok {x} s1"
    using with_lm_ok [OF owned_ok_mono [OF c(4)] waits_ok_mono [OF c(5)] eff] by blast
  have lm1: "sy_lm s1 = m'" using notify_onlyD(1) [OF s1(2)] by simp
  have map1: "map_of_locker s1 l' = map_of_locker s l'" for l' using notify_onlyD(5) [OF s1(2), of l'] by simp
  have f1: "same_fields (sy_lockers s l') (sy_lockers s1 l')" for l' using notify_only_fields [OF s1(2), of l'] by simp
  show ?thesis
  proof (cases b)
    case False
    have "unlockImpl s l i = Some (False, s1)"
      using addr(1) run s1(1) False by (simp add: unlockImpl_def)
    moreover have "sy_core s1"
      using unlock_kept_ok [OF core x p _ _ eff s1(2,3,4)] run out False by simp
    moreover have "drops l k x i False s s1"
      unfolding drops_def lm1 map1 using eff out f1 False by auto
    ultimately show ?thesis by blast
  next
    case True
    then have rc: "recursiveCount (request_of s x) = 1" using out by (simp add: unlock_outcome_def)
    then have p0: "unlockPending (request_of s x) = 0" using p by simp
    have mode: "k = resourceIdGlobal \<Longrightarrow> modeForTicket (sy_lockers s1 l) \<noteq> MODE_NONE"
      using c(6) x notify_onlyD(8) [OF s1(2), of l] by (auto simp: tickets_ok_def Let_def)
    have "\<exists>s2. (if k = resourceIdGlobal then drop_global s1 l else Some s1) = Some s2 \<and> sy_lm s2 = m' \<and>
        sy_next s2 = sy_next s1 \<and> sy_lockers s2 = (if k = resourceIdGlobal
          then (sy_lockers s1)(l := (sy_lockers s1 l)\<lparr>clientState := kInactive, modeForTicket := MODE_NONE\<rparr>)
          else sy_lockers s1)"
      using drop_global_ok [OF mode] lm1 by (cases "k = resourceIdGlobal") auto
    then obtain s2 where s2: "(if k = resourceIdGlobal then drop_global s1 l else Some s1) = Some s2" "sy_lm s2 = m'"
        "sy_next s2 = sy_next s1" "sy_lockers s2 = (if k = resourceIdGlobal
          then (sy_lockers s1)(l := (sy_lockers s1 l)\<lparr>clientState := kInactive, modeForTicket := MODE_NONE\<rparr>)
          else sy_lockers s1)" by blast
    have map2: "map_of_locker s2 l' = map_of_locker s l'" for l' using s2(4) map1 by simp
    obtain it rs where rs: "it_remove (map_of_locker s l) i = Some (it, rs)" "fm_wf rs"
        "fm_lookup rs = (lookup s l)(k := None)" "fm_slots rs = fm_slots (map_of_locker s l)"
        "length (fastAccess rs) = length (fastAccess (map_of_locker s l))"
        "\<forall>j k' y. entry_at rs j k' y \<longleftrightarrow> entry_at (map_of_locker s l) j k' y \<and> j \<noteq> i"
      using it_remove_at [OF wf e] by blast
    let ?s = "upd_locker s2 l (\<lambda>q. q\<lparr>lk_requests := rs\<rparr>)"
    have "unlockImpl s l i = Some (True, ?s)"
      using addr run s1(1) s2(1) rs(1) map1 [of l] map2 [of l] True by (simp add: unlockImpl_def)
    moreover have "sy_core ?s"
      using unlock_gone_ok [OF core e p0 _ eff s1(2,3,4) s2(2,3,4) rs(2,3,4)] out True by simp
    moreover have "drops l k x i True s ?s"
    proof -
      have "same_fields (sy_lockers s l') (sy_lockers ?s l')" for l'
        using f1 [of l'] s2(4) by (auto simp: same_fields_def)
      then show ?thesis unfolding drops_def using eff out True rs(3,5,6) map2 s2(2) by auto
    qed
    ultimately show ?thesis by blast
  qed
qed

text \<open>Dropping a reference leaves the pending unlocks alone.\<close>

lemma drops_pending:
  assumes d: "drops l k x i b s s'" and maps: "maps_ok s" and x: "lookup s l k = Some x"
    and p: "b \<Longrightarrow> unlockPending (request_of s x) = 0"
  shows "pending_keys s' l' = pending_keys s l'"
proof -
  have u: "unlockPending (request_of s' y) = unlockPending (request_of s y)" for y
    using d by (auto simp: drops_def lm_effect_def framed_def)
  show ?thesis
    using d p x unfolding pending_keys_def drops_def u by (cases "l' = l"; cases b) auto
qed

lemma pending_finite: "finite (pending_keys s l)"
proof -
  have "pending_keys s l \<subseteq> entry_key ` set (fastAccess (map_of_locker s l))"
  proof
    fix k assume "k \<in> pending_keys s l"
    then have "it_find (map_of_locker s l) k \<noteq> length (fastAccess (map_of_locker s l))"
      by (auto simp: pending_keys_def fm_lookup_def it_objAddr_def it_finished_def abort_simps)
    from it_find_Some [OF this] show "k \<in> entry_key ` set (fastAccess (map_of_locker s l))"
      unfolding entry_at_def by (metis image_eqI nth_mem)
  qed
  then show ?thesis by (rule finite_subset) simp
qed

lemma drops_counts:
  assumes "sy_core s" and "counts_ok s" and "drops l k x i b s s'" and "lookup s l k = Some x"
    and "unlockPending (request_of s x) < recursiveCount (request_of s x)"
  shows "counts_ok s'"
proof -
  have "b \<Longrightarrow> unlockPending (request_of s x) = 0" using assms(3,5) by (auto simp: drops_def unlock_outcome_def)
  from drops_pending [OF assms(3) sy_coreD(3) [OF assms(1)] assms(4) this]
  have "pending_keys s' l' = pending_keys s l'" for l' .
  then show ?thesis using assms(2,3) by (auto simp: counts_ok_def drops_def same_fields_def)
qed

lemma no_pending_outside:
  assumes "counts_ok s" and "\<not> inAWriteUnitOfWork s l" and "lookup s l k = Some x"
  shows "unlockPending (request_of s x) = 0"
  using assms by (fastforce simp: counts_ok_def inAWriteUnitOfWork_def pending_keys_def)

lemma claim_count:
  assumes "sy_core s" and "lookup s l k = Some x"
  shows "1 \<le> recursiveCount (request_of s x)" and "mode (request_of s x) \<noteq> MODE_NONE"
    and "locker (request_of s x) = l"
    and "unlockPending (request_of s x) \<le> recursiveCount (request_of s x)"
    and "holder (sy_lm s) k x \<or> waiter (sy_lm s) k x \<and> status (request_of s x) = STATUS_WAITING \<and> recursiveCount (request_of s x) = 1"
proof -
  note c = sy_coreD [OF assms(1)]
  have own: "holder (sy_lm s) k x \<or> waiter (sy_lm s) k x" "locker (request_of s x) = l"
      "unlockPending (request_of s x) \<le> recursiveCount (request_of s x)"
    using c(4) assms(2) unfolding owned_ok_def by blast+
  show "locker (request_of s x) = l" "unlockPending (request_of s x) \<le> recursiveCount (request_of s x)"
    using own by blast+
  have wait: "recursiveCount (request_of s x) = 1 \<and> mode (request_of s x) \<noteq> MODE_NONE \<and> status (request_of s x) = STATUS_WAITING"
    if w: "waiter (sy_lm s) k x"
  proof -
    obtain h where h: "deref (sy_lm s) (ManagedHead k) = Some h" "x \<in> set (conflictList h)"
      using w by (auto simp: waiter_def)
    then have "waiting_ok (request_of s x)" "slot_ok (request_of s x)"
      using lm_inv_head [OF c(1) h(1)] by (simp_all add: head_at_def head_inv_def head_ok_def)
    then show ?thesis by (simp add: waiting_ok_def slot_ok_def)
  qed
  show "1 \<le> recursiveCount (request_of s x)" "mode (request_of s x) \<noteq> MODE_NONE"
      "holder (sy_lm s) k x \<or> waiter (sy_lm s) k x \<and> status (request_of s x) = STATUS_WAITING \<and> recursiveCount (request_of s x) = 1"
    using own(1) wait holder_status(2,3) [OF c(1)] by auto
qed

subsection \<open>Changing the pending unlocks of one request\<close>

definition with_pending :: "LockSystem \<Rightarrow> LockerId \<Rightarrow> rid \<Rightarrow> nat \<Rightarrow> nat \<Rightarrow> LockSystem" where
  "with_pending s l x n num = upd_locker (upd_request s x (\<lambda>q. q\<lparr>unlockPending := n\<rparr>)) l
     (\<lambda>k. k\<lparr>numResourcesToUnlockAtEndUnitOfWork := num\<rparr>)"

lemma with_pending_sel [simp]:
  "sy_lm (with_pending s l x n num) = upd_req (sy_lm s) x (\<lambda>q. q\<lparr>unlockPending := n\<rparr>)"
  "sy_next (with_pending s l x n num) = sy_next s"
  "map_of_locker (with_pending s l x n num) l' = map_of_locker s l'"
  "notify_result (sy_lockers (with_pending s l x n num) l') = notify_result (sy_lockers s l')"
  "wuowNestingLevel (sy_lockers (with_pending s l x n num) l') = wuowNestingLevel (sy_lockers s l')"
  "modeForTicket (sy_lockers (with_pending s l x n num) l') = modeForTicket (sy_lockers s l')"
  "clientState (sy_lockers (with_pending s l x n num) l') = clientState (sy_lockers s l')"
  "prepareModeForLockYields (sy_lockers (with_pending s l x n num) l') = prepareModeForLockYields (sy_lockers s l')"
  by (simp_all add: with_pending_def)

lemma with_pending_core:
  assumes core: "sy_core s" and x: "lookup s l k = Some x" and n: "n \<le> recursiveCount (request_of s x)"
  shows "sy_core (with_pending s l x n num)"
proof -
  let ?s = "with_pending s l x n num"
  note c = sy_coreD [OF core]
  have blk: "is_blocked ?s y = is_blocked s y" for y by (simp add: is_blocked_def)
  have "owned_ok {} ?s"
    using c(4) n x unfolding owned_ok_def by (auto split: if_splits)
  moreover have "waits_ok {} ?s" using c(5) unfolding waits_ok_def blk by simp
  moreover have "tickets_ok ?s" by (rule tickets_ok_cong [OF c(6)]) simp_all
  moreover have "maps_ok ?s" using c(3) by (simp add: maps_ok_def)
  moreover have "lm_inv (sy_lm ?s)" using lm_inv_pending [OF c(1)] by simp
  ultimately show ?thesis using c(2) by (simp add: sy_core_def)
qed

lemma with_pending_keys:
  assumes maps: "maps_ok s" and x: "lookup s l k = Some x"
  shows "pending_keys (with_pending s l x n num) l' =
    (if l' = l then if n = 0 then pending_keys s l - {k} else insert k (pending_keys s l) else pending_keys s l')"
proof (rule set_eqI)
  fix k'
  have u: "unlockPending (request_of (with_pending s l x n num) y) =
      (if y = x then n else unlockPending (request_of s y))" for y by simp
  have mem: "k' \<in> pending_keys (with_pending s l x n num) l' \<longleftrightarrow>
      (\<exists>y. lookup s l' k' = Some y \<and> (if y = x then n else unlockPending (request_of s y)) \<noteq> 0)"
    unfolding pending_keys_def mem_Collect_eq with_pending_sel(3) u ..
  show "k' \<in> pending_keys (with_pending s l x n num) l' \<longleftrightarrow> k' \<in> (if l' = l then
      if n = 0 then pending_keys s l - {k} else insert k (pending_keys s l) else pending_keys s l')"
  proof (cases "l' = l \<and> k' = k")
    case True
    then show ?thesis using x unfolding mem by simp
  next
    case False
    then have "lookup s l' k' \<noteq> Some x" using lookup_unique [OF maps x] by blast
    then have "k' \<in> pending_keys (with_pending s l x n num) l' \<longleftrightarrow> k' \<in> pending_keys s l'"
      unfolding mem pending_keys_def by (cases "lookup s l' k'") auto
    then show ?thesis using False by auto
  qed
qed

lemma with_pending_inv:
  assumes inv: "sy_inv s" and x: "lookup s l k = Some x" and n: "n \<le> recursiveCount (request_of s x)"
    and wu: "n = 0 \<or> wuowNestingLevel (sy_lockers s l) > 0"
    and num: "num = card (if n = 0 then pending_keys s l - {k} else insert k (pending_keys s l))"
  shows "sy_inv (with_pending s l x n num)"
proof -
  have core: "sy_core s" and cnt: "counts_ok s" using inv by (simp_all add: sy_inv_core)
  note keys = with_pending_keys [OF sy_coreD(3) [OF core] x]
  have "numResourcesToUnlockAtEndUnitOfWork (sy_lockers (with_pending s l x n num) l') =
      (if l' = l then num else numResourcesToUnlockAtEndUnitOfWork (sy_lockers s l'))" for l'
    by (simp add: with_pending_def)
  then have "counts_ok (with_pending s l x n num)"
    using cnt wu num unfolding counts_ok_def keys by auto
  then show ?thesis using with_pending_core [OF core x n] by (simp add: sy_inv_core)
qed

end
