(* ===== verification/Locker_Release.thy ===== *)
theory Locker_Release
  imports Locker_Steps
begin

text \<open>
  Release of locks: unlock with its two cases inside a write unit of work, the loops of unlockGlobal,
  endWriteUnitOfWork and saveLockStateAndUnlock, and downgrade. Each keeps the invariant, and takes
  no write lock away from any other locker.
\<close>

subsection \<open>Write locks\<close>

definition write_held :: "LockSystem \<Rightarrow> LockerId \<Rightarrow> ResourceId \<Rightarrow> bool" where
  "write_held s l k \<longleftrightarrow> (\<exists>x. lookup s l k = Some x \<and> holder (sy_lm s) k x \<and> mode (request_of s x) \<in> {MODE_IX, MODE_X})"

definition bystanders :: "LockerId \<Rightarrow> LockSystem \<Rightarrow> LockSystem \<Rightarrow> bool" where
  "bystanders l s s' \<longleftrightarrow> (\<forall>l'. l' \<noteq> l \<longrightarrow> (\<forall>k. write_held s l' k \<longrightarrow> write_held s' l' k) \<and>
     same_fields (sy_lockers s l') (sy_lockers s' l'))"

lemma bystanders_refl [simp]: "bystanders l s s" by (simp add: bystanders_def)

lemma bystanders_trans: "bystanders l a b \<Longrightarrow> bystanders l b c \<Longrightarrow> bystanders l a c"
  unfolding bystanders_def using same_fields_trans by blast

lemma holder_converting:
  assumes inv: "lm_inv m" and x: "holder m k x" "status (reqs m x) = STATUS_CONVERTING"
  shows "isModeCovered (mode (reqs m x)) (convertMode (reqs m x))"
proof -
  have "\<not> at_part (partition_find m) p k x" for p
  proof
    assume "at_part (partition_find m) p k x"
    then obtain pl where "partition_find m p k = Some pl" "x \<in> set (partGrantedList pl)" by (auto simp: at_part_def)
    from lm_inv_part [OF inv this(1)] this(2) show False using x(2) by (auto simp: part_at_def part_ok_def)
  qed
  with x(1) obtain h where d: "deref m (ManagedHead k) = Some h" "x \<in> set (grantedList h)"
    unfolding holder_def by blast
  then have "granted_ok (reqs m x)"
    using lm_inv_head [OF inv d(1)] by (simp add: head_at_def head_inv_def head_ok_def)
  then show ?thesis using x(2) by (simp add: granted_ok_def)
qed

lemma write_mode_upwards: "isModeCovered a b \<Longrightarrow> a \<in> {MODE_IX, MODE_X} \<Longrightarrow> b \<in> {MODE_IX, MODE_X}"
  by (cases b) (auto simp: isModeCovered_iff LockMode_all mode_conflict_iff)

lemma effect_write_held:
  assumes inv: "lm_inv (sy_lm s)" and eff: "lm_effect r (sy_lm s) (sy_lm s') news"
    and x: "lookup s l k = Some x" "x \<noteq> r" "lookup s' l k = Some x" and w: "write_held s l k"
  shows "write_held s' l k"
proof -
  have h: "holder (sy_lm s) k x" "mode (request_of s x) \<in> {MODE_IX, MODE_X}"
    using w x(1) by (auto simp: write_held_def)
  have "holder (sy_lm s') k x \<and> mode (request_of s' x) \<in> {MODE_IX, MODE_X}"
  proof (cases "x \<in> set news")
    case True
    then have n: "blocked_status (status (request_of s x))" "mode (request_of s' x) = wanted (request_of s x)"
        "holder (sy_lm s') k x"
      using eff h(1) unfolding lm_effect_def by blast+
    then have st: "status (request_of s x) = STATUS_CONVERTING"
      using holder_status(1) [OF inv h(1)] by (auto simp: blocked_status_def)
    then have "mode (request_of s' x) = convertMode (request_of s x)" using n(2) by (simp add: wanted_def)
    then show ?thesis using write_mode_upwards [OF holder_converting [OF inv h(1) st] h(2)] n(3) by simp
  next
    case False
    then show ?thesis using eff x(2) h unfolding lm_effect_def same_claim_def by auto
  qed
  then show ?thesis using x(3) by (auto simp: write_held_def)
qed

lemma drops_write_held:
  assumes core: "sy_core s" and d: "drops l k x i b s s'" and x: "lookup s l k = Some x"
  shows "bystanders l s s'" and "k' \<noteq> k \<Longrightarrow> write_held s l k' \<Longrightarrow> write_held s' l k'"
    and "\<not> b \<Longrightarrow> sy_core s' \<Longrightarrow> write_held s l k \<Longrightarrow> write_held s' l k"
proof -
  note c = sy_coreD [OF core]
  obtain news where eff: "lm_effect x (sy_lm s) (sy_lm s') news" using d by (auto simp: drops_def)
  have keep: "write_held s' l' k'" if ne: "(l', k') \<noteq> (l, k)" and w: "write_held s l' k'" for l' k'
  proof -
    obtain y where y: "lookup s l' k' = Some y" using w by (auto simp: write_held_def)
    have "y \<noteq> x" using lookup_unique [OF c(3) x] y ne by blast
    moreover have "lookup s' l' k' = Some y" using d y ne by (cases "l' = l") (auto simp: drops_def)
    ultimately show ?thesis using effect_write_held [OF c(1) eff y] w by blast
  qed
  then show "bystanders l s s'" using d by (auto simp: bystanders_def drops_def)
  show "k' \<noteq> k \<Longrightarrow> write_held s l k' \<Longrightarrow> write_held s' l k'" using keep by blast
  show "write_held s' l k" if nb: "\<not> b" and core': "sy_core s'" and w: "write_held s l k"
  proof -
    have x': "lookup s' l k = Some x" using d x nb by (simp add: drops_def)
    have out: "status (request_of s' x) = STATUS_GRANTED" "mode (request_of s' x) = mode (request_of s x)"
      using d nb by (simp_all add: drops_def unlock_outcome_def)
    then have "holder (sy_lm s') k x" using claim_count(5) [OF core' x'] by simp
    then show ?thesis using w x x' out(2) by (auto simp: write_held_def)
  qed
qed

subsection \<open>unlock\<close>

definition unlock_legal :: "LockSystem \<Rightarrow> LockerId \<Rightarrow> ResourceId \<Rightarrow> bool" where
  "unlock_legal s l k \<longleftrightarrow> (inAWriteUnitOfWork s l \<longrightarrow>
     (case lookup s l k of None \<Rightarrow> False
      | Some x \<Rightarrow> unlockPending (request_of s x) < recursiveCount (request_of s x) \<and>
          (case shouldDelayUnlock (sy_lockers s l) k (mode (request_of s x)) of
             None \<Rightarrow> False
           | Some delay \<Rightarrow> delay \<longrightarrow> Suc (unlockPending (request_of s x)) < LockModesCount)))"

lemma delay_unlock_ok:
  assumes inv: "sy_inv s" and x: "lookup s l k = Some x" and wu: "inAWriteUnitOfWork s l"
    and p: "unlockPending (request_of s x) < recursiveCount (request_of s x)"
      "Suc (unlockPending (request_of s x)) < LockModesCount"
  shows "\<exists>num. delay_unlock s l x = Some (with_pending s l x (Suc (unlockPending (request_of s x))) num) \<and>
    sy_inv (with_pending s l x (Suc (unlockPending (request_of s x))) num)"
proof -
  let ?p = "unlockPending (request_of s x)"
  let ?num = "if ?p = 0 then Suc (numResourcesToUnlockAtEndUnitOfWork (sy_lockers s l))
    else numResourcesToUnlockAtEndUnitOfWork (sy_lockers s l)"
  have cnt: "numResourcesToUnlockAtEndUnitOfWork (sy_lockers s l) = card (pending_keys s l)"
    using inv by (simp add: sy_inv_def counts_ok_def)
  have "k \<in> pending_keys s l \<longleftrightarrow> ?p \<noteq> 0" using x by (simp add: pending_keys_def)
  then have num: "?num = card (insert k (pending_keys s l))"
    using cnt pending_finite [of s l] by (simp add: insert_absorb)
  have same: "(sy_lockers s l)\<lparr>numResourcesToUnlockAtEndUnitOfWork := numResourcesToUnlockAtEndUnitOfWork (sy_lockers s l)\<rparr> = sy_lockers s l"
    by simp
  have "delay_unlock s l x = Some (with_pending s l x (Suc ?p) ?num)"
    using p(2) by (simp add: delay_unlock_def with_pending_def upd_locker_def upd_request_def upd_req_def Let_def)
  moreover have "sy_inv (with_pending s l x (Suc ?p) ?num)"
    by (rule with_pending_inv [OF inv x]) (use p(1) wu num in \<open>simp_all add: inAWriteUnitOfWork_def\<close>)
  ultimately show ?thesis by blast
qed

definition unlocks :: "LockerId \<Rightarrow> ResourceId \<Rightarrow> bool \<Rightarrow> LockSystem \<Rightarrow> LockSystem \<Rightarrow> bool" where
  "unlocks l k b s s' \<longleftrightarrow>
     (lookup s l k = None \<and> \<not> b \<and> s' = s) \<or>
     (\<exists>x n num. lookup s l k = Some x \<and> inAWriteUnitOfWork s l \<and>
        shouldDelayUnlock (sy_lockers s l) k (mode (request_of s x)) = Some True \<and> \<not> b \<and> s' = with_pending s l x n num) \<or>
     (\<exists>x i. lookup s l k = Some x \<and>
        (inAWriteUnitOfWork s l \<longrightarrow> shouldDelayUnlock (sy_lockers s l) k (mode (request_of s x)) = Some False) \<and>
        drops l k x i b s s')"

lemma lk_unlock_ok:
  assumes inv: "sy_inv s" and legal: "unlock_legal s l k"
  shows "\<exists>b s'. lk_unlock s l k = Some (b, s') \<and> sy_inv s' \<and> unlocks l k b s s'"
proof -
  have core: "sy_core s" and cnt: "counts_ok s" using inv by (simp_all add: sy_inv_core)
  have wf: "fm_wf (map_of_locker s l)" using sy_coreD(3) [OF core] by (simp add: maps_ok_def)
  show ?thesis
  proof (cases "lookup s l k")
    case None
    then have "\<not> inAWriteUnitOfWork s l" using legal by (auto simp: unlock_legal_def)
    then have "lk_unlock s l k = Some (False, s)"
      using None by (simp add: lk_unlock_def Let_def fm_lookup_None)
    then show ?thesis using None inv by (auto simp: unlocks_def)
  next
    case (Some x)
    then obtain i where e: "entry_at (map_of_locker s l) i k x" using fm_lookup_iff [OF wf] by blast
    have it: "it_find (map_of_locker s l) k = i" by (rule it_find_at [OF wf e])
    have fin: "\<not> it_finished (map_of_locker s l) i" "it_key (map_of_locker s l) i = Some k"
        "it_objAddr (map_of_locker s l) i = Some x"
      using e by (auto simp: entry_at_def it_finished_def it_key_def it_objAddr_def)
    have p: "unlockPending (request_of s x) < recursiveCount (request_of s x)"
      using legal Some no_pending_outside [OF cnt _ Some] claim_count(1) [OF core Some]
      by (cases "inAWriteUnitOfWork s l") (auto simp: unlock_legal_def)
    show ?thesis
    proof (cases "inAWriteUnitOfWork s l \<and> shouldDelayUnlock (sy_lockers s l) k (mode (request_of s x)) = Some True")
      case True
      then have "Suc (unlockPending (request_of s x)) < LockModesCount"
        using legal Some by (simp add: unlock_legal_def)
      from delay_unlock_ok [OF inv Some _ p this] True
      obtain num where d: "delay_unlock s l x = Some (with_pending s l x (Suc (unlockPending (request_of s x))) num)"
          "sy_inv (with_pending s l x (Suc (unlockPending (request_of s x))) num)" by blast
      have "lk_unlock s l k = Some (False, with_pending s l x (Suc (unlockPending (request_of s x))) num)"
        using True fin d(1) unfolding lk_unlock_def Let_def it by simp
      then show ?thesis using d(2) Some True unfolding unlocks_def by blast
    next
      case False
      then have nd: "inAWriteUnitOfWork s l \<Longrightarrow> shouldDelayUnlock (sy_lockers s l) k (mode (request_of s x)) = Some False"
        using legal Some by (auto simp: unlock_legal_def split: option.splits)
      then have "lk_unlock s l k = unlockImpl s l i"
        using fin unfolding lk_unlock_def Let_def it by (cases "inAWriteUnitOfWork s l") simp_all
      moreover obtain b s' where u: "unlockImpl s l i = Some (b, s')" "sy_core s'" "drops l k x i b s s'"
        using unlockImpl_ok [OF core e p] by blast
      moreover have "counts_ok s'" by (rule drops_counts [OF core cnt u(3) Some p])
      ultimately show ?thesis using Some nd unfolding unlocks_def sy_inv_core by auto
    qed
  qed
qed

lemma with_pending_fields: "l' \<noteq> l \<Longrightarrow> sy_lockers (with_pending s l x n num) l' = sy_lockers s l'"
  by (simp add: with_pending_def)

lemma write_held_pending [simp]: "write_held (with_pending s l x n num) l' k = write_held s l' k"
  by (simp add: write_held_def) (metis (no_types, lifting))

lemma bystanders_pending [simp]: "bystanders l s (with_pending s l x n num)"
  by (simp add: bystanders_def with_pending_fields)

lemma unlocks_write_held:
  assumes core: "sy_core s" and u: "unlocks l k b s s'" and core': "sy_core s'"
  shows "bystanders l s s'" and "k' \<noteq> k \<or> \<not> b \<Longrightarrow> write_held s l k' \<Longrightarrow> write_held s' l k'"
proof -
  have "bystanders l s s' \<and> (k' \<noteq> k \<or> \<not> b \<longrightarrow> write_held s l k' \<longrightarrow> write_held s' l k')"
    using u unfolding unlocks_def
  proof (elim disjE exE conjE)
    fix x i assume x: "lookup s l k = Some x" and d: "drops l k x i b s s'"
    note w = drops_write_held [OF core d x]
    show ?thesis using w(1) w(2) [of k'] w(3) core' by (cases "k' = k") auto
  qed simp_all
  then show "bystanders l s s'" "k' \<noteq> k \<or> \<not> b \<Longrightarrow> write_held s l k' \<Longrightarrow> write_held s' l k'" by blast+
qed

subsection \<open>unlockGlobal\<close>

definition in_use_all :: "LockSystem \<Rightarrow> LockerId \<Rightarrow> (ResourceId \<Rightarrow> LockRequest \<Rightarrow> bool) \<Rightarrow> bool" where
  "in_use_all s l P = list_all (\<lambda>e. inUse e \<longrightarrow> P (entry_key e) (request_of s (entry_addr e))) (fastAccess (map_of_locker s l))"

lemma in_use_allD: "in_use_all s l P \<Longrightarrow> entry_at (map_of_locker s l) i k x \<Longrightarrow> P k (request_of s x)"
  unfolding in_use_all_def list_all_iff entry_at_def by auto

definition outer_type :: "ResourceId \<Rightarrow> bool" where
  "outer_type k \<longleftrightarrow> getType k = Some RESOURCE_GLOBAL \<or> getType k = Some RESOURCE_MUTEX"

lemma in_use_entry:
  assumes "i < length (fastAccess m)" and "inUse (fastAccess m ! i)"
  shows "entry_at m i (entry_key (fastAccess m ! i)) (entry_addr (fastAccess m ! i))"
  using assms by (simp add: entry_at_def)

lemma drops_other_count:
  assumes "sy_core s" and "drops l k x i b s s'" and "entry_at (map_of_locker s l) i k x"
    and "entry_at (map_of_locker s l) j k' y" and "j \<noteq> i"
  shows "recursiveCount (request_of s' y) = recursiveCount (request_of s y)" and "y \<noteq> x"
proof -
  have "fm_wf (map_of_locker s l)" using sy_coreD(3) [OF assms(1)] by (simp add: maps_ok_def)
  from fm_wfD(2) [OF this assms(3), of j k'] assms(4,5) show "y \<noteq> x" by blast
  then show "recursiveCount (request_of s' y) = recursiveCount (request_of s y)"
    using assms(2) by (auto simp: drops_def lm_effect_def framed_def)
qed

lemma unlock_rest_ok:
  assumes "sy_inv s" and "\<not> inAWriteUnitOfWork s l" and "\<And>i. i \<in> set is \<Longrightarrow> i < length (fastAccess (map_of_locker s l))"
    and "distinct is" and "\<And>i k x. i \<in> set is \<Longrightarrow> entry_at (map_of_locker s l) i k x \<Longrightarrow> \<not> outer_type k \<Longrightarrow>
      recursiveCount (request_of s x) = 1"
  shows "\<exists>s'. unlock_rest s l is = Some s' \<and> sy_inv s' \<and> bystanders l s s' \<and>
    (\<forall>j k y. entry_at (map_of_locker s' l) j k y \<longleftrightarrow> entry_at (map_of_locker s l) j k y \<and> (j \<in> set is \<longrightarrow> outer_type k))"
  using assms
proof (induction "is" arbitrary: s)
  case (Cons i "is")
  let ?e = "fastAccess (map_of_locker s l) ! i"
  have len: "i < length (fastAccess (map_of_locker s l))" using Cons.prems(3) by simp
  show ?case
  proof (cases "inUse ?e \<and> \<not> outer_type (entry_key ?e)")
    case False
    have run: "unlock_rest s l (i # is) = unlock_rest s l is" using False by (auto simp: Let_def outer_type_def)
    have "\<exists>s'. unlock_rest s l is = Some s' \<and> sy_inv s' \<and> bystanders l s s' \<and> (\<forall>j k y. entry_at (map_of_locker s' l) j k y \<longleftrightarrow>
        entry_at (map_of_locker s l) j k y \<and> (j \<in> set is \<longrightarrow> outer_type k))"
      by (rule Cons.IH) (use Cons.prems in auto)
    then obtain s' where s': "unlock_rest s l is = Some s'" "sy_inv s'" "bystanders l s s'"
        "\<And>j k y. entry_at (map_of_locker s' l) j k y \<longleftrightarrow> entry_at (map_of_locker s l) j k y \<and> (j \<in> set is \<longrightarrow> outer_type k)"
      by blast
    have "entry_at (map_of_locker s' l) j k y \<longleftrightarrow>
        entry_at (map_of_locker s l) j k y \<and> (j \<in> set (i # is) \<longrightarrow> outer_type k)" for j k y
      unfolding s'(4) using False by (cases "j = i") (auto simp: entry_at_def)
    then show ?thesis unfolding run using s'(1,2,3) by blast
  next
    case True
    define k where "k = entry_key ?e"
    define x where "x = entry_addr ?e"
    have e: "entry_at (map_of_locker s l) i k x" using in_use_entry [OF len] True by (simp add: k_def x_def)
    have core: "sy_core s" and cnt: "counts_ok s" using Cons.prems(1) by (simp_all add: sy_inv_core)
    have wf: "fm_wf (map_of_locker s l)" using sy_coreD(3) [OF core] by (simp add: maps_ok_def)
    have look: "lookup s l k = Some x" using e fm_lookup_iff [OF wf] by blast
    have rc: "recursiveCount (request_of s x) = 1" using Cons.prems(5) [OF _ e] True by (simp add: k_def)
    have p: "unlockPending (request_of s x) < recursiveCount (request_of s x)"
      using no_pending_outside [OF cnt Cons.prems(2) look] rc by simp
    obtain b s1 where u: "unlockImpl s l i = Some (b, s1)" "sy_core s1" "drops l k x i b s s1"
      using unlockImpl_ok [OF core e p] by blast
    have b: b using u(3) rc by (simp add: drops_def unlock_outcome_def)
    have inv1: "sy_inv s1" using drops_counts [OF core cnt u(3) look p] u(2) by (simp add: sy_inv_core)
    have ent: "entry_at (map_of_locker s1 l) j k' y \<longleftrightarrow> entry_at (map_of_locker s l) j k' y \<and> j \<noteq> i" for j k' y
      using u(3) b by (simp add: drops_def)
    have "\<exists>s'. unlock_rest s1 l is = Some s' \<and> sy_inv s' \<and> bystanders l s1 s' \<and> (\<forall>j k y. entry_at (map_of_locker s' l) j k y \<longleftrightarrow>
        entry_at (map_of_locker s1 l) j k y \<and> (j \<in> set is \<longrightarrow> outer_type k))"
    proof (rule Cons.IH [OF inv1])
      show "\<not> inAWriteUnitOfWork s1 l"
        using u(3) Cons.prems(2) by (simp add: drops_def same_fields_def inAWriteUnitOfWork_def)
      show "j < length (fastAccess (map_of_locker s1 l))" if "j \<in> set is" for j
        using u(3) Cons.prems(3) that by (simp add: drops_def)
      show "distinct is" using Cons.prems(4) by simp
      show "recursiveCount (request_of s1 y) = 1"
        if j: "j \<in> set is" "entry_at (map_of_locker s1 l) j k' y" "\<not> outer_type k'" for j k' y
        using drops_other_count(1) [OF core u(3) e, of j k' y] j(2) Cons.prems(5) [of j k' y] j(1,3) unfolding ent by simp
    qed
    then obtain s' where s': "unlock_rest s1 l is = Some s'" "sy_inv s'" "bystanders l s1 s'"
        "\<forall>j k y. entry_at (map_of_locker s' l) j k y \<longleftrightarrow> entry_at (map_of_locker s1 l) j k y \<and> (j \<in> set is \<longrightarrow> outer_type k)"
      by blast
    have "unlock_rest s l (i # is) = Some s'"
      using u(1) b s'(1) True by (simp add: Let_def outer_type_def)
    moreover have "bystanders l s s'" by (rule bystanders_trans [OF drops_write_held(1) [OF core u(3) look] s'(3)])
    moreover have "entry_at (map_of_locker s' l) j k' y \<longleftrightarrow>
        entry_at (map_of_locker s l) j k' y \<and> (j \<in> set (i # is) \<longrightarrow> outer_type k')" for j k' y
    proof -
      have "\<not> outer_type k" using True by (simp add: k_def)
      moreover have "entry_at (map_of_locker s l) i k' y \<Longrightarrow> k' = k" using e by (simp add: entry_at_def)
      ultimately show ?thesis using s'(4) ent Cons.prems(4) by auto
    qed
    ultimately show ?thesis using s'(2) by blast
  qed
qed simp

definition unlockGlobal_legal :: "LockSystem \<Rightarrow> LockerId \<Rightarrow> bool" where
  "unlockGlobal_legal s l \<longleftrightarrow> unlock_legal s l resourceIdGlobal \<and>
     (case lookup s l resourceIdGlobal of None \<Rightarrow> True
      | Some x \<Rightarrow> recursiveCount (request_of s x) = 1 \<longrightarrow>
          (inAWriteUnitOfWork s l \<longrightarrow> shouldDelayUnlock (sy_lockers s l) resourceIdGlobal (mode (request_of s x)) = Some True) \<and>
          (\<not> inAWriteUnitOfWork s l \<longrightarrow> in_use_all s l (\<lambda>k q. \<not> outer_type k \<longrightarrow> recursiveCount q = 1)))"

lemma outer_global [simp]: "outer_type resourceIdGlobal"
  by (simp add: outer_type_def resourceIdGlobal_def)

lemma unlockGlobal_ok:
  assumes inv: "sy_inv s" and legal: "unlockGlobal_legal s l"
  shows "\<exists>b s'. unlockGlobal s l = Some (b, s') \<and> sy_inv s' \<and> bystanders l s s' \<and>
    (inAWriteUnitOfWork s l \<longrightarrow> unlocks l resourceIdGlobal False s s') \<and>
    (b \<longrightarrow> lookup s' l resourceIdGlobal = None \<and> (\<forall>k. lookup s' l k \<noteq> None \<longrightarrow> outer_type k))"
proof -
  have core: "sy_core s" using inv by (simp add: sy_inv_core)
  obtain b s1 where u: "lk_unlock s l resourceIdGlobal = Some (b, s1)" "sy_inv s1" "unlocks l resourceIdGlobal b s s1"
    using lk_unlock_ok [OF inv] legal unfolding unlockGlobal_legal_def by blast
  have core1: "sy_core s1" using u(2) by (simp add: sy_inv_core)
  note w = unlocks_write_held [OF core u(3) core1]
  show ?thesis
  proof (cases b)
    case False
    then have "unlockGlobal s l = Some (False, s1)" using u(1) by (simp add: unlockGlobal_def)
    then show ?thesis using u(2,3) w(1) False by auto
  next
    case True
    then obtain x i where x: "lookup s l resourceIdGlobal = Some x" and d: "drops l resourceIdGlobal x i b s s1"
      and nd: "inAWriteUnitOfWork s l \<Longrightarrow> shouldDelayUnlock (sy_lockers s l) resourceIdGlobal (mode (request_of s x)) = Some False"
      using u(3) by (auto simp: unlocks_def)
    have rc: "recursiveCount (request_of s x) = 1" using d True by (simp add: drops_def unlock_outcome_def)
    have nw: "\<not> inAWriteUnitOfWork s l" using legal x rc nd by (auto simp: unlockGlobal_legal_def)
    have all: "in_use_all s l (\<lambda>k q. \<not> outer_type k \<longrightarrow> recursiveCount q = 1)"
      using legal x rc nw by (simp add: unlockGlobal_legal_def)
    have nw1: "\<not> inAWriteUnitOfWork s1 l"
      using d nw by (simp add: drops_def same_fields_def inAWriteUnitOfWork_def)
    have wf: "fm_wf (map_of_locker s l)" using sy_coreD(3) [OF core] by (simp add: maps_ok_def)
    have count: "recursiveCount (request_of s1 y) = 1"
      if j: "entry_at (map_of_locker s1 l) j k y" "\<not> outer_type k" for j k y
    proof -
      have y: "lookup s l k = Some y" using j(1) d fm_lookup_iff [OF wf] by (auto simp: drops_def)
      have "y \<noteq> x" using lookup_unique(2) [OF sy_coreD(3) [OF core] x] y j(2) outer_global by metis
      then have "recursiveCount (request_of s1 y) = recursiveCount (request_of s y)"
        using d by (auto simp: drops_def lm_effect_def framed_def)
      moreover have "entry_at (map_of_locker s l) j k y" using j(1) d by (simp add: drops_def)
      ultimately show ?thesis using in_use_allD [OF all, of j k y] j(2) by simp
    qed
    obtain s' where s': "unlock_rest s1 l (positions s1 l) = Some s'" "sy_inv s'" "bystanders l s1 s'"
        "\<forall>j k y. entry_at (map_of_locker s' l) j k y \<longleftrightarrow>
           entry_at (map_of_locker s1 l) j k y \<and> (j \<in> set (positions s1 l) \<longrightarrow> outer_type k)"
      using unlock_rest_ok [OF u(2) nw1, of "positions s1 l"] count by (auto simp: positions_def)
    have run: "unlockGlobal s l = Some (True, s')" using u(1) True nw1 s'(1) by (simp add: unlockGlobal_def)
    have wf': "fm_wf (map_of_locker s' l)" using s'(2) by (simp add: sy_inv_def maps_ok_def)
    have wf1: "fm_wf (map_of_locker s1 l)" using u(2) by (simp add: sy_inv_def maps_ok_def)
    have left: "lookup s1 l k = Some y \<and> outer_type k" if "lookup s' l k = Some y" for k y
      using that s'(4) unfolding fm_lookup_iff [OF wf'] fm_lookup_iff [OF wf1] by (auto simp: positions_def entry_at_def)
    have "lookup s1 l resourceIdGlobal = None" using d True by (simp add: drops_def)
    then have none: "lookup s' l resourceIdGlobal = None"
      using left [of resourceIdGlobal "the (lookup s' l resourceIdGlobal)"] by (cases "lookup s' l resourceIdGlobal") simp_all
    have "\<forall>k. lookup s' l k \<noteq> None \<longrightarrow> outer_type k" using left by auto
    then show ?thesis
      using run s'(2) bystanders_trans [OF w(1) s'(3)] nw none by (intro exI [of _ True] exI [of _ s'] conjI) simp_all
  qed
qed

end
