(* ===== verification/Locker_Units.thy ===== *)
theory Locker_Units
  imports Locker_Release
begin

text \<open>
  The end of a write unit of work, which carries out the unlocks that were put off, the release of all
  locks for a yield, and downgrade.
\<close>

subsection \<open>The end of a write unit of work\<close>

lemma pending_step:
  "unlockPending (request_of s x) = Suc n \<Longrightarrow>
   upd_request s x (\<lambda>q. q\<lparr>unlockPending := unlockPending q - 1\<rparr>) =
   with_pending s l x n (numResourcesToUnlockAtEndUnitOfWork (sy_lockers s l))"
  by (simp add: with_pending_def upd_locker_def upd_request_def upd_req_def)

lemma num_step:
  "upd_locker s l (\<lambda>k. k\<lparr>numResourcesToUnlockAtEndUnitOfWork := numResourcesToUnlockAtEndUnitOfWork k - 1\<rparr>) =
   with_pending s l x (unlockPending (request_of s x)) (numResourcesToUnlockAtEndUnitOfWork (sy_lockers s l) - 1)"
  by (simp add: with_pending_def upd_locker_def upd_request_def upd_req_def)

text \<open>What the release of all references to one entry changes.\<close>

definition drained :: "LockerId \<Rightarrow> nat \<Rightarrow> rid \<Rightarrow> LockSystem \<Rightarrow> LockSystem \<Rightarrow> bool" where
  "drained l i x s s' \<longleftrightarrow> bystanders l s s' \<and>
     (\<forall>l'. l' \<noteq> l \<longrightarrow> lookup s' l' = lookup s l') \<and>
     length (fastAccess (map_of_locker s' l)) = length (fastAccess (map_of_locker s l)) \<and>
     (\<forall>j k y. entry_at (map_of_locker s' l) j k y \<longrightarrow> entry_at (map_of_locker s l) j k y) \<and>
     (\<forall>j k y. j \<noteq> i \<longrightarrow> entry_at (map_of_locker s l) j k y \<longrightarrow> entry_at (map_of_locker s' l) j k y) \<and>
     (\<forall>y. unlockPending (request_of s' y) = (if y = x then 0 else unlockPending (request_of s y))) \<and>
     same_fields (sy_lockers s l) (sy_lockers s' l)"

lemma unlock_pending_ok:
  assumes "sy_core s" and "\<not> inAWriteUnitOfWork s l" and "entry_at (map_of_locker s l) i k x \<or> n = 0"
    and "unlockPending (request_of s x) = n"
  shows "\<exists>s'. unlock_pending s l x k n = Some s' \<and> sy_core s' \<and> drained l i x s s'"
  using assms
proof (induction n arbitrary: s)
  case 0
  then have "drained l i x s s" by (auto simp: drained_def)
  then show ?case using 0 by auto
next
  case (Suc n)
  let ?s = "with_pending s l x n (numResourcesToUnlockAtEndUnitOfWork (sy_lockers s l))"
  have e: "entry_at (map_of_locker s l) i k x" using Suc.prems(3) by simp
  have wf: "fm_wf (map_of_locker s l)" using sy_coreD(3) [OF Suc.prems(1)] by (simp add: maps_ok_def)
  have look: "lookup s l k = Some x" using e fm_lookup_iff [OF wf] by blast
  have le: "Suc n \<le> recursiveCount (request_of s x)" using claim_count(4) [OF Suc.prems(1) look] Suc.prems(4) by simp
  have core0: "sy_core ?s" using with_pending_core [OF Suc.prems(1) look] le by simp
  have nw: "\<not> inAWriteUnitOfWork ?s l" using Suc.prems(2) by (simp add: inAWriteUnitOfWork_def)
  have e0: "entry_at (map_of_locker ?s l) i k x" using e by simp
  have lt: "unlockPending (request_of ?s x) < recursiveCount (request_of ?s x)" using le by simp
  obtain b s1 where u: "unlockImpl ?s l i = Some (b, s1)" "sy_core s1" "drops l k x i b ?s s1"
    using unlockImpl_ok [OF core0 e0 lt] by blast
  have "it_find (map_of_locker ?s l) k = i" using it_find_at [OF _ e0] wf by simp
  then have run: "lk_unlock ?s l k = Some (b, s1)"
    using nw u(1) e unfolding lk_unlock_def Let_def by (simp add: it_finished_def entry_at_def)
  have n1: "unlockPending (request_of s1 x) = n"
    using u(3) by (auto simp: drops_def lm_effect_def framed_def)
  have nw1: "\<not> inAWriteUnitOfWork s1 l" using u(3) nw by (simp add: drops_def same_fields_def inAWriteUnitOfWork_def)
  have e1: "entry_at (map_of_locker s1 l) i k x \<or> n = 0"
  proof (cases b)
    case True
    then have "recursiveCount (request_of ?s x) = 1" using u(3) by (simp add: drops_def unlock_outcome_def)
    then show ?thesis using lt by simp
  next
    case False
    then show ?thesis using u(3) e0 by (simp add: drops_def)
  qed
  obtain s' where s': "unlock_pending s1 l x k n = Some s'" "sy_core s'" "drained l i x s1 s'"
    using Suc.IH [OF u(2) nw1 e1 n1] by blast
  have "unlock_pending s l x k (Suc n) = Some s'"
    using run s'(1) pending_step [OF Suc.prems(4), of l] by simp
  moreover have "drained l i x s s'"
  proof -
    have by1: "bystanders l s s1"
      using bystanders_trans [OF bystanders_pending drops_write_held(1) [OF core0 u(3)]] look by simp
    have p1: "unlockPending (request_of s1 y) = (if y = x then n else unlockPending (request_of s y))" for y
      using u(3) by (auto simp: drops_def lm_effect_def framed_def)
    have f: "same_fields (sy_lockers s l) (sy_lockers ?s l)" by (simp add: same_fields_def with_pending_def)
    show ?thesis
      unfolding drained_def
    proof (intro conjI allI impI)
      show "bystanders l s s'" using bystanders_trans [OF by1] s'(3) by (simp add: drained_def)
      show "lookup s' l' = lookup s l'" if "l' \<noteq> l" for l' using that s'(3) u(3) by (simp add: drained_def drops_def)
      show "length (fastAccess (map_of_locker s' l)) = length (fastAccess (map_of_locker s l))"
        using s'(3) u(3) by (simp add: drained_def drops_def)
      show "entry_at (map_of_locker s l) j k' y" if "entry_at (map_of_locker s' l) j k' y" for j k' y
        using that s'(3) u(3) by (auto simp: drained_def drops_def)
      show "entry_at (map_of_locker s' l) j k' y" if "j \<noteq> i" "entry_at (map_of_locker s l) j k' y" for j k' y
        using that s'(3) u(3) by (auto simp: drained_def drops_def)
      show "unlockPending (request_of s' y) = (if y = x then 0 else unlockPending (request_of s y))" for y
        using s'(3) p1 by (simp add: drained_def)
      show "same_fields (sy_lockers s l) (sy_lockers s' l)"
        using same_fields_trans [OF f] same_fields_trans s'(3) u(3) unfolding drained_def drops_def by blast
    qed
  qed
  ultimately show ?case using s'(2) by blast
qed

lemma drained_pending:
  assumes maps: "maps_ok s" "maps_ok s'" and e: "entry_at (map_of_locker s l) i k x" and d: "drained l i x s s'"
  shows "pending_keys s' l = pending_keys s l - {k}" and "l' \<noteq> l \<Longrightarrow> pending_keys s' l' = pending_keys s l'"
proof -
  have wf: "fm_wf (map_of_locker s l)" and wf': "fm_wf (map_of_locker s' l)" using maps by (simp_all add: maps_ok_def)
  have p: "unlockPending (request_of s' y) = (if y = x then 0 else unlockPending (request_of s y))" for y
    using d by (simp add: drained_def)
  show "pending_keys s' l = pending_keys s l - {k}"
  proof (intro subset_antisym subsetI)
    fix k' assume "k' \<in> pending_keys s' l"
    then obtain y j where y: "entry_at (map_of_locker s' l) j k' y" "y \<noteq> x" "unlockPending (request_of s y) \<noteq> 0"
      unfolding pending_keys_def fm_lookup_iff [OF wf'] p by (auto split: if_splits)
    then have y': "entry_at (map_of_locker s l) j k' y" using d by (simp add: drained_def)
    have "k' \<noteq> k"
    proof
      assume "k' = k"
      with fm_wfD(1) [OF wf e] y' have "j = i" by blast
      then show False using y' e y(2) by (simp add: entry_at_def)
    qed
    then show "k' \<in> pending_keys s l - {k}"
      unfolding pending_keys_def fm_lookup_iff [OF wf] using y' y(3) by blast
  next
    fix k' assume "k' \<in> pending_keys s l - {k}"
    then obtain y j where y: "entry_at (map_of_locker s l) j k' y" "unlockPending (request_of s y) \<noteq> 0" "k' \<noteq> k"
      unfolding pending_keys_def fm_lookup_iff [OF wf] by blast
    have ji: "j \<noteq> i" using y(1,3) e by (auto simp: entry_at_def)
    then have "y \<noteq> x" using fm_wfD(2) [OF wf e] y(1) by blast
    moreover have "entry_at (map_of_locker s' l) j k' y" using d ji y(1) by (simp add: drained_def)
    ultimately show "k' \<in> pending_keys s' l"
      unfolding pending_keys_def fm_lookup_iff [OF wf'] p using y(2) by auto
  qed
  show "pending_keys s' l' = pending_keys s l'" if "l' \<noteq> l"
  proof -
    have look: "lookup s l k = Some x" using e fm_lookup_iff [OF wf] by blast
    have ne: "lookup s l' k' \<noteq> Some x" for k' using lookup_unique(1) [OF maps(1) look] that by blast
    have same: "lookup s' l' = lookup s l'" using d that by (simp add: drained_def)
    have "k' \<in> pending_keys s' l' \<longleftrightarrow> k' \<in> pending_keys s l'" for k'
      unfolding pending_keys_def same mem_Collect_eq using ne [of k'] by (cases "lookup s l' k'") (auto simp: p)
    then show ?thesis by blast
  qed
qed

lemma end_unlocks_ok:
  assumes "sy_core s" and "\<not> inAWriteUnitOfWork s l"
    and "\<And>i. i \<in> set is \<Longrightarrow> i < length (fastAccess (map_of_locker s l))"
    and "numResourcesToUnlockAtEndUnitOfWork (sy_lockers s l) = card (pending_keys s l)"
    and "\<And>k. k \<in> pending_keys s l \<Longrightarrow> \<exists>i \<in> set is. \<exists>x. entry_at (map_of_locker s l) i k x"
    and "\<And>l'. l' \<noteq> l \<Longrightarrow> numResourcesToUnlockAtEndUnitOfWork (sy_lockers s l') = card (pending_keys s l') \<and>
      (wuowNestingLevel (sy_lockers s l') = 0 \<longrightarrow> pending_keys s l' = {})"
  shows "\<exists>s'. end_unlocks s l is = Some s' \<and> sy_inv s' \<and> bystanders l s s' \<and> \<not> inAWriteUnitOfWork s' l"
  using assms
proof (induction "is" arbitrary: s)
  case Nil
  then have none: "pending_keys s l = {}" by auto
  then have "counts_ok s" unfolding counts_ok_def using Nil.prems(4,6) by (metis (no_types))
  then show ?case using Nil.prems none by (simp add: sy_inv_core)
next
  case (Cons i "is")
  let ?e = "fastAccess (map_of_locker s l) ! i" and ?num = "numResourcesToUnlockAtEndUnitOfWork (sy_lockers s l)"
  have len: "i < length (fastAccess (map_of_locker s l))" using Cons.prems(3) by simp
  show ?case
  proof (cases "?num = 0")
    case True
    then have none: "pending_keys s l = {}" using Cons.prems(4) pending_finite [of s l] by simp
    then have "counts_ok s" unfolding counts_ok_def using Cons.prems(4,6) by (metis (no_types))
    moreover have "end_unlocks s l (i # is) = Some s" using True by (simp add: Let_def)
    ultimately show ?thesis using Cons.prems(1,2) by (simp add: sy_inv_core)
  next
    case num: False
    show ?thesis
    proof (cases "inUse ?e")
      case False
      have "end_unlocks s l (i # is) = end_unlocks s l is" using num False by (simp add: Let_def)
      moreover have "\<exists>s'. end_unlocks s l is = Some s' \<and> sy_inv s' \<and> bystanders l s s' \<and> \<not> inAWriteUnitOfWork s' l"
      proof (rule Cons.IH [OF Cons.prems(1,2) _ Cons.prems(4) _ Cons.prems(6)])
        show "\<exists>i \<in> set is. \<exists>x. entry_at (map_of_locker s l) i k x" if "k \<in> pending_keys s l" for k
          using Cons.prems(5) [OF that] False by (auto simp: entry_at_def)
      qed (use Cons.prems(3) in auto)
      ultimately show ?thesis by simp
    next
      case True
      define k where "k = entry_key ?e"
      define x where "x = entry_addr ?e"
      define n where "n = unlockPending (request_of s x)"
      have e: "entry_at (map_of_locker s l) i k x" using in_use_entry [OF len True] by (simp add: k_def x_def)
      have wf: "fm_wf (map_of_locker s l)" using sy_coreD(3) [OF Cons.prems(1)] by (simp add: maps_ok_def)
      have look: "lookup s l k = Some x" using e fm_lookup_iff [OF wf] by blast
      have kin: "k \<in> pending_keys s l \<longleftrightarrow> n \<noteq> 0" using look by (simp add: pending_keys_def n_def)
      define s0 where "s0 = with_pending s l x n (if n \<noteq> 0 then ?num - 1 else ?num)"
      have s0: "(if n \<noteq> 0 then upd_locker s l (\<lambda>k. k\<lparr>numResourcesToUnlockAtEndUnitOfWork :=
          numResourcesToUnlockAtEndUnitOfWork k - 1\<rparr>) else s) = s0"
        by (simp add: s0_def n_def with_pending_def upd_locker_def upd_request_def upd_req_def)
      have core0: "sy_core s0"
        unfolding s0_def using with_pending_core [OF Cons.prems(1) look] claim_count(4) [OF Cons.prems(1) look]
        by (simp add: n_def)
      have nw0: "\<not> inAWriteUnitOfWork s0 l" using Cons.prems(2) by (simp add: s0_def inAWriteUnitOfWork_def)
      obtain s1 where s1: "unlock_pending s0 l x k n = Some s1" "sy_core s1" "drained l i x s0 s1"
        using unlock_pending_ok [OF core0 nw0, of i k x n] e by (auto simp: s0_def n_def)
      have keys0: "pending_keys s0 l' = pending_keys s l'" for l'
        using with_pending_keys [OF sy_coreD(3) [OF Cons.prems(1)] look, of n _ l'] kin
        unfolding s0_def by (cases "n = 0") auto
      have e0: "entry_at (map_of_locker s0 l) i k x" using e by (simp add: s0_def)
      note pend = drained_pending [OF sy_coreD(3) [OF core0] sy_coreD(3) [OF s1(2)] e0 s1(3)]
      have by1: "bystanders l s s1"
        using bystanders_trans [OF bystanders_pending] s1(3) unfolding drained_def s0_def by blast
      have "\<exists>s'. end_unlocks s1 l is = Some s' \<and> sy_inv s' \<and> bystanders l s1 s' \<and> \<not> inAWriteUnitOfWork s' l"
      proof (rule Cons.IH [OF s1(2)])
        show "\<not> inAWriteUnitOfWork s1 l"
          using s1(3) nw0 by (simp add: drained_def same_fields_def inAWriteUnitOfWork_def)
        show "j < length (fastAccess (map_of_locker s1 l))" if "j \<in> set is" for j
          using that s1(3) Cons.prems(3) [of j] by (simp add: drained_def s0_def)
        have "numResourcesToUnlockAtEndUnitOfWork (sy_lockers s1 l) = (if n \<noteq> 0 then ?num - 1 else ?num)"
          using s1(3) by (simp add: drained_def same_fields_def s0_def with_pending_def)
        then show "numResourcesToUnlockAtEndUnitOfWork (sy_lockers s1 l) = card (pending_keys s1 l)"
          unfolding pend(1) keys0 using Cons.prems(4) kin pending_finite [of s l] by (simp add: card_Diff_singleton)
        show "\<exists>j \<in> set is. \<exists>y. entry_at (map_of_locker s1 l) j k' y" if k': "k' \<in> pending_keys s1 l" for k'
        proof -
          have "k' \<in> pending_keys s l" "k' \<noteq> k" using k' unfolding pend(1) keys0 by auto
          then obtain j y where j: "j \<in> set (i # is)" "entry_at (map_of_locker s l) j k' y" using Cons.prems(5) by blast
          have "j \<noteq> i" using j(2) e \<open>k' \<noteq> k\<close> by (auto simp: entry_at_def)
          then have "j \<in> set is" "entry_at (map_of_locker s1 l) j k' y"
            using j s1(3) by (auto simp: drained_def s0_def)
          then show ?thesis by blast
        qed
        show "numResourcesToUnlockAtEndUnitOfWork (sy_lockers s1 l') = card (pending_keys s1 l') \<and>
            (wuowNestingLevel (sy_lockers s1 l') = 0 \<longrightarrow> pending_keys s1 l' = {})" if l': "l' \<noteq> l" for l'
        proof -
          have "same_fields (sy_lockers s l') (sy_lockers s1 l')" using by1 l' by (simp add: bystanders_def)
          then show ?thesis
            using Cons.prems(6) [OF l'] unfolding pend(2) [OF l'] keys0 by (simp add: same_fields_def)
        qed
      qed
      then obtain s' where s': "end_unlocks s1 l is = Some s'" "sy_inv s'" "bystanders l s1 s'" "\<not> inAWriteUnitOfWork s' l"
        by blast
      have "end_unlocks s l (i # is) = Some s'"
        using num True s1(1) s'(1) s0 unfolding n_def k_def x_def by (simp add: Let_def)
      moreover have "bystanders l s s'" by (rule bystanders_trans [OF by1 s'(3)])
      ultimately show ?thesis using s'(2,4) by blast
    qed
  qed
qed

lemma endWriteUnitOfWork_ok:
  assumes inv: "sy_inv s" and legal: "inAWriteUnitOfWork s l"
  shows "\<exists>s'. endWriteUnitOfWork s l = Some s' \<and> sy_inv s' \<and> bystanders l s s' \<and>
    (wuowNestingLevel (sy_lockers s l) > 1 \<longrightarrow> (\<forall>k. write_held s l k \<longrightarrow> write_held s' l k) \<and>
       wuowNestingLevel (sy_lockers s' l) > 0 \<and>
       prepareModeForLockYields (sy_lockers s' l) = prepareModeForLockYields (sy_lockers s l))"
proof -
  let ?s = "upd_locker s l (\<lambda>k. k\<lparr>wuowNestingLevel := wuowNestingLevel k - 1\<rparr>)"
  have core: "sy_core s" and cnt: "counts_ok s" using inv by (simp_all add: sy_inv_core)
  note c = sy_coreD [OF core]
  have same: "map_of_locker ?s l' = map_of_locker s l'" "notify_result (sy_lockers ?s l') = notify_result (sy_lockers s l')"
      "numResourcesToUnlockAtEndUnitOfWork (sy_lockers ?s l') = numResourcesToUnlockAtEndUnitOfWork (sy_lockers s l')" for l'
    by simp_all
  have core0: "sy_core ?s"
  proof -
    have "tickets_ok ?s" by (rule tickets_ok_cong [OF c(6)]) simp_all
    then show ?thesis
      using c unfolding sy_core_def owned_ok_def waits_ok_def maps_ok_def is_blocked_def same by simp
  qed
  have keys: "pending_keys ?s l' = pending_keys s l'" for l' unfolding pending_keys_def same by simp
  have held: "write_held ?s l' k = write_held s l' k" for l' k unfolding write_held_def same by simp
  have by0: "bystanders l s ?s" unfolding bystanders_def held by simp
  show ?thesis
  proof (cases "wuowNestingLevel (sy_lockers s l) > 1")
    case True
    then have "endWriteUnitOfWork s l = Some ?s" by (simp add: endWriteUnitOfWork_def Let_def)
    moreover have "counts_ok ?s" using cnt True unfolding counts_ok_def keys same by auto
    ultimately show ?thesis using core0 by0 held True by (simp add: sy_inv_core)
  next
    case False
    then have one: "wuowNestingLevel (sy_lockers s l) = 1" using legal by (simp add: inAWriteUnitOfWork_def)
    have run: "endWriteUnitOfWork s l = end_unlocks ?s l (positions ?s l)"
      using one by (simp add: endWriteUnitOfWork_def Let_def)
    have wf: "fm_wf (map_of_locker ?s l)" using sy_coreD(3) [OF core0] by (simp only: maps_ok_def)
    have "\<exists>s'. end_unlocks ?s l (positions ?s l) = Some s' \<and> sy_inv s' \<and> bystanders l ?s s' \<and> \<not> inAWriteUnitOfWork s' l"
    proof (rule end_unlocks_ok [OF core0])
      show "\<not> inAWriteUnitOfWork ?s l" using one by (simp add: inAWriteUnitOfWork_def)
      show "numResourcesToUnlockAtEndUnitOfWork (sy_lockers ?s l) = card (pending_keys ?s l)"
        using cnt unfolding keys counts_ok_def same by blast
      show "\<exists>i \<in> set (positions ?s l). \<exists>x. entry_at (map_of_locker ?s l) i k x" if "k \<in> pending_keys ?s l" for k
        using that unfolding pending_keys_def fm_lookup_iff [OF wf] positions_def entry_at_def by auto
      show "numResourcesToUnlockAtEndUnitOfWork (sy_lockers ?s l') = card (pending_keys ?s l') \<and>
          (wuowNestingLevel (sy_lockers ?s l') = 0 \<longrightarrow> pending_keys ?s l' = {})" if "l' \<noteq> l" for l'
        using cnt that unfolding keys counts_ok_def by auto
    qed (simp add: positions_def)
    then show ?thesis unfolding run using bystanders_trans [OF by0] False by blast
  qed
qed

subsection \<open>Flags of a locker\<close>

definition flag_update :: "(Locker \<Rightarrow> Locker) \<Rightarrow> bool" where
  "flag_update f \<longleftrightarrow> (\<forall>k. lk_requests (f k) = lk_requests k \<and> notify_result (f k) = notify_result k \<and>
     wuowNestingLevel (f k) = wuowNestingLevel k \<and>
     numResourcesToUnlockAtEndUnitOfWork (f k) = numResourcesToUnlockAtEndUnitOfWork k \<and>
     modeForTicket (f k) = modeForTicket k \<and> clientState (f k) = clientState k)"

lemma flag_update_ok:
  assumes f: "flag_update f"
  shows "sy_inv s \<Longrightarrow> sy_inv (upd_locker s l f)" and "write_held (upd_locker s l f) l' k = write_held s l' k"
    and "bystanders l s (upd_locker s l f)" and "map_of_locker (upd_locker s l f) l' = map_of_locker s l'"
    and "inAWriteUnitOfWork (upd_locker s l f) l' = inAWriteUnitOfWork s l'"
proof -
  let ?s = "upd_locker s l f"
  have same: "map_of_locker ?s l' = map_of_locker s l'" "notify_result (sy_lockers ?s l') = notify_result (sy_lockers s l')"
      "numResourcesToUnlockAtEndUnitOfWork (sy_lockers ?s l') = numResourcesToUnlockAtEndUnitOfWork (sy_lockers s l')"
      "wuowNestingLevel (sy_lockers ?s l') = wuowNestingLevel (sy_lockers s l')"
      "modeForTicket (sy_lockers ?s l') = modeForTicket (sy_lockers s l')"
      "clientState (sy_lockers ?s l') = clientState (sy_lockers s l')" for l'
    using f by (simp_all add: flag_update_def)
  show "map_of_locker ?s l' = map_of_locker s l'" by (rule same)
  show held: "write_held ?s l' k = write_held s l' k" for l' k unfolding write_held_def same by simp
  show "bystanders l s ?s" unfolding bystanders_def held by simp
  show "inAWriteUnitOfWork ?s l' = inAWriteUnitOfWork s l'" unfolding inAWriteUnitOfWork_def same ..
  show "sy_inv ?s" if "sy_inv s"
    using that unfolding sy_inv_def owned_ok_def waits_ok_def maps_ok_def is_blocked_def counts_ok_def pending_keys_def
      tickets_ok_def Let_def same by simp
qed

subsection \<open>Yielding all locks\<close>

definition yield_type :: "ResourceId \<Rightarrow> LockMode \<Rightarrow> bool" where
  "yield_type k md \<longleftrightarrow> getType k = Some RESOURCE_DATABASE \<or> getType k = Some RESOURCE_COLLECTION \<or>
     getType k = Some RESOURCE_GLOBAL \<and> isSharedLockMode md"

definition yieldable :: "ResourceId \<Rightarrow> LockRequest \<Rightarrow> bool" where
  "yieldable k q \<longleftrightarrow> getType k = Some RESOURCE_MUTEX \<or>
     unlockPending q = 0 \<and> recursiveCount q = 1 \<and> (k = resourceIdGlobal \<or> yield_type k (mode q) \<and> \<not> blocked_status (status q))"

definition save_legal :: "LockSystem \<Rightarrow> LockerId \<Rightarrow> bool" where
  "save_legal s l \<longleftrightarrow>
     (case lookup s l resourceIdGlobal of
        None \<Rightarrow> in_use_all s l (\<lambda>k q. getType k = Some RESOURCE_MUTEX)
      | Some x \<Rightarrow> recursiveCount (request_of s x) > 1 \<or> in_use_all s l yieldable)"

definition may_yield :: "LockSystem \<Rightarrow> LockerId \<Rightarrow> bool" where
  "may_yield s l \<longleftrightarrow> \<not> inAWriteUnitOfWork s l \<or> prepareModeForLockYields (sy_lockers s l)"

lemma yield_unlock:
  assumes inv: "sy_inv s" and may: "may_yield s l" and e: "entry_at (map_of_locker s l) i k x"
    and q: "unlockPending (request_of s x) = 0" "recursiveCount (request_of s x) = 1"
  shows "\<exists>s'. lk_unlock s l k = Some (True, s') \<and> sy_inv s' \<and> drops l k x i True s s' \<and> may_yield s' l"
proof -
  have core: "sy_core s" using inv by (simp add: sy_inv_core)
  have wf: "fm_wf (map_of_locker s l)" using sy_coreD(3) [OF core] by (simp add: maps_ok_def)
  have look: "lookup s l k = Some x" using e fm_lookup_iff [OF wf] by blast
  have nd: "inAWriteUnitOfWork s l \<Longrightarrow> shouldDelayUnlock (sy_lockers s l) k md = Some False" for md
    using may by (simp add: may_yield_def shouldDelayUnlock_def)
  have "lk_unlock s l k = unlockImpl s l i"
    using it_find_at [OF wf e] nd e unfolding lk_unlock_def Let_def
    by (cases "inAWriteUnitOfWork s l") (auto simp: it_key_def it_objAddr_def it_finished_def entry_at_def)
  moreover obtain b s' where u: "unlockImpl s l i = Some (b, s')" "sy_core s'" "drops l k x i b s s'"
    using unlockImpl_ok [OF core e] q by auto
  moreover have b: b using u(3) q(2) by (simp add: drops_def unlock_outcome_def)
  moreover have "counts_ok s'" using drops_counts [OF core _ u(3) look] inv q by (simp add: sy_inv_core)
  moreover have "may_yield s' l"
    using may u(3) by (simp add: may_yield_def drops_def same_fields_def inAWriteUnitOfWork_def)
  ultimately show ?thesis by (simp add: sy_inv_core)
qed

lemma drops_own_other:
  assumes core: "sy_core s" and d: "drops l k x i b s s'" and e: "entry_at (map_of_locker s l) i k x"
    and j: "entry_at (map_of_locker s l) j k' y" "j \<noteq> i" and q: "yieldable k' (request_of s y)" "k' \<noteq> resourceIdGlobal"
  shows "yieldable k' (request_of s' y)"
proof (cases "getType k' = Some RESOURCE_MUTEX")
  case False
  then have nb: "\<not> blocked_status (status (request_of s y))" using q by (simp add: yieldable_def)
  obtain news where eff: "lm_effect x (sy_lm s) (sy_lm s') news" using d by (auto simp: drops_def)
  have ne: "y \<noteq> x" by (rule drops_other_count(2) [OF core d e j])
  have "y \<notin> set news" using eff nb unfolding lm_effect_def by blast
  then have "same_claim (request_of s y) (request_of s' y)" using eff ne unfolding lm_effect_def by blast
  moreover have "unlockPending (request_of s' y) = unlockPending (request_of s y)"
    using eff by (simp add: lm_effect_def framed_def)
  ultimately show ?thesis using q False by (simp add: yieldable_def same_claim_def)
qed (simp add: yieldable_def)

lemma save_rest_ok:
  assumes "sy_inv s" and "may_yield s l" and "\<And>i. i \<in> set is \<Longrightarrow> i < length (fastAccess (map_of_locker s l))"
    and "distinct is" and "\<And>i k x. i \<in> set is \<Longrightarrow> entry_at (map_of_locker s l) i k x \<Longrightarrow> yieldable k (request_of s x)"
    and "lookup s l resourceIdGlobal = None"
  shows "\<exists>locks s'. save_rest s l is = Some (locks, s') \<and> sy_inv s' \<and> bystanders l s s' \<and>
    (\<forall>k y. lookup s' l k = Some y \<longrightarrow> lookup s l k = Some y)"
  using assms
proof (induction "is" arbitrary: s)
  case (Cons i "is")
  let ?e = "fastAccess (map_of_locker s l) ! i"
  have len: "i < length (fastAccess (map_of_locker s l))" using Cons.prems(3) by simp
  show ?case
  proof (cases "inUse ?e \<and> getType (entry_key ?e) \<noteq> Some RESOURCE_MUTEX")
    case False
    have "save_rest s l (i # is) = save_rest s l is" using False by (auto simp: Let_def)
    moreover have "\<exists>locks s'. save_rest s l is = Some (locks, s') \<and> sy_inv s' \<and> bystanders l s s' \<and>
        (\<forall>k y. lookup s' l k = Some y \<longrightarrow> lookup s l k = Some y)"
      by (rule Cons.IH) (use Cons.prems in auto)
    ultimately show ?thesis by simp
  next
    case True
    define k where "k = entry_key ?e"
    define x where "x = entry_addr ?e"
    have e: "entry_at (map_of_locker s l) i k x" using in_use_entry [OF len] True by (simp add: k_def x_def)
    have core: "sy_core s" using Cons.prems(1) by (simp add: sy_inv_core)
    have wf: "fm_wf (map_of_locker s l)" using sy_coreD(3) [OF core] by (simp add: maps_ok_def)
    have look: "lookup s l k = Some x" using e fm_lookup_iff [OF wf] by blast
    have kg: "k \<noteq> resourceIdGlobal" using look Cons.prems(6) by auto
    have q: "unlockPending (request_of s x) = 0" "recursiveCount (request_of s x) = 1" "yield_type k (mode (request_of s x))"
      using Cons.prems(5) [OF _ e] True kg by (simp_all add: yieldable_def k_def)
    obtain s1 where s1: "lk_unlock s l k = Some (True, s1)" "sy_inv s1" "drops l k x i True s s1" "may_yield s1 l"
      using yield_unlock [OF Cons.prems(1,2) e q(1,2)] by blast
    have ent: "entry_at (map_of_locker s1 l) j k' y \<longleftrightarrow> entry_at (map_of_locker s l) j k' y \<and> j \<noteq> i" for j k' y
      using s1(3) by (simp add: drops_def)
    have look1: "lookup s1 l = (lookup s l)(k := None)" using s1(3) by (simp add: drops_def)
    have "\<exists>locks s'. save_rest s1 l is = Some (locks, s') \<and> sy_inv s' \<and> bystanders l s1 s' \<and>
        (\<forall>k y. lookup s' l k = Some y \<longrightarrow> lookup s1 l k = Some y)"
    proof (rule Cons.IH [OF s1(2,4)])
      show "j < length (fastAccess (map_of_locker s1 l))" if "j \<in> set is" for j
        using s1(3) Cons.prems(3) that by (simp add: drops_def)
      show "distinct is" using Cons.prems(4) by simp
      show "lookup s1 l resourceIdGlobal = None" using look1 Cons.prems(6) by simp
      show "yieldable k' (request_of s1 y)" if j: "j \<in> set is" "entry_at (map_of_locker s1 l) j k' y" for j k' y
      proof -
        have j': "entry_at (map_of_locker s l) j k' y" "j \<noteq> i" using j(2) unfolding ent by simp_all
        have "k' \<noteq> resourceIdGlobal" using j'(1) fm_lookup_iff [OF wf] Cons.prems(6) by (metis option.distinct(1))
        then show ?thesis using drops_own_other [OF core s1(3) e j'] Cons.prems(5) [OF _ j'(1)] j(1) by simp
      qed
    qed
    then obtain locks s' where s': "save_rest s1 l is = Some (locks, s')" "sy_inv s'" "bystanders l s1 s'"
        "\<forall>k y. lookup s' l k = Some y \<longrightarrow> lookup s1 l k = Some y" by blast
    have "save_rest s l (i # is) = Some ((k, mode (request_of s x)) # locks, s')"
      using True s1(1) s'(1) q(3) unfolding k_def x_def by (simp add: Let_def yield_type_def)
    moreover have "bystanders l s s'" by (rule bystanders_trans [OF drops_write_held(1) [OF core s1(3) look] s'(3)])
    moreover have "\<forall>k y. lookup s' l k = Some y \<longrightarrow> lookup s l k = Some y"
      using s'(4) unfolding look1 by (metis fun_upd_apply option.distinct(1))
    ultimately show ?thesis using s'(2) by blast
  qed
qed auto

lemma save_ok:
  assumes inv: "sy_inv s" and may: "may_yield s l" and legal: "save_legal s l"
  shows "\<exists>r s'. saveLockStateAndUnlock s l = Some (r, s') \<and> sy_inv s' \<and> bystanders l s s'"
proof (cases "lookup s l resourceIdGlobal")
  case None
  then have "in_use_all s l (\<lambda>k q. getType k = Some RESOURCE_MUTEX)" using legal by (simp add: save_legal_def)
  then have "saveLockStateAndUnlock s l = Some (None, s)"
    using None may by (auto simp: saveLockStateAndUnlock_def may_yield_def in_use_all_def list_all_iff)
  then show ?thesis using inv by auto
next
  case (Some x)
  have core: "sy_core s" using inv by (simp add: sy_inv_core)
  have wf: "fm_wf (map_of_locker s l)" using sy_coreD(3) [OF core] by (simp add: maps_ok_def)
  obtain i where e: "entry_at (map_of_locker s l) i resourceIdGlobal x" using Some fm_lookup_iff [OF wf] by blast
  show ?thesis
  proof (cases "recursiveCount (request_of s x) > 1")
    case True
    then have "saveLockStateAndUnlock s l = Some (None, s)"
      using Some may by (simp add: saveLockStateAndUnlock_def may_yield_def)
    then show ?thesis using inv by auto
  next
    case False
    then have all: "in_use_all s l yieldable" using legal Some by (simp add: save_legal_def)
    have "getType resourceIdGlobal \<noteq> Some RESOURCE_MUTEX" by (simp add: resourceIdGlobal_def)
    then have q: "unlockPending (request_of s x) = 0" "recursiveCount (request_of s x) = 1"
      using in_use_allD [OF all e] by (simp_all add: yieldable_def)
    obtain s1 where s1: "lk_unlock s l resourceIdGlobal = Some (True, s1)" "sy_inv s1"
        "drops l resourceIdGlobal x i True s s1" "may_yield s1 l"
      using yield_unlock [OF inv may e q] by blast
    have none: "lookup s1 l resourceIdGlobal = None" using s1(3) by (simp add: drops_def)
    have y: "yieldable k' (request_of s1 y)" if j: "entry_at (map_of_locker s1 l) j k' y" for j k' y
    proof -
      have j': "entry_at (map_of_locker s l) j k' y" "j \<noteq> i" using j s1(3) by (simp_all add: drops_def)
      have "k' \<noteq> resourceIdGlobal" using fm_wfD(1) [OF wf e] j' by blast
      then show ?thesis using drops_own_other [OF core s1(3) e j'] in_use_allD [OF all j'(1)] by simp
    qed
    obtain locks s' where s': "save_rest s1 l (positions s1 l) = Some (locks, s')" "sy_inv s'" "bystanders l s1 s'"
        "\<forall>k y. lookup s' l k = Some y \<longrightarrow> lookup s1 l k = Some y"
      using save_rest_ok [OF s1(2,4), of "positions s1 l"] y none by (auto simp: positions_def)
    have none': "lookup s' l resourceIdGlobal = None" using s'(4) none by (metis option.exhaust option.distinct(1))
    then have "\<not> isLocked s' l" by (simp add: isLocked_def getLockMode_def)
    then have "\<exists>r. saveLockStateAndUnlock s l = Some (r, s')"
      using Some False may s1(1) s'(1) by (simp add: saveLockStateAndUnlock_def may_yield_def)
    moreover have "bystanders l s s'" by (rule bystanders_trans [OF drops_write_held(1) [OF core s1(3) Some] s'(3)])
    ultimately show ?thesis using s'(2) by blast
  qed
qed

lemma save_prepare_ok:
  assumes inv: "sy_inv s" and legal: "save_legal s l" and off: "\<not> prepareModeForLockYields (sy_lockers s l)"
  shows "\<exists>r s'. saveLockStateAndUnlockForPrepare s l = Some (r, s') \<and> sy_inv s' \<and> bystanders l s s'"
proof -
  let ?on = "\<lambda>k. k\<lparr>prepareModeForLockYields := True\<rparr>" and ?off = "\<lambda>k. k\<lparr>prepareModeForLockYields := False\<rparr>"
  have f: "flag_update ?on" "flag_update ?off" by (simp_all add: flag_update_def)
  note on = flag_update_ok [OF f(1)] and off' = flag_update_ok [OF f(2)]
  let ?s = "upd_locker s l ?on"
  have "may_yield ?s l" by (simp add: may_yield_def)
  moreover have "save_legal ?s l" using legal unfolding save_legal_def in_use_all_def on(4)
    by (cases "lookup s l resourceIdGlobal") simp_all
  ultimately obtain r s1 where s1: "saveLockStateAndUnlock ?s l = Some (r, s1)" "sy_inv s1" "bystanders l ?s s1"
    using save_ok [OF on(1) [OF inv]] by blast
  have "saveLockStateAndUnlockForPrepare s l = Some (r, upd_locker s1 l ?off)"
    using off s1(1) by (simp add: saveLockStateAndUnlockForPrepare_def)
  moreover have "bystanders l s (upd_locker s1 l ?off)"
    by (rule bystanders_trans [OF on(3) bystanders_trans [OF s1(3) off'(3)]])
  ultimately show ?thesis using off'(1) [OF s1(2)] by blast
qed

end
