(* ===== verification/Locker_Acquire.thy ===== *)
theory Locker_Acquire
  imports Locker_Units
begin

text \<open>
  Acquisition of locks: a new request, the conversion of a request the locker has, the reuse of a
  pending unlock, waiting, tickets, and downgrade. Each keeps the invariant and every write lock.
\<close>

subsection \<open>Changing the request of a held lock\<close>

lemma notify_clear_core:
  assumes "sy_core s"
  shows "sy_core (upd_locker s l (\<lambda>k. k\<lparr>notify_result := LOCK_INVALID\<rparr>))"
proof -
  let ?s = "upd_locker s l (\<lambda>k. k\<lparr>notify_result := LOCK_INVALID\<rparr>)"
  note c = sy_coreD [OF assms]
  have same: "map_of_locker ?s l' = map_of_locker s l'" for l' by simp
  have "tickets_ok ?s" by (rule tickets_ok_cong [OF c(6)]) simp_all
  moreover have "waits_ok {} ?s" using c(5) unfolding waits_ok_def is_blocked_def same by simp
  ultimately show ?thesis using c unfolding sy_core_def owned_ok_def maps_ok_def same by simp
qed

lemma change_ok:
  assumes core: "sy_core s" and x: "lookup s l k = Some x" and eff: "lm_effect x (sy_lm s) m' news"
    and own: "holder m' k x" "unlockPending (reqs m' x) \<le> recursiveCount (reqs m' x)"
    and wait: "blocked_status (status (reqs m' x)) \<Longrightarrow> notify_result (sy_lockers s l) = LOCK_INVALID \<and>
      (\<forall>k' y. lookup s l k' = Some y \<longrightarrow> y \<noteq> x \<longrightarrow> \<not> is_blocked s y)"
  shows "\<exists>s'. with_lm s m' = Some s' \<and> notify_only (s\<lparr>sy_lm := m'\<rparr>) s' \<and> sy_core s' \<and> sy_lm s' = m' \<and>
    (\<forall>l'. lookup s' l' = lookup s l') \<and> (\<forall>l'. pending_keys s' l' = pending_keys s l')"
proof -
  note c = sy_coreD [OF core]
  obtain s' where s': "with_lm s m' = Some s'" "notify_only (s\<lparr>sy_lm := m'\<rparr>) s'" "owned_ok {x} s'" "waits_ok {x} s'"
      "\<forall>l. (\<forall>k y. lookup s l k = Some y \<longrightarrow> y \<noteq> x \<longrightarrow> \<not> is_blocked s y) \<longrightarrow> sy_lockers s' l = sy_lockers s l"
    using with_lm_ok [OF owned_ok_mono [OF c(4)] waits_ok_mono [OF c(5)] eff] by blast
  have lm: "sy_lm s' = m'" using notify_onlyD(1) [OF s'(2)] by simp
  have look: "lookup s' l' = lookup s l'" for l' using notify_onlyD(5) [OF s'(2), of l'] by simp
  have fr: "locker (reqs m' y) = locker (request_of s y)" "unlockPending (reqs m' y) = unlockPending (request_of s y)" for y
    using eff by (simp_all add: lm_effect_def framed_def)
  have lk: "locker (request_of s x) = l" by (rule claim_count(3) [OF core x])
  have "owned_ok {} s'"
  proof (rule owned_close [OF s'(3)])
    fix l' k' assume "lookup s' l' k' = Some x"
    then have "l' = l" "k' = k" using lookup_unique [OF c(3) x] look by simp_all
    then show "locker (request_of s' x) = l' \<and> (holder (sy_lm s') k' x \<or> waiter (sy_lm s') k' x) \<and>
        unlockPending (request_of s' x) \<le> recursiveCount (request_of s' x)"
      using fr(1) lk own by (simp add: lm)
  qed (use x look in auto)
  moreover have "waits_ok {} s'"
  proof (rule waits_close [OF s'(4)])
    fix l' k' assume "lookup s' l' k' = Some x" and b: "is_blocked s' x"
    then have l': "l' = l" using lookup_unique [OF c(3) x] look by simp
    have w: "notify_result (sy_lockers s l) = LOCK_INVALID" "\<forall>k' y. lookup s l k' = Some y \<longrightarrow> y \<noteq> x \<longrightarrow> \<not> is_blocked s y"
      using wait b by (simp_all add: is_blocked_def lm)
    have "\<not> is_blocked s' y" if y: "lookup s l k' = Some y" "y \<noteq> x" for k' y
    proof
      assume b': "is_blocked s' y"
      then have "y \<notin> set news" using eff unfolding lm_effect_def is_blocked_def lm by (auto simp: blocked_status_def)
      then have "status (reqs m' y) = status (request_of s y)"
        using eff y(2) unfolding lm_effect_def same_claim_def by blast
      then show False using w(2) y b' by (simp add: is_blocked_def lm)
    qed
    then show "notify_result (sy_lockers s' l') = LOCK_INVALID \<and>
        (\<forall>k' y. lookup s' l' k' = Some y \<longrightarrow> y \<noteq> x \<longrightarrow> \<not> is_blocked s' y)"
      using s'(5) w l' look by simp
  qed
  moreover have "maps_ok s'"
    using c(3) notify_onlyD(3) [OF s'(2)] notify_onlyD(5) [OF s'(2)] by (simp add: maps_ok_def)
  moreover have "tickets_ok s'"
    by (rule tickets_ok_cong [OF c(6)]) (simp_all add: notify_onlyD [OF s'(2)])
  moreover have "lm_inv m'" "no_temp m'" using eff by (simp_all add: lm_effect_def)
  moreover have "pending_keys s' l' = pending_keys s l'" for l'
    unfolding pending_keys_def look lm fr(2) ..
  ultimately show ?thesis using s'(1,2) look by (simp add: sy_core_def lm)
qed

lemma kept_counts:
  assumes "counts_ok s" and "\<And>l. pending_keys s' l = pending_keys s l"
    and "\<And>l. same_fields (sy_lockers s l) (sy_lockers s' l)"
  shows "counts_ok s'"
  using assms by (simp add: counts_ok_def same_fields_def)

subsection \<open>Downgrade\<close>

definition downgrade_legal :: "LockSystem \<Rightarrow> LockerId \<Rightarrow> ResourceId \<Rightarrow> LockMode \<Rightarrow> bool" where
  "downgrade_legal s l k md \<longleftrightarrow>
     (case lookup s l k of None \<Rightarrow> False | Some x \<Rightarrow> lm_legal (sy_lm s) (Downgrade x md))"

lemma lk_downgrade_ok:
  assumes inv: "sy_inv s" and legal: "downgrade_legal s l k md"
  shows "\<exists>s'. lk_downgrade s l k md = Some s' \<and> sy_inv s' \<and> bystanders l s s' \<and> same_fields (sy_lockers s l) (sy_lockers s' l) \<and>
    (\<forall>k'. k' \<noteq> k \<longrightarrow> write_held s l k' \<longrightarrow> write_held s' l k')"
proof -
  have core: "sy_core s" and cnt: "counts_ok s" using inv by (simp_all add: sy_inv_core)
  note c = sy_coreD [OF core]
  obtain x where x: "lookup s l k = Some x" and q: "on_granted_queue (sy_lm s) x"
      "status (request_of s x) = STATUS_GRANTED" "isModeCovered md (mode (request_of s x))" "md \<noteq> MODE_NONE"
    using legal by (auto simp: downgrade_legal_def split: option.splits)
  obtain ptr h where h: "deref (sy_lm s) ptr = Some h" "x \<in> set (grantedList h)" using on_granted_queueD [OF q(1)] by blast
  obtain m' news where run: "lm_downgrade (sy_lm s) x md = Some m'" and inv': "lm_inv m'"
    and w: "woken ptr x (sy_lm s) m' news" and rq: "reqs m' x = (request_of s x)\<lparr>mode := md\<rparr>" and at: "at_head (deref m') ptr x"
    using downgrade_run [OF c(1) h q(2,3,4)] by blast
  have eff: "lm_effect x (sy_lm s) m' news"
    by (rule effect_woken [OF c(1,2) inv' no_temp_downgrade [OF c(2) run] framed_mono [OF framed_downgrade [OF run]] w])
  have "holder (sy_lm s) k x" using claim_count(5) [OF core x] q(2) by auto
  then have "ptr = ManagedHead k"
    using claim_at_head [OF c(1), of ptr x k] h by (auto simp: at_head_def)
  then have hold: "holder m' k x" using at_head_granted [OF inv'] at rq q(2) by simp
  have rc: "unlockPending (reqs m' x) \<le> recursiveCount (reqs m' x)" using rq claim_count(4) [OF core x] by simp
  obtain s' where s': "with_lm s m' = Some s'" "notify_only (s\<lparr>sy_lm := m'\<rparr>) s'" "sy_core s'" "sy_lm s' = m'"
      "\<forall>l'. lookup s' l' = lookup s l'" "\<forall>l'. pending_keys s' l' = pending_keys s l'"
    using change_ok [OF core x eff hold rc] rq q(2) by (auto simp: blocked_status_def)
  have f: "same_fields (sy_lockers s l') (sy_lockers s' l')" for l' using notify_only_fields [OF s'(2), of l'] by simp
  have "it_objAddr (map_of_locker s l) (it_find (map_of_locker s l) k) = Some x" using x by (simp add: fm_lookup_def)
  then have "lk_downgrade s l k md = Some s'" using run s'(1) by (simp add: lk_downgrade_def)
  moreover have keep: "write_held s' l' k'" if "(l', k') \<noteq> (l, k)" and held: "write_held s l' k'" for l' k'
  proof -
    obtain y where y: "lookup s l' k' = Some y" using held by (auto simp: write_held_def)
    have "y \<noteq> x" using lookup_unique [OF c(3) x] y \<open>(l', k') \<noteq> (l, k)\<close> by blast
    then show ?thesis using effect_write_held [OF c(1) _ y _ _ held] eff s'(4,5) y by auto
  qed
  moreover have "bystanders l s s'" using keep f by (simp add: bystanders_def)
  moreover have "sy_inv s'" using s'(3) kept_counts [OF cnt] s'(6) f by (simp add: sy_inv_core)
  ultimately show ?thesis using f by blast
qed

subsection \<open>Conversion\<close>

definition no_wait :: "LockSystem \<Rightarrow> LockerId \<Rightarrow> bool" where
  "no_wait s l = in_use_all s l (\<lambda>k q. \<not> blocked_status (status q))"

lemma no_waitD:
  assumes "maps_ok s" and "no_wait s l" and "lookup s l k = Some x"
  shows "\<not> is_blocked s x"
proof -
  have wf: "fm_wf (map_of_locker s l)" using assms(1) by (simp add: maps_ok_def)
  then obtain i where "entry_at (map_of_locker s l) i k x" using assms(3) unfolding fm_lookup_iff [OF wf] by blast
  from in_use_allD [OF assms(2) [unfolded no_wait_def] this] show ?thesis by (simp add: is_blocked_def)
qed

lemma convert_ok:
  assumes inv: "sy_inv s" and x: "lookup s l k = Some x" and nw: "no_wait s l"
    and inval: "notify_result (sy_lockers s l) = LOCK_INVALID" and cmp: "comparable md (mode (request_of s x))"
  shows "\<exists>result m' s'. lm_convert (sy_lm s) k x md = Some (result, m') \<and> with_lm s m' = Some s' \<and> sy_inv s' \<and>
    bystanders l s s' \<and> same_fields (sy_lockers s l) (sy_lockers s' l) \<and> (\<forall>k'. write_held s l k' \<longrightarrow> write_held s' l k') \<and>
    lookup s' l k = Some x \<and> recursiveCount (request_of s' x) \<ge> 2 \<and>
    unlockPending (request_of s' x) < recursiveCount (request_of s' x) \<and> (result = LOCK_OK \<or> result = LOCK_WAITING)"
proof -
  have core: "sy_core s" and cnt: "counts_ok s" using inv by (simp_all add: sy_inv_core)
  note c = sy_coreD [OF core]
  have free: "\<not> is_blocked s y" if "lookup s l k' = Some y" for k' y by (rule no_waitD [OF c(3) nw that])
  have h: "holder (sy_lm s) k x" using claim_count(5) [OF core x] free [OF x] by (auto simp: is_blocked_def blocked_status_def)
  have st: "status (request_of s x) = STATUS_GRANTED"
    using holder_status(1) [OF c(1) h] free [OF x] by (auto simp: is_blocked_def blocked_status_def)
  obtain result m' where run: "lm_convert (sy_lm s) k x md = Some (result, m')" and inv': "lm_inv m'"
    and ok: "others_kept x (sy_lm s) m'" and out: "convert_outcome (sy_lm s) m' k x md result"
    and ns: "notified m' = notified (sy_lm s)"
    using convert_run [OF c(1) h st, of md] cmp by (auto simp: comparable_def)
  have eff: "lm_effect x (sy_lm s) m' []"
    by (rule effect_kept [OF inv' no_temp_convert [OF c(2) run] framed_convert [OF run] ok ns])
  have o: "holder m' k x" "recursiveCount (reqs m' x) = recursiveCount (request_of s x) + 1"
      "result = LOCK_OK \<or> result = LOCK_WAITING"
    using out by (auto simp: convert_outcome_def)
  have pend: "unlockPending (reqs m' x) = unlockPending (request_of s x)" using eff by (simp add: lm_effect_def framed_def)
  have le: "unlockPending (reqs m' x) \<le> recursiveCount (reqs m' x)"
    using claim_count(4) [OF core x] o(2) pend by simp
  have lt: "unlockPending (reqs m' x) < recursiveCount (reqs m' x)" "recursiveCount (reqs m' x) \<ge> 2"
    using claim_count(1,4) [OF core x] o(2) pend by simp_all
  obtain s' where s': "with_lm s m' = Some s'" "notify_only (s\<lparr>sy_lm := m'\<rparr>) s'" "sy_core s'" "sy_lm s' = m'"
      "\<forall>l'. lookup s' l' = lookup s l'" "\<forall>l'. pending_keys s' l' = pending_keys s l'"
    using change_ok [OF core x eff o(1) le] inval free by blast
  have f: "same_fields (sy_lockers s l') (sy_lockers s' l')" for l' using notify_only_fields [OF s'(2), of l'] by simp
  have keep: "write_held s' l' k'" if held: "write_held s l' k'" for l' k'
  proof (cases "(l', k') = (l, k)")
    case True
    have "mode (request_of s x) \<in> {MODE_IX, MODE_X}" using held x True by (auto simp: write_held_def)
    moreover have "mode (reqs m' x) = mode (request_of s x) \<or>
        isModeCovered (mode (request_of s x)) md \<and> mode (reqs m' x) = md"
      using out cmp by (auto simp: convert_outcome_def comparable_def split: if_splits)
    ultimately have "mode (reqs m' x) \<in> {MODE_IX, MODE_X}" using write_mode_upwards by metis
    then show ?thesis using o(1) x s'(4,5) True by (auto simp: write_held_def)
  next
    case False
    obtain y where y: "lookup s l' k' = Some y" using held by (auto simp: write_held_def)
    have "y \<noteq> x" using lookup_unique [OF c(3) x] y False by blast
    then show ?thesis using effect_write_held [OF c(1) _ y _ _ held] eff s'(4,5) y by auto
  qed
  have "bystanders l s s'" using keep f by (simp add: bystanders_def)
  moreover have "sy_inv s'" using s'(3) kept_counts [OF cnt] s'(6) f by (simp add: sy_inv_core)
  ultimately show ?thesis
    using run s'(1,4,5) f keep x lt o(3) by (intro exI [of _ result] exI [of _ m'] exI [of _ s']) simp
qed

subsection \<open>A new request\<close>

text \<open>The tickets as they are when the request for \<open>k\<close> has been entered.\<close>

definition tickets_with :: "LockerId \<Rightarrow> ResourceId \<Rightarrow> LockSystem \<Rightarrow> bool" where
  "tickets_with l k s \<longleftrightarrow> (\<forall>l'. let q = sy_lockers s l' in
     (modeForTicket q = MODE_NONE \<longleftrightarrow> lookup s l' resourceIdGlobal = None \<and> \<not> (l' = l \<and> k = resourceIdGlobal)) \<and>
     (clientState q = kInactive \<or> clientState q = active_state (modeForTicket q)))"

lemma tickets_with_other: "tickets_ok s \<Longrightarrow> k \<noteq> resourceIdGlobal \<Longrightarrow> tickets_with l k s"
  by (simp add: tickets_ok_def tickets_with_def)

lemma new_slot:
  assumes maps: "maps_ok s" and own: "owned_ok {} s" and nt: "no_temp (sy_lm s)" and none: "lookup s l k = None"
  shows "\<exists>x rs. fm_add (map_of_locker s l) k (sy_next s) = Some (x, rs) \<and> fm_wf rs \<and>
    fm_lookup rs = (lookup s l)(k \<mapsto> x) \<and> fm_slots rs = insert x (fm_slots (map_of_locker s l)) \<and> x \<le> sy_next s \<and>
    (\<forall>l'. x \<in> fm_slots (map_of_locker s l') \<longrightarrow> l' = l) \<and> (\<forall>l' k'. lookup s l' k' \<noteq> Some x) \<and>
    \<not> lm_attached (sy_lm s) x \<and> (\<forall>k'. \<not> holder (sy_lm s) k' x \<and> \<not> waiter (sy_lm s) k' x) \<and>
    unlockPending (request_of s x) = 0"
proof -
  have wf: "fm_wf (map_of_locker s l')" for l' using maps by (simp add: maps_ok_def)
  have lt: "y < sy_next s" if "y \<in> fm_slots (map_of_locker s l')" for y l' using maps that unfolding maps_ok_def by blast
  have "sy_next s \<notin> fm_slots (map_of_locker s l)" using lt by blast
  then obtain x rs where a: "fm_add (map_of_locker s l) k (sy_next s) = Some (x, rs)" "fm_wf rs"
      "fm_lookup rs = (lookup s l)(k \<mapsto> x)" "x = sy_next s \<or> x \<in> fm_slots (map_of_locker s l)" "x \<notin> ran (lookup s l)"
      "fm_slots rs = insert x (fm_slots (map_of_locker s l))"
    using fm.add_ok [OF wf none] by blast
  have slot: "l' = l" if "x \<in> fm_slots (map_of_locker s l')" for l'
    using a(4) lt [OF that] that maps unfolding maps_ok_def by blast
  have notin: "lookup s l' k' \<noteq> Some x" for l' k'
  proof
    assume x: "lookup s l' k' = Some x"
    then have "l' = l" using slot fm.lookup_slot [OF wf] by blast
    then show False using x a(5) by (auto simp: ran_def)
  qed
  then have claim: "\<not> (holder (sy_lm s) k' x \<or> waiter (sy_lm s) k' x)" for k'
    using own unfolding owned_ok_def by blast
  moreover have "unlockPending (request_of s x) = 0" using own notin unfolding owned_ok_def by blast
  moreover have "x \<le> sy_next s" using a(4) lt [of x l] by auto
  moreover have "\<not> lm_attached (sy_lm s) x" using attached_claimed [OF nt] claim by blast
  ultimately show ?thesis using a slot notin by blast
qed

lemma new_ok:
  assumes base: "lm_inv (sy_lm s)" "no_temp (sy_lm s)" "maps_ok s" "owned_ok {} s" "waits_ok {} s"
    and cnt: "counts_ok s" and tk: "tickets_with l k s" and none: "lookup s l k = None" and nw: "no_wait s l" and md: "md \<noteq> MODE_NONE"
    and add: "fm_add (map_of_locker s l) k (sy_next s) = Some (x, rs)"
    and s1: "sy_lm s1 = upd_req (sy_lm s) x f" "sy_next s1 = Suc (sy_next s)"
      "sy_lockers s1 = (sy_lockers s)(l := (sy_lockers s l)\<lparr>lk_requests := rs, notify_result := LOCK_INVALID\<rparr>)"
    and f: "\<And>q. fresh_request (f q) \<and> locker (f q) = l \<and> unlockPending (f q) = unlockPending q"
  shows "\<exists>result m' s'. lm_lock (sy_lm s1) k x md = Some (result, m') \<and> with_lm s1 m' = Some s' \<and> sy_inv s' \<and>
    bystanders l s s' \<and> same_fields (sy_lockers s l) (sy_lockers s' l) \<and> (\<forall>k'. write_held s l k' \<longrightarrow> write_held s' l k') \<and>
    lookup s' l k = Some x \<and> recursiveCount (request_of s' x) = 1 \<and> unlockPending (request_of s' x) = 0 \<and>
    (result = LOCK_OK \<or> result = LOCK_WAITING)"
proof -
  have rs0: "fm_wf rs" "fm_lookup rs = (lookup s l)(k \<mapsto> x)" "fm_slots rs = insert x (fm_slots (map_of_locker s l))"
      "x \<le> sy_next s" "\<And>l'. x \<in> fm_slots (map_of_locker s l') \<Longrightarrow> l' = l" "\<And>l' k'. lookup s l' k' \<noteq> Some x"
      "\<not> lm_attached (sy_lm s) x" "\<And>k'. \<not> holder (sy_lm s) k' x \<and> \<not> waiter (sy_lm s) k' x"
      "unlockPending (request_of s x) = 0"
    using new_slot [OF base(3,4,2) none] add by auto
  have maps1: "map_of_locker s1 l' = (if l' = l then rs else map_of_locker s l')" for l' using s1(3) by simp
  have look1: "lookup s1 l' k' = (if l' = l \<and> k' = k then Some x else lookup s l' k')" for l' k'
    unfolding maps1 using rs0(2) by simp
  have req1: "request_of s1 y = (if y = x then f (request_of s x) else request_of s y)" for y using s1(1) by simp
  have old: "lookup s1 l' k' = Some y \<Longrightarrow> y \<noteq> x \<Longrightarrow> lookup s l' k' = Some y" for l' k' y
    unfolding look1 by (auto split: if_splits)
  have kept: "lookup s l' k' = Some y \<Longrightarrow> lookup s1 l' k' = Some y" for l' k' y
    unfolding look1 using none by auto
  have own1: "owned_ok {x} s1"
    unfolding owned_ok_def
  proof (intro conjI allI impI)
    fix l' k' y assume y: "lookup s1 l' k' = Some y" "y \<notin> {x}"
    then have "lookup s l' k' = Some y" using old by simp
    then have "locker (request_of s y) = l' \<and> (holder (sy_lm s) k' y \<or> waiter (sy_lm s) k' y) \<and>
        unlockPending (request_of s y) \<le> recursiveCount (request_of s y)" using base(4) unfolding owned_ok_def by blast
    then show "locker (request_of s1 y) = l'" "holder (sy_lm s1) k' y \<or> waiter (sy_lm s1) k' y"
        "unlockPending (request_of s1 y) \<le> recursiveCount (request_of s1 y)" using y(2) s1(1) by simp_all
  next
    fix y assume y: "y \<notin> {x}" "\<exists>k. holder (sy_lm s1) k y \<or> waiter (sy_lm s1) k y"
    then obtain l' k' where "lookup s l' k' = Some y" using base(4) s1(1) unfolding owned_ok_def by auto
    then show "\<exists>l k. lookup s1 l k = Some y" using kept by blast
  next
    fix y assume y: "y \<notin> {x}" "\<forall>l k. lookup s1 l k \<noteq> Some y"
    then have "\<forall>l k. lookup s l k \<noteq> Some y" using kept by blast
    then show "unlockPending (request_of s1 y) = 0" using base(4) y(1) s1(1) unfolding owned_ok_def by simp
  qed
  have blk: "is_blocked s1 y = is_blocked s y" if "y \<noteq> x" for y using that by (simp add: is_blocked_def req1)
  have wt1: "waits_ok {x} s1"
    unfolding waits_ok_def
  proof (intro allI impI conjI)
    fix l' k' y assume y: "lookup s1 l' k' = Some y" "y \<notin> {x}" "is_blocked s1 y"
    then have w: "notify_result (sy_lockers s l') = LOCK_INVALID"
        "\<forall>k' z. lookup s l' k' = Some z \<longrightarrow> z \<notin> {} \<longrightarrow> is_blocked s z \<longrightarrow> z = y"
      using base(5) old [OF y(1)] blk [of y] unfolding waits_ok_def by blast+
    show "notify_result (sy_lockers s1 l') = LOCK_INVALID" using w(1) s1(3) by simp
    show "z = y" if "lookup s1 l' k'' = Some z" "z \<notin> {x}" "is_blocked s1 z" for k'' z
      using w(2) old [of l' k'' z] that blk [of z] by simp
  qed
  have inv1: "lm_inv (sy_lm s1)" "no_temp (sy_lm s1)" using lm_inv_unattached [OF base(1) rs0(7)] base(2) s1(1) by simp_all
  have pre: "\<not> lm_attached (sy_lm s1) x" "fresh_request (request_of s1 x)" using rs0(7) s1(1) f by simp_all
  obtain result m' where run: "lm_lock (sy_lm s1) k x md = Some (result, m')" and inv': "lm_inv m'"
    and ok: "others_kept x (sy_lm s1) m'" and out: "lock_outcome m' k x md result" and ns: "notified m' = notified (sy_lm s1)"
    using lock_run [OF inv1(1) pre md] by blast
  have eff: "lm_effect x (sy_lm s1) m' []"
    by (rule effect_kept [OF inv' no_temp_lock [OF inv1(2) run] framed_lock [OF run] ok ns])
  obtain s' where s': "with_lm s1 m' = Some s'" "notify_only (s1\<lparr>sy_lm := m'\<rparr>) s'" "owned_ok {x} s'" "waits_ok {x} s'"
      "\<forall>l. (\<forall>k y. lookup s1 l k = Some y \<longrightarrow> y \<noteq> x \<longrightarrow> \<not> is_blocked s1 y) \<longrightarrow> sy_lockers s' l = sy_lockers s1 l"
    using with_lm_ok [OF own1 wt1 eff] by blast
  have lm: "sy_lm s' = m'" using notify_onlyD(1) [OF s'(2)] by simp
  have maps': "map_of_locker s' l' = map_of_locker s1 l'" for l' using notify_onlyD(5) [OF s'(2), of l'] by simp
  have free: "\<not> is_blocked s1 y" if "lookup s1 l k' = Some y" "y \<noteq> x" for k' y
    using no_waitD [OF base(3) nw old [OF that]] blk that by blast
  have fx: "locker (reqs m' x) = l" "unlockPending (reqs m' x) = 0" "recursiveCount (reqs m' x) = 1"
      "holder m' k x \<or> waiter m' k x" "result = LOCK_OK \<or> result = LOCK_WAITING"
    using eff f rs0(9) out by (auto simp: lm_effect_def framed_def req1 lock_outcome_def)
  have pend: "unlockPending (reqs m' y) = unlockPending (request_of s y)" for y
    using eff f by (simp add: lm_effect_def framed_def req1)
  have only: "l' = l \<and> k' = k" if "lookup s1 l' k' = Some x" for l' k'
    using that rs0(6) unfolding look1 by (auto split: if_splits)
  have "owned_ok {} s'"
  proof (rule owned_close [OF s'(3)])
    fix l' k' assume "lookup s' l' k' = Some x"
    then have "l' = l \<and> k' = k" using only unfolding maps' by blast
    then show "locker (request_of s' x) = l' \<and> (holder (sy_lm s') k' x \<or> waiter (sy_lm s') k' x) \<and>
        unlockPending (request_of s' x) \<le> recursiveCount (request_of s' x)" using fx by (simp add: lm)
  next
    show "\<exists>l k. lookup s' l k = Some x" unfolding maps' look1 by auto
  qed (simp add: lm fx)
  moreover have "waits_ok {} s'"
  proof (rule waits_close [OF s'(4)])
    fix l' k' assume "lookup s' l' k' = Some x" "is_blocked s' x"
    then have l': "l' = l" using only unfolding maps' by blast
    have "\<not> is_blocked s' y" if y: "lookup s' l k'' = Some y" "y \<noteq> x" for k'' y
      using free [of k'' y] y eff unfolding maps' is_blocked_def lm lm_effect_def same_claim_def by simp
    moreover have "sy_lockers s' l = sy_lockers s1 l" using s'(5) free by blast
    ultimately show "notify_result (sy_lockers s' l') = LOCK_INVALID \<and>
        (\<forall>k' y. lookup s' l' k' = Some y \<longrightarrow> y \<noteq> x \<longrightarrow> \<not> is_blocked s' y)" using s1(3) l' by simp
  qed
  moreover have "maps_ok s'"
    unfolding maps_ok_def maps' maps1
  proof (intro conjI allI impI)
    show "fm_wf (if l' = l then rs else map_of_locker s l')" for l' using rs0(1) base(3) by (simp add: maps_ok_def)
    fix l' y assume y: "y \<in> fm_slots (if l' = l then rs else map_of_locker s l')"
    have nx: "sy_next s' = Suc (sy_next s)" using notify_onlyD(3) [OF s'(2)] s1(2) by simp
    show "y < sy_next s'"
      using y rs0(3,4) base(3) unfolding nx maps_ok_def by (auto split: if_splits intro: less_SucI)
    fix l'' assume "y \<in> fm_slots (if l'' = l then rs else map_of_locker s l'')"
    then show "l'' = l'" using y rs0(3,5) base(3) unfolding maps_ok_def by (auto split: if_splits)
  qed
  moreover have "tickets_ok s'"
    unfolding tickets_ok_def Let_def
  proof (intro allI)
    fix l'
    have m: "modeForTicket (sy_lockers s' l') = modeForTicket (sy_lockers s l')"
        "clientState (sy_lockers s' l') = clientState (sy_lockers s l')"
      using notify_onlyD(8,9) [OF s'(2), of l'] s1(3) by simp_all
    show "(modeForTicket (sy_lockers s' l') = MODE_NONE \<longleftrightarrow> lookup s' l' resourceIdGlobal = None) \<and>
        (clientState (sy_lockers s' l') = kInactive \<or> clientState (sy_lockers s' l') = active_state (modeForTicket (sy_lockers s' l')))"
      unfolding m maps' look1 using tk by (auto simp: tickets_with_def Let_def)
  qed
  moreover have "lm_inv m'" "no_temp m'" using eff by (simp_all add: lm_effect_def)
  ultimately have core': "sy_core s'" by (simp add: sy_core_def lm)
  have f1: "same_fields (sy_lockers s l') (sy_lockers s' l')" for l'
    using notify_only_fields [OF s'(2), of l'] s1(3) by (auto simp: same_fields_def)
  have keys: "pending_keys s' l' = pending_keys s l'" for l'
    unfolding pending_keys_def maps' look1 lm pend using rs0(9) none by (auto split: if_splits)
  have keep: "write_held s' l' k'" if held: "write_held s l' k'" for l' k'
  proof -
    obtain y where y: "lookup s l' k' = Some y" "holder (sy_lm s) k' y" "mode (request_of s y) \<in> {MODE_IX, MODE_X}"
      using held by (auto simp: write_held_def)
    have "y \<noteq> x" using rs0(6) y(1) by blast
    moreover from this have "write_held s1 l' k'"
      using kept [OF y(1)] y(2,3) s1(1) by (auto simp: write_held_def)
    ultimately show ?thesis
      using effect_write_held [OF inv1(1) _ kept [OF y(1)], of x s' "[]"] eff maps' kept [OF y(1)] lm by simp
  qed
  have "bystanders l s s'" using keep f1 by (simp add: bystanders_def)
  moreover have "sy_inv s'" using core' kept_counts [OF cnt keys f1] by (simp add: sy_inv_core)
  moreover have "lookup s' l k = Some x" unfolding maps' look1 by simp
  ultimately show ?thesis
    using run s'(1) f1 keep fx lm by (intro exI [of _ result] exI [of _ m'] exI [of _ s']) simp
qed

end
