(* ===== verification/Locker_Begin.thy ===== *)
theory Locker_Begin
  imports Locker_Acquire
begin

text \<open>
  The calls that acquire a lock: \<open>lockBegin\<close>, \<open>lockGlobalBegin\<close> with its ticket, and one pass of the wait in
  \<open>lockComplete\<close>. Each returns in every state of the invariant in which it may be called.
\<close>

subsection \<open>Giving up one reference\<close>

definition keeps :: "LockerId \<Rightarrow> LockSystem \<Rightarrow> LockSystem \<Rightarrow> bool" where
  "keeps l s s' \<longleftrightarrow> (\<forall>k. write_held s l k \<longrightarrow> write_held s' l k) \<and>
     wuowNestingLevel (sy_lockers s' l) = wuowNestingLevel (sy_lockers s l) \<and>
     prepareModeForLockYields (sy_lockers s' l) = prepareModeForLockYields (sy_lockers s l)"

lemma keeps_refl [simp]: "keeps l s s" by (simp add: keeps_def)

lemma keeps_trans: "keeps l a b \<Longrightarrow> keeps l b c \<Longrightarrow> keeps l a c" by (simp add: keeps_def)

lemma keeps_same: "same_fields (sy_lockers s l) (sy_lockers s' l) \<Longrightarrow>
    (\<And>k. write_held s l k \<Longrightarrow> write_held s' l k) \<Longrightarrow> keeps l s s'"
  by (simp add: keeps_def same_fields_def)

lemma keeps_pending [simp]: "keeps l s (with_pending s l x n num)"
  by (simp add: keeps_def)

lemma drop_one_ok:
  assumes inv: "sy_inv s" and x: "lookup s l k = Some x"
    and p: "unlockPending (request_of s x) < recursiveCount (request_of s x)"
  shows "\<not> it_finished (map_of_locker s l) (it_find (map_of_locker s l) k)"
    and "\<exists>b s'. unlockImpl s l (it_find (map_of_locker s l) k) = Some (b, s') \<and> sy_inv s' \<and> bystanders l s s' \<and>
      same_fields (sy_lockers s l) (sy_lockers s' l) \<and>
      (\<forall>k'. k' \<noteq> k \<or> recursiveCount (request_of s x) \<noteq> 1 \<longrightarrow> write_held s l k' \<longrightarrow> write_held s' l k')"
proof -
  have core: "sy_core s" and cnt: "counts_ok s" using inv by (simp_all add: sy_inv_core)
  have wf: "fm_wf (map_of_locker s l)" using sy_coreD(3) [OF core] by (simp add: maps_ok_def)
  show "\<not> it_finished (map_of_locker s l) (it_find (map_of_locker s l) k)"
    using x fm_lookup_None [of "map_of_locker s l" k] by simp
  obtain i where i: "entry_at (map_of_locker s l) i k x" using x fm_lookup_iff [OF wf] by blast
  obtain b s' where u: "unlockImpl s l i = Some (b, s')" "sy_core s'" "drops l k x i b s s'"
    using unlockImpl_ok [OF core i p] by blast
  note w = drops_write_held [OF core u(3) x]
  have b: "b \<longleftrightarrow> recursiveCount (request_of s x) = 1" using u(3) by (simp add: drops_def unlock_outcome_def)
  have "write_held s' l k'" if "k' \<noteq> k \<or> recursiveCount (request_of s x) \<noteq> 1" "write_held s l k'" for k'
    using w(2) [of k'] w(3) that u(2) b by (cases "k' = k") simp_all
  moreover have "same_fields (sy_lockers s l) (sy_lockers s' l)" using u(3) by (simp add: drops_def)
  moreover have "sy_inv s'" using drops_counts [OF core cnt u(3) x p] u(2) by (simp add: sy_inv_core)
  ultimately show "\<exists>b s'. unlockImpl s l (it_find (map_of_locker s l) k) = Some (b, s') \<and> sy_inv s' \<and> bystanders l s s' \<and>
      same_fields (sy_lockers s l) (sy_lockers s' l) \<and>
      (\<forall>k'. k' \<noteq> k \<or> recursiveCount (request_of s x) \<noteq> 1 \<longrightarrow> write_held s l k' \<longrightarrow> write_held s' l k')"
    using u(1) w(1) it_find_at [OF wf i] by auto
qed

subsection \<open>Beginning to acquire\<close>

definition begin_legal :: "LockSystem \<Rightarrow> LockerId \<Rightarrow> ResourceId \<Rightarrow> LockMode \<Rightarrow> bool" where
  "begin_legal s l k md \<longleftrightarrow> md \<noteq> MODE_NONE \<and> no_wait s l \<and>
     (case lookup s l k of None \<Rightarrow> True
      | Some x \<Rightarrow>
          (unlockPending (request_of s x) \<noteq> 0 \<and> isModeCovered md (mode (request_of s x))) \<or>
          (comparable md (mode (request_of s x)) \<and>
            (getType k = Some RESOURCE_GLOBAL \<and> (md = MODE_S \<or> md = MODE_X) \<longrightarrow>
              enqueueAtFront (request_of s x) \<and> compatibleFirst (request_of s x))))"

text \<open>The part of \<open>lockBegin\<close> after the call of the lock manager.\<close>

definition begin_tail ::
  "LockSystem \<Rightarrow> LockerId \<Rightarrow> ResourceId \<Rightarrow> LockResult \<Rightarrow> bool \<Rightarrow> ((lock_error + LockResult) \<times> LockSystem) option" where
  "begin_tail s l resId result interrupted =
     (if result = LOCK_OK \<and> interrupted \<and> uninterruptibleLocksRequested (sy_lockers s l) = 0 then do {
         let it = it_find (map_of_locker s l) resId;
         invariant (\<not> it_finished (map_of_locker s l) it);
         (_, s) \<leftarrow> unlockImpl s l it;
         Some (Inl Interrupted, s) }
      else Some (Inr result, s))"

definition begin_result :: "lock_error + LockResult \<Rightarrow> bool" where
  "begin_result r \<longleftrightarrow> r = Inr LOCK_OK \<or> r = Inr LOCK_WAITING \<or> r = Inl Interrupted"

lemma begin_tail_ok:
  assumes inv: "sy_inv s" and x: "lookup s l k = Some x"
    and p: "unlockPending (request_of s x) < recursiveCount (request_of s x)"
    and res: "result = LOCK_OK \<or> result = LOCK_WAITING"
  shows "\<exists>r s'. begin_tail s l k result intr = Some (r, s') \<and> sy_inv s' \<and> bystanders l s s' \<and>
      same_fields (sy_lockers s l) (sy_lockers s' l) \<and>
      (\<forall>k'. k' \<noteq> k \<or> recursiveCount (request_of s x) \<noteq> 1 \<longrightarrow> write_held s l k' \<longrightarrow> write_held s' l k') \<and> begin_result r"
proof (cases "result = LOCK_OK \<and> intr \<and> uninterruptibleLocksRequested (sy_lockers s l) = 0")
  case True
  obtain b s' where "unlockImpl s l (it_find (map_of_locker s l) k) = Some (b, s')" and s': "sy_inv s'" "bystanders l s s'"
      "same_fields (sy_lockers s l) (sy_lockers s' l)"
      "\<forall>k'. k' \<noteq> k \<or> recursiveCount (request_of s x) \<noteq> 1 \<longrightarrow> write_held s l k' \<longrightarrow> write_held s' l k'"
    using drop_one_ok(2) [OF inv x p] by blast
  then have "begin_tail s l k result intr = Some (Inl Interrupted, s')"
    using True drop_one_ok(1) [OF inv x p] by (simp add: begin_tail_def Let_def)
  then show ?thesis using s' by (simp add: begin_result_def)
next
  case False
  then have "begin_tail s l k result intr = Some (Inr result, s)" by (auto simp: begin_tail_def)
  then show ?thesis using inv res by (auto simp: begin_result_def)
qed

lemma lockBegin_via:
  assumes "find_request s l k = Some (isNew, x, s0)"
    and "\<not> (unlockPending (request_of s0 x) \<noteq> 0 \<and> isModeCovered md (mode (request_of s0 x)))"
    and "s1 = upd_locker (if getType k = Some RESOURCE_GLOBAL \<and> (md = MODE_S \<or> md = MODE_X)
      then upd_request s0 x (\<lambda>q. q\<lparr>enqueueAtFront := True, compatibleFirst := True\<rparr>) else s0) l
      (\<lambda>k. k\<lparr>notify_result := LOCK_INVALID\<rparr>)"
    and "(if isNew then lm_lock (sy_lm s1) k x md else lm_convert (sy_lm s1) k x md) = Some (result, m)"
    and "with_lm s1 m = Some s2"
  shows "lockBegin s l k md intr = begin_tail s2 l k result intr"
  unfolding lockBegin_def begin_tail_def Let_def assms(1) bind.bind_lunit prod.case if_not_P [OF assms(2)]
    assms(3) [symmetric] assms(4,5) ..

lemma begin_new_ok:
  assumes base: "lm_inv (sy_lm s)" "no_temp (sy_lm s)" "maps_ok s" "owned_ok {} s" "waits_ok {} s"
    and cnt: "counts_ok s" and tk: "tickets_with l k s" and none: "lookup s l k = None" and legal: "begin_legal s l k md"
  shows "\<exists>r s'. lockBegin s l k md intr = Some (r, s') \<and> sy_inv s' \<and> bystanders l s s' \<and> keeps l s s' \<and> begin_result r"
proof -
  have md: "md \<noteq> MODE_NONE" and nw: "no_wait s l" using legal by (simp_all add: begin_legal_def)
  obtain x rs where add: "fm_add (map_of_locker s l) k (sy_next s) = Some (x, rs)" and p: "unlockPending (request_of s x) = 0"
    using new_slot [OF base(3,4,2) none] by blast
  let ?flag = "getType k = Some RESOURCE_GLOBAL \<and> (md = MODE_S \<or> md = MODE_X)"
  define f where "f = (\<lambda>q. if ?flag then (initNew_request q l)\<lparr>enqueueAtFront := True, compatibleFirst := True\<rparr>
                            else initNew_request q l)"
  define s0 where "s0 = upd_request (upd_locker s l (\<lambda>k. k\<lparr>lk_requests := rs\<rparr>)\<lparr>sy_next := Suc (sy_next s)\<rparr>) x
      (\<lambda>q. initNew_request q l)"
  define s1 where "s1 = upd_locker (if ?flag then upd_request s0 x (\<lambda>q. q\<lparr>enqueueAtFront := True, compatibleFirst := True\<rparr>)
      else s0) l (\<lambda>k. k\<lparr>notify_result := LOCK_INVALID\<rparr>)"
  have find: "find_request s l k = Some (True, x, s0)" using none add by (simp add: find_request_def s0_def)
  have p0: "unlockPending (request_of s0 x) = 0" using p by (simp add: s0_def initNew_request_def)
  have s1: "sy_lm s1 = upd_req (sy_lm s) x f \<and> sy_next s1 = Suc (sy_next s) \<and>
      sy_lockers s1 = (sy_lockers s)(l := (sy_lockers s l)\<lparr>lk_requests := rs, notify_result := LOCK_INVALID\<rparr>)"
  proof (cases ?flag)
    case True
    show ?thesis unfolding s1_def f_def if_P [OF True] by (simp add: s0_def upd_req_def)
  next
    case False
    show ?thesis unfolding s1_def f_def if_not_P [OF False] by (simp add: s0_def upd_req_def)
  qed
  have f: "fresh_request (f q) \<and> locker (f q) = l \<and> unlockPending (f q) = unlockPending q" for q
    by (simp add: f_def fresh_request_def initNew_request_def)
  obtain result m' s2 where run: "lm_lock (sy_lm s1) k x md = Some (result, m')" "with_lm s1 m' = Some s2"
    and s2: "sy_inv s2" "bystanders l s s2" "same_fields (sy_lockers s l) (sy_lockers s2 l)"
      "\<forall>k'. write_held s l k' \<longrightarrow> write_held s2 l k'" "lookup s2 l k = Some x" "recursiveCount (request_of s2 x) = 1"
      "unlockPending (request_of s2 x) = 0" "result = LOCK_OK \<or> result = LOCK_WAITING"
    using new_ok [OF base cnt tk none nw md add _ _ _ f, of s1] s1 by blast
  have "lockBegin s l k md intr = begin_tail s2 l k result intr"
    by (rule lockBegin_via [OF find _ s1_def _ run(2)]) (simp_all add: p0 run(1))
  moreover obtain r s' where t: "begin_tail s2 l k result intr = Some (r, s')" "sy_inv s'" "bystanders l s2 s'"
      "same_fields (sy_lockers s2 l) (sy_lockers s' l)"
      "\<forall>k'. k' \<noteq> k \<or> recursiveCount (request_of s2 x) \<noteq> 1 \<longrightarrow> write_held s2 l k' \<longrightarrow> write_held s' l k'" "begin_result r"
    using begin_tail_ok [OF s2(1,5) _ s2(8), of intr] s2(6,7) by auto
  moreover have "keeps l s s'"
  proof (rule keeps_same [OF same_fields_trans [OF s2(3) t(4)]])
    fix k' assume w: "write_held s l k'"
    then have "k' \<noteq> k" using none by (auto simp: write_held_def)
    then show "write_held s' l k'" using w s2(4) t(5) by blast
  qed
  ultimately show ?thesis using bystanders_trans [OF s2(2) t(3)] by (intro exI [of _ r] exI [of _ s']) simp
qed


lemma reuse_pending_ok:
  assumes inv: "sy_inv s" and x: "lookup s l k = Some x" and p: "unlockPending (request_of s x) = Suc n"
  shows "\<exists>num. reuse_pending s l x = with_pending s l x n num \<and> sy_inv (with_pending s l x n num)"
proof -
  have core: "sy_core s" and cnt: "counts_ok s" using inv by (simp_all add: sy_inv_core)
  have k: "k \<in> pending_keys s l" using x p by (auto simp: pending_keys_def)
  have num: "numResourcesToUnlockAtEndUnitOfWork (sy_lockers s l) = card (pending_keys s l)"
    and wu: "wuowNestingLevel (sy_lockers s l) > 0" using cnt k by (auto simp: counts_ok_def)
  have le: "n \<le> recursiveCount (request_of s x)" using claim_count(4) [OF core x] p by simp
  show ?thesis
  proof (cases n)
    case 0
    have "reuse_pending s l x = with_pending s l x 0 (card (pending_keys s l) - 1)"
      using p 0 num by (simp add: reuse_pending_def with_pending_def upd_locker_def upd_request_def upd_req_def)
    then show ?thesis
      using with_pending_inv [OF inv x le, of "card (pending_keys s l) - 1"] 0 k pending_finite
      by (intro exI [of _ "card (pending_keys s l) - 1"]) simp
  next
    case (Suc n')
    have "reuse_pending s l x = with_pending s l x n (card (pending_keys s l))"
      unfolding reuse_pending_def Let_def pending_step [OF p, of l] num using Suc by simp
    then show ?thesis
      using with_pending_inv [OF inv x le, of "card (pending_keys s l)"] Suc k wu
      by (intro exI [of _ "card (pending_keys s l)"]) (simp add: insert_absorb)
  qed
qed

lemma clear_flags:
  assumes "sy_inv s"
  shows "sy_inv (upd_locker s l (\<lambda>k. k\<lparr>notify_result := LOCK_INVALID\<rparr>))"
proof -
  let ?s = "upd_locker s l (\<lambda>k. k\<lparr>notify_result := LOCK_INVALID\<rparr>)"
  have same: "map_of_locker ?s l' = map_of_locker s l'" for l' by simp
  have "pending_keys ?s l' = pending_keys s l'" for l' unfolding pending_keys_def same by simp
  moreover have "same_fields (sy_lockers s l') (sy_lockers ?s l')" for l' by (simp add: same_fields_def)
  ultimately show ?thesis
    using assms notify_clear_core [of s l] kept_counts [of s ?s] unfolding sy_inv_core by blast
qed

lemma begin_held_ok:
  assumes inv: "sy_inv s" and x: "lookup s l k = Some x" and legal: "begin_legal s l k md"
  shows "\<exists>r s'. lockBegin s l k md intr = Some (r, s') \<and> sy_inv s' \<and> bystanders l s s' \<and> keeps l s s' \<and> begin_result r"
proof -
  have find: "find_request s l k = Some (False, x, s)" using x by (simp add: find_request_def)
  show ?thesis
  proof (cases "unlockPending (request_of s x) \<noteq> 0 \<and> isModeCovered md (mode (request_of s x))")
    case True
    then obtain n where "unlockPending (request_of s x) = Suc n" using not0_implies_Suc by blast
    from reuse_pending_ok [OF inv x this] obtain num where r: "reuse_pending s l x = with_pending s l x n num"
        "sy_inv (with_pending s l x n num)" by blast
    have "lockBegin s l k md intr = Some (Inr LOCK_OK, with_pending s l x n num)"
      unfolding lockBegin_def find using True r(1) by simp
    then show ?thesis using r(2) by (simp add: begin_result_def)
  next
    case False
    let ?flag = "getType k = Some RESOURCE_GLOBAL \<and> (md = MODE_S \<or> md = MODE_X)"
    have cmp: "comparable md (mode (request_of s x))" and nw: "no_wait s l"
      and fl: "?flag \<longrightarrow> enqueueAtFront (request_of s x) \<and> compatibleFirst (request_of s x)"
      using legal x False by (auto simp: begin_legal_def)
    let ?s = "upd_locker s l (\<lambda>k. k\<lparr>notify_result := LOCK_INVALID\<rparr>)"
    have same: "map_of_locker ?s l' = map_of_locker s l'" for l' by simp
    have noflag: "(if ?flag then upd_request s x (\<lambda>q. q\<lparr>enqueueAtFront := True, compatibleFirst := True\<rparr>) else s) = s"
    proof (cases ?flag)
      case True
      then have "(request_of s x)\<lparr>enqueueAtFront := True, compatibleFirst := True\<rparr> = request_of s x" using fl by simp
      then show ?thesis unfolding if_P [OF True] by (simp add: upd_request_def upd_req_def)
    qed (rule if_not_P)
    obtain result m' s2 where run: "lm_convert (sy_lm ?s) k x md = Some (result, m')" "with_lm ?s m' = Some s2"
      and s2: "sy_inv s2" "bystanders l ?s s2" "same_fields (sy_lockers ?s l) (sy_lockers s2 l)"
        "\<forall>k'. write_held ?s l k' \<longrightarrow> write_held s2 l k'" "lookup s2 l k = Some x" "recursiveCount (request_of s2 x) \<ge> 2"
        "unlockPending (request_of s2 x) < recursiveCount (request_of s2 x)" "result = LOCK_OK \<or> result = LOCK_WAITING"
    proof -
      have "lookup ?s l k = Some x" "no_wait ?s l" using x nw by (simp_all add: no_wait_def in_use_all_def)
      moreover have "notify_result (sy_lockers ?s l) = LOCK_INVALID" "comparable md (mode (request_of ?s x))" using cmp by simp_all
      ultimately show ?thesis
        using convert_ok [OF clear_flags [OF inv], of l l k x md] that by blast
    qed
    have via: "lockBegin s l k md intr = begin_tail s2 l k result intr"
      by (rule lockBegin_via [OF find False _ _ run(2)]) (simp_all only: noflag if_False run(1))
    obtain r s' where t: "begin_tail s2 l k result intr = Some (r, s')" "sy_inv s'" "bystanders l s2 s'"
        "same_fields (sy_lockers s2 l) (sy_lockers s' l)"
        "\<forall>k'. k' \<noteq> k \<or> recursiveCount (request_of s2 x) \<noteq> 1 \<longrightarrow> write_held s2 l k' \<longrightarrow> write_held s' l k'" "begin_result r"
      using begin_tail_ok [OF s2(1,5,7,8), of intr] by blast
    have held: "write_held ?s l' k' = write_held s l' k'" for l' k' unfolding write_held_def same by simp
    have "same_fields (sy_lockers s l) (sy_lockers ?s l)" by (simp add: same_fields_def)
    then have "keeps l s s'"
    proof (rule keeps_same [OF same_fields_trans [OF _ same_fields_trans [OF s2(3) t(4)]]])
      show "write_held s' l k'" if "write_held s l k'" for k' using that s2(4,6) t(5) held by auto
    qed
    moreover have "bystanders l s ?s" unfolding bystanders_def held by simp
    then have "bystanders l s s'" using bystanders_trans [OF s2(2) t(3)] by (rule bystanders_trans)
    ultimately show ?thesis using via t by (intro exI [of _ r] exI [of _ s']) simp
  qed
qed

lemma lockBegin_ok:
  assumes inv: "sy_inv s" and k: "k \<noteq> resourceIdGlobal" and legal: "begin_legal s l k md"
  shows "\<exists>r s'. lockBegin s l k md intr = Some (r, s') \<and> sy_inv s' \<and> bystanders l s s' \<and> keeps l s s' \<and> begin_result r"
proof (cases "lookup s l k")
  case None
  then show ?thesis
    using begin_new_ok [OF sy_invD(1-6) [OF inv] tickets_with_other [OF sy_invD(7) [OF inv] k] _ legal] by blast
next
  case (Some x)
  then show ?thesis using begin_held_ok [OF inv _ legal] by blast
qed

subsection \<open>Tickets\<close>

definition ticket_only :: "LockSystem \<Rightarrow> LockSystem \<Rightarrow> bool" where
  "ticket_only s s' \<longleftrightarrow> sy_lm s' = sy_lm s \<and> sy_next s' = sy_next s \<and> sy_supportsDBLocking s' = sy_supportsDBLocking s \<and>
     (\<forall>l. \<exists>c md. sy_lockers s' l = (sy_lockers s l)\<lparr>clientState := c, modeForTicket := md\<rparr>)"

lemma ticket_same: "\<exists>c md. (k :: Locker) = k\<lparr>clientState := c, modeForTicket := md\<rparr>"
  by (rule exI [of _ "clientState k"], rule exI [of _ "modeForTicket k"]) simp

lemma ticket_same_mode: "\<exists>c' md. (k :: Locker)\<lparr>clientState := c\<rparr> = k\<lparr>clientState := c', modeForTicket := md\<rparr>"
  by (rule exI [of _ c], rule exI [of _ "modeForTicket k"]) simp

lemma ticket_only_refl [simp]: "ticket_only s s"
  by (simp add: ticket_only_def ticket_same)

lemma ticket_onlyD:
  assumes "ticket_only s s'"
  shows "sy_lm s' = sy_lm s" "sy_next s' = sy_next s" "sy_supportsDBLocking s' = sy_supportsDBLocking s"
    "map_of_locker s' l = map_of_locker s l" "notify_result (sy_lockers s' l) = notify_result (sy_lockers s l)"
    "same_fields (sy_lockers s l) (sy_lockers s' l)"
proof -
  obtain c md where "sy_lockers s' l = (sy_lockers s l)\<lparr>clientState := c, modeForTicket := md\<rparr>"
    using assms unfolding ticket_only_def by blast
  then show "map_of_locker s' l = map_of_locker s l" "notify_result (sy_lockers s' l) = notify_result (sy_lockers s l)"
      "same_fields (sy_lockers s l) (sy_lockers s' l)" by (simp_all add: same_fields_def)
qed (use assms in \<open>simp_all add: ticket_only_def\<close>)

lemma ticket_only_ok:
  assumes inv: "sy_inv s" and t: "ticket_only s s'"
  shows "lm_inv (sy_lm s')" "no_temp (sy_lm s')" "maps_ok s'" "owned_ok {} s'" "waits_ok {} s'" "counts_ok s'"
    "tickets_ok s' \<Longrightarrow> sy_inv s'" "bystanders l s s'" "keeps l s s'" "begin_legal s' l k md = begin_legal s l k md"
proof -
  note same = ticket_onlyD [OF t] and c = sy_invD [OF inv]
  show base: "lm_inv (sy_lm s')" "no_temp (sy_lm s')" "maps_ok s'" "owned_ok {} s'" "waits_ok {} s'"
    using c(1-5) unfolding maps_ok_def owned_ok_def waits_ok_def is_blocked_def same by simp_all
  have "pending_keys s' l' = pending_keys s l'" for l' unfolding pending_keys_def same ..
  then show cnt: "counts_ok s'" using kept_counts [OF c(6)] same(6) by blast
  show "tickets_ok s' \<Longrightarrow> sy_inv s'" using base cnt by (simp add: sy_inv_def)
  have held: "write_held s' l' k' = write_held s l' k'" for l' k' unfolding write_held_def same ..
  show "bystanders l s s'" unfolding bystanders_def held using same(6) by blast
  show "keeps l s s'" using keeps_same same(6) held by blast
  show "begin_legal s' l k md = begin_legal s l k md"
    unfolding begin_legal_def no_wait_def in_use_all_def same ..
qed

text \<open>What the result of acquiring a ticket for mode \<open>md\<close> may change.\<close>

lemma acquireTicket_ok:
  "\<exists>r s'. acquireTicket s l md wait = (r, s') \<and> (r = Inr LOCK_OK \<or> r = Inr LOCK_TIMEOUT \<or> r = Inl Interrupted) \<and>
    (r = Inr LOCK_TIMEOUT \<longrightarrow> wait = TicketTimedOut) \<and> sy_lm s' = sy_lm s \<and> sy_next s' = sy_next s \<and>
    sy_supportsDBLocking s' = sy_supportsDBLocking s \<and>
    sy_lockers s' = (sy_lockers s)(l := (sy_lockers s l)\<lparr>clientState := (if r = Inr LOCK_OK then active_state md else kInactive)\<rparr>)"
  by (cases "holder_for s l md"; cases wait) (simp_all add: acquireTicket_def active_state_def)

lemma client_state_ok:
  assumes inv: "sy_inv s" and s': "sy_lm s' = sy_lm s" "sy_next s' = sy_next s" "sy_supportsDBLocking s' = sy_supportsDBLocking s"
      "sy_lockers s' = (sy_lockers s)(l := (sy_lockers s l)\<lparr>clientState := c\<rparr>)"
    and c: "c = kInactive \<or> c = active_state (modeForTicket (sy_lockers s l))"
  shows "sy_inv s' \<and> bystanders l' s s' \<and> keeps l' s s'"
proof -
  have t: "ticket_only s s'" using s' by (simp add: ticket_only_def ticket_same ticket_same_mode)
  have "tickets_ok s'" using sy_invD(7) [OF inv] c s'(4) by (simp add: tickets_ok_def Let_def)
  then show ?thesis using ticket_only_ok [OF inv t] by blast
qed

lemma releaseTicket_ok:
  assumes inv: "sy_inv s" and l: "lookup s l resourceIdGlobal \<noteq> None"
  shows "\<exists>s'. releaseTicket s l = Some s' \<and> sy_inv s' \<and> bystanders l s s' \<and> keeps l s s'"
proof -
  have "modeForTicket (sy_lockers s l) \<noteq> MODE_NONE" using sy_invD(7) [OF inv] l by (simp add: tickets_ok_def Let_def)
  then have "releaseTicket s l = Some (releaseTicket_impl s l)" by (simp add: releaseTicket_def)
  moreover have "sy_inv (releaseTicket_impl s l) \<and> bystanders l s (releaseTicket_impl s l) \<and> keeps l s (releaseTicket_impl s l)"
    by (rule client_state_ok [OF inv, where c = kInactive and l = l]) simp_all
  ultimately show ?thesis by simp
qed

text \<open>
  A wait for a ticket that is acquired found one; and a wait that is not limited by \<open>setMaxLockTimeout\<close> does
  not time out when the ticket is taken again.
\<close>

definition ticket_there :: "LockSystem \<Rightarrow> LockerId \<Rightarrow> LockMode \<Rightarrow> ticket_wait \<Rightarrow> bool" where
  "ticket_there s l md wait \<longleftrightarrow> wait = TicketAcquired \<longrightarrow>
     (case (holder_for s l md, sy_tickets s) of (Some t, Some n) \<Rightarrow> n t > 0 | _ \<Rightarrow> True)"

definition reacquire_legal :: "LockSystem \<Rightarrow> LockerId \<Rightarrow> ticket_wait \<Rightarrow> bool" where
  "reacquire_legal s l wait \<longleftrightarrow> lookup s l resourceIdGlobal \<noteq> None \<and>
     ticket_there s l (modeForTicket (sy_lockers s l)) wait \<and>
     (wait = TicketTimedOut \<longrightarrow> maxLockTimeout (sy_lockers s l) \<noteq> None)"

lemma reacquireTicket_ok:
  assumes inv: "sy_inv s" and legal: "reacquire_legal s l wait"
  shows "\<exists>r s'. reacquireTicket s l wait = Some (r, s') \<and> sy_inv s' \<and> bystanders l s s' \<and> keeps l s s'"
proof -
  let ?md = "modeForTicket (sy_lockers s l)"
  have t: "?md \<noteq> MODE_NONE" "clientState (sy_lockers s l) = kInactive \<or> clientState (sy_lockers s l) = active_state ?md"
    using sy_invD(7) [OF inv] legal by (simp_all add: tickets_ok_def Let_def reacquire_legal_def)
  show ?thesis
  proof (cases "clientState (sy_lockers s l) = kInactive")
    case False
    then have "reacquireTicket s l wait = Some (Inr (), s)"
      using t by (simp add: reacquireTicket_def active_state_def Let_def split: if_splits)
    then show ?thesis using inv by simp
  next
    case True
    obtain r s' where a: "acquireTicket s l ?md wait = (r, s')" "r = Inr LOCK_OK \<or> r = Inr LOCK_TIMEOUT \<or> r = Inl Interrupted"
        "r = Inr LOCK_TIMEOUT \<longrightarrow> wait = TicketTimedOut" "sy_lm s' = sy_lm s" "sy_next s' = sy_next s"
        "sy_supportsDBLocking s' = sy_supportsDBLocking s"
        "sy_lockers s' = (sy_lockers s)(l := (sy_lockers s l)\<lparr>clientState := (if r = Inr LOCK_OK then active_state ?md else kInactive)\<rparr>)"
      using acquireTicket_ok by blast
    have "sy_inv s' \<and> bystanders l s s' \<and> keeps l s s'"
      by (rule client_state_ok [OF inv a(4-7)]) simp
    moreover have "\<exists>r'. reacquireTicket s l wait = Some (r', s')"
      using t(1) True a(1,2,3) legal by (auto simp: reacquireTicket_def Let_def reacquire_legal_def)
    ultimately show ?thesis by blast
  qed
qed

subsection \<open>The global lock\<close>

definition global_mode :: "LockSystem \<Rightarrow> LockMode \<Rightarrow> LockMode" where
  "global_mode s md = (if sy_supportsDBLocking s then md else if isSharedLockMode md then MODE_S else MODE_X)"

definition global_legal :: "LockSystem \<Rightarrow> LockerId \<Rightarrow> LockMode \<Rightarrow> ticket_wait \<Rightarrow> bool" where
  "global_legal s l md wait \<longleftrightarrow> md \<noteq> MODE_NONE \<and> begin_legal s l resourceIdGlobal (global_mode s md) \<and> ticket_there s l md wait"

lemma begin_result_holds: "begin_result r \<Longrightarrow> r = Inr LOCK_OK \<or> r = Inr LOCK_WAITING \<or> isl r"
  by (auto simp: begin_result_def)

lemma lockGlobalBegin_ok:
  assumes inv: "sy_inv s" and legal: "global_legal s l md wait"
  shows "\<exists>r s'. lockGlobalBegin s l md wait intr = Some (r, s') \<and> sy_inv s' \<and> bystanders l s s' \<and> keeps l s s'"
proof -
  have md: "md \<noteq> MODE_NONE" and bl: "begin_legal s l resourceIdGlobal (global_mode s md)"
    using legal by (simp_all add: global_legal_def)
  have tk: "modeForTicket (sy_lockers s l) = MODE_NONE \<longleftrightarrow> lookup s l resourceIdGlobal = None"
    using sy_invD(7) [OF inv] by (simp add: tickets_ok_def Let_def)
  show ?thesis
  proof (cases "lookup s l resourceIdGlobal")
    case (Some x)
    obtain r s' where b: "lockBegin s l resourceIdGlobal (global_mode s md) intr = Some (r, s')" "sy_inv s'" "bystanders l s s'"
        "keeps l s s'" "begin_result r" using begin_held_ok [OF inv Some bl] by blast
    have "lockGlobalBegin s l md wait intr = Some (r, s')"
      using tk Some b(1) begin_result_holds [OF b(5)] by (simp add: lockGlobalBegin_def global_mode_def)
    then show ?thesis using b by blast
  next
    case None
    obtain r s1 where a: "acquireTicket s l md wait = (r, s1)" "r = Inr LOCK_OK \<or> r = Inr LOCK_TIMEOUT \<or> r = Inl Interrupted"
        "sy_lm s1 = sy_lm s" "sy_next s1 = sy_next s" "sy_supportsDBLocking s1 = sy_supportsDBLocking s"
        "sy_lockers s1 = (sy_lockers s)(l := (sy_lockers s l)\<lparr>clientState := (if r = Inr LOCK_OK then active_state md else kInactive)\<rparr>)"
      using acquireTicket_ok by blast
    show ?thesis
    proof (cases "r = Inr LOCK_OK")
      case False
      then have "lockGlobalBegin s l md wait intr = Some (r, s1)"
        using tk None a(1,2) by (auto simp: lockGlobalBegin_def)
      moreover have "sy_inv s1 \<and> bystanders l s s1 \<and> keeps l s s1"
        by (rule client_state_ok [OF inv a(3-6)]) (simp add: False)
      ultimately show ?thesis by blast
    next
      case True
      define s2 where "s2 = upd_locker s1 l (\<lambda>k. k\<lparr>modeForTicket := md\<rparr>)"
      have look: "sy_lockers s2 = (sy_lockers s)(l := (sy_lockers s l)\<lparr>clientState := active_state md, modeForTicket := md\<rparr>)"
        using a(6) True by (simp add: s2_def)
      have only: "ticket_only s s2" using a(3-5) look by (auto simp: ticket_only_def s2_def ticket_same)
      note o = ticket_only_ok [OF inv only]
      have "tickets_with l resourceIdGlobal s2"
        using sy_invD(7) [OF inv] md look None by (simp add: tickets_with_def tickets_ok_def Let_def)
      then obtain r' s' where b: "lockBegin s2 l resourceIdGlobal (global_mode s md) intr = Some (r', s')" "sy_inv s'"
          "bystanders l s2 s'" "keeps l s2 s'" "begin_result r'"
        using begin_new_ok [OF o(1-6)] o(10) bl None ticket_onlyD(4) [OF only] by metis
      have "lockGlobalBegin s l md wait intr = Some (r', s')"
        using tk None a(1,5,6) True b(1) begin_result_holds [OF b(5)]
        by (simp add: lockGlobalBegin_def global_mode_def s2_def [symmetric] ticket_onlyD(3) [OF only])
      then show ?thesis using b(2) bystanders_trans [OF o(8) b(3)] keeps_trans [OF o(9) b(4)] by blast
    qed
  qed
qed

subsection \<open>One pass of the wait for a lock\<close>

definition pass_legal :: "LockSystem \<Rightarrow> LockerId \<Rightarrow> ResourceId \<Rightarrow> bool" where
  "pass_legal s l k = (case lookup s l k of None \<Rightarrow> False
     | Some x \<Rightarrow> unlockPending (request_of s x) < recursiveCount (request_of s x))"

lemma lockComplete_pass_ok:
  assumes inv: "sy_inv s" and x: "lookup s l k = Some x"
    and p: "unlockPending (request_of s x) < recursiveCount (request_of s x)"
  shows "\<exists>r s'. lockComplete_pass s l k deadline timeout check wake = Some (r, s') \<and> sy_inv s' \<and> bystanders l s s' \<and>
    same_fields (sy_lockers s l) (sy_lockers s' l) \<and>
    (\<forall>k'. k' \<noteq> k \<or> recursiveCount (request_of s x) \<noteq> 1 \<longrightarrow> write_held s l k' \<longrightarrow> write_held s' l k')"
proof -
  obtain b s' where u: "unlockImpl s l (it_find (map_of_locker s l) k) = Some (b, s')" and s': "sy_inv s'" "bystanders l s s'"
      "same_fields (sy_lockers s l) (sy_lockers s' l)"
      "\<forall>k'. k' \<noteq> k \<or> recursiveCount (request_of s x) \<noteq> 1 \<longrightarrow> write_held s l k' \<longrightarrow> write_held s' l k'"
    using drop_one_ok(2) [OF inv x p] by blast
  have fail: "fail_lock s l k result = Some (Some result, s')" for result using u by (simp add: fail_lock_def)
  obtain c where c: "(if check then dd_check (sy_lm s) (getWaitingResource s) (DeadlockDetector_new (getWaitingResource s) l) \<bind> hasCycle
      else Some False) = Some c"
    using dd_check_cycle [OF sy_invD(1) [OF inv], of "getWaitingResource s" l] by (cases check) auto
  have "\<exists>r. lockComplete_pass s l k deadline timeout check wake = Some (r, s) \<or>
      lockComplete_pass s l k deadline timeout check wake = Some (r, s')"
    unfolding lockComplete_pass_def Let_def c bind.bind_lunit fail
    by (cases wake; cases timeout; cases c) auto
  then show ?thesis using s' inv by auto
qed

end
