(* ===== verification/Locker_System.thy ===== *)
theory Locker_System
  imports Locker_Begin Operation_System
begin

text \<open>
  All lockers of a server on one lock manager: their operations in any order, each operation with the
  preconditions its callers keep. The invariant is kept and no operation aborts; and the second
  interpretation is two-phase locking: as long as a locker is in a write unit of work, it keeps the locks it
  holds in a write mode.
\<close>

subsection \<open>Operations\<close>

datatype locker_op =
    BeginUnit LockerId
  | EndUnit LockerId
  | LockBegin LockerId ResourceId LockMode bool
  | LockGlobalBegin LockerId LockMode ticket_wait bool
  | LockPass LockerId ResourceId "int option" "int option" bool wake
  | UnlockKey LockerId ResourceId
  | UnlockGlobal LockerId
  | DowngradeKey LockerId ResourceId LockMode
  | SaveLocks LockerId
  | SaveLocksForPrepare LockerId
  | ReleaseTicket LockerId
  | ReacquireTicket LockerId ticket_wait
  | SetTwoPhase LockerId bool
  | SetMaxTimeout LockerId "int option"
  | SetConflict LockerId bool
  | SetAcquireTicket LockerId bool
  | GuardBegin LockerId
  | GuardEnd LockerId
  | DestroyLocker LockerId
  | CleanupUnused

fun exec_locker :: "LockSystem \<Rightarrow> locker_op \<Rightarrow> LockSystem option" where
  "exec_locker s (BeginUnit l) = Some (beginWriteUnitOfWork s l)"
| "exec_locker s (EndUnit l) = endWriteUnitOfWork s l"
| "exec_locker s (LockBegin l k md intr) = map_option snd (lockBegin s l k md intr)"
| "exec_locker s (LockGlobalBegin l md wait intr) = map_option snd (lockGlobalBegin s l md wait intr)"
| "exec_locker s (LockPass l k deadline timeout check wake) =
     map_option snd (lockComplete_pass s l k deadline timeout check wake)"
| "exec_locker s (UnlockKey l k) = map_option snd (lk_unlock s l k)"
| "exec_locker s (UnlockGlobal l) = map_option snd (unlockGlobal s l)"
| "exec_locker s (DowngradeKey l k md) = lk_downgrade s l k md"
| "exec_locker s (SaveLocks l) = map_option snd (saveLockStateAndUnlock s l)"
| "exec_locker s (SaveLocksForPrepare l) = map_option snd (saveLockStateAndUnlockForPrepare s l)"
| "exec_locker s (ReleaseTicket l) = releaseTicket s l"
| "exec_locker s (ReacquireTicket l wait) = map_option snd (reacquireTicket s l wait)"
| "exec_locker s (SetTwoPhase l b) = Some (setSharedLocksShouldTwoPhaseLock s l b)"
| "exec_locker s (SetMaxTimeout l t) = Some (setMaxLockTimeout s l t)"
| "exec_locker s (SetConflict l b) = Some (setShouldConflictWithSecondaryBatchApplication s l b)"
| "exec_locker s (SetAcquireTicket l b) = setShouldAcquireTicket s l b"
| "exec_locker s (GuardBegin l) = UninterruptibleLockGuard_begin s l"
| "exec_locker s (GuardEnd l) = UninterruptibleLockGuard_end s l"
| "exec_locker s (DestroyLocker l) = map_option (\<lambda>_. s) (LockerImpl_destroy s l)"
| "exec_locker s CleanupUnused = map_option (\<lambda>m. s\<lparr>sy_lm := m\<rparr>) (cleanupUnusedLocks (sy_lm s))"

fun locker_legal :: "LockSystem \<Rightarrow> locker_op \<Rightarrow> bool" where
  "locker_legal s (EndUnit l) = inAWriteUnitOfWork s l"
| "locker_legal s (LockBegin l k md intr) = (k \<noteq> resourceIdGlobal \<and> begin_legal s l k md)"
| "locker_legal s (LockGlobalBegin l md wait intr) = global_legal s l md wait"
| "locker_legal s (LockPass l k deadline timeout check wake) = pass_legal s l k"
| "locker_legal s (UnlockKey l k) = unlock_legal s l k"
| "locker_legal s (UnlockGlobal l) = unlockGlobal_legal s l"
| "locker_legal s (DowngradeKey l k md) = downgrade_legal s l k md"
| "locker_legal s (SaveLocks l) = (may_yield s l \<and> save_legal s l)"
| "locker_legal s (SaveLocksForPrepare l) = (save_legal s l \<and> \<not> prepareModeForLockYields (sy_lockers s l))"
| "locker_legal s (ReleaseTicket l) = (lookup s l resourceIdGlobal \<noteq> None)"
| "locker_legal s (ReacquireTicket l wait) = reacquire_legal s l wait"
| "locker_legal s (SetAcquireTicket l b) = (\<not> isLocked s l)"
| "locker_legal s (GuardBegin l) = (uninterruptibleLocksRequested (sy_lockers s l) < 2147483647)"
| "locker_legal s (GuardEnd l) = (uninterruptibleLocksRequested (sy_lockers s l) > 0)"
| "locker_legal s (DestroyLocker l) = (\<not> inAWriteUnitOfWork s l \<and> fm_empty (map_of_locker s l))"
| "locker_legal s _ = True"

fun acting :: "locker_op \<Rightarrow> LockerId option" where
  "acting (BeginUnit l) = Some l" | "acting (EndUnit l) = Some l" | "acting (LockBegin l _ _ _) = Some l"
| "acting (LockGlobalBegin l _ _ _) = Some l" | "acting (LockPass l _ _ _ _ _) = Some l" | "acting (UnlockKey l _) = Some l"
| "acting (UnlockGlobal l) = Some l" | "acting (DowngradeKey l _ _) = Some l" | "acting (SaveLocks l) = Some l"
| "acting (SaveLocksForPrepare l) = Some l" | "acting (ReleaseTicket l) = Some l" | "acting (ReacquireTicket l _) = Some l"
| "acting (SetTwoPhase l _) = Some l" | "acting (SetMaxTimeout l _) = Some l" | "acting (SetConflict l _) = Some l"
| "acting (SetAcquireTicket l _) = Some l" | "acting (GuardBegin l) = Some l" | "acting (GuardEnd l) = Some l"
| "acting (DestroyLocker l) = Some l" | "acting CleanupUnused = None"

text \<open>
  The operations of locker \<open>l\<close> that give up the lock on \<open>k\<close> in a write unit of work: the end of the outermost
  unit, a downgrade, the yield of a prepared transaction, and giving up while the lock is first acquired.
\<close>

fun in_unit :: "LockerId \<Rightarrow> ResourceId \<Rightarrow> LockSystem \<Rightarrow> locker_op \<Rightarrow> bool" where
  "in_unit l k s (EndUnit l') = (l' = l \<longrightarrow> wuowNestingLevel (sy_lockers s l) > 1)"
| "in_unit l k s (DowngradeKey l' k' md) = (\<not> (l' = l \<and> k' = k))"
| "in_unit l k s (SaveLocksForPrepare l') = (l' \<noteq> l)"
| "in_unit l k s (LockPass l' k' deadline timeout check wake) =
     (l' = l \<and> k' = k \<longrightarrow> (case lookup s l k of None \<Rightarrow> False | Some x \<Rightarrow> recursiveCount (request_of s x) > 1))"
| "in_unit l k s _ = True"

definition unit_state :: "LockerId \<Rightarrow> ResourceId \<Rightarrow> LockSystem \<Rightarrow> bool" where
  "unit_state l k s \<longleftrightarrow> write_held s l k \<and> inAWriteUnitOfWork s l \<and> \<not> prepareModeForLockYields (sy_lockers s l) \<and>
     getType k \<noteq> Some RESOURCE_MUTEX"

lemma unit_bystander: "bystanders l' s s' \<Longrightarrow> l \<noteq> l' \<Longrightarrow> unit_state l k s \<Longrightarrow> unit_state l k s'"
  by (simp add: unit_state_def bystanders_def same_fields_def inAWriteUnitOfWork_def)

lemma unit_keeps: "keeps l s s' \<Longrightarrow> unit_state l k s \<Longrightarrow> unit_state l k s'"
  by (simp add: unit_state_def keeps_def inAWriteUnitOfWork_def)

definition step_ok :: "LockerId \<Rightarrow> LockSystem \<Rightarrow> locker_op \<Rightarrow> LockSystem \<Rightarrow> bool" where
  "step_ok l s a s' \<longleftrightarrow> exec_locker s a = Some s' \<and> sy_inv s' \<and> bystanders l s s' \<and>
     (\<forall>k. unit_state l k s \<longrightarrow> in_unit l k s a \<longrightarrow> unit_state l k s')"

lemma step_keeps: "exec_locker s a = Some s' \<Longrightarrow> sy_inv s' \<Longrightarrow> bystanders l s s' \<Longrightarrow> keeps l s s' \<Longrightarrow> \<exists>s'. step_ok l s a s'"
  using unit_keeps by (auto simp: step_ok_def)

subsection \<open>The steps\<close>

lemma begin_unit_step:
  assumes inv: "sy_inv s"
  shows "\<exists>s'. step_ok l s (BeginUnit l) s'"
proof -
  let ?s = "beginWriteUnitOfWork s l"
  have same: "map_of_locker ?s l' = map_of_locker s l'" "notify_result (sy_lockers ?s l') = notify_result (sy_lockers s l')"
      "numResourcesToUnlockAtEndUnitOfWork (sy_lockers ?s l') = numResourcesToUnlockAtEndUnitOfWork (sy_lockers s l')"
      "modeForTicket (sy_lockers ?s l') = modeForTicket (sy_lockers s l')"
      "clientState (sy_lockers ?s l') = clientState (sy_lockers s l')" "sy_lm ?s = sy_lm s" "sy_next ?s = sy_next s" for l'
    by (simp_all add: beginWriteUnitOfWork_def)
  have lev: "wuowNestingLevel (sy_lockers ?s l') = (if l' = l then Suc (wuowNestingLevel (sy_lockers s l))
      else wuowNestingLevel (sy_lockers s l'))" for l' by (simp add: beginWriteUnitOfWork_def)
  have held: "write_held ?s l' k = write_held s l' k" for l' k unfolding write_held_def same ..
  have "counts_ok ?s" using sy_invD(6) [OF inv] unfolding counts_ok_def pending_keys_def same lev by auto
  then have "sy_inv ?s"
    using sy_invD [OF inv] unfolding sy_inv_def owned_ok_def waits_ok_def maps_ok_def is_blocked_def tickets_ok_def Let_def same
    by simp
  moreover have "bystanders l s ?s" unfolding bystanders_def held by (simp add: beginWriteUnitOfWork_def)
  moreover have "unit_state l k ?s" if "unit_state l k s" for k
    using that unfolding unit_state_def held inAWriteUnitOfWork_def by (simp add: beginWriteUnitOfWork_def)
  ultimately show ?thesis by (simp add: step_ok_def)
qed

lemma end_unit_step:
  assumes inv: "sy_inv s" and legal: "inAWriteUnitOfWork s l"
  shows "\<exists>s'. step_ok l s (EndUnit l) s'"
proof -
  obtain s' where s': "endWriteUnitOfWork s l = Some s'" "sy_inv s'" "bystanders l s s'"
    and k: "wuowNestingLevel (sy_lockers s l) > 1 \<longrightarrow> (\<forall>k. write_held s l k \<longrightarrow> write_held s' l k) \<and>
       wuowNestingLevel (sy_lockers s' l) > 0 \<and>
       prepareModeForLockYields (sy_lockers s' l) = prepareModeForLockYields (sy_lockers s l)"
    using endWriteUnitOfWork_ok [OF inv legal] by blast
  have "unit_state l k s'" if "unit_state l k s" "wuowNestingLevel (sy_lockers s l) > 1" for k
    using that k by (simp add: unit_state_def inAWriteUnitOfWork_def)
  then show ?thesis using s' by (auto simp: step_ok_def)
qed

lemma begin_lock_step:
  assumes inv: "sy_inv s" and legal: "locker_legal s (LockBegin l k md intr)"
  shows "\<exists>s'. step_ok l s (LockBegin l k md intr) s'"
proof -
  obtain r s' where s': "lockBegin s l k md intr = Some (r, s')" "sy_inv s'" "bystanders l s s'" "keeps l s s'"
    using lockBegin_ok [OF inv, of k l md intr] legal by auto
  show ?thesis by (rule step_keeps [OF _ s'(2-4)]) (simp add: s'(1))
qed

lemma begin_global_step:
  assumes inv: "sy_inv s" and legal: "global_legal s l md wait"
  shows "\<exists>s'. step_ok l s (LockGlobalBegin l md wait intr) s'"
proof -
  obtain r s' where s': "lockGlobalBegin s l md wait intr = Some (r, s')" "sy_inv s'" "bystanders l s s'" "keeps l s s'"
    using lockGlobalBegin_ok [OF inv legal] by blast
  show ?thesis by (rule step_keeps [OF _ s'(2-4)]) (simp add: s'(1))
qed

lemma pass_step:
  assumes inv: "sy_inv s" and legal: "pass_legal s l k"
  shows "\<exists>s'. step_ok l s (LockPass l k deadline timeout check wake) s'"
proof -
  obtain x where x: "lookup s l k = Some x" "unlockPending (request_of s x) < recursiveCount (request_of s x)"
    using legal by (auto simp: pass_legal_def split: option.splits)
  obtain r s' where s': "lockComplete_pass s l k deadline timeout check wake = Some (r, s')" "sy_inv s'" "bystanders l s s'"
      "same_fields (sy_lockers s l) (sy_lockers s' l)"
      "\<forall>k'. k' \<noteq> k \<or> recursiveCount (request_of s x) \<noteq> 1 \<longrightarrow> write_held s l k' \<longrightarrow> write_held s' l k'"
    using lockComplete_pass_ok [OF inv x] by blast
  have "unit_state l k' s'" if st: "unit_state l k' s" "in_unit l k' s (LockPass l k deadline timeout check wake)" for k'
  proof -
    have "k' \<noteq> k \<or> recursiveCount (request_of s x) \<noteq> 1" using st(2) x(1) by (cases "k' = k") simp_all
    then have "write_held s' l k'" using s'(5) st(1) unfolding unit_state_def by blast
    then show ?thesis using st(1) s'(4) by (simp add: unit_state_def same_fields_def inAWriteUnitOfWork_def)
  qed
  then show ?thesis using s'(1-3) by (auto simp: step_ok_def)
qed

lemma unlocks_unit:
  assumes inv: "sy_inv s" "sy_inv s'" and u: "unlocks l k b s s'" and st: "unit_state l k' s"
  shows "unit_state l k' s'"
proof -
  have core: "sy_core s" "sy_core s'" using inv by (simp_all add: sy_inv_core)
  have same: "wuowNestingLevel (sy_lockers s' l) = wuowNestingLevel (sy_lockers s l) \<and>
      prepareModeForLockYields (sy_lockers s' l) = prepareModeForLockYields (sy_lockers s l)"
    using u unfolding unlocks_def by (elim disjE exE conjE) (simp_all add: with_pending_def drops_def same_fields_def)
  have "k' \<noteq> k \<or> \<not> b"
  proof (rule ccontr)
    assume "\<not> (k' \<noteq> k \<or> \<not> b)"
    then have k: "k' = k" and b by simp_all
    then obtain x where x: "lookup s l k = Some x" and no: "shouldDelayUnlock (sy_lockers s l) k (mode (request_of s x)) = Some False"
      using u st by (auto simp: unlocks_def unit_state_def)
    then show False
      using st k by (auto simp: unit_state_def write_held_def shouldDelayUnlock_def split: option.splits ResourceType.splits)
  qed
  then have "write_held s' l k'" using unlocks_write_held(2) [OF core(1) u core(2)] st by (auto simp: unit_state_def)
  then show ?thesis using st same by (simp add: unit_state_def inAWriteUnitOfWork_def)
qed

lemma unlock_step:
  assumes inv: "sy_inv s" and legal: "unlock_legal s l k"
  shows "\<exists>s'. step_ok l s (UnlockKey l k) s'"
proof -
  obtain b s' where u: "lk_unlock s l k = Some (b, s')" "sy_inv s'" "unlocks l k b s s'" using lk_unlock_ok [OF inv legal] by blast
  have "bystanders l s s'" using unlocks_write_held(1) [OF _ u(3)] inv u(2) by (simp add: sy_inv_core)
  then show ?thesis using u unlocks_unit [OF inv u(2,3)] by (auto simp: step_ok_def)
qed

lemma unlock_global_step:
  assumes inv: "sy_inv s" and legal: "unlockGlobal_legal s l"
  shows "\<exists>s'. step_ok l s (UnlockGlobal l) s'"
proof -
  obtain b s' where u: "unlockGlobal s l = Some (b, s')" "sy_inv s'" "bystanders l s s'"
      "inAWriteUnitOfWork s l \<longrightarrow> unlocks l resourceIdGlobal False s s'"
    using unlockGlobal_ok [OF inv legal] by blast
  have "unit_state l k s'" if st: "unit_state l k s" for k
  proof -
    have "inAWriteUnitOfWork s l" using st by (simp add: unit_state_def)
    then show ?thesis using unlocks_unit [OF inv u(2) _ st] u(4) by blast
  qed
  then show ?thesis using u(1-3) by (auto simp: step_ok_def)
qed

lemma downgrade_step:
  assumes inv: "sy_inv s" and legal: "downgrade_legal s l k md"
  shows "\<exists>s'. step_ok l s (DowngradeKey l k md) s'"
proof -
  obtain s' where s': "lk_downgrade s l k md = Some s'" "sy_inv s'" "bystanders l s s'" "same_fields (sy_lockers s l) (sy_lockers s' l)"
      "\<forall>k'. k' \<noteq> k \<longrightarrow> write_held s l k' \<longrightarrow> write_held s' l k'" using lk_downgrade_ok [OF inv legal] by blast
  have "unit_state l k' s'" if "unit_state l k' s" "k' \<noteq> k" for k'
    using that s'(4,5) by (simp add: unit_state_def same_fields_def inAWriteUnitOfWork_def)
  then show ?thesis using s'(1-3) by (auto simp: step_ok_def)
qed

lemma save_step:
  assumes inv: "sy_inv s" and legal: "may_yield s l" "save_legal s l"
  shows "\<exists>s'. step_ok l s (SaveLocks l) s'"
  using save_ok [OF inv legal] legal(1) by (auto simp: step_ok_def unit_state_def may_yield_def)

lemma save_prepare_step:
  assumes inv: "sy_inv s" and legal: "save_legal s l" "\<not> prepareModeForLockYields (sy_lockers s l)"
  shows "\<exists>s'. step_ok l s (SaveLocksForPrepare l) s'"
  using save_prepare_ok [OF inv legal] by (auto simp: step_ok_def)

lemma flag_step:
  assumes inv: "sy_inv s" and f: "flag_update f" "\<And>k. prepareModeForLockYields (f k) = prepareModeForLockYields k"
    and run: "exec_locker s a = Some (upd_locker s l f)"
  shows "\<exists>s'. step_ok l s a s'"
proof (rule step_keeps [OF run flag_update_ok(1) [OF f(1) inv] flag_update_ok(3) [OF f(1)]])
  show "keeps l s (upd_locker s l f)"
    using f flag_update_ok(2) [OF f(1)] by (simp add: keeps_def flag_update_def)
qed

lemma ticket_steps:
  assumes inv: "sy_inv s"
  shows "lookup s l resourceIdGlobal \<noteq> None \<Longrightarrow> \<exists>s'. step_ok l s (ReleaseTicket l) s'"
    and "reacquire_legal s l wait \<Longrightarrow> \<exists>s'. step_ok l s (ReacquireTicket l wait) s'"
proof -
  assume "lookup s l resourceIdGlobal \<noteq> None"
  from releaseTicket_ok [OF inv this] obtain s' where s': "releaseTicket s l = Some s'" "sy_inv s'" "bystanders l s s'" "keeps l s s'"
    by blast
  show "\<exists>s'. step_ok l s (ReleaseTicket l) s'" by (rule step_keeps [OF _ s'(2-4)]) (simp add: s'(1))
next
  assume "reacquire_legal s l wait"
  from reacquireTicket_ok [OF inv this] obtain r s' where
      s': "reacquireTicket s l wait = Some (r, s')" "sy_inv s'" "bystanders l s s'" "keeps l s s'" by blast
  show "\<exists>s'. step_ok l s (ReacquireTicket l wait) s'" by (rule step_keeps [OF _ s'(2-4)]) (simp add: s'(1))
qed

lemma destroy_step:
  assumes inv: "sy_inv s" and legal: "\<not> inAWriteUnitOfWork s l" "fm_empty (map_of_locker s l)"
  shows "\<exists>s'. step_ok l s (DestroyLocker l) s'"
proof -
  have wf: "fm_wf (map_of_locker s l)" using sy_invD(3) [OF inv] by (simp add: maps_ok_def)
  then have "\<not> entry_at (map_of_locker s l) i k x" for i k x
    using legal(2) by (auto simp: fm_wf_def fm_empty_def entry_at_def filter_empty_conv)
  then have none: "lookup s l k = None" for k 
    using fm_lookup_iff [OF wf, of k] by (cases "lookup s l k") auto
  have "pending_keys s l = {}" using none by (simp add: pending_keys_def)
  then have "LockerImpl_destroy s l = Some ()"
    using legal sy_invD(6,7) [OF inv] none by (simp add: LockerImpl_destroy_def counts_ok_def tickets_ok_def Let_def invariant_def)
  then show ?thesis using inv by (simp add: step_ok_def)
qed

lemma cleanup_step:
  assumes inv: "sy_inv s"
  shows "\<exists>s'. step_ok l s CleanupUnused s'"
proof -
  note c = sy_invD [OF inv]
  obtain m' where run: "cleanupUnusedLocks (sy_lm s) = Some m'" and m': "lm_inv m'" "all_kept (sy_lm s) m'"
    using cleanup_run [OF c(1)] by blast
  have nt: "no_temp m'" and fr: "framed {} (reqs (sy_lm s)) (reqs m')" using cleanup_frame [OF c(2) run] by simp_all
  have same: "unlockPending (reqs m' x) = unlockPending (request_of s x)" "recursiveCount (reqs m' x) = recursiveCount (request_of s x)"
      "locker (reqs m' x) = locker (request_of s x)" "status (reqs m' x) = status (request_of s x)"
      "mode (reqs m' x) = mode (request_of s x)"
      "holder m' k x = holder (sy_lm s) k x" "waiter m' k x = waiter (sy_lm s) k x" for x k
    using fr m'(2) by (simp_all add: framed_def all_kept_def same_claim_def)
  let ?s = "s\<lparr>sy_lm := m'\<rparr>"
  have sel: "sy_lm ?s = m'" "sy_lockers ?s = sy_lockers s" "sy_next ?s = sy_next s" by simp_all
  have held: "write_held ?s l' k = write_held s l' k" for l' k unfolding write_held_def sel same ..
  have "sy_inv ?s"
    using c m'(1) nt unfolding sy_inv_def owned_ok_def waits_ok_def maps_ok_def is_blocked_def counts_ok_def pending_keys_def
      tickets_ok_def Let_def sel same by simp
  moreover have "bystanders l s ?s" unfolding bystanders_def held by simp
  moreover have "keeps l s ?s" unfolding keeps_def held by simp
  ultimately show ?thesis using run by (intro step_keeps [of s CleanupUnused ?s]) simp_all
qed

lemma exec_locker_step:
  assumes inv: "sy_inv s" and legal: "locker_legal s a" and l: "acting a = Some l \<or> a = CleanupUnused"
  shows "\<exists>s'. step_ok l s a s'"
proof (cases a)
  case (SetTwoPhase l' b)
  show ?thesis
    by (rule flag_step [OF inv, of "\<lambda>k. k\<lparr>sharedLocksShouldTwoPhaseLock := b\<rparr>"])
      (use SetTwoPhase l in \<open>simp_all add: flag_update_def setSharedLocksShouldTwoPhaseLock_def\<close>)
next
  case (SetMaxTimeout l' t)
  show ?thesis
    by (rule flag_step [OF inv, of "\<lambda>k. k\<lparr>maxLockTimeout := t\<rparr>"])
      (use SetMaxTimeout l in \<open>simp_all add: flag_update_def setMaxLockTimeout_def\<close>)
next
  case (SetConflict l' b)
  show ?thesis
    by (rule flag_step [OF inv, of "\<lambda>k. k\<lparr>shouldConflictWithSecondaryBatchApplication := b\<rparr>"])
      (use SetConflict l in \<open>simp_all add: flag_update_def setShouldConflictWithSecondaryBatchApplication_def\<close>)
next
  case (SetAcquireTicket l' b)
  show ?thesis
    by (rule flag_step [OF inv, of "\<lambda>k. k\<lparr>shouldAcquireTicket := b\<rparr>"])
      (use SetAcquireTicket l legal in \<open>simp_all add: flag_update_def setShouldAcquireTicket_def\<close>)
next
  case (GuardBegin l')
  show ?thesis
    by (rule flag_step [OF inv, of "\<lambda>k. k\<lparr>uninterruptibleLocksRequested := Suc (uninterruptibleLocksRequested k)\<rparr>"])
      (use GuardBegin l legal in \<open>simp_all add: flag_update_def UninterruptibleLockGuard_begin_def\<close>)
next
  case (GuardEnd l')
  show ?thesis
    by (rule flag_step [OF inv, of "\<lambda>k. k\<lparr>uninterruptibleLocksRequested := uninterruptibleLocksRequested k - 1\<rparr>"])
      (use GuardEnd l legal in \<open>simp_all add: flag_update_def UninterruptibleLockGuard_end_def\<close>)
qed (use l legal in \<open>auto intro: begin_unit_step [OF inv] end_unit_step [OF inv] begin_lock_step [OF inv]
    begin_global_step [OF inv] pass_step [OF inv] unlock_step [OF inv] unlock_global_step [OF inv] downgrade_step [OF inv]
    save_step [OF inv] save_prepare_step [OF inv] ticket_steps [OF inv] destroy_step [OF inv] cleanup_step [OF inv]\<close>)

lemma acting_or_cleanup: "acting a = Some l \<or> (\<exists>l'. l' \<noteq> l \<and> acting a = Some l') \<or> a = CleanupUnused"
  by (cases a) auto

lemma exec_locker_ok:
  assumes inv: "sy_inv s" and legal: "locker_legal s a"
  shows "\<exists>s'. exec_locker s a = Some s' \<and> sy_inv s' \<and> (unit_state l k s \<longrightarrow> in_unit l k s a \<longrightarrow> unit_state l k s')"
  using acting_or_cleanup [of a l]
proof (elim disjE)
  assume "\<exists>l'. l' \<noteq> l \<and> acting a = Some l'"
  then obtain l' where l': "l' \<noteq> l" "acting a = Some l'" by blast
  then obtain s' where "step_ok l' s a s'" using exec_locker_step [OF inv legal] by blast
  then show ?thesis using unit_bystander [of l' s s' l k] l'(1) by (auto simp: step_ok_def)
qed (use exec_locker_step [OF inv legal, of l] in \<open>auto simp: step_ok_def\<close>)

subsection \<open>Runs\<close>

interpretation lks: operation_system exec_locker locker_legal sy_inv
  by unfold_locales (use exec_locker_ok in blast)

definition unit_legal :: "LockerId \<Rightarrow> ResourceId \<Rightarrow> LockSystem \<Rightarrow> locker_op \<Rightarrow> bool" where
  "unit_legal l k s a \<longleftrightarrow> locker_legal s a \<and> in_unit l k s a"

interpretation wu: operation_system exec_locker "unit_legal l k" "\<lambda>s. sy_inv s \<and> unit_state l k s" for l k
proof unfold_locales
  fix s a assume "sy_inv s \<and> unit_state l k s" "unit_legal l k s a"
  then show "\<exists>s'. exec_locker s a = Some s' \<and> sy_inv s' \<and> unit_state l k s'"
    using exec_locker_ok [of s a l k] by (auto simp: unit_legal_def)
qed

lemma sy_inv_init: "sy_inv (sy_init rq tickets db)"
proof -
  have "\<not> holder (lm_init r) k x" "\<not> waiter (lm_init r) k x" for r k x
    by (simp_all add: holder_def waiter_def lm_init_def deref.simps at_part_def partition_find_def)
  then show ?thesis
    by (simp add: sy_inv_def sy_init_def lm_inv_init no_temp_init maps_ok_def owned_ok_def waits_ok_def counts_ok_def
        pending_keys_def tickets_ok_def LockerImpl_new_def Let_def) (simp add: lm_init_def)
qed

end
