(* ===== verification/Locker_Properties.thy ===== *)
theory Locker_Properties
  imports Locker_System Lock_Manager_Properties
begin

text \<open>
  The properties of the lockers of a server, for every state that a legal sequence of operations of any
  lockers reaches, and a concrete run of two lockers that witnesses them.
\<close>

definition granted_mode :: "LockSystem \<Rightarrow> LockerId \<Rightarrow> ResourceId \<Rightarrow> LockMode" where
  "granted_mode s l k = (case lookup s l k of None \<Rightarrow> MODE_NONE
     | Some x \<Rightarrow> if status (request_of s x) = STATUS_WAITING then MODE_NONE else mode (request_of s x))"

lemma granted_held:
  assumes inv: "sy_inv s" and g: "granted_mode s l k \<noteq> MODE_NONE"
  shows "\<exists>x. lookup s l k = Some x \<and> holder (sy_lm s) k x \<and> granted_mode s l k = mode (request_of s x)"
proof -
  obtain x where x: "lookup s l k = Some x" "status (request_of s x) \<noteq> STATUS_WAITING"
    using g by (auto simp: granted_mode_def split: option.splits if_splits)
  then show ?thesis using claim_count(5) [of s l k x] inv by (auto simp: sy_inv_core granted_mode_def)
qed

lemma granted_compatible:
  assumes inv: "sy_inv s" and "l \<noteq> l'"
  shows "\<not> mode_conflict (granted_mode s l k) (granted_mode s l' k)"
proof
  assume c: "mode_conflict (granted_mode s l k) (granted_mode s l' k)"
  then have "granted_mode s l k \<noteq> MODE_NONE" "granted_mode s l' k \<noteq> MODE_NONE" by (auto simp: mode_conflict_iff split: LockMode.splits)
  then obtain x y where x: "lookup s l k = Some x" "holder (sy_lm s) k x" "granted_mode s l k = mode (request_of s x)"
    and y: "lookup s l' k = Some y" "holder (sy_lm s) k y" "granted_mode s l' k = mode (request_of s y)"
    using granted_held [OF inv] by blast
  have "x \<noteq> y" using lookup_unique(1) [OF sy_invD(3) [OF inv] x(1), of l' k] y(1) \<open>l \<noteq> l'\<close> by auto
  then show False using holders_compatible [OF sy_invD(1) [OF inv] x(2) y(2)] c x(3) y(3) by simp
qed

lemma granted_write:
  assumes inv: "sy_inv s"
  shows "write_held s l k \<longleftrightarrow> granted_mode s l k = MODE_IX \<or> granted_mode s l k = MODE_X"
proof
  assume "write_held s l k"
  then obtain x where x: "lookup s l k = Some x" "holder (sy_lm s) k x" "mode (request_of s x) \<in> {MODE_IX, MODE_X}"
    by (auto simp: write_held_def)
  then show "granted_mode s l k = MODE_IX \<or> granted_mode s l k = MODE_X"
    using holder_status(1) [OF sy_invD(1) [OF inv] x(2)] by (auto simp: granted_mode_def)
next
  assume g: "granted_mode s l k = MODE_IX \<or> granted_mode s l k = MODE_X"
  then have "granted_mode s l k \<noteq> MODE_NONE" by auto
  from granted_held [OF inv this] show "write_held s l k" using g by (auto simp: write_held_def)
qed

subsection \<open>A concrete run\<close>

text \<open>
  Locker 1 takes the global lock, a database and a collection for writing and releases the collection in a
  write unit of work, where the release is deferred. Then locker 2 asks for the collection and waits, and
  locker 1 starts a nested unit, takes the collection again and ends the nested unit.
\<close>

definition demo_coll :: ResourceId where
  "demo_coll = mk_ResourceId RESOURCE_COLLECTION 7"

definition demo_locker_ops :: "locker_op list" where
  "demo_locker_ops =
     [LockGlobalBegin 1 MODE_IX TicketAcquired False, LockBegin 1 demo_db MODE_IX False,
      BeginUnit 1, LockBegin 1 demo_coll MODE_X False, UnlockKey 1 demo_coll,
      LockGlobalBegin 2 MODE_IX TicketAcquired False, LockBegin 2 demo_db MODE_IX False]"

definition demo_unit_ops :: "locker_op list" where
  "demo_unit_ops =
     [LockBegin 2 demo_coll MODE_IX False, BeginUnit 1, LockBegin 1 demo_coll MODE_X False, UnlockKey 1 demo_coll, EndUnit 1,
      UnlockKey 1 demo_db, LockPass 2 demo_coll None None True (WaitReturned 5)]"

abbreviation demo_system :: LockSystem where
  "demo_system \<equiv> sy_init demo_requests (Some (\<lambda>_. 128)) True"

definition demo_locker_state :: LockSystem where
  "demo_locker_state = the (run_ops exec_locker demo_system demo_locker_ops)"

definition demo_locker_check :: "LockSystem \<Rightarrow> bool" where
  "demo_locker_check s \<longleftrightarrow> granted_mode s 1 demo_coll = MODE_X \<and> inAWriteUnitOfWork s 1 \<and>
     \<not> prepareModeForLockYields (sy_lockers s 1) \<and> legal_run exec_locker (unit_legal 1 demo_coll) s demo_unit_ops"

lemma demo_locker_legal: "legal_run exec_locker locker_legal demo_system demo_locker_ops"
  by code_simp

lemma demo_locker_run: "run_ops exec_locker demo_system demo_locker_ops = Some demo_locker_state"
  using lks.run_total [OF sy_inv_init demo_locker_legal] by (auto simp: demo_locker_state_def)

lemma demo_locker_checked: "demo_locker_check demo_locker_state"
proof -
  have "case run_ops exec_locker demo_system demo_locker_ops of None \<Rightarrow> False | Some s \<Rightarrow> demo_locker_check s"
    by code_simp
  then show ?thesis by (simp add: demo_locker_state_def split: option.splits)
qed

subsection \<open>Properties\<close>





end
