(* ===== verification/Locker_Findings.thy ===== *)
theory Locker_Findings
  imports Locker_Properties
begin

text \<open>
  Runs in which an invariant of the code fails, outside the contract that the theorems on lockers assume.
  They show which parts of the contract the code itself needs.
\<close>

text \<open>
  In a write unit of work \<open>unlock\<close> reads the key of the iterator before it tests that the lock was found, so
  that the release of a lock that is not held aborts there.
\<close>

lemma unlock_not_held_aborts:
  assumes "inAWriteUnitOfWork s l" and "lookup s l k = None"
  shows "lk_unlock s l k = None"
  using assms by (simp add: lk_unlock_def Let_def fm_lookup_None it_key_def invariant_def)

text \<open>Five references to one lock, taken in the same mode and released in one write unit of work.\<close>

definition repeated_unlock_ops :: "locker_op list" where
  "repeated_unlock_ops =
     LockGlobalBegin 1 MODE_IX TicketAcquired False # BeginUnit 1 #
     replicate 5 (LockBegin 1 demo_db MODE_IX False) @ replicate 5 (UnlockKey 1 demo_db)"

lemma repeated_unlock_aborts:
  "run_ops exec_locker demo_system (butlast repeated_unlock_ops) \<noteq> None \<and>
   run_ops exec_locker demo_system repeated_unlock_ops = None"
  by code_simp

text \<open>
  The conversion of a global lock from IS to S marks the request as compatible-first. When the request is on
  the lock head and not in a partition, which is the case here because locker 1 held the lock in S, it is not
  counted there as compatible-first; the last release of the lock then aborts.
\<close>

definition converted_global_ops :: "locker_op list" where
  "converted_global_ops =
     [LockGlobalBegin 1 MODE_S TicketAcquired False, LockGlobalBegin 2 MODE_IS TicketAcquired False, UnlockGlobal 1,
      LockGlobalBegin 2 MODE_S TicketAcquired False, UnlockGlobal 2, UnlockGlobal 2]"

lemma converted_global_aborts:
  "run_ops exec_locker demo_system (butlast converted_global_ops) \<noteq> None \<and>
   run_ops exec_locker demo_system converted_global_ops = None"
  by code_simp

end
