(* ===== verification/Timestamps.thy ===== *)
theory Timestamps
  imports Prelude
begin

text \<open>
  Class Timestamp of bson/timestamp.h, a pair of 32-bit seconds and increment with the
  lexicographic order, and class OpTime of db/repl/optime.h, a timestamp with the term of the primary
  that wrote the operation. Terms are signed 64-bit numbers that are only compared; they are \<open>int\<close>.
\<close>

subsection \<open>Timestamp\<close>

datatype Timestamp = Timestamp (getSecs: u32) (getInc: u32)

definition Timestamp_min :: Timestamp where
  "Timestamp_min = Timestamp 0 0"

definition Timestamp_max :: Timestamp where
  "Timestamp_max = Timestamp (- 1) (- 1)"

definition ts_isNull :: "Timestamp \<Rightarrow> bool" where
  "ts_isNull t \<longleftrightarrow> getSecs t = 0"

text \<open>The comparison operators compare the pairs that \<open>tie\<close> makes, seconds first.\<close>

definition ts_less_eq :: "Timestamp \<Rightarrow> Timestamp \<Rightarrow> bool" where
  "ts_less_eq a b \<longleftrightarrow> getSecs a < getSecs b \<or> getSecs a = getSecs b \<and> getInc a \<le> getInc b"

definition ts_less :: "Timestamp \<Rightarrow> Timestamp \<Rightarrow> bool" where
  "ts_less a b \<longleftrightarrow> getSecs a < getSecs b \<or> getSecs a = getSecs b \<and> getInc a < getInc b"

instantiation Timestamp :: linorder
begin

definition less_eq_Timestamp :: "Timestamp \<Rightarrow> Timestamp \<Rightarrow> bool" where
  "less_eq_Timestamp = ts_less_eq"

definition less_Timestamp :: "Timestamp \<Rightarrow> Timestamp \<Rightarrow> bool" where
  "less_Timestamp = ts_less"

instance
  by standard (auto simp: less_eq_Timestamp_def less_Timestamp_def ts_less_eq_def ts_less_def Timestamp.expand)

end

lemma Timestamp_min_le [simp]: "Timestamp_min \<le> t"
  by (simp add: Timestamp_min_def less_eq_Timestamp_def ts_less_eq_def)
    (metis order_le_less word_coorder.extremum_strict word_zero_le)

lemma le_Timestamp_min [simp]: "t \<le> Timestamp_min \<longleftrightarrow> t = Timestamp_min"
  by (metis Timestamp_min_le order_antisym)

subsection \<open>OpTime\<close>

datatype OpTime = OpTime (getTimestamp: Timestamp) (getTerm: int)

definition kUninitializedTerm :: int where
  "kUninitializedTerm = - 1"

definition kInitialTerm :: int where
  "kInitialTerm = 0"

definition OpTime_null :: OpTime where
  "OpTime_null = OpTime Timestamp_min kUninitializedTerm"

definition opTime_isNull :: "OpTime \<Rightarrow> bool" where
  "opTime_isNull o1 \<longleftrightarrow> ts_isNull (getTimestamp o1)"

definition opTime_eq :: "OpTime \<Rightarrow> OpTime \<Rightarrow> bool" where
  "opTime_eq a b \<longleftrightarrow>
     (if getTerm a = kUninitializedTerm \<or> getTerm b = kUninitializedTerm
      then getTimestamp a = getTimestamp b
      else getTerm a = getTerm b \<and> getTimestamp a = getTimestamp b)"

definition opTime_less :: "OpTime \<Rightarrow> OpTime \<Rightarrow> bool" where
  "opTime_less a b \<longleftrightarrow>
     (if getTerm a = kUninitializedTerm \<or> getTerm b = kUninitializedTerm
      then getTimestamp a < getTimestamp b
      else getTerm a < getTerm b \<or> getTerm a = getTerm b \<and> getTimestamp a < getTimestamp b)"

definition opTime_le :: "OpTime \<Rightarrow> OpTime \<Rightarrow> bool" where
  "opTime_le a b \<longleftrightarrow> opTime_less a b \<or> opTime_eq a b"

definition opTime_greater :: "OpTime \<Rightarrow> OpTime \<Rightarrow> bool" where
  "opTime_greater a b \<longleftrightarrow> \<not> opTime_le a b"

definition opTime_ge :: "OpTime \<Rightarrow> OpTime \<Rightarrow> bool" where
  "opTime_ge a b \<longleftrightarrow> \<not> opTime_less a b"

text \<open>
  The comparison of a pair of optimes, as std::tuple compares: by \<open><\<close> on the components in turn.
\<close>

definition opTime_pair_le :: "OpTime \<times> OpTime \<Rightarrow> OpTime \<times> OpTime \<Rightarrow> bool" where
  "opTime_pair_le a b \<longleftrightarrow>
     \<not> (opTime_less (fst b) (fst a) \<or>
        \<not> opTime_less (fst a) (fst b) \<and> opTime_less (snd b) (snd a))"

definition opTime_max :: "OpTime \<Rightarrow> OpTime \<Rightarrow> OpTime" where
  "opTime_max a b = (if opTime_less a b then b else a)"

text \<open>
  The optimes that nodes of protocol version 1 exchange: the null optime of a node without data, or
  the optime of an operation, which has a term and a timestamp.
\<close>

definition valid_opTime :: "OpTime \<Rightarrow> bool" where
  "valid_opTime a \<longleftrightarrow> a = OpTime_null \<or> getTerm a \<noteq> kUninitializedTerm \<and> getTimestamp a \<noteq> Timestamp_min"

lemma valid_opTime_null [simp]: "valid_opTime OpTime_null"
  by (simp add: valid_opTime_def)

text \<open>On them the comparison operators are a linear order with the null optime as its least element.\<close>

named_theorems opTime_defs \<open>the comparison operators of optimes\<close>

lemmas [opTime_defs] = opTime_le_def opTime_greater_def opTime_ge_def opTime_less_def opTime_eq_def
  valid_opTime_def OpTime_null_def kUninitializedTerm_def

lemma Timestamp_min_less: "Timestamp_min < t \<longleftrightarrow> t \<noteq> Timestamp_min"
  using Timestamp_min_le [of t] by (auto simp: order_less_le)

lemma not_less_Timestamp_min: "\<not> t < Timestamp_min"
  using Timestamp_min_le [of t] by (simp add: not_less)

lemma opTime_eq_iff: "valid_opTime a \<Longrightarrow> valid_opTime b \<Longrightarrow> opTime_eq a b \<longleftrightarrow> a = b"
  by (cases a; cases b) (auto simp: opTime_defs)

lemma opTime_less_linear:
  "valid_opTime a \<Longrightarrow> valid_opTime b \<Longrightarrow> opTime_less a b \<or> a = b \<or> opTime_less b a"
  by (cases a; cases b) (auto simp: opTime_defs Timestamp_min_less)

lemma opTime_less_irrefl [simp]: "\<not> opTime_less a a"
  by (simp add: opTime_less_def)

lemma opTime_less_asym: "opTime_less a b \<Longrightarrow> \<not> opTime_less b a"
  unfolding opTime_less_def by (metis order_less_asym order_less_irrefl)

lemma opTime_less_iff:
  assumes "valid_opTime a" and "valid_opTime b"
  shows "opTime_less a b \<longleftrightarrow> b \<noteq> OpTime_null \<and>
    (a = OpTime_null \<or> getTerm a < getTerm b \<or> getTerm a = getTerm b \<and> getTimestamp a < getTimestamp b)"
proof -
  have null: "getTerm OpTime_null = kUninitializedTerm" "getTimestamp OpTime_null = Timestamp_min"
    by (simp_all add: OpTime_null_def)
  consider "a = OpTime_null" | "a \<noteq> OpTime_null" "b = OpTime_null"
    | "a \<noteq> OpTime_null" "b \<noteq> OpTime_null" by blast
  then show ?thesis
  proof cases
    case 1
    then show ?thesis using assms(2) by (auto simp: opTime_less_def null Timestamp_min_less valid_opTime_def)
  next
    case 2
    then show ?thesis by (simp add: opTime_less_def null not_less_Timestamp_min)
  next
    case 3
    then show ?thesis using assms by (simp add: opTime_less_def valid_opTime_def)
  qed
qed

lemma opTime_less_trans:
  "valid_opTime a \<Longrightarrow> valid_opTime b \<Longrightarrow> valid_opTime c \<Longrightarrow> opTime_less a b \<Longrightarrow> opTime_less b c \<Longrightarrow> opTime_less a c"
  by (simp add: opTime_less_iff) (metis order_less_trans)

lemma opTime_le_iff: "valid_opTime a \<Longrightarrow> valid_opTime b \<Longrightarrow> opTime_le a b \<longleftrightarrow> opTime_less a b \<or> a = b"
  by (simp add: opTime_le_def opTime_eq_iff)

lemma opTime_ge_iff: "valid_opTime a \<Longrightarrow> valid_opTime b \<Longrightarrow> opTime_ge a b \<longleftrightarrow> opTime_le b a"
  using opTime_less_linear [of a b] opTime_less_asym [of b a] by (auto simp: opTime_ge_def opTime_le_iff)

lemma opTime_greater_iff: "valid_opTime a \<Longrightarrow> valid_opTime b \<Longrightarrow> opTime_greater a b \<longleftrightarrow> opTime_less b a"
  using opTime_less_linear [of a b] opTime_less_asym [of b a] by (auto simp: opTime_greater_def opTime_le_iff)

lemma opTime_null_least [simp]: "valid_opTime a \<Longrightarrow> opTime_le OpTime_null a"
  by (cases a) (auto simp: opTime_defs Timestamp_min_less)

lemma opTime_ge_null [simp]: "valid_opTime a \<Longrightarrow> opTime_ge a OpTime_null"
  by (simp add: opTime_ge_iff)

end
