(* ===== verification/Txn_Coordinator.thy ===== *)
theory Txn_Coordinator
  imports Operation_System Timestamps
begin

text \<open>
  The coordinator of a distributed transaction commit, class TransactionCoordinator of
  db/transaction_coordinator.h and transaction_coordinator.cpp: the list of participants with their
  votes and acknowledgements, the state machine with its transition table, and the message handlers.

  A handler that throws (\<open>uassert\<close>) answers \<open>Inl\<close> and keeps the changes it made before; a failed
  \<open>invariant\<close> or MONGO\_UNREACHABLE ends the process and is \<open>None\<close>. A promise is named by a
  number; \<open>signalled\<close> records the promises that were fulfilled and with which state.
\<close>

type_synonym ShardId = string

datatype Vote = Vote_kUnknown | Vote_kAbort | Vote_kCommit
datatype Ack = Ack_kNone | Ack_kCommit

record Participant =
  vote :: Vote
  ack :: Ack
  prepareTimestamp :: "Timestamp option"

datatype State =
  kWaitingForParticipantList | kWaitingForVotes | kAborted | kWaitingForCommitAcks | kCommitted | kBroken

datatype Event =
  kRecvVoteAbort | kRecvVoteCommit | kRecvParticipantList | kRecvFinalVoteCommit |
  kRecvFinalCommitAck | kRecvTryAbort

datatype Action = Action_kNone | kSendCommit | kSendAbort

record Transition =
  action :: Action
  nextState :: "State option"

record TransactionCoordinator =
  fullListReceived :: bool
  participants :: "(ShardId \<times> Participant) list"
  tc_state :: State
  stateTransitionPromises :: "(nat \<times> State list) list"
  promisesMade :: nat
  signalled :: "(nat \<times> State) list"

definition tc_init :: TransactionCoordinator where
  "tc_init = \<lparr>fullListReceived = False, participants = [], tc_state = kWaitingForParticipantList,
     stateTransitionPromises = [], promisesMade = 0, signalled = []\<rparr>"

datatype ErrorCode = InternalError

type_synonym 'a handler_result = "((ErrorCode + 'a) \<times> TransactionCoordinator) option"

text \<open>Running the rest of a handler unless an exception was thrown.\<close>

definition continue ::
  "'a handler_result \<Rightarrow> ('a \<Rightarrow> TransactionCoordinator \<Rightarrow> 'b handler_result) \<Rightarrow> 'b handler_result" where
  "continue r k = r \<bind> (\<lambda>(x, c). case x of Inl e \<Rightarrow> Some (Inl e, c) | Inr a \<Rightarrow> k a c)"

definition uassert :: "bool \<Rightarrow> TransactionCoordinator \<Rightarrow> unit handler_result" where
  "uassert b c = Some (if b then Inr () else Inl InternalError, c)"

subsection \<open>ParticipantList\<close>

definition new_Participant :: Participant where
  "new_Participant = \<lparr>vote = Vote_kUnknown, ack = Ack_kNone, prepareTimestamp = None\<rparr>"

definition put_participant :: "TransactionCoordinator \<Rightarrow> ShardId \<Rightarrow> Participant \<Rightarrow> TransactionCoordinator" where
  "put_participant c s p = c\<lparr>participants := AList.update s p (participants c)\<rparr>"

definition recordParticipant :: "TransactionCoordinator \<Rightarrow> ShardId \<Rightarrow> TransactionCoordinator" where
  "recordParticipant c s =
     (if map_of (participants c) s = None then put_participant c s new_Participant else c)"

definition validate_participants :: "TransactionCoordinator \<Rightarrow> ShardId list \<Rightarrow> unit handler_result" where
  "validate_participants c shards =
     continue (uassert (list_all (\<lambda>s. map_of (participants c) s \<noteq> None) shards) c) (\<lambda>_ c.
       uassert (list_all (\<lambda>(s, _). s \<in> set shards) (participants c)) c)"

definition recordFullList :: "TransactionCoordinator \<Rightarrow> ShardId list \<Rightarrow> unit handler_result" where
  "recordFullList c shards =
     (let c = (if fullListReceived c then c
               else (fold (\<lambda>s c. recordParticipant c s) shards c)\<lparr>fullListReceived := True\<rparr>)
      in validate_participants c shards)"

definition recordVoteCommit :: "TransactionCoordinator \<Rightarrow> ShardId \<Rightarrow> Timestamp \<Rightarrow> unit handler_result" where
  "recordVoteCommit c s ts =
     (let c = (if fullListReceived c then c else recordParticipant c s) in
      case map_of (participants c) s of
        None \<Rightarrow> Some (Inl InternalError, c)
      | Some p \<Rightarrow>
          continue (uassert (vote p \<noteq> Vote_kAbort) c) (\<lambda>_ c.
            if vote p = Vote_kUnknown then
              Some (Inr (), put_participant c s (p\<lparr>vote := Vote_kCommit, prepareTimestamp := Some ts\<rparr>))
            else uassert (prepareTimestamp p = Some ts) c))"

definition recordVoteAbort :: "TransactionCoordinator \<Rightarrow> ShardId \<Rightarrow> unit handler_result" where
  "recordVoteAbort c s =
     (let c = (if fullListReceived c then c else recordParticipant c s) in
      case map_of (participants c) s of
        None \<Rightarrow> Some (Inl InternalError, c)
      | Some p \<Rightarrow>
          continue (uassert (vote p \<noteq> Vote_kCommit) c) (\<lambda>_ c.
            Some (Inr (), put_participant c s (p\<lparr>vote := Vote_kAbort\<rparr>))))"

definition recordCommitAck :: "TransactionCoordinator \<Rightarrow> ShardId \<Rightarrow> unit handler_result" where
  "recordCommitAck c s =
     (case map_of (participants c) s of
        None \<Rightarrow> Some (Inl InternalError, c)
      | Some p \<Rightarrow> Some (Inr (), put_participant c s (p\<lparr>ack := Ack_kCommit\<rparr>)))"

definition allParticipantsVotedCommit :: "TransactionCoordinator \<Rightarrow> bool" where
  "allParticipantsVotedCommit c \<longleftrightarrow>
     fullListReceived c \<and> list_all (\<lambda>(_, p). vote p = Vote_kCommit) (participants c)"

definition allParticipantsAckedCommit :: "TransactionCoordinator \<Rightarrow> bool option" where
  "allParticipantsAckedCommit c = do {
     invariant (fullListReceived c);
     Some (list_all (\<lambda>(_, p). ack p = Ack_kCommit) (participants c))
   }"

fun highest_from :: "Timestamp \<Rightarrow> (ShardId \<times> Participant) list \<Rightarrow> Timestamp option" where
  "highest_from h [] = Some h"
| "highest_from h ((_, p) # ps) = do {
     ts \<leftarrow> prepareTimestamp p;
     highest_from (if ts > h then ts else h) ps
   }"

definition getHighestPrepareTimestamp :: "TransactionCoordinator \<Rightarrow> Timestamp option" where
  "getHighestPrepareTimestamp c = do {
     invariant (fullListReceived c);
     highest_from Timestamp_min (participants c)
   }"

definition getNonAckedCommitParticipants :: "TransactionCoordinator \<Rightarrow> ShardId set" where
  "getNonAckedCommitParticipants c =
     fst ` set (filter (\<lambda>(_, p). ack p \<noteq> Ack_kCommit) (participants c))"

definition getNonVotedAbortParticipants :: "TransactionCoordinator \<Rightarrow> ShardId set option" where
  "getNonVotedAbortParticipants c = do {
     let ps = filter (\<lambda>(_, p). vote p \<noteq> Vote_kAbort) (participants c);
     invariant (list_all (\<lambda>(_, p). ack p = Ack_kNone) ps);
     Some (fst ` set ps)
   }"

subsection \<open>StateMachine\<close>

fun transitionTable :: "State \<Rightarrow> Event \<Rightarrow> Transition option" where
  "transitionTable kWaitingForParticipantList e = (case e of
     kRecvVoteAbort \<Rightarrow> Some \<lparr>action = kSendAbort, nextState = Some kAborted\<rparr>
   | kRecvVoteCommit \<Rightarrow> Some \<lparr>action = Action_kNone, nextState = None\<rparr>
   | kRecvParticipantList \<Rightarrow> Some \<lparr>action = Action_kNone, nextState = Some kWaitingForVotes\<rparr>
   | kRecvTryAbort \<Rightarrow> Some \<lparr>action = kSendAbort, nextState = Some kAborted\<rparr>
   | _ \<Rightarrow> None)"
| "transitionTable kWaitingForVotes e = (case e of
     kRecvVoteAbort \<Rightarrow> Some \<lparr>action = kSendAbort, nextState = Some kAborted\<rparr>
   | kRecvVoteCommit \<Rightarrow> Some \<lparr>action = Action_kNone, nextState = None\<rparr>
   | kRecvParticipantList \<Rightarrow> Some \<lparr>action = Action_kNone, nextState = None\<rparr>
   | kRecvFinalVoteCommit \<Rightarrow> Some \<lparr>action = kSendCommit, nextState = Some kWaitingForCommitAcks\<rparr>
   | kRecvTryAbort \<Rightarrow> Some \<lparr>action = kSendAbort, nextState = Some kAborted\<rparr>
   | _ \<Rightarrow> None)"
| "transitionTable kAborted e = (case e of
     kRecvVoteAbort \<Rightarrow> Some \<lparr>action = Action_kNone, nextState = None\<rparr>
   | kRecvVoteCommit \<Rightarrow> Some \<lparr>action = kSendAbort, nextState = None\<rparr>
   | kRecvParticipantList \<Rightarrow> Some \<lparr>action = Action_kNone, nextState = None\<rparr>
   | kRecvTryAbort \<Rightarrow> Some \<lparr>action = Action_kNone, nextState = None\<rparr>
   | _ \<Rightarrow> None)"
| "transitionTable kWaitingForCommitAcks e = (case e of
     kRecvVoteCommit \<Rightarrow> Some \<lparr>action = Action_kNone, nextState = None\<rparr>
   | kRecvParticipantList \<Rightarrow> Some \<lparr>action = Action_kNone, nextState = None\<rparr>
   | kRecvFinalVoteCommit \<Rightarrow> Some \<lparr>action = kSendCommit, nextState = None\<rparr>
   | kRecvFinalCommitAck \<Rightarrow> Some \<lparr>action = Action_kNone, nextState = Some kCommitted\<rparr>
   | kRecvTryAbort \<Rightarrow> Some \<lparr>action = Action_kNone, nextState = None\<rparr>
   | _ \<Rightarrow> None)"
| "transitionTable kCommitted e = (case e of
     kRecvVoteAbort \<Rightarrow> None
   | _ \<Rightarrow> Some \<lparr>action = Action_kNone, nextState = None\<rparr>)"
| "transitionTable kBroken e = None"

text \<open>
  The name of an event, written into the error message for an illegal event. The switch has no case
  for kRecvTryAbort and reaches MONGO\_UNREACHABLE.
\<close>

fun event_name :: "Event \<Rightarrow> string option" where
  "event_name kRecvVoteAbort = Some ''kRecvVoteAbort''"
| "event_name kRecvVoteCommit = Some ''kRecvVoteCommit''"
| "event_name kRecvParticipantList = Some ''kRecvParticipantList''"
| "event_name kRecvFinalVoteCommit = Some ''kRecvFinalVoteCommit''"
| "event_name kRecvFinalCommitAck = Some ''kRecvFinalCommitAck''"
| "event_name kRecvTryAbort = None"

definition signalAllPromisesWaitingForState :: "TransactionCoordinator \<Rightarrow> State \<Rightarrow> TransactionCoordinator" where
  "signalAllPromisesWaitingForState c newState =
     (let (trigger, rest) = partition (\<lambda>(_, states). newState \<in> set states) (stateTransitionPromises c) in
      c\<lparr>stateTransitionPromises := rest,
        signalled := signalled c @ map (\<lambda>(i, _). (i, newState)) trigger\<rparr>)"

definition onEvent :: "TransactionCoordinator \<Rightarrow> Event \<Rightarrow> Action handler_result" where
  "onEvent c e =
     (case transitionTable (tc_state c) e of
        None \<Rightarrow> do {
          _ \<leftarrow> event_name e;
          Some (Inl InternalError, c\<lparr>tc_state := kBroken\<rparr>)
        }
      | Some t \<Rightarrow>
          (case nextState t of
             None \<Rightarrow> Some (Inr (action t), c)
           | Some s \<Rightarrow> Some (Inr (action t), signalAllPromisesWaitingForState (c\<lparr>tc_state := s\<rparr>) s)))"

datatype StateFuture = Ready State | Promised nat

definition waitForTransitionTo ::
  "TransactionCoordinator \<Rightarrow> State list \<Rightarrow> (StateFuture \<times> TransactionCoordinator) option" where
  "waitForTransitionTo c states = do {
     invariant (kCommitted \<in> set states);
     invariant (kAborted \<in> set states);
     if tc_state c \<in> set states then Some (Ready (tc_state c), c)
     else Some (Promised (promisesMade c),
       c\<lparr>stateTransitionPromises := stateTransitionPromises c @ [(promisesMade c, states)],
         promisesMade := promisesMade c + 1\<rparr>)
   }"

subsection \<open>Message handlers\<close>

definition recvCoordinateCommit :: "TransactionCoordinator \<Rightarrow> ShardId list \<Rightarrow> Action handler_result" where
  "recvCoordinateCommit c shards =
     continue (recordFullList c shards) (\<lambda>_ c. onEvent c kRecvParticipantList)"

definition recvVoteCommit :: "TransactionCoordinator \<Rightarrow> ShardId \<Rightarrow> Timestamp \<Rightarrow> Action handler_result" where
  "recvVoteCommit c s ts =
     continue (recordVoteCommit c s ts) (\<lambda>_ c.
       onEvent c (if allParticipantsVotedCommit c then kRecvFinalVoteCommit else kRecvVoteCommit))"

definition recvVoteAbort :: "TransactionCoordinator \<Rightarrow> ShardId \<Rightarrow> Action handler_result" where
  "recvVoteAbort c s = continue (recordVoteAbort c s) (\<lambda>_ c. onEvent c kRecvVoteAbort)"

definition recvTryAbort :: "TransactionCoordinator \<Rightarrow> Action handler_result" where
  "recvTryAbort c = onEvent c kRecvTryAbort"

definition recvCommitAck :: "TransactionCoordinator \<Rightarrow> ShardId \<Rightarrow> Action handler_result" where
  "recvCommitAck c s =
     continue (recordCommitAck c s) (\<lambda>_ c. do {
       all_acked \<leftarrow> allParticipantsAckedCommit c;
       if all_acked then
         continue (onEvent c kRecvFinalCommitAck) (\<lambda>_ c. Some (Inr Action_kNone, c))
       else Some (Inr Action_kNone, c)
     })"

definition waitForCompletion :: "TransactionCoordinator \<Rightarrow> (StateFuture \<times> TransactionCoordinator) option" where
  "waitForCompletion c = waitForTransitionTo c [kCommitted, kAborted]"

definition getCommitTimestamp :: "TransactionCoordinator \<Rightarrow> Timestamp option" where
  "getCommitTimestamp c = getHighestPrepareTimestamp c"

end
