(* ===== verification/Txn_Coordinator_Properties.thy ===== *)
theory Txn_Coordinator_Properties
  imports Txn_Coordinator
begin

text \<open>
  Two-phase commit, seen from the coordinator: whatever messages arrive, in whatever order, the
  coordinator keeps one decision, commits only with all votes, and signals everybody who waits.
\<close>

subsection \<open>Messages\<close>

datatype tc_msg =
  CoordinateCommit "ShardId list" | VoteCommit ShardId Timestamp | VoteAbort ShardId | TryAbort |
  CommitAck ShardId | WaitForCompletion

text \<open>The coordinator together with the actions its handlers have returned so far.\<close>

type_synonym tc_sys = "TransactionCoordinator \<times> Action list"

fun log_action :: "Action list \<Rightarrow> (ErrorCode + Action) \<times> TransactionCoordinator \<Rightarrow> tc_sys" where
  "log_action as (Inl _, c) = (c, as)"
| "log_action as (Inr a, c) = (c, as @ [a])"

fun tc_exec :: "tc_sys \<Rightarrow> tc_msg \<Rightarrow> tc_sys option" where
  "tc_exec (c, as) (CoordinateCommit shards) = map_option (log_action as) (recvCoordinateCommit c shards)"
| "tc_exec (c, as) (VoteCommit s ts) = map_option (log_action as) (recvVoteCommit c s ts)"
| "tc_exec (c, as) (VoteAbort s) = map_option (log_action as) (recvVoteAbort c s)"
| "tc_exec (c, as) TryAbort = map_option (log_action as) (recvTryAbort c)"
| "tc_exec (c, as) (CommitAck s) = map_option (log_action as) (recvCommitAck c s)"
| "tc_exec (c, as) WaitForCompletion = map_option (\<lambda>(_, c). (c, as)) (waitForCompletion c)"

text \<open>
  What the senders promise: an acknowledgement of the commit arrives only once the commit was
  decided, and nobody tries to abort through a broken coordinator.
\<close>

fun tc_legal :: "tc_sys \<Rightarrow> tc_msg \<Rightarrow> bool" where
  "tc_legal (c, as) (CommitAck s) \<longleftrightarrow> tc_state c = kWaitingForCommitAcks \<or> tc_state c = kCommitted"
| "tc_legal (c, as) TryAbort \<longleftrightarrow> tc_state c \<noteq> kBroken"
| "tc_legal _ _ \<longleftrightarrow> True"

subsection \<open>The invariant\<close>

definition participant_ok :: "Participant \<Rightarrow> bool" where
  "participant_ok p \<longleftrightarrow> (vote p = Vote_kCommit \<longleftrightarrow> prepareTimestamp p \<noteq> None)"

definition decided :: "TransactionCoordinator \<Rightarrow> bool" where
  "decided c \<longleftrightarrow> tc_state c = kWaitingForCommitAcks \<or> tc_state c = kCommitted"

definition each_participant :: "(Participant \<Rightarrow> bool) \<Rightarrow> TransactionCoordinator \<Rightarrow> bool" where
  "each_participant P c \<longleftrightarrow> (\<forall>s p. map_of (participants c) s = Some p \<longrightarrow> P p)"

text \<open>Every promise made is pending or was fulfilled, once, with the outcome.\<close>

definition promises_ok :: "TransactionCoordinator \<Rightarrow> bool" where
  "promises_ok c \<longleftrightarrow>
     mset (map fst (stateTransitionPromises c)) + mset (map fst (signalled c)) = mset [0..<promisesMade c]"

definition outcome_ok :: "TransactionCoordinator \<Rightarrow> bool" where
  "outcome_ok c \<longleftrightarrow> (\<forall>(i, s) \<in> set (signalled c).
     s = kCommitted \<and> tc_state c = kCommitted \<or>
     s = kAborted \<and> (tc_state c = kAborted \<or> tc_state c = kBroken))"

definition tc_ok :: "TransactionCoordinator \<Rightarrow> bool" where
  "tc_ok c \<longleftrightarrow>
     distinct (map fst (participants c)) \<and>
     each_participant participant_ok c \<and>
     (decided c \<longrightarrow> fullListReceived c \<and> participants c \<noteq> [] \<and>
        each_participant (\<lambda>p. vote p = Vote_kCommit) c) \<and>
     (tc_state c = kWaitingForVotes \<longrightarrow> fullListReceived c) \<and>
     (tc_state c = kCommitted \<longrightarrow> each_participant (\<lambda>p. ack p = Ack_kCommit) c) \<and>
     (\<forall>(i, states) \<in> set (stateTransitionPromises c). states = [kCommitted, kAborted]) \<and>
     (tc_state c = kCommitted \<or> tc_state c = kAborted \<longrightarrow> stateTransitionPromises c = []) \<and>
     promises_ok c \<and> outcome_ok c"

definition tc_inv :: "tc_sys \<Rightarrow> bool" where
  "tc_inv s \<longleftrightarrow> (case s of (c, as) \<Rightarrow> tc_ok c \<and>
     (kSendCommit \<in> set as \<longrightarrow> decided c) \<and>
     (kSendAbort \<in> set as \<longrightarrow> tc_state c = kAborted \<or> tc_state c = kBroken))"

lemma each_participant_state [simp]: "each_participant P (c\<lparr>tc_state := s\<rparr>) = each_participant P c"
  by (simp add: each_participant_def)

lemma list_all_participants:
  "distinct (map fst (participants c)) \<Longrightarrow>
   list_all (\<lambda>(_, p). P p) (participants c) \<longleftrightarrow> each_participant P c"
  by (auto simp: list_all_iff each_participant_def)

lemma allParticipantsVotedCommit_iff:
  "distinct (map fst (participants c)) \<Longrightarrow>
   allParticipantsVotedCommit c \<longleftrightarrow> fullListReceived c \<and> each_participant (\<lambda>p. vote p = Vote_kCommit) c"
  by (simp add: allParticipantsVotedCommit_def list_all_participants)

lemma each_participant_put [simp]:
  "each_participant P c \<Longrightarrow> P p \<Longrightarrow> each_participant P (put_participant c s p)"
  by (simp add: each_participant_def put_participant_def)

lemma put_participant_simps [simp]:
  "tc_state (put_participant c s p) = tc_state c"
  "fullListReceived (put_participant c s p) = fullListReceived c"
  "stateTransitionPromises (put_participant c s p) = stateTransitionPromises c"
  "signalled (put_participant c s p) = signalled c"
  "promisesMade (put_participant c s p) = promisesMade c"
  "map_of (participants (put_participant c s p)) = (map_of (participants c))(s \<mapsto> p)"
  "distinct (map fst (participants c)) \<Longrightarrow> distinct (map fst (participants (put_participant c s p)))"
  "decided (put_participant c s p) = decided c"
  "participants (put_participant c s p) \<noteq> []"
  "promises_ok (put_participant c s p) = promises_ok c"
  "outcome_ok (put_participant c s p) = outcome_ok c"
  by (simp_all add: put_participant_def decided_def update_nonempty promises_ok_def outcome_ok_def)

text \<open>The participant list changes without touching the state machine.\<close>

definition same_machine :: "TransactionCoordinator \<Rightarrow> TransactionCoordinator \<Rightarrow> bool" where
  "same_machine c c' \<longleftrightarrow> tc_state c' = tc_state c \<and> stateTransitionPromises c' = stateTransitionPromises c \<and>
     promisesMade c' = promisesMade c \<and> signalled c' = signalled c"

text \<open>The votes of a decided transaction are final.\<close>

definition votes :: "TransactionCoordinator \<Rightarrow> (ShardId \<times> Vote \<times> Timestamp option) list" where
  "votes c = map (\<lambda>(s, p). (s, vote p, prepareTimestamp p)) (participants c)"

lemma votes_put:
  assumes "map_of (participants c) s = Some q" and "vote p = vote q" and "prepareTimestamp p = prepareTimestamp q"
  shows "votes (put_participant c s p) = votes c"
proof -
  have "map_of al s = Some q \<Longrightarrow> map (\<lambda>(s, p). (s, vote p, prepareTimestamp p)) (AList.update s p al) =
      map (\<lambda>(s, p). (s, vote p, prepareTimestamp p)) al" for al
    using assms(2,3) by (induction al) auto
  then show ?thesis using assms(1) by (simp add: votes_def put_participant_def)
qed

lemma tc_ok_put:
  assumes "tc_ok c" and "map_of (participants c) s = Some q" and "participant_ok p"
    and "vote q = Vote_kCommit \<Longrightarrow> vote p = Vote_kCommit" and "ack q = Ack_kCommit \<Longrightarrow> ack p = Ack_kCommit"
  shows "tc_ok (put_participant c s p)"
  using assms unfolding tc_ok_def by (auto simp: each_participant_def)

lemma tc_ok_recordParticipant:
  assumes "tc_ok c" and "\<not> decided c"
  shows "tc_ok (recordParticipant c s)"
  using assms unfolding tc_ok_def recordParticipant_def
  by (auto simp: new_Participant_def participant_ok_def decided_def)

lemma recordParticipant_simps [simp]:
  "tc_state (recordParticipant c s) = tc_state c"
  "fullListReceived (recordParticipant c s) = fullListReceived c"
  "stateTransitionPromises (recordParticipant c s) = stateTransitionPromises c"
  "signalled (recordParticipant c s) = signalled c"
  "promisesMade (recordParticipant c s) = promisesMade c"
  "decided (recordParticipant c s) = decided c"
  by (simp_all add: recordParticipant_def)

lemma tc_ok_fold_recordParticipant:
  assumes "tc_ok c" and "\<not> decided c"
  shows "tc_ok (fold (\<lambda>s c. recordParticipant c s) ss c) \<and>
    same_machine c (fold (\<lambda>s c. recordParticipant c s) ss c)"
  using assms
proof (induction ss arbitrary: c)
  case (Cons s ss)
  from Cons.IH [of "recordParticipant c s"] Cons.prems show ?case
    by (simp add: tc_ok_recordParticipant same_machine_def)
qed (simp add: same_machine_def)

lemma tc_ok_full_list: "tc_ok c \<Longrightarrow> \<not> decided c \<Longrightarrow> tc_ok (c\<lparr>fullListReceived := True\<rparr>)"
  by (simp add: tc_ok_def decided_def each_participant_def promises_ok_def outcome_ok_def)

lemma recordFullList_ok:
  assumes "tc_ok c"
  shows "\<exists>x c'. recordFullList c shards = Some (x, c') \<and> tc_ok c' \<and> same_machine c c' \<and> fullListReceived c' \<and>
    (decided c \<longrightarrow> votes c' = votes c)"
proof -
  let ?c = "if fullListReceived c then c
      else (fold (\<lambda>s c. recordParticipant c s) shards c)\<lparr>fullListReceived := True\<rparr>"
  have "\<not> decided c" if "\<not> fullListReceived c" using assms that by (auto simp: tc_ok_def)
  then have "tc_ok ?c \<and> same_machine c ?c \<and> fullListReceived ?c \<and> (decided c \<longrightarrow> votes ?c = votes c)"
    using assms tc_ok_fold_recordParticipant [OF assms, of shards]
      tc_ok_full_list [of "fold (\<lambda>s c. recordParticipant c s) shards c"]
    by (auto simp: same_machine_def decided_def)
  then show ?thesis
    by (auto simp: recordFullList_def validate_participants_def uassert_def continue_def Let_def)
qed

lemma recordVoteCommit_ok:
  assumes "tc_ok c"
  shows "\<exists>x c'. recordVoteCommit c s ts = Some (x, c') \<and> tc_ok c' \<and> same_machine c c' \<and>
    (decided c \<longrightarrow> votes c' = votes c) \<and> (x = Inr () \<longrightarrow> participants c' \<noteq> [])"
proof -
  let ?c = "if fullListReceived c then c else recordParticipant c s"
  have "\<not> decided c" if "\<not> fullListReceived c" using assms that by (auto simp: tc_ok_def)
  then have ok: "tc_ok ?c" and same: "same_machine c ?c" and dec: "decided c \<Longrightarrow> decided ?c \<and> votes ?c = votes c"
    using assms tc_ok_recordParticipant [OF assms] by (auto simp: same_machine_def)
  show ?thesis
  proof (cases "map_of (participants ?c) s")
    case None
    then show ?thesis using ok same dec by (simp add: recordVoteCommit_def Let_def del: recordParticipant_simps)
  next
    case (Some p)
    have "vote p = Vote_kCommit" if "decided c"
      using dec [OF that] ok Some by (auto simp: tc_ok_def each_participant_def)
    moreover have "tc_ok (put_participant ?c s (p\<lparr>vote := Vote_kCommit, prepareTimestamp := Some ts\<rparr>))"
      using ok Some by (rule tc_ok_put) (simp_all add: participant_ok_def)
    moreover have "participants ?c \<noteq> []" using Some by auto
    ultimately show ?thesis
      using ok same Some dec
      by (auto simp: recordVoteCommit_def Let_def continue_def uassert_def same_machine_def)
  qed
qed

lemma recordVoteAbort_ok:
  assumes "tc_ok c"
  shows "\<exists>x c'. recordVoteAbort c s = Some (x, c') \<and> tc_ok c' \<and> same_machine c c' \<and>
    (x = Inr () \<longrightarrow> \<not> decided c) \<and> (decided c \<longrightarrow> votes c' = votes c)"
proof -
  let ?c = "if fullListReceived c then c else recordParticipant c s"
  have "\<not> decided c" if "\<not> fullListReceived c" using assms that by (auto simp: tc_ok_def)
  then have ok: "tc_ok ?c" and same: "same_machine c ?c" and dec: "decided c \<Longrightarrow> decided ?c \<and> votes ?c = votes c"
    using assms tc_ok_recordParticipant [OF assms] by (auto simp: same_machine_def)
  show ?thesis
  proof (cases "map_of (participants ?c) s")
    case None
    then show ?thesis using ok same dec by (simp add: recordVoteAbort_def Let_def del: recordParticipant_simps)
  next
    case (Some p)
    have undecided: "\<not> decided c" if "vote p \<noteq> Vote_kCommit"
      using dec ok Some that by (auto simp: tc_ok_def each_participant_def)
    have "tc_ok (put_participant ?c s (p\<lparr>vote := Vote_kAbort\<rparr>))" if "vote p \<noteq> Vote_kCommit"
      using ok Some that
      by (intro tc_ok_put [OF ok Some]) (auto simp: participant_ok_def tc_ok_def each_participant_def)
    then show ?thesis
      using ok same Some undecided dec
      by (auto simp: recordVoteAbort_def Let_def continue_def uassert_def same_machine_def)
  qed
qed

lemma recordCommitAck_ok:
  assumes "tc_ok c"
  shows "\<exists>x c'. recordCommitAck c s = Some (x, c') \<and> tc_ok c' \<and> same_machine c c' \<and>
    fullListReceived c' = fullListReceived c \<and> votes c' = votes c"
proof (cases "map_of (participants c) s")
  case (Some p)
  have "participant_ok p" using assms Some by (auto simp: tc_ok_def each_participant_def)
  then have "tc_ok (put_participant c s (p\<lparr>ack := Ack_kCommit\<rparr>))"
    by (intro tc_ok_put [OF assms Some]) (auto simp: participant_ok_def)
  then show ?thesis using Some by (simp add: recordCommitAck_def same_machine_def votes_put)
qed (use assms in \<open>simp add: recordCommitAck_def same_machine_def\<close>)

subsection \<open>The state machine\<close>

definition tc_step_ok :: "TransactionCoordinator \<Rightarrow> ErrorCode + Action \<Rightarrow> TransactionCoordinator \<Rightarrow> bool" where
  "tc_step_ok c x c' \<longleftrightarrow> tc_ok c' \<and>
     (decided c \<longrightarrow> decided c' \<and> votes c' = votes c) \<and>
     (x = Inr kSendCommit \<longrightarrow> decided c') \<and>
     (x = Inr kSendAbort \<longrightarrow> tc_state c' = kAborted) \<and>
     (tc_state c = kAborted \<or> tc_state c = kBroken \<longrightarrow> tc_state c' = kAborted \<or> tc_state c' = kBroken) \<and>
     (tc_state c = kCommitted \<longrightarrow> tc_state c' = kCommitted)"

text \<open>What the handlers guarantee about an event before they raise it.\<close>

definition event_ok :: "TransactionCoordinator \<Rightarrow> Event \<Rightarrow> bool" where
  "event_ok c e \<longleftrightarrow>
     (e = kRecvParticipantList \<longrightarrow> fullListReceived c) \<and>
     (e = kRecvFinalVoteCommit \<longrightarrow> fullListReceived c \<and> participants c \<noteq> [] \<and>
        each_participant (\<lambda>p. vote p = Vote_kCommit) c) \<and>
     (e = kRecvFinalCommitAck \<longrightarrow> each_participant (\<lambda>p. ack p = Ack_kCommit) c) \<and>
     (e = kRecvVoteAbort \<longrightarrow> \<not> decided c)"

lemma onEvent_None: "onEvent c e = None \<longleftrightarrow> tc_state c = kBroken \<and> e = kRecvTryAbort"
  by (cases "tc_state c"; cases e) (simp_all add: onEvent_def)

lemma signal_all:
  assumes "tc_ok c" and "s = kCommitted \<or> s = kAborted"
  shows "stateTransitionPromises (signalAllPromisesWaitingForState (c\<lparr>tc_state := s\<rparr>) s) = []"
  using assms
  by (auto simp: signalAllPromisesWaitingForState_def tc_ok_def filter_empty_conv o_def)

lemma signal_simps [simp]:
  "tc_state (signalAllPromisesWaitingForState c s) = tc_state c"
  "participants (signalAllPromisesWaitingForState c s) = participants c"
  "fullListReceived (signalAllPromisesWaitingForState c s) = fullListReceived c"
  "each_participant P (signalAllPromisesWaitingForState c s) = each_participant P c"
  "set (stateTransitionPromises (signalAllPromisesWaitingForState c s)) \<subseteq> set (stateTransitionPromises c)"
  by (auto simp: signalAllPromisesWaitingForState_def each_participant_def)

lemma promises_ok_signal:
  assumes "promises_ok c"
  shows "promises_ok (signalAllPromisesWaitingForState (c\<lparr>tc_state := t\<rparr>) s)"
proof -
  define P where "P = (\<lambda>(_ :: nat, states). s \<in> set states)"
  let ?ps = "stateTransitionPromises c" and ?c = "signalAllPromisesWaitingForState (c\<lparr>tc_state := t\<rparr>) s"
  have ps: "stateTransitionPromises ?c = filter (\<lambda>x. \<not> P x) ?ps"
    "map fst (signalled ?c) = map fst (signalled c) @ map fst (filter P ?ps)"
    "promisesMade ?c = promisesMade c"
    by (simp_all add: signalAllPromisesWaitingForState_def P_def o_def case_prod_beta)
  have "mset (map fst ?ps) = mset (map fst (filter P ?ps)) + mset (map fst (filter (\<lambda>x. \<not> P x) ?ps))"
    unfolding mset_map mset_filter image_mset_union [symmetric] by (simp flip: multiset_partition)
  then have "mset (map fst (stateTransitionPromises ?c)) + mset (map fst (signalled ?c)) =
      mset (map fst ?ps) + mset (map fst (signalled c))"
    unfolding ps mset_append by (simp only: union_ac)
  then show ?thesis using assms ps(3) by (simp only: promises_ok_def)
qed

lemma outcome_ok_signal:
  assumes "tc_ok c" and "\<not> decided c \<or> s = kCommitted \<and> tc_state c = kWaitingForCommitAcks"
    and "tc_state c \<noteq> kAborted" and "tc_state c \<noteq> kBroken"
  shows "outcome_ok (signalAllPromisesWaitingForState (c\<lparr>tc_state := s\<rparr>) s)"
proof -
  have "signalled c = []" using assms by (cases "signalled c") (auto simp: tc_ok_def outcome_ok_def decided_def)
  moreover have "\<forall>(i, states) \<in> set (stateTransitionPromises c). states = [kCommitted, kAborted]"
    using assms(1) by (simp add: tc_ok_def)
  ultimately show ?thesis
    by (auto simp: outcome_ok_def signalAllPromisesWaitingForState_def)
qed

lemma tc_ok_move:
  assumes "tc_ok c"
    and "s = kWaitingForCommitAcks \<or> s = kCommitted \<Longrightarrow>
      fullListReceived c \<and> participants c \<noteq> [] \<and> each_participant (\<lambda>p. vote p = Vote_kCommit) c"
    and "s = kWaitingForVotes \<Longrightarrow> fullListReceived c"
    and "s = kCommitted \<Longrightarrow> each_participant (\<lambda>p. ack p = Ack_kCommit) c"
    and "\<not> decided c \<or> s = kCommitted \<and> tc_state c = kWaitingForCommitAcks"
    and "tc_state c \<noteq> kAborted" and "tc_state c \<noteq> kBroken"
  shows "tc_ok (signalAllPromisesWaitingForState (c\<lparr>tc_state := s\<rparr>) s)"
proof -
  have "\<forall>(i, states) \<in> set (stateTransitionPromises (signalAllPromisesWaitingForState (c\<lparr>tc_state := s\<rparr>) s)).
      states = [kCommitted, kAborted]"
    using assms(1) signal_simps(5) [of "c\<lparr>tc_state := s\<rparr>" s] by (auto simp: tc_ok_def)
  moreover have "promises_ok (signalAllPromisesWaitingForState (c\<lparr>tc_state := s\<rparr>) s)"
    using assms(1) by (intro promises_ok_signal) (simp add: tc_ok_def)
  ultimately show ?thesis
    using assms(1-4) signal_all [OF assms(1), of s] outcome_ok_signal [OF assms(1,5-7)]
    by (simp add: tc_ok_def decided_def)
qed

lemma tc_ok_broken: "tc_ok c \<Longrightarrow> tc_state c \<noteq> kCommitted \<Longrightarrow> tc_ok (c\<lparr>tc_state := kBroken\<rparr>)"
  by (auto simp: tc_ok_def decided_def each_participant_def promises_ok_def outcome_ok_def)

lemma onEvent_ok:
  assumes "tc_ok c" and "event_ok c e" and "onEvent c e = Some (x, c')"
  shows "tc_step_ok c x c'"
proof -
  have "tc_state c = kWaitingForVotes \<Longrightarrow> fullListReceived c"
    "decided c \<Longrightarrow> fullListReceived c \<and> participants c \<noteq> [] \<and> each_participant (\<lambda>p. vote p = Vote_kCommit) c"
    using assms(1) by (simp_all add: tc_ok_def)
  then show ?thesis
    using assms
    by (cases "tc_state c"; cases e)
      (auto simp: onEvent_def tc_step_ok_def event_ok_def decided_def votes_def tc_ok_broken intro!: tc_ok_move)
qed

subsection \<open>The handlers\<close>

lemma tc_step_throw: "tc_ok c' \<Longrightarrow> same_machine c c' \<Longrightarrow> (decided c \<longrightarrow> votes c' = votes c) \<Longrightarrow> tc_step_ok c (Inl e) c'"
  by (auto simp: tc_step_ok_def same_machine_def decided_def)

lemma tc_step_after:
  assumes "same_machine c c1" and "decided c \<longrightarrow> votes c1 = votes c" and "tc_step_ok c1 x c'"
  shows "tc_step_ok c x c'"
  using assms by (auto simp: tc_step_ok_def same_machine_def decided_def)

text \<open>
  A handler records something and raises an event: it returns unless the event is one that aborts.
\<close>

lemma handler_ok:
  assumes "r = Some (x, c1)" and "tc_ok c1" and "same_machine c c1" and "decided c \<longrightarrow> votes c1 = votes c"
    and "x = Inr () \<Longrightarrow> event_ok c1 (e c1)" and "e c1 \<noteq> kRecvTryAbort"
  shows "\<exists>y c'. continue r (\<lambda>_ c. onEvent c (e c)) = Some (y, c') \<and> tc_step_ok c y c'"
proof (cases x)
  case (Inl err)
  then show ?thesis using assms tc_step_throw [of c1 c err] by (simp add: continue_def)
next
  case (Inr u)
  obtain y c' where run: "onEvent c1 (e c1) = Some (y, c')" using assms(6) onEvent_None [of c1 "e c1"] by auto
  with onEvent_ok [OF assms(2) _ run] assms(5) Inr tc_step_after [OF assms(3,4)]
  have "tc_step_ok c y c'" by simp
  then show ?thesis using assms(1) Inr run by (simp add: continue_def)
qed

lemma recvCoordinateCommit_ok:
  assumes "tc_ok c"
  shows "\<exists>y c'. recvCoordinateCommit c shards = Some (y, c') \<and> tc_step_ok c y c'"
proof -
  obtain x c1 where "recordFullList c shards = Some (x, c1)" "tc_ok c1" "same_machine c c1"
      "fullListReceived c1" "decided c \<longrightarrow> votes c1 = votes c"
    using recordFullList_ok [OF assms, of shards] by blast
  then show ?thesis
    unfolding recvCoordinateCommit_def by (intro handler_ok) (auto simp: event_ok_def)
qed

lemma recvVoteCommit_ok:
  assumes "tc_ok c"
  shows "\<exists>y c'. recvVoteCommit c s ts = Some (y, c') \<and> tc_step_ok c y c'"
proof -
  obtain x c1 where run: "recordVoteCommit c s ts = Some (x, c1)" "tc_ok c1" "same_machine c c1"
      "decided c \<longrightarrow> votes c1 = votes c" "x = Inr () \<longrightarrow> participants c1 \<noteq> []"
    using recordVoteCommit_ok [OF assms, of s ts] by blast
  then have "allParticipantsVotedCommit c1 \<Longrightarrow>
      fullListReceived c1 \<and> each_participant (\<lambda>p. vote p = Vote_kCommit) c1"
    using allParticipantsVotedCommit_iff [of c1] by (simp add: tc_ok_def)
  with run show ?thesis
    unfolding recvVoteCommit_def by (intro handler_ok) (auto simp: event_ok_def)
qed

lemma recvVoteAbort_ok:
  assumes "tc_ok c"
  shows "\<exists>y c'. recvVoteAbort c s = Some (y, c') \<and> tc_step_ok c y c'"
proof -
  obtain x c1 where "recordVoteAbort c s = Some (x, c1)" "tc_ok c1" "same_machine c c1"
      "x = Inr () \<longrightarrow> \<not> decided c" "decided c \<longrightarrow> votes c1 = votes c"
    using recordVoteAbort_ok [OF assms, of s] by blast
  then show ?thesis
    unfolding recvVoteAbort_def
    by (intro handler_ok) (auto simp: event_ok_def same_machine_def decided_def)
qed

lemma recvTryAbort_ok:
  assumes "tc_ok c" and "recvTryAbort c = Some (y, c')"
  shows "tc_step_ok c y c'"
  using assms onEvent_ok [of c kRecvTryAbort] by (simp add: recvTryAbort_def event_ok_def)

lemma recvTryAbort_None: "recvTryAbort c = None \<longleftrightarrow> tc_state c = kBroken"
  by (simp add: recvTryAbort_def onEvent_None)

lemma recvCommitAck_ok:
  assumes ok: "tc_ok c" and "fullListReceived c \<or> map_of (participants c) s = None"
  shows "\<exists>y c'. recvCommitAck c s = Some (y, c') \<and> tc_step_ok c y c'"
proof -
  obtain x c1 where run: "recordCommitAck c s = Some (x, c1)" "tc_ok c1" "same_machine c c1"
      "fullListReceived c1 = fullListReceived c" "votes c1 = votes c"
    using recordCommitAck_ok [OF ok, of s] by blast
  show ?thesis
  proof (cases x)
    case (Inl err)
    then show ?thesis using run tc_step_throw [of c1 c err] by (simp add: recvCommitAck_def continue_def)
  next
    case (Inr u)
    then have full: "fullListReceived c1"
      using assms(2) run(1,4) by (auto simp: recordCommitAck_def split: option.splits)
    show ?thesis
    proof (cases "list_all (\<lambda>(_, p). ack p = Ack_kCommit) (participants c1)")
      case True
      then have ev: "event_ok c1 kRecvFinalCommitAck"
        using list_all_participants [of c1 "\<lambda>p. ack p = Ack_kCommit"] run(2)
        by (simp add: event_ok_def tc_ok_def)
      obtain y c' where ev_run: "onEvent c1 kRecvFinalCommitAck = Some (y, c')"
        using onEvent_None [of c1 kRecvFinalCommitAck] by auto
      have "tc_step_ok c y c'"
        using onEvent_ok [OF run(2) ev ev_run] tc_step_after [OF run(3)] run(5) by blast
      then show ?thesis
        using run Inr full True ev_run
        by (cases y) (auto simp: recvCommitAck_def continue_def allParticipantsAckedCommit_def tc_step_ok_def)
    next
      case False
      have "tc_step_ok c1 (Inr Action_kNone) c1" using run(2) by (simp add: tc_step_ok_def)
      then have "tc_step_ok c (Inr Action_kNone) c1" using tc_step_after [OF run(3)] run(5) by blast
      then show ?thesis
        using run Inr full False by (auto simp: recvCommitAck_def continue_def allParticipantsAckedCommit_def)
    qed
  qed
qed

lemma promises_ok_add:
  "promises_ok c \<Longrightarrow> promises_ok (c\<lparr>stateTransitionPromises := stateTransitionPromises c @ [(promisesMade c, ss)],
     promisesMade := promisesMade c + 1\<rparr>)"
  by (simp add: promises_ok_def)

lemma waitForCompletion_ok:
  assumes "tc_ok c"
  shows "\<exists>f c'. waitForCompletion c = Some (f, c') \<and> tc_step_ok c (Inr Action_kNone) c'"
proof (cases "tc_state c = kCommitted \<or> tc_state c = kAborted")
  case True
  then show ?thesis
    using assms by (auto simp: waitForCompletion_def waitForTransitionTo_def tc_step_ok_def)
next
  case False
  let ?c = "c\<lparr>stateTransitionPromises := stateTransitionPromises c @ [(promisesMade c, [kCommitted, kAborted])],
     promisesMade := promisesMade c + 1\<rparr>"
  have "each_participant P ?c = each_participant P c" "outcome_ok ?c = outcome_ok c" "decided ?c = decided c" for P
    by (simp_all add: each_participant_def outcome_ok_def decided_def)
  moreover have "promises_ok ?c" using assms by (intro promises_ok_add) (simp add: tc_ok_def)
  ultimately have "tc_ok ?c" using assms False unfolding tc_ok_def by simp
  then show ?thesis
    using False by (simp add: waitForCompletion_def waitForTransitionTo_def tc_step_ok_def decided_def votes_def)
qed

subsection \<open>Runs\<close>

lemma tc_step_log:
  assumes "tc_inv (c, as)" and "tc_step_ok c y c'"
  shows "tc_inv (log_action as (y, c'))"
  using assms by (cases y) (auto simp: tc_inv_def tc_step_ok_def decided_def)

lemma tc_handler_log:
  assumes "tc_inv (c, as)" and "\<exists>y c'. r = Some (y, c') \<and> tc_step_ok c y c'"
  shows "\<exists>s'. map_option (log_action as) r = Some s' \<and> tc_inv s' \<and> (\<exists>y. tc_step_ok c y (fst s'))"
proof -
  obtain y c' where "r = Some (y, c')" "tc_step_ok c y c'" using assms(2) by blast
  moreover from this have "tc_inv (log_action as (y, c'))" using tc_step_log [OF assms(1)] by blast
  moreover have "fst (log_action as (y, c')) = c'" by (cases y) simp_all
  ultimately show ?thesis by auto
qed

lemma tc_exec_inv:
  assumes "tc_inv (c, as)" and "tc_exec (c, as) msg \<noteq> None"
  shows "\<exists>s'. tc_exec (c, as) msg = Some s' \<and> tc_inv s' \<and> (\<exists>y. tc_step_ok c y (fst s'))"
proof -
  have ok: "tc_ok c" using assms(1) by (simp add: tc_inv_def)
  show ?thesis
  proof (cases msg)
    case (CommitAck s)
    have "fullListReceived c \<or> map_of (participants c) s = None"
      using assms(2) CommitAck
      by (auto simp: recvCommitAck_def recordCommitAck_def continue_def allParticipantsAckedCommit_def
          abort_simps split: option.splits)
    then show ?thesis
      unfolding CommitAck tc_exec.simps by (intro tc_handler_log [OF assms(1)] recvCommitAck_ok [OF ok])
  next
    case WaitForCompletion
    obtain f c' where "waitForCompletion c = Some (f, c')" "tc_step_ok c (Inr Action_kNone) c'"
      using waitForCompletion_ok [OF ok] by blast
    then show ?thesis
      using assms(1) WaitForCompletion
      by (auto simp: tc_inv_def tc_step_ok_def decided_def intro!: exI [of _ "Inr Action_kNone"])
  next
    case TryAbort
    then obtain y c' where "recvTryAbort c = Some (y, c')" using assms(2) by auto
    then show ?thesis
      using tc_handler_log [OF assms(1), of "recvTryAbort c"] recvTryAbort_ok [OF ok] TryAbort by simp
  next
    case (CoordinateCommit shards)
    then show ?thesis using tc_handler_log [OF assms(1) recvCoordinateCommit_ok [OF ok]] by simp
  next
    case (VoteCommit s ts)
    then show ?thesis using tc_handler_log [OF assms(1) recvVoteCommit_ok [OF ok]] by simp
  next
    case (VoteAbort s)
    then show ?thesis using tc_handler_log [OF assms(1) recvVoteAbort_ok [OF ok]] by simp
  qed
qed

text \<open>Any run that does not abort keeps the invariant.\<close>

interpretation tc_any: operation_system tc_exec "\<lambda>s msg. tc_exec s msg \<noteq> None" tc_inv
  by unfold_locales (metis tc_exec_inv surj_pair)

lemma tc_exec_legal:
  assumes "tc_inv s" and "tc_legal s msg"
  shows "tc_exec s msg \<noteq> None"
proof -
  obtain c as where s: "s = (c, as)" by (cases s)
  have ok: "tc_ok c" using assms(1) by (simp add: tc_inv_def s)
  have "fullListReceived c" if "decided c" using ok that by (simp add: tc_ok_def)
  then have "\<exists>y c'. recvCommitAck c x = Some (y, c')" if "decided c" for x
    using recvCommitAck_ok [OF ok, of x] that by blast
  moreover have "\<exists>y c'. recvCoordinateCommit c shards = Some (y, c')" for shards
    using recvCoordinateCommit_ok [OF ok] by blast
  moreover have "\<exists>y c'. recvVoteCommit c x ts = Some (y, c')" for x ts
    using recvVoteCommit_ok [OF ok] by blast
  moreover have "\<exists>y c'. recvVoteAbort c x = Some (y, c')" for x
    using recvVoteAbort_ok [OF ok] by blast
  moreover have "\<exists>y c'. waitForCompletion c = Some (y, c')"
    using waitForCompletion_ok [OF ok] by blast
  ultimately show ?thesis
    using assms(2) recvTryAbort_None [of c] unfolding s by (cases msg) (auto simp: decided_def)
qed

text \<open>Runs in which the senders keep their promise do not abort.\<close>

interpretation tc_net: operation_system tc_exec tc_legal tc_inv
  by unfold_locales (metis tc_exec_legal tc_exec_inv surj_pair)

lemma tc_inv_init: "tc_inv (tc_init, [])"
  by (simp add: tc_inv_def tc_ok_def tc_init_def each_participant_def decided_def promises_ok_def outcome_ok_def)

lemma tc_run_inv: "run_ops tc_exec (tc_init, []) ms = Some s \<Longrightarrow> tc_inv s"
  by (rule tc_any.run_inv [OF tc_inv_init run_legal])

subsection \<open>After the decision to commit\<close>

text \<open>The decision is absorbing: acknowledgements aside, no message changes the coordinator.\<close>

lemma decided_unchanged:
  assumes ok: "tc_ok c" and dec: "decided c" and msg: "\<forall>s. msg \<noteq> CommitAck s" "msg \<noteq> WaitForCompletion"
  shows "\<exists>as'. tc_exec (c, as) msg = Some (c, as')"
proof -
  have full: "fullListReceived c" and each: "\<And>s p. map_of (participants c) s = Some p \<Longrightarrow> vote p = Vote_kCommit"
    and voted: "allParticipantsVotedCommit c"
    using ok dec allParticipantsVotedCommit_iff [of c] by (auto simp: tc_ok_def each_participant_def)
  have ev: "\<exists>a. onEvent c e = Some (Inr a, c)"
    if "e = kRecvParticipantList \<or> e = kRecvFinalVoteCommit \<or> e = kRecvTryAbort" for e
    using dec that by (auto simp: onEvent_def decided_def)
  show ?thesis
  proof (cases msg)
    case (CoordinateCommit shards)
    obtain x where "recordFullList c shards = Some (x, c)"
      using full
      by (cases "list_all (\<lambda>s. map_of (participants c) s \<noteq> None) shards")
        (auto simp: recordFullList_def validate_participants_def continue_def uassert_def)
    then show ?thesis
      using CoordinateCommit ev [of kRecvParticipantList]
      by (cases x) (auto simp: recvCoordinateCommit_def continue_def)
  next
    case (VoteCommit s ts)
    obtain x where "recordVoteCommit c s ts = Some (x, c)"
      using full each [of s]
      by (cases "map_of (participants c) s") (auto simp: recordVoteCommit_def continue_def uassert_def)
    then show ?thesis
      using VoteCommit ev [of kRecvFinalVoteCommit] voted
      by (cases x) (auto simp: recvVoteCommit_def continue_def)
  next
    case (VoteAbort s)
    have "recordVoteAbort c s = Some (Inl InternalError, c)"
      using full each [of s]
      by (cases "map_of (participants c) s") (auto simp: recordVoteAbort_def continue_def uassert_def)
    then show ?thesis using VoteAbort by (simp add: recvVoteAbort_def continue_def)
  next
    case TryAbort
    then show ?thesis using ev [of kRecvTryAbort] by (auto simp: recvTryAbort_def)
  qed (use msg in auto)
qed

definition acked :: "TransactionCoordinator \<Rightarrow> ShardId \<Rightarrow> bool" where
  "acked c s \<longleftrightarrow> (\<exists>p. map_of (participants c) s = Some p \<and> ack p = Ack_kCommit)"

abbreviation participant_ids :: "TransactionCoordinator \<Rightarrow> ShardId set" where
  "participant_ids c \<equiv> dom (map_of (participants c))"

lemma participant_ids_votes: "participant_ids c = fst ` set (votes c)"
  by (simp add: votes_def dom_map_of_conv_image_fst image_image case_prod_beta)

lemma each_acked_iff: "each_participant (\<lambda>p. ack p = Ack_kCommit) c \<longleftrightarrow> (\<forall>s \<in> participant_ids c. acked c s)"
  unfolding each_participant_def acked_def dom_def by auto

lemma all_acked_iff:
  "tc_ok c \<Longrightarrow> list_all (\<lambda>(_, p). ack p = Ack_kCommit) (participants c) \<longleftrightarrow> (\<forall>s \<in> participant_ids c. acked c s)"
  using list_all_participants [of c "\<lambda>p. ack p = Ack_kCommit"] each_acked_iff [of c] by (simp add: tc_ok_def)

lemma commit_ack_decided:
  assumes ok: "tc_ok c" and dec: "decided c"
  shows "\<exists>c' as'. tc_exec (c, as) (CommitAck s) = Some (c', as') \<and>
    (\<forall>x. acked c' x \<longleftrightarrow> acked c x \<or> x = s \<and> s \<in> participant_ids c) \<and>
    (s \<in> participant_ids c \<longrightarrow> tc_state c' = kCommitted \<or> \<not> (\<forall>x \<in> participant_ids c. acked c' x))"
proof (cases "map_of (participants c) s")
  case None
  then show ?thesis by (simp add: recvCommitAck_def recordCommitAck_def continue_def domIff)
next
  case (Some p)
  let ?c = "put_participant c s (p\<lparr>ack := Ack_kCommit\<rparr>)"
  have ok': "tc_ok ?c"
    using recordCommitAck_ok [OF ok, of s] Some by (simp add: recordCommitAck_def)
  have ids: "participant_ids ?c = participant_ids c" using Some by auto
  have full: "fullListReceived c" using ok dec by (simp add: tc_ok_def)
  have acked: "\<forall>x. acked ?c x \<longleftrightarrow> acked c x \<or> x = s" by (simp add: acked_def)
  have "acked (signalAllPromisesWaitingForState (c'\<lparr>tc_state := t\<rparr>) t) x = acked c' x" for c' t x
    by (simp add: acked_def)
  moreover have "tc_exec (c, as) (CommitAck s) = Some (if \<forall>x \<in> participant_ids ?c. acked ?c x
      then (if tc_state c = kWaitingForCommitAcks
            then signalAllPromisesWaitingForState (?c\<lparr>tc_state := kCommitted\<rparr>) kCommitted else ?c)
      else ?c, as @ [Action_kNone])"
    unfolding all_acked_iff [OF ok', symmetric]
    using Some full dec
    by (simp add: recvCommitAck_def recordCommitAck_def continue_def allParticipantsAckedCommit_def onEvent_def
        decided_def) auto
  ultimately show ?thesis using Some dec acked ids by (auto simp: decided_def)
qed

text \<open>The commit is over once an acknowledgement of every participant has arrived.\<close>

lemma decided_step:
  assumes inv: "tc_inv (c, as)" and dec: "decided c"
  shows "\<exists>c' as'. tc_exec (c, as) m = Some (c', as') \<and> tc_inv (c', as') \<and> decided c' \<and> votes c' = votes c \<and>
    (tc_state c = kCommitted \<longrightarrow> tc_state c' = kCommitted) \<and>
    (\<forall>x. acked c' x \<longleftrightarrow> acked c x \<or> m = CommitAck x \<and> x \<in> participant_ids c) \<and>
    (\<forall>s \<in> participant_ids c. m = CommitAck s \<longrightarrow>
       tc_state c' = kCommitted \<or> (\<exists>x \<in> participant_ids c. \<not> acked c' x))"
proof -
  have ok: "tc_ok c" using inv by (simp add: tc_inv_def)
  have "tc_legal (c, as) m" using dec by (cases m) (auto simp: decided_def)
  then obtain c' as' y where run: "tc_exec (c, as) m = Some (c', as')" "tc_inv (c', as')" "tc_step_ok c y c'"
    using tc_exec_inv [OF inv tc_exec_legal [OF inv]] by (metis prod.collapse)
  have same: "c' = c" if "\<forall>s. m \<noteq> CommitAck s" "m \<noteq> WaitForCompletion"
  proof -
    from decided_unchanged [OF ok dec that] obtain ds where "tc_exec (c, as) m = Some (c, ds)" by blast
    then show ?thesis using run(1) by (simp only: option.inject prod.inject)
  qed
  have "(\<forall>x. acked c' x \<longleftrightarrow> acked c x \<or> m = CommitAck x \<and> x \<in> participant_ids c) \<and>
    (\<forall>s \<in> participant_ids c. m = CommitAck s \<longrightarrow>
       tc_state c' = kCommitted \<or> (\<exists>x \<in> participant_ids c. \<not> acked c' x))"
  proof (cases m)
    case (CommitAck s)
    obtain d ds where ack: "tc_exec (c, as) (CommitAck s) = Some (d, ds)"
        "\<forall>x. acked d x \<longleftrightarrow> acked c x \<or> x = s \<and> s \<in> participant_ids c"
        "s \<in> participant_ids c \<longrightarrow> tc_state d = kCommitted \<or> \<not> (\<forall>x \<in> participant_ids c. acked d x)"
      using commit_ack_decided [OF ok dec, of as s] by blast
    have "d = c'" using run(1) [unfolded CommitAck ack(1)] by simp
    then show ?thesis using ack(2,3) CommitAck by blast
  next
    case WaitForCompletion
    then have "participants c' = participants c"
      using run(1) by (auto simp: waitForCompletion_def waitForTransitionTo_def split: if_splits)
    then show ?thesis using WaitForCompletion by (simp add: acked_def)
  qed (use same in simp_all)
  then show ?thesis using run dec unfolding tc_step_ok_def by blast
qed

lemma acks_complete:
  assumes "tc_inv (c, as)" and "decided c"
  shows "\<exists>c' as'. run_ops tc_exec (c, as) ms = Some (c', as') \<and> tc_inv (c', as') \<and> decided c' \<and> votes c' = votes c \<and>
    (tc_state c' = kCommitted \<or>
     (\<forall>s \<in> participant_ids c. CommitAck s \<in> set ms \<longrightarrow> acked c' s) \<and>
     ((\<exists>s \<in> participant_ids c. CommitAck s \<in> set ms) \<longrightarrow> (\<exists>s \<in> participant_ids c. \<not> acked c' s)))"
proof (induction ms rule: rev_induct)
  case Nil
  then show ?case using assms by simp
next
  case (snoc m ms)
  then obtain c1 as1 where run: "run_ops tc_exec (c, as) ms = Some (c1, as1)" "tc_inv (c1, as1)"
      "decided c1" "votes c1 = votes c"
    and IH: "tc_state c1 = kCommitted \<or>
     (\<forall>s \<in> participant_ids c. CommitAck s \<in> set ms \<longrightarrow> acked c1 s) \<and>
     ((\<exists>s \<in> participant_ids c. CommitAck s \<in> set ms) \<longrightarrow> (\<exists>s \<in> participant_ids c. \<not> acked c1 s))"
    by blast
  have ids: "participant_ids c1 = participant_ids c" using run(4) by (simp only: participant_ids_votes)
  obtain c2 as2 where step: "tc_exec (c1, as1) m = Some (c2, as2)" "tc_inv (c2, as2)" "decided c2"
      "votes c2 = votes c" "tc_state c1 = kCommitted \<longrightarrow> tc_state c2 = kCommitted"
    and acked: "\<forall>x. acked c2 x \<longleftrightarrow> acked c1 x \<or> m = CommitAck x \<and> x \<in> participant_ids c"
    and last: "\<forall>s \<in> participant_ids c. m = CommitAck s \<longrightarrow>
       tc_state c2 = kCommitted \<or> (\<exists>x \<in> participant_ids c. \<not> acked c2 x)"
    using decided_step [OF run(2,3), of m] unfolding run(4) ids by (elim exE conjE)
  have "tc_state c2 = kCommitted \<or>
     (\<forall>s \<in> participant_ids c. CommitAck s \<in> set (ms @ [m]) \<longrightarrow> acked c2 s) \<and>
     ((\<exists>s \<in> participant_ids c. CommitAck s \<in> set (ms @ [m])) \<longrightarrow> (\<exists>s \<in> participant_ids c. \<not> acked c2 s))"
  proof (cases "\<exists>s \<in> participant_ids c. m = CommitAck s")
    case True
    then have "tc_state c2 = kCommitted \<or> (\<exists>s \<in> participant_ids c. \<not> acked c2 s)" using last by blast
    moreover have "tc_state c2 = kCommitted \<or>
        (\<forall>s \<in> participant_ids c. CommitAck s \<in> set (ms @ [m]) \<longrightarrow> acked c2 s)"
      using IH step(5) acked by (metis Un_iff empty_iff insertE list.set(1) list.simps(15) set_append)
    ultimately show ?thesis by blast
  next
    case False
    then have "acked c2 x = acked c1 x" for x using acked by blast
    moreover have "CommitAck s \<in> set (ms @ [m]) \<longleftrightarrow> CommitAck s \<in> set ms" if "s \<in> participant_ids c" for s
      using False that by fastforce
    ultimately show ?thesis using IH step(5) by meson
  qed
  moreover have "run_ops tc_exec (c, as) (ms @ [m]) = Some (c2, as2)"
    using run(1) step(1) by (simp add: run_ops_append)
  ultimately show ?case using step(2-4) by blast
qed

lemma highest_from_map:
  "map (\<lambda>q. prepareTimestamp (snd q)) ps = map (\<lambda>q. prepareTimestamp (snd q)) qs \<Longrightarrow> highest_from h ps = highest_from h qs"
proof (induction ps arbitrary: qs h)
  case (Cons p ps)
  then obtain q qs' where "qs = q # qs'" "prepareTimestamp (snd q) = prepareTimestamp (snd p)"
      "map (\<lambda>q. prepareTimestamp (snd q)) ps = map (\<lambda>q. prepareTimestamp (snd q)) qs'"
    by (auto simp: Cons_eq_map_conv)
  with Cons.IH [of qs'] show ?case by (cases p; cases q) (simp split: bind_split)
qed simp

lemma commit_timestamp_votes:
  assumes "votes c' = votes c" and "fullListReceived c' = fullListReceived c"
  shows "getCommitTimestamp c' = getCommitTimestamp c"
proof -
  have "map (\<lambda>q. prepareTimestamp (snd q)) (participants d) = map (\<lambda>v. snd (snd v)) (votes d)" for d
    by (simp add: votes_def case_prod_beta)
  then show ?thesis
    using assms highest_from_map [of "participants c'" "participants c"]
    by (simp add: getCommitTimestamp_def getHighestPrepareTimestamp_def)
qed

lemma highest_from_max:
  assumes "\<forall>(s, p) \<in> set ps. prepareTimestamp p \<noteq> None"
  shows "\<exists>ts. highest_from h ps = Some ts \<and> h \<le> ts \<and> (\<forall>(s, p) \<in> set ps. the (prepareTimestamp p) \<le> ts) \<and>
    (ts = h \<or> (\<exists>(s, p) \<in> set ps. prepareTimestamp p = Some ts))"
  using assms
proof (induction ps arbitrary: h)
  case (Cons sp ps)
  obtain s p t where sp: "sp = (s, p)" "prepareTimestamp p = Some t" using Cons.prems by (cases sp) auto
  obtain ts where "highest_from (if t > h then t else h) ps = Some ts" "(if t > h then t else h) \<le> ts"
      "\<forall>(s, p) \<in> set ps. the (prepareTimestamp p) \<le> ts"
      "ts = (if t > h then t else h) \<or> (\<exists>(s, p) \<in> set ps. prepareTimestamp p = Some ts)"
    using Cons.IH [of "if t > h then t else h"] Cons.prems by auto
  then show ?case using sp by (auto split: if_splits)
qed simp

subsection \<open>Properties\<close>

text \<open>
  C19: the coordinator makes one decision. Whatever messages arrive in whatever order, its handlers
  never tell it to send commit in one reply and abort in another.
\<close>

theorem coordinator_decides_once:
  assumes "run_ops tc_exec (tc_init, []) ms = Some (c, actions)"
  shows "\<not> (kSendCommit \<in> set actions \<and> kSendAbort \<in> set actions)"
  using tc_run_inv [OF assms] by (auto simp: tc_inv_def decided_def)

definition tc_demo :: "tc_msg list" where
  "tc_demo = [WaitForCompletion, VoteCommit ''a'' (Timestamp 0 7), CoordinateCommit [''a'', ''b''], VoteCommit ''b'' (Timestamp 0 5)]"

definition tc_demo_state :: TransactionCoordinator where
  "tc_demo_state = \<lparr>fullListReceived = True,
     participants = [(''a'', \<lparr>vote = Vote_kCommit, ack = Ack_kNone, prepareTimestamp = Some (Timestamp 0 7)\<rparr>),
                     (''b'', \<lparr>vote = Vote_kCommit, ack = Ack_kNone, prepareTimestamp = Some (Timestamp 0 5)\<rparr>)],
     tc_state = kWaitingForCommitAcks, stateTransitionPromises = [(0, [kCommitted, kAborted])],
     promisesMade = 1, signalled = []\<rparr>"

lemma tc_demo_run:
  "run_ops tc_exec (tc_init, []) tc_demo = Some (tc_demo_state, [Action_kNone, Action_kNone, kSendCommit])"
  by code_simp

theorem coordinator_decides_once_witness:
  "\<not> kSendAbort \<in> set [Action_kNone, Action_kNone, kSendCommit]"
  using coordinator_decides_once [OF tc_demo_run] by simp

text \<open>
  C20: commit is only sent with the full participant list and a commit vote of every participant. The
  commit timestamp is then defined, it is not before any prepare timestamp, and it is one of them.
\<close>

theorem commit_needs_every_vote:
  assumes "run_ops tc_exec (tc_init, []) ms = Some (c, actions)" and "kSendCommit \<in> set actions"
  shows "fullListReceived c \<and> participants c \<noteq> [] \<and>
    (\<exists>ts. getCommitTimestamp c = Some ts \<and>
       (\<forall>(s, p) \<in> set (participants c). vote p = Vote_kCommit \<and>
          (\<exists>t. prepareTimestamp p = Some t \<and> t \<le> ts)) \<and>
       (\<exists>(s, p) \<in> set (participants c). prepareTimestamp p = Some ts))"
proof -
  have ok: "tc_ok c" and dec: "decided c" using tc_run_inv [OF assms(1)] assms(2) by (auto simp: tc_inv_def)
  have full: "fullListReceived c" "participants c \<noteq> []" using ok dec by (auto simp: tc_ok_def)
  have each: "vote p = Vote_kCommit \<and> prepareTimestamp p \<noteq> None" if "(s, p) \<in> set (participants c)" for s p
    using ok dec that by (auto simp: tc_ok_def each_participant_def participant_ok_def)
  obtain ts where ts: "highest_from Timestamp_min (participants c) = Some ts"
      "\<forall>(s, p) \<in> set (participants c). the (prepareTimestamp p) \<le> ts"
      "ts = Timestamp_min \<or> (\<exists>(s, p) \<in> set (participants c). prepareTimestamp p = Some ts)"
    using highest_from_max [of "participants c" Timestamp_min] each by auto
  obtain s p where sp: "(s, p) \<in> set (participants c)" using full(2) by (cases "participants c") auto
  have le: "\<exists>t. prepareTimestamp p = Some t \<and> t \<le> ts" if "(s, p) \<in> set (participants c)" for s p
    using each [OF that] ts(2) that by fastforce
  have "\<exists>(s, p) \<in> set (participants c). prepareTimestamp p = Some ts"
    using ts(3) le [OF sp] sp by fastforce
  then show ?thesis
    using full ts(1) each le by (fastforce simp: getCommitTimestamp_def getHighestPrepareTimestamp_def)
qed

theorem commit_needs_every_vote_witness:
  "\<exists>ts. getCommitTimestamp tc_demo_state = Some ts"
  using commit_needs_every_vote [OF tc_demo_run] by auto

text \<open>
  C21: the decision to commit is final. Once a handler has answered with the order to send commit,
  every later message is handled without an abort of the process, the coordinator stays committed and
  never orders an abort, and the commit timestamp does not change any more.
\<close>

theorem commit_decision_final:
  assumes "run_ops tc_exec (tc_init, []) ms = Some (c, actions)" and "kSendCommit \<in> set actions"
  shows "\<exists>c' actions'. run_ops tc_exec (c, actions) ms' = Some (c', actions') \<and>
    (tc_state c' = kWaitingForCommitAcks \<or> tc_state c' = kCommitted) \<and> kSendAbort \<notin> set actions' \<and>
    getCommitTimestamp c' = getCommitTimestamp c"
proof -
  have inv: "tc_inv (c, actions)" by (rule tc_run_inv [OF assms(1)])
  then have dec: "decided c" using assms(2) by (simp add: tc_inv_def)
  obtain c' as' where run: "run_ops tc_exec (c, actions) ms' = Some (c', as')" "tc_inv (c', as')" "decided c'"
      "votes c' = votes c"
    using acks_complete [OF inv dec, of ms'] by blast
  have "fullListReceived c' = fullListReceived c"
    using inv run(2,3) dec by (simp add: tc_inv_def tc_ok_def)
  then have "getCommitTimestamp c' = getCommitTimestamp c" by (rule commit_timestamp_votes [OF run(4)])
  then show ?thesis using run by (auto simp: tc_inv_def decided_def)
qed

theorem commit_decision_final_witness:
  "\<exists>c' actions'. run_ops tc_exec (tc_demo_state, [Action_kNone, Action_kNone, kSendCommit])
      [VoteAbort ''a'', TryAbort, CommitAck ''c''] = Some (c', actions') \<and>
    getCommitTimestamp c' = getCommitTimestamp tc_demo_state"
  using commit_decision_final [OF tc_demo_run, of "[VoteAbort ''a'', TryAbort, CommitAck ''c'']"] by auto

text \<open>
  C22: after the decision to commit, whatever other messages arrive in between, the transaction is
  committed as soon as every participant has acknowledged the commit, and everybody who ever waited
  for the completion has been told so, exactly once.
\<close>

theorem commit_completes:
  assumes "run_ops tc_exec (tc_init, []) ms = Some (c, actions)" and "kSendCommit \<in> set actions"
    and "\<forall>(s, p) \<in> set (participants c). CommitAck s \<in> set ms'"
  shows "\<exists>c' actions'. run_ops tc_exec (c, actions) ms' = Some (c', actions') \<and> tc_state c' = kCommitted \<and>
    stateTransitionPromises c' = [] \<and> mset (map fst (signalled c')) = mset [0..<promisesMade c'] \<and>
    set (map snd (signalled c')) \<subseteq> {kCommitted}"
proof -
  have inv: "tc_inv (c, actions)" by (rule tc_run_inv [OF assms(1)])
  then have dec: "decided c" using assms(2) by (simp add: tc_inv_def)
  have ok: "tc_ok c" using inv by (simp add: tc_inv_def)
  obtain c' as' where run: "run_ops tc_exec (c, actions) ms' = Some (c', as')" "tc_inv (c', as')"
    and acks: "tc_state c' = kCommitted \<or>
     (\<forall>s \<in> participant_ids c. CommitAck s \<in> set ms' \<longrightarrow> acked c' s) \<and>
     ((\<exists>s \<in> participant_ids c. CommitAck s \<in> set ms') \<longrightarrow> (\<exists>s \<in> participant_ids c. \<not> acked c' s))"
    using acks_complete [OF inv dec, of ms'] by blast
  have all: "\<forall>s \<in> participant_ids c. CommitAck s \<in> set ms'"
    using assms(3) by (auto simp: dom_map_of_conv_image_fst)
  have "participant_ids c \<noteq> {}" using ok dec by (auto simp: tc_ok_def dom_map_of_conv_image_fst)
  then have "tc_state c' = kCommitted" using acks all by blast
  moreover have "tc_ok c'" using run(2) by (simp add: tc_inv_def)
  ultimately show ?thesis
    using run(1) by (auto simp: tc_ok_def promises_ok_def outcome_ok_def)
qed

theorem commit_completes_witness:
  "\<exists>c' actions'. run_ops tc_exec (tc_demo_state, [Action_kNone, Action_kNone, kSendCommit])
      [CommitAck ''b'', WaitForCompletion, CommitAck ''a''] = Some (c', actions') \<and> tc_state c' = kCommitted"
  using commit_completes [OF tc_demo_run, of "[CommitAck ''b'', WaitForCompletion, CommitAck ''a'']"]
  by (auto simp: tc_demo_state_def)




end
