(* ===== verification/Repl_Tags.thy ===== *)
theory Repl_Tags
  imports Prelude
begin

text \<open>
  Tags of replica set members and tag patterns, db/repl/repl_set_tag.h and repl_set_tag.cpp. A tag
  is a key and a value, each given by its index in the tag configuration; a pattern asks for a minimum
  number of different values for each of its keys.
\<close>

record ReplSetTag =
  tag_keyIndex :: int
  tag_valueIndex :: int

record TagCountConstraint =
  con_keyIndex :: int
  con_minCount :: int

type_synonym ReplSetTagPattern = "TagCountConstraint list"

record BoundTagValue =
  bound_constraint :: TagCountConstraint
  boundValues :: "int list"

type_synonym ReplSetTagMatch = "BoundTagValue list"

type_synonym ReplSetTagConfig = "(string \<times> string list) list"

subsection \<open>Patterns and matches\<close>

fun addTagCountConstraint :: "ReplSetTagPattern \<Rightarrow> int \<Rightarrow> int \<Rightarrow> ReplSetTagPattern" where
  "addTagCountConstraint [] keyIndex minCount = [\<lparr>con_keyIndex = keyIndex, con_minCount = minCount\<rparr>]"
| "addTagCountConstraint (x # xs) keyIndex minCount =
     (if keyIndex = con_keyIndex x then
        (if con_minCount x < minCount then \<lparr>con_keyIndex = keyIndex, con_minCount = minCount\<rparr> else x) # xs
      else x # addTagCountConstraint xs keyIndex minCount)"

definition ReplSetTagMatch_new :: "ReplSetTagPattern \<Rightarrow> ReplSetTagMatch" where
  "ReplSetTagMatch_new pattern = map (\<lambda>c. \<lparr>bound_constraint = c, boundValues = []\<rparr>) pattern"

definition bound_isSatisfied :: "BoundTagValue \<Rightarrow> bool" where
  "bound_isSatisfied b \<longleftrightarrow> con_minCount (bound_constraint b) \<le> int (length (boundValues b))"

definition match_isSatisfied :: "ReplSetTagMatch \<Rightarrow> bool" where
  "match_isSatisfied m \<longleftrightarrow> list_all bound_isSatisfied m"

text \<open>ReplSetTagMatch::update binds the value in the first entry with the key of the tag.\<close>

fun bind_tag :: "ReplSetTag \<Rightarrow> ReplSetTagMatch \<Rightarrow> ReplSetTagMatch" where
  "bind_tag t [] = []"
| "bind_tag t (b # bs) =
     (if tag_keyIndex t = con_keyIndex (bound_constraint b) then
        (if tag_valueIndex t \<in> set (boundValues b) then b
         else b\<lparr>boundValues := boundValues b @ [tag_valueIndex t]\<rparr>) # bs
      else b # bind_tag t bs)"

definition match_update :: "ReplSetTagMatch \<Rightarrow> ReplSetTag \<Rightarrow> bool \<times> ReplSetTagMatch" where
  "match_update m t = (let m = bind_tag t m in (match_isSatisfied m, m))"

subsection \<open>The tag configuration\<close>

fun findKeyIndex :: "ReplSetTagConfig \<Rightarrow> string \<Rightarrow> nat" where
  "findKeyIndex [] key = 0"
| "findKeyIndex ((k, _) # ts) key = (if k = key then 0 else Suc (findKeyIndex ts key))"

fun value_index :: "string list \<Rightarrow> string \<Rightarrow> nat" where
  "value_index [] v = 0"
| "value_index (x # xs) v = (if x = v then 0 else Suc (value_index xs v))"

definition makeTag :: "ReplSetTagConfig \<Rightarrow> string \<Rightarrow> string \<Rightarrow> ReplSetTag \<times> ReplSetTagConfig" where
  "makeTag td key value =
     (let keyIndex = findKeyIndex td key;
          td = (if keyIndex = length td then td @ [(key, [])] else td);
          values = snd (td ! keyIndex);
          valueIndex = value_index values value;
          td = (if valueIndex = length values then td[keyIndex := (fst (td ! keyIndex), values @ [value])]
                else td)
      in (\<lparr>tag_keyIndex = int keyIndex, tag_valueIndex = int valueIndex\<rparr>, td))"

definition findTag :: "ReplSetTagConfig \<Rightarrow> string \<Rightarrow> string \<Rightarrow> ReplSetTag" where
  "findTag td key value =
     (let keyIndex = findKeyIndex td key in
      if keyIndex = length td then \<lparr>tag_keyIndex = - 1, tag_valueIndex = - 1\<rparr>
      else
        (let values = snd (td ! keyIndex); valueIndex = value_index values value in
         if valueIndex = length values then \<lparr>tag_keyIndex = - 1, tag_valueIndex = - 1\<rparr>
         else \<lparr>tag_keyIndex = int keyIndex, tag_valueIndex = int valueIndex\<rparr>))"

definition addTagCountConstraintToPattern ::
  "ReplSetTagConfig \<Rightarrow> ReplSetTagPattern \<Rightarrow> string \<Rightarrow> int \<Rightarrow> ReplSetTagPattern option" where
  "addTagCountConstraintToPattern td pattern tagKey minCount =
     (let keyIndex = findKeyIndex td tagKey in
      if keyIndex = length td then None
      else Some (addTagCountConstraint pattern (int keyIndex) minCount))"

definition getTagKey :: "ReplSetTagConfig \<Rightarrow> ReplSetTag \<Rightarrow> string option" where
  "getTagKey td t = do {
     invariant (tag_keyIndex t \<ge> 0 \<and> nat (tag_keyIndex t) < length td);
     Some (fst (td ! nat (tag_keyIndex t)))
   }"

definition getTagValue :: "ReplSetTagConfig \<Rightarrow> ReplSetTag \<Rightarrow> string option" where
  "getTagValue td t = do {
     invariant (tag_keyIndex t \<ge> 0 \<and> nat (tag_keyIndex t) < length td);
     let values = snd (td ! nat (tag_keyIndex t));
     invariant (tag_valueIndex t \<ge> 0 \<and> nat (tag_valueIndex t) < length values);
     Some (values ! nat (tag_valueIndex t))
   }"

subsection \<open>What a match counts\<close>

text \<open>After any sequence of updates an entry holds the different values seen for its key.\<close>

definition seen_values :: "int \<Rightarrow> ReplSetTag list \<Rightarrow> int set" where
  "seen_values k ts = tag_valueIndex ` {t \<in> set ts. tag_keyIndex t = k}"

definition pattern_ok :: "ReplSetTagPattern \<Rightarrow> bool" where
  "pattern_ok p \<longleftrightarrow> distinct (map con_keyIndex p)"

lemma addTagCountConstraint_keys:
  "set (map con_keyIndex (addTagCountConstraint p k n)) = insert k (set (map con_keyIndex p))"
  by (induction p k n rule: addTagCountConstraint.induct) auto

lemma addTagCountConstraint_ok: "pattern_ok p \<Longrightarrow> pattern_ok (addTagCountConstraint p k n)"
proof (induction p)
  case (Cons x p)
  then show ?case
    using addTagCountConstraint_keys [of p k n] by (auto simp: pattern_ok_def)
qed (simp add: pattern_ok_def)

definition match_ok :: "ReplSetTag list \<Rightarrow> ReplSetTagMatch \<Rightarrow> bool" where
  "match_ok ts m \<longleftrightarrow> distinct (map (con_keyIndex \<circ> bound_constraint) m) \<and>
     (\<forall>b \<in> set m. distinct (boundValues b) \<and>
        set (boundValues b) = seen_values (con_keyIndex (bound_constraint b)) ts)"

lemma match_ok_new: "pattern_ok p \<Longrightarrow> match_ok [] (ReplSetTagMatch_new p)"
  by (auto simp: match_ok_def pattern_ok_def ReplSetTagMatch_new_def seen_values_def o_def)

lemma bind_tag_constraints [simp]: "map bound_constraint (bind_tag t m) = map bound_constraint m"
  by (induction m) auto

lemma seen_values_snoc:
  "seen_values k (ts @ [t]) = (if tag_keyIndex t = k then insert (tag_valueIndex t) (seen_values k ts) else seen_values k ts)"
  by (auto simp: seen_values_def)

lemma match_ok_bind:
  assumes "match_ok ts m"
  shows "match_ok (ts @ [t]) (bind_tag t m)"
proof -
  have "distinct (map (con_keyIndex \<circ> bound_constraint) m) \<Longrightarrow>
      \<forall>b \<in> set m. distinct (boundValues b) \<and>
        set (boundValues b) = seen_values (con_keyIndex (bound_constraint b)) ts \<Longrightarrow>
      \<forall>b \<in> set (bind_tag t m). distinct (boundValues b) \<and>
        set (boundValues b) = seen_values (con_keyIndex (bound_constraint b)) (ts @ [t])"
    by (induction m) (auto simp: seen_values_snoc)
  moreover have "map (con_keyIndex \<circ> bound_constraint) (bind_tag t m) = map (con_keyIndex \<circ> bound_constraint) m"
    by (metis bind_tag_constraints list.map_comp)
  ultimately show ?thesis using assms by (simp add: match_ok_def)
qed

lemma match_satisfied_iff:
  assumes "match_ok ts m"
  shows "match_isSatisfied m \<longleftrightarrow>
    (\<forall>c \<in> set (map bound_constraint m). con_minCount c \<le> int (card (seen_values (con_keyIndex c) ts)))"
proof -
  have "bound_isSatisfied b \<longleftrightarrow>
      con_minCount (bound_constraint b) \<le> int (card (seen_values (con_keyIndex (bound_constraint b)) ts))"
    if "b \<in> set m" for b
    using assms that distinct_card [of "boundValues b"] by (auto simp: match_ok_def bound_isSatisfied_def)
  then show ?thesis by (auto simp: match_isSatisfied_def list_all_iff)
qed

end
