(* ===== verification/Repl_Config.thy ===== *)
theory Repl_Config
  imports Complex_Main Repl_Tags Timestamps
begin

text \<open>
  The replica set configuration: host names (util/net/hostandport.cpp), member states
  (db/repl/member_state.h), member configurations (db/repl/member_config.h and .cpp) and the
  configuration of the set (db/repl/repl_set_config.h and .cpp) with its validation and its majorities.
  A priority is a double in the code; here it is the rational number it denotes. Parsing from and
  printing to BSON are not part of the model.
\<close>

subsection \<open>Hosts\<close>

datatype HostAndPort = HostAndPort (hp_host: string) (hp_port: int)

definition HostAndPort_empty :: HostAndPort where
  "HostAndPort_empty = HostAndPort '''' (- 1)"

definition hp_isEmpty :: "HostAndPort \<Rightarrow> bool" where
  "hp_isEmpty h \<longleftrightarrow> hp_host h = '''' \<and> hp_port h < 0"

definition port_of :: "HostAndPort \<Rightarrow> int" where
  "port_of h = (if hp_port h \<ge> 0 then hp_port h else 27017)"

definition host_eq :: "HostAndPort \<Rightarrow> HostAndPort \<Rightarrow> bool" where
  "host_eq a b \<longleftrightarrow> hp_host a = hp_host b \<and> port_of a = port_of b"

definition isLocalHost :: "HostAndPort \<Rightarrow> bool" where
  "isLocalHost h \<longleftrightarrow>
     hp_host h = ''localhost'' \<or> take 4 (hp_host h) = ''127.'' \<or> hp_host h = ''::1'' \<or>
     hp_host h = ''anonymous unix socket'' \<or> take 1 (hp_host h) = ''/''"

subsection \<open>Member states\<close>

datatype MemberState =
  RS_STARTUP | RS_PRIMARY | RS_SECONDARY | RS_RECOVERING | RS_STARTUP2 | RS_UNKNOWN | RS_ARBITER |
  RS_DOWN | RS_ROLLBACK | RS_REMOVED

definition readable :: "MemberState \<Rightarrow> bool" where
  "readable s \<longleftrightarrow> s = RS_PRIMARY \<or> s = RS_SECONDARY"

subsection \<open>Members\<close>

record MemberConfig =
  member_id :: int
  member_host :: HostAndPort
  priority :: rat
  member_votes :: int
  arbiterOnly :: bool
  slaveDelay :: int
  hidden :: bool
  buildIndexes :: bool
  member_tags :: "ReplSetTag list"

definition isVoter :: "MemberConfig \<Rightarrow> bool" where
  "isVoter m \<longleftrightarrow> member_votes m \<noteq> 0"

definition getNumVotes :: "MemberConfig \<Rightarrow> int" where
  "getNumVotes m = (if isVoter m then 1 else 0)"

definition isElectable :: "MemberConfig \<Rightarrow> bool" where
  "isElectable m \<longleftrightarrow> \<not> arbiterOnly m \<and> priority m > 0"

definition kMaxSlaveDelay :: int where
  "kMaxSlaveDelay = 3600 * 24 * 366"

definition validate_member :: "MemberConfig \<Rightarrow> bool" where
  "validate_member m \<longleftrightarrow>
     \<not> (member_id m < 0 \<or> member_id m > 255) \<and>
     \<not> (priority m < 0 \<or> priority m > 1000) \<and>
     \<not> (member_votes m \<noteq> 0 \<and> member_votes m \<noteq> 1) \<and>
     \<not> (arbiterOnly m \<and> (member_tags m \<noteq> [] \<or> \<not> isVoter m)) \<and>
     \<not> (slaveDelay m < 0 \<or> slaveDelay m > kMaxSlaveDelay) \<and>
     \<not> (priority m \<noteq> 0 \<and> (member_votes m = 0 \<or> slaveDelay m > 0 \<or> hidden m \<or> \<not> buildIndexes m))"

text \<open>
  The last part of MemberConfig::initialize: the tags the server adds for its own counting. The member
  id, printed as a decimal number, is the value of each of them.
\<close>

function show_nat :: "nat \<Rightarrow> string" where
  "show_nat n = (if n < 10 then [char_of (n + 48)] else show_nat (n div 10) @ [char_of (n mod 10 + 48)])"
  by auto
termination by (relation "measure id") auto

declare show_nat.simps [simp del]

definition show_int :: "int \<Rightarrow> string" where
  "show_int i = (if i < 0 then CHR ''-'' # show_nat (nat (- i)) else show_nat (nat i))"

definition add_tag_if :: "bool \<Rightarrow> string \<Rightarrow> MemberConfig \<times> ReplSetTagConfig \<Rightarrow> MemberConfig \<times> ReplSetTagConfig" where
  "add_tag_if b key st =
     (case st of (m, td) \<Rightarrow>
       if b then
         (let (t, td) = makeTag td key (show_int (member_id m))
          in (m\<lparr>member_tags := member_tags m @ [t]\<rparr>, td))
       else (m, td))"

definition addInternalTags :: "MemberConfig \<Rightarrow> ReplSetTagConfig \<Rightarrow> MemberConfig \<times> ReplSetTagConfig" where
  "addInternalTags m td =
     add_tag_if (\<not> arbiterOnly m) ''$all''
       (add_tag_if (isElectable m) ''$electable''
         (add_tag_if (isVoter m \<and> \<not> arbiterOnly m) ''$voter'' (m, td)))"

subsection \<open>The configuration of the set\<close>

record WriteConcernOptions =
  wMode :: string
  wNumNodes :: int

record ReplSetConfig =
  cfg_isInitialized :: bool
  cfg_version :: int
  replSetName :: string
  cfg_members :: "MemberConfig list"
  defaultWriteConcern :: WriteConcernOptions
  electionTimeoutPeriod :: int
  heartbeatInterval :: int
  heartbeatTimeoutPeriod :: int
  catchUpTimeoutPeriod :: int
  catchUpTakeoverDelay :: int
  chainingAllowed :: bool
  writeConcernMajorityJournalDefault :: bool
  majorityVoteCount :: int
  writeMajority :: int
  totalVotingMembers :: int
  tagConfig :: ReplSetTagConfig
  customWriteConcernModes :: "(string \<times> ReplSetTagPattern) list"
  protocolVersion :: int
  configServer :: bool
  connectionStringValid :: bool

definition kMaxMembers :: nat where
  "kMaxMembers = 50"

definition kMaxVotingMembers :: nat where
  "kMaxVotingMembers = 7"

definition kMajorityWriteConcernModeName :: string where
  "kMajorityWriteConcernModeName = ''$majority''"

definition getNumMembers :: "ReplSetConfig \<Rightarrow> int" where
  "getNumMembers cfg = int (length (cfg_members cfg))"

text \<open>
  ReplSetConfig::getMemberAt fails its check on an index out of range; a negative index is converted to
  a huge one.
\<close>

definition vec_at :: "'a list \<Rightarrow> int \<Rightarrow> 'a option" where
  "vec_at xs i = (if 0 \<le> i \<and> i < int (length xs) then Some (xs ! nat i) else None)"

abbreviation getMemberAt :: "ReplSetConfig \<Rightarrow> int \<Rightarrow> MemberConfig option" where
  "getMemberAt cfg i \<equiv> vec_at (cfg_members cfg) i"

fun index_where :: "('a \<Rightarrow> bool) \<Rightarrow> int \<Rightarrow> 'a list \<Rightarrow> int" where
  "index_where P i [] = - 1"
| "index_where P i (x # xs) = (if P x then i else index_where P (i + 1) xs)"

definition findMemberByID :: "ReplSetConfig \<Rightarrow> int \<Rightarrow> MemberConfig option" where
  "findMemberByID cfg i = List.find (\<lambda>m. member_id m = i) (cfg_members cfg)"

definition findMemberIndexByHostAndPort :: "ReplSetConfig \<Rightarrow> HostAndPort \<Rightarrow> int" where
  "findMemberIndexByHostAndPort cfg h = index_where (\<lambda>m. host_eq (member_host m) h) 0 (cfg_members cfg)"

definition findMemberIndexByConfigId :: "ReplSetConfig \<Rightarrow> int \<Rightarrow> int" where
  "findMemberIndexByConfigId cfg i = index_where (\<lambda>m. member_id m = i) 0 (cfg_members cfg)"

definition findCustomWriteMode :: "ReplSetConfig \<Rightarrow> string \<Rightarrow> ReplSetTagPattern option" where
  "findCustomWriteMode cfg name = map_of (customWriteConcernModes cfg) name"

definition calculatePriorityRank :: "ReplSetConfig \<Rightarrow> rat \<Rightarrow> int" where
  "calculatePriorityRank cfg p = int (length (filter (\<lambda>m. priority m > p) (cfg_members cfg)))"

definition getPriorityTakeoverDelay :: "ReplSetConfig \<Rightarrow> int \<Rightarrow> int option" where
  "getPriorityTakeoverDelay cfg i = do {
     m \<leftarrow> getMemberAt cfg i;
     Some ((calculatePriorityRank cfg (priority m) + 1) * electionTimeoutPeriod cfg)
   }"

definition count_members :: "(MemberConfig \<Rightarrow> bool) \<Rightarrow> ReplSetConfig \<Rightarrow> nat" where
  "count_members P cfg = length (filter P (cfg_members cfg))"

definition calculateMajorities :: "ReplSetConfig \<Rightarrow> ReplSetConfig" where
  "calculateMajorities cfg =
     (let voters = int (count_members isVoter cfg);
          arbiters = int (count_members arbiterOnly cfg)
      in cfg\<lparr>totalVotingMembers := voters, majorityVoteCount := voters div 2 + 1,
             writeMajority := min (voters div 2 + 1) (voters - arbiters)\<rparr>)"

definition add_write_mode :: "string \<Rightarrow> string \<Rightarrow> int \<Rightarrow> ReplSetConfig \<Rightarrow> ReplSetConfig" where
  "add_write_mode name key n cfg =
     (case addTagCountConstraintToPattern (tagConfig cfg) [] key n of
        Some pattern \<Rightarrow> cfg\<lparr>customWriteConcernModes := AList.update name pattern (customWriteConcernModes cfg)\<rparr>
      | None \<Rightarrow> cfg)"

definition addInternalWriteConcernModes :: "ReplSetConfig \<Rightarrow> ReplSetConfig" where
  "addInternalWriteConcernModes cfg =
     add_write_mode ''$stepDownCheck'' ''$electable'' 2
       (add_write_mode kMajorityWriteConcernModeName ''$voter'' (writeMajority cfg) cfg)"

text \<open>
  ReplSetConfig::validate. Every failing check answers BadValue. The role of the process
  (\<open>serverGlobalParams.clusterRole\<close>) and the test switch for sharding checks are arguments, and
  whether the connection string could be built is a field.
\<close>

fun pairwise_distinct :: "('a \<Rightarrow> 'a \<Rightarrow> bool) \<Rightarrow> 'a list \<Rightarrow> bool" where
  "pairwise_distinct eq [] \<longleftrightarrow> True"
| "pairwise_distinct eq (x # xs) \<longleftrightarrow> list_all (\<lambda>y. \<not> eq x y) xs \<and> pairwise_distinct eq xs"

definition validate_config :: "bool \<Rightarrow> bool \<Rightarrow> ReplSetConfig \<Rightarrow> bool" where
  "validate_config roleConfigServer skipShardingChecks cfg \<longleftrightarrow>
     \<not> (cfg_version cfg \<le> 0 \<or> cfg_version cfg > 2147483647) \<and>
     replSetName cfg \<noteq> '''' \<and>
     \<not> heartbeatInterval cfg < 0 \<and>
     \<not> (length (cfg_members cfg) > kMaxMembers \<or> cfg_members cfg = []) \<and>
     list_all validate_member (cfg_members cfg) \<and>
     pairwise_distinct (\<lambda>a b. member_id a = member_id b) (cfg_members cfg) \<and>
     pairwise_distinct (\<lambda>a b. host_eq (member_host a) (member_host b)) (cfg_members cfg) \<and>
     (let localhostCount = count_members (\<lambda>m. isLocalHost (member_host m)) cfg in
      \<not> (localhostCount \<noteq> 0 \<and> localhostCount \<noteq> length (cfg_members cfg))) \<and>
     (let voterCount = count_members isVoter cfg in
      \<not> (voterCount > kMaxVotingMembers \<or> voterCount = 0)) \<and>
     count_members (\<lambda>m. \<not> arbiterOnly m \<and> priority m > 0) cfg \<noteq> 0 \<and>
     (if wMode (defaultWriteConcern cfg) = '''' then wNumNodes (defaultWriteConcern cfg) \<noteq> 0
      else wMode (defaultWriteConcern cfg) = ''majority'' \<or>
        findCustomWriteMode cfg (wMode (defaultWriteConcern cfg)) \<noteq> None) \<and>
     protocolVersion cfg = 1 \<and>
     (if configServer cfg then
        count_members arbiterOnly cfg = 0 \<and>
        list_all (\<lambda>m. buildIndexes m \<and> slaveDelay m = 0) (cfg_members cfg) \<and>
        (roleConfigServer \<or> skipShardingChecks) \<and> writeConcernMajorityJournalDefault cfg
      else \<not> roleConfigServer) \<and>
     connectionStringValid cfg"

text \<open>ReplSetConfig::checkIfWriteConcernCanBeSatisfied.\<close>

datatype ConfigError = UnknownReplWriteConcern | UnsatisfiableWriteConcern

fun match_tags :: "ReplSetTagMatch \<Rightarrow> ReplSetTag list \<Rightarrow> bool \<times> ReplSetTagMatch" where
  "match_tags m [] = (False, m)"
| "match_tags m (t # ts) = (let (done, m) = match_update m t in if done then (True, m) else match_tags m ts)"

fun nodes_remaining :: "int \<Rightarrow> MemberConfig list \<Rightarrow> bool" where
  "nodes_remaining n [] \<longleftrightarrow> False"
| "nodes_remaining n (m # ms) \<longleftrightarrow>
     (if \<not> arbiterOnly m then n - 1 \<le> 0 \<or> nodes_remaining (n - 1) ms else nodes_remaining n ms)"

definition checkIfWriteConcernCanBeSatisfied :: "ReplSetConfig \<Rightarrow> WriteConcernOptions \<Rightarrow> ConfigError + unit" where
  "checkIfWriteConcernCanBeSatisfied cfg wc =
     (if wMode wc \<noteq> '''' \<and> wMode wc \<noteq> ''majority'' then
        (case findCustomWriteMode cfg (wMode wc) of
           None \<Rightarrow> Inl UnknownReplWriteConcern
         | Some pattern \<Rightarrow>
             if fst (match_tags (ReplSetTagMatch_new pattern) (concat (map member_tags (cfg_members cfg))))
             then Inr () else Inl UnsatisfiableWriteConcern)
      else if nodes_remaining (wNumNodes wc) (cfg_members cfg) then Inr ()
      else Inl UnsatisfiableWriteConcern)"

end
