(* ===== verification/Member_Data.thy ===== *)
theory Member_Data
  imports Repl_Config
begin

text \<open>
  What a node knows about each member of its replica set: class MemberData (db/repl/member_data.h
  and .cpp), the heartbeat responses it stores (db/repl/repl_set_heartbeat_response.h) and the ping
  statistics of the topology coordinator. Dates and durations are milliseconds in \<open>int\<close>; the epoch, 0,
  is the default date.
\<close>

type_synonym Date_t = int

record ReplSetHeartbeatResponse =
  hb_electionTime :: "Timestamp option"
  hb_appliedOpTime :: "OpTime option"
  hb_durableOpTime :: "OpTime option"
  hb_state :: "MemberState option"
  hb_configVersion :: int
  hb_syncingTo :: HostAndPort
  hb_config :: "ReplSetConfig option"
  hb_primaryId :: "int option"
  hb_term :: int
  hb_setName :: string

definition ReplSetHeartbeatResponse_new :: ReplSetHeartbeatResponse where
  "ReplSetHeartbeatResponse_new =
     \<lparr>hb_electionTime = None, hb_appliedOpTime = None, hb_durableOpTime = None, hb_state = None,
      hb_configVersion = - 1, hb_syncingTo = HostAndPort_empty, hb_config = None, hb_primaryId = None,
      hb_term = - 1, hb_setName = ''''\<rparr>"

record MemberData =
  health :: int
  upSince :: Date_t
  lastHeartbeat :: Date_t
  lastHeartbeatRecv :: Date_t
  lastHeartbeatMessage :: string
  authIssue :: bool
  lastResponse :: ReplSetHeartbeatResponse
  updatedSinceRestart :: bool
  lastUpdate :: Date_t
  lastUpdateStale :: bool
  lastDurableOpTime :: OpTime
  lastAppliedOpTime :: OpTime
  lastOpCommitted :: OpTime
  configIndex :: int
  isSelf :: bool
  memberId :: int
  md_host :: HostAndPort

definition MemberData_new :: MemberData where
  "MemberData_new =
     \<lparr>health = - 1, upSince = 0, lastHeartbeat = 0, lastHeartbeatRecv = 0, lastHeartbeatMessage = '''',
      authIssue = False,
      lastResponse = ReplSetHeartbeatResponse_new\<lparr>hb_state := Some RS_UNKNOWN,
        hb_electionTime := Some Timestamp_min, hb_appliedOpTime := Some OpTime_null\<rparr>,
      updatedSinceRestart = False, lastUpdate = 0, lastUpdateStale = False,
      lastDurableOpTime = OpTime_null, lastAppliedOpTime = OpTime_null, lastOpCommitted = OpTime_null,
      configIndex = - 1, isSelf = False, memberId = - 1, md_host = HostAndPort_empty\<rparr>"

text \<open>The response that MemberData stores always has a state, an election time and an applied optime.\<close>

definition getState :: "MemberData \<Rightarrow> MemberState" where
  "getState d = (case hb_state (lastResponse d) of Some s \<Rightarrow> s | None \<Rightarrow> RS_STARTUP)"

definition getHeartbeatAppliedOpTime :: "MemberData \<Rightarrow> OpTime" where
  "getHeartbeatAppliedOpTime d =
     (case hb_appliedOpTime (lastResponse d) of Some t \<Rightarrow> t | None \<Rightarrow> OpTime_null)"

definition getHeartbeatDurableOpTime :: "MemberData \<Rightarrow> OpTime" where
  "getHeartbeatDurableOpTime d =
     (case hb_durableOpTime (lastResponse d) of Some t \<Rightarrow> t | None \<Rightarrow> OpTime_null)"

definition md_term :: "MemberData \<Rightarrow> int" where
  "md_term d = hb_term (lastResponse d)"

definition up :: "MemberData \<Rightarrow> bool" where
  "up d \<longleftrightarrow> health d > 0"

definition setLastAppliedOpTime :: "OpTime \<Rightarrow> Date_t \<Rightarrow> MemberData \<Rightarrow> MemberData" where
  "setLastAppliedOpTime t now d = d\<lparr>lastUpdate := now, lastUpdateStale := False, lastAppliedOpTime := t\<rparr>"

definition setLastDurableOpTime :: "OpTime \<Rightarrow> Date_t \<Rightarrow> MemberData \<Rightarrow> MemberData" where
  "setLastDurableOpTime t now d =
     (let d = d\<lparr>lastUpdate := now, lastUpdateStale := False\<rparr> in
      if opTime_less (lastAppliedOpTime d) t then d else d\<lparr>lastDurableOpTime := t\<rparr>)"

definition advanceLastAppliedOpTime :: "OpTime \<Rightarrow> Date_t \<Rightarrow> MemberData \<Rightarrow> bool \<times> MemberData" where
  "advanceLastAppliedOpTime t now d =
     (let d = d\<lparr>lastUpdate := now, lastUpdateStale := False\<rparr> in
      if opTime_less (lastAppliedOpTime d) t then (True, setLastAppliedOpTime t now d) else (False, d))"

definition advanceLastDurableOpTime :: "OpTime \<Rightarrow> Date_t \<Rightarrow> MemberData \<Rightarrow> bool \<times> MemberData" where
  "advanceLastDurableOpTime t now d =
     (let d = d\<lparr>lastUpdate := now, lastUpdateStale := False\<rparr> in
      if opTime_less (lastDurableOpTime d) t then (True, setLastDurableOpTime t now d) else (False, d))"

definition setUpValues ::
  "Date_t \<Rightarrow> ReplSetHeartbeatResponse \<Rightarrow> OpTime \<Rightarrow> MemberData \<Rightarrow> bool \<times> MemberData" where
  "setUpValues now hbr lastCommitted d =
     (let d = d\<lparr>health := 1, upSince := (if upSince d = 0 then now else upSince d), authIssue := False,
                lastHeartbeat := now, lastUpdate := now, lastUpdateStale := False,
                updatedSinceRestart := True, lastHeartbeatMessage := ''''\<rparr>;
          d = (if \<not> opTime_isNull lastCommitted then d\<lparr>lastOpCommitted := lastCommitted\<rparr> else d);
          hbr = (if hb_state hbr = None then hbr\<lparr>hb_state := Some RS_UNKNOWN\<rparr> else hbr);
          hbr = (if hb_electionTime hbr = None
                 then hbr\<lparr>hb_electionTime := hb_electionTime (lastResponse d)\<rparr> else hbr);
          hbr = (if hb_appliedOpTime hbr = None
                 then hbr\<lparr>hb_appliedOpTime := hb_appliedOpTime (lastResponse d)\<rparr> else hbr);
          applied = (case hb_appliedOpTime hbr of Some t \<Rightarrow> t | None \<Rightarrow> OpTime_null);
          durable = (case hb_durableOpTime hbr of Some t \<Rightarrow> t | None \<Rightarrow> OpTime_null);
          (a1, d) = advanceLastAppliedOpTime applied now d;
          (a2, d) = advanceLastDurableOpTime durable now d
      in (a2 \<or> a1, d\<lparr>lastResponse := hbr\<rparr>))"

definition setDownValues :: "Date_t \<Rightarrow> string \<Rightarrow> MemberData \<Rightarrow> MemberData" where
  "setDownValues now msg d =
     d\<lparr>health := 0, upSince := 0, lastHeartbeat := now, authIssue := False, updatedSinceRestart := True,
       lastHeartbeatMessage := msg,
       lastResponse := ReplSetHeartbeatResponse_new\<lparr>hb_state := Some RS_DOWN,
         hb_electionTime := Some Timestamp_min, hb_appliedOpTime := Some OpTime_null\<rparr>\<rparr>"

definition setAuthIssue :: "Date_t \<Rightarrow> MemberData \<Rightarrow> MemberData" where
  "setAuthIssue now d =
     d\<lparr>health := 0, upSince := 0, lastHeartbeat := now, authIssue := True, updatedSinceRestart := True,
       lastHeartbeatMessage := '''',
       lastResponse := ReplSetHeartbeatResponse_new\<lparr>hb_state := Some RS_UNKNOWN,
         hb_electionTime := Some Timestamp_min, hb_appliedOpTime := Some OpTime_null\<rparr>\<rparr>"

definition markLastUpdateStale :: "MemberData \<Rightarrow> MemberData" where
  "markLastUpdateStale d = d\<lparr>lastUpdateStale := True\<rparr>"

definition updateLiveness :: "Date_t \<Rightarrow> MemberData \<Rightarrow> MemberData" where
  "updateLiveness now d = d\<lparr>lastUpdate := now, lastUpdateStale := False\<rparr>"

definition md_restart :: "MemberData \<Rightarrow> MemberData" where
  "md_restart d = d\<lparr>updatedSinceRestart := False\<rparr>"

subsection \<open>Ping statistics\<close>

datatype HeartbeatState = UNINITIALIZED | TRYING | SUCCEEDED | FAILED

record PingStats =
  ping_state :: HeartbeatState
  hitCount :: nat
  averagePingTimeMs :: int
  lastHeartbeatStartDate :: Date_t
  numFailuresSinceLastStart :: int

definition PingStats_new :: PingStats where
  "PingStats_new = \<lparr>ping_state = UNINITIALIZED, hitCount = 0, averagePingTimeMs = - 1,
     lastHeartbeatStartDate = 0, numFailuresSinceLastStart = - 1\<rparr>"

definition kMaxHeartbeatRetries :: int where
  "kMaxHeartbeatRetries = 2"

definition ping_start :: "Date_t \<Rightarrow> PingStats \<Rightarrow> PingStats" where
  "ping_start now p = p\<lparr>lastHeartbeatStartDate := now, numFailuresSinceLastStart := 0, ping_state := TRYING\<rparr>"

text \<open>The weighted average; the division of C++ truncates towards zero, and ping times are not negative.\<close>

definition ping_hit :: "int \<Rightarrow> PingStats \<Rightarrow> PingStats" where
  "ping_hit millis p =
     p\<lparr>ping_state := SUCCEEDED, hitCount := hitCount p + 1,
       averagePingTimeMs := (if averagePingTimeMs p = - 1 then millis
                             else (averagePingTimeMs p * 4 + millis) div 5)\<rparr>"

definition ping_miss :: "PingStats \<Rightarrow> PingStats" where
  "ping_miss p =
     (let p = p\<lparr>numFailuresSinceLastStart := numFailuresSinceLastStart p + 1\<rparr> in
      if numFailuresSinceLastStart p > kMaxHeartbeatRetries then p\<lparr>ping_state := FAILED\<rparr> else p)"

definition getMillis :: "PingStats \<Rightarrow> int" where
  "getMillis p = (if averagePingTimeMs p = - 1 then 0 else averagePingTimeMs p)"

subsection \<open>Progress only moves forward\<close>

definition progress_valid :: "MemberData \<Rightarrow> bool" where
  "progress_valid d \<longleftrightarrow> valid_opTime (lastAppliedOpTime d) \<and> valid_opTime (lastDurableOpTime d)"

text \<open>An optime that a member reports never takes its recorded progress back.\<close>

lemma advanceLastAppliedOpTime_mono:
  assumes "progress_valid d" and "valid_opTime t" and "advanceLastAppliedOpTime t now d = (b, d')"
  shows "progress_valid d' \<and> opTime_le (lastAppliedOpTime d) (lastAppliedOpTime d') \<and>
    opTime_le t (lastAppliedOpTime d') \<and> lastDurableOpTime d' = lastDurableOpTime d \<and>
    (b \<longleftrightarrow> lastAppliedOpTime d' \<noteq> lastAppliedOpTime d)"
  using assms opTime_less_linear [of t "lastAppliedOpTime d"]
  by (auto simp: advanceLastAppliedOpTime_def setLastAppliedOpTime_def progress_valid_def opTime_le_iff Let_def
      split: if_splits)

lemma advanceLastDurableOpTime_mono:
  assumes "progress_valid d" and "valid_opTime t" and "advanceLastDurableOpTime t now d = (b, d')"
  shows "progress_valid d' \<and> opTime_le (lastDurableOpTime d) (lastDurableOpTime d') \<and>
    lastAppliedOpTime d' = lastAppliedOpTime d \<and>
    (opTime_le t (lastAppliedOpTime d) \<longrightarrow> opTime_le t (lastDurableOpTime d'))"
  using assms opTime_less_linear [of t "lastDurableOpTime d"] opTime_less_asym [of t "lastAppliedOpTime d"]
  by (auto simp: advanceLastDurableOpTime_def setLastDurableOpTime_def progress_valid_def opTime_le_iff Let_def
      split: if_splits)

end
