(* ===== verification/Topology.thy ===== *)
theory Topology
  imports Member_Data Operation_System
begin

text \<open>
  Class TopologyCoordinator of db/repl/topology_coordinator.h and topology_coordinator.cpp: the state
  of one node in the consensus protocol. This theory holds the state, terms, votes, elections, step
  down, the commit point and reconfiguration; theories \<open>Topology_Sync\<close> and \<open>Topology_Heartbeat\<close> have
  the choice of a sync source and the heartbeats. Election ids, log messages and status reports are not part of the model. The fail
  points of the source, which tests switch on, are off.

  An index is an \<open>int\<close>, -1 for "no member". Reading a vector out of its range, which is a failed
  check with \<open>at\<close> and undefined with \<open>operator[]\<close>, counts as the end of the process, like a failed
  \<open>invariant\<close>. \<open>maxSyncSourceLagSecs\<close> is kept as the unsigned 32-bit number the code converts it to.
\<close>

subsection \<open>State\<close>

datatype Role = kLeader | kFollower | kCandidate

datatype LeaderMode = kNotLeader | kLeaderElect | kMaster | kSteppingDown | kAttemptingStepDown

datatype ReadCommittedSupport = kUnknown | kNo | kYes

datatype UnelectableReason =
  CannotSeeMajority | ArbiterIAm | NotSecondary | NoPriority | StepDownPeriodActive | NoData |
  NotInitialized | NotCloseEnoughToLatestForPriorityTakeover | NotFreshEnoughForCatchupTakeover

datatype StartElectionReason =
  kElectionTimeout | kPriorityTakeover | kStepUpRequest | kStepUpRequestSkipDryRun | kCatchupTakeover |
  kSingleNodePromptElection

record TopologyOptions =
  maxSyncSourceLagSecs :: u32
  clusterRoleConfigServer :: bool
  skipShardingConfigurationChecks :: bool
  priorityTakeoverFreshnessWindowSeconds :: u32

record LastVote =
  vote_term :: int
  vote_candidateIndex :: int

record TopologyCoordinator =
  role :: Role
  tc_electionTime :: Timestamp
  topo_term :: int
  currentPrimaryIndex :: int
  syncSource :: HostAndPort
  syncSourceBlacklist :: "((string \<times> int) \<times> Date_t) list"
  forceSyncSourceIndex :: int
  topo_options :: TopologyOptions
  selfIndex :: int
  rsConfig :: ReplSetConfig
  memberData :: "MemberData list"
  stepDownUntil :: Date_t
  electionSleepUntil :: Date_t
  lastCommittedOpTime :: OpTime
  firstOpTimeOfMyTerm :: OpTime
  maintenanceModeCalls :: int
  followerMode :: MemberState
  leaderMode :: LeaderMode
  pings :: "((string \<times> int) \<times> PingStats) list"
  lastVote :: LastVote
  storageEngineSupportsReadCommitted :: ReadCommittedSupport

definition ReplSetConfig_new :: ReplSetConfig where
  "ReplSetConfig_new =
     \<lparr>cfg_isInitialized = False, cfg_version = 1, replSetName = '''', cfg_members = [],
      defaultWriteConcern = \<lparr>wMode = '''', wNumNodes = 0\<rparr>, electionTimeoutPeriod = 10000,
      heartbeatInterval = 2000, heartbeatTimeoutPeriod = 10, catchUpTimeoutPeriod = - 1,
      catchUpTakeoverDelay = 30000, chainingAllowed = True, writeConcernMajorityJournalDefault = False,
      majorityVoteCount = 0, writeMajority = 0, totalVotingMembers = 0, tagConfig = [],
      customWriteConcernModes = [], protocolVersion = 1, configServer = False, connectionStringValid = False\<rparr>"

definition TopologyCoordinator_new :: "TopologyOptions \<Rightarrow> TopologyCoordinator" where
  "TopologyCoordinator_new opts =
     \<lparr>role = kFollower, tc_electionTime = Timestamp_min, topo_term = kUninitializedTerm,
      currentPrimaryIndex = - 1, syncSource = HostAndPort_empty, syncSourceBlacklist = [],
      forceSyncSourceIndex = - 1, topo_options = opts, selfIndex = - 1, rsConfig = ReplSetConfig_new,
      memberData = [MemberData_new\<lparr>isSelf := True\<rparr>], stepDownUntil = 0, electionSleepUntil = 0,
      lastCommittedOpTime = OpTime_null, firstOpTimeOfMyTerm = OpTime_null, maintenanceModeCalls = 0,
      followerMode = RS_STARTUP2, leaderMode = kNotLeader, pings = [],
      lastVote = \<lparr>vote_term = kInitialTerm, vote_candidateIndex = - 1\<rparr>,
      storageEngineSupportsReadCommitted = kUnknown\<rparr>"

abbreviation selfConfig :: "TopologyCoordinator \<Rightarrow> MemberConfig option" where
  "selfConfig t \<equiv> getMemberAt (rsConfig t) (selfIndex t)"

definition selfMemberDataIndex :: "TopologyCoordinator \<Rightarrow> int option" where
  "selfMemberDataIndex t = do {
     invariant (memberData t \<noteq> []);
     Some (if selfIndex t \<ge> 0 then selfIndex t else 0)
   }"

definition selfMemberData :: "TopologyCoordinator \<Rightarrow> MemberData option" where
  "selfMemberData t = selfMemberDataIndex t \<bind> (\<lambda>i. vec_at (memberData t) i)"

definition put_member :: "TopologyCoordinator \<Rightarrow> int \<Rightarrow> MemberData \<Rightarrow> TopologyCoordinator" where
  "put_member t i d = t\<lparr>memberData := (memberData t)[nat i := d]\<rparr>"

definition getMyLastAppliedOpTime :: "TopologyCoordinator \<Rightarrow> OpTime option" where
  "getMyLastAppliedOpTime t = map_option lastAppliedOpTime (selfMemberData t)"

definition getMyLastDurableOpTime :: "TopologyCoordinator \<Rightarrow> OpTime option" where
  "getMyLastDurableOpTime t = map_option lastDurableOpTime (selfMemberData t)"

definition setMyLastAppliedOpTime ::
  "TopologyCoordinator \<Rightarrow> OpTime \<Rightarrow> Date_t \<Rightarrow> bool \<Rightarrow> TopologyCoordinator option" where
  "setMyLastAppliedOpTime t opTime now isRollbackAllowed = do {
     i \<leftarrow> selfMemberDataIndex t;
     d \<leftarrow> vec_at (memberData t) i;
     invariant (isRollbackAllowed \<or> opTime_ge opTime (lastAppliedOpTime d));
     Some (put_member t i (setLastAppliedOpTime opTime now d))
   }"

definition setMyLastDurableOpTime ::
  "TopologyCoordinator \<Rightarrow> OpTime \<Rightarrow> Date_t \<Rightarrow> bool \<Rightarrow> TopologyCoordinator option" where
  "setMyLastDurableOpTime t opTime now isRollbackAllowed = do {
     i \<leftarrow> selfMemberDataIndex t;
     d \<leftarrow> vec_at (memberData t) i;
     invariant (isRollbackAllowed \<or> opTime_ge opTime (lastDurableOpTime d));
     Some (put_member t i (setLastDurableOpTime opTime now d))
   }"

definition iAmPrimary :: "TopologyCoordinator \<Rightarrow> bool option" where
  "iAmPrimary t =
     (if role t = kLeader then do {
        invariant (currentPrimaryIndex t = selfIndex t);
        invariant (leaderMode t \<noteq> kNotLeader);
        Some True
      } else Some False)"

subsection \<open>Leader modes\<close>

fun leader_transition :: "LeaderMode \<Rightarrow> LeaderMode \<Rightarrow> bool" where
  "leader_transition kNotLeader new \<longleftrightarrow> new = kLeaderElect"
| "leader_transition kLeaderElect new \<longleftrightarrow>
     new = kNotLeader \<or> new = kMaster \<or> new = kAttemptingStepDown \<or> new = kSteppingDown"
| "leader_transition kMaster new \<longleftrightarrow> new = kNotLeader \<or> new = kAttemptingStepDown \<or> new = kSteppingDown"
| "leader_transition kAttemptingStepDown new \<longleftrightarrow>
     new = kNotLeader \<or> new = kMaster \<or> new = kSteppingDown \<or> new = kLeaderElect"
| "leader_transition kSteppingDown new \<longleftrightarrow> new = kNotLeader"

definition setLeaderMode :: "TopologyCoordinator \<Rightarrow> LeaderMode \<Rightarrow> TopologyCoordinator option" where
  "setLeaderMode t newMode = do {
     invariant (leader_transition (leaderMode t) newMode);
     Some (t\<lparr>leaderMode := newMode\<rparr>)
   }"

definition canAcceptWrites :: "TopologyCoordinator \<Rightarrow> bool" where
  "canAcceptWrites t \<longleftrightarrow> leaderMode t = kMaster"

definition isSteppingDown :: "TopologyCoordinator \<Rightarrow> bool" where
  "isSteppingDown t \<longleftrightarrow> leaderMode t = kAttemptingStepDown \<or> leaderMode t = kSteppingDown"

subsection \<open>The member state\<close>

fun hasOnlyAuthErrorUpHeartbeats :: "bool \<Rightarrow> int \<Rightarrow> int \<Rightarrow> MemberData list \<Rightarrow> bool" where
  "hasOnlyAuthErrorUpHeartbeats found self i [] \<longleftrightarrow> found"
| "hasOnlyAuthErrorUpHeartbeats found self i (d # ds) \<longleftrightarrow>
     (if i = self then hasOnlyAuthErrorUpHeartbeats found self (i + 1) ds
      else if up d then False
      else hasOnlyAuthErrorUpHeartbeats (found \<or> authIssue d) self (i + 1) ds)"

definition getMemberState :: "TopologyCoordinator \<Rightarrow> MemberState option" where
  "getMemberState t =
     (if selfIndex t = - 1 then
        Some (if cfg_isInitialized (rsConfig t) then RS_REMOVED else RS_STARTUP)
      else if configServer (rsConfig t) \<and>
              \<not> clusterRoleConfigServer (topo_options t) \<and> \<not> skipShardingConfigurationChecks (topo_options t)
      then Some RS_REMOVED
      else if configServer (rsConfig t) \<and> storageEngineSupportsReadCommitted t = kUnknown then None
      else if configServer (rsConfig t) \<and> storageEngineSupportsReadCommitted t = kNo then Some RS_REMOVED
      else if \<not> configServer (rsConfig t) \<and>
              clusterRoleConfigServer (topo_options t) \<and> \<not> skipShardingConfigurationChecks (topo_options t)
      then Some RS_REMOVED
      else if role t = kLeader then do {
        invariant (currentPrimaryIndex t = selfIndex t);
        invariant (leaderMode t \<noteq> kNotLeader);
        Some RS_PRIMARY
      } else do {
        myConfig \<leftarrow> selfConfig t;
        Some (if arbiterOnly myConfig then RS_ARBITER
              else if (maintenanceModeCalls t > 0 \<or>
                       hasOnlyAuthErrorUpHeartbeats False (selfIndex t) 0 (memberData t)) \<and>
                      followerMode t = RS_SECONDARY
              then RS_RECOVERING
              else followerMode t)
      })"

subsection \<open>Who can be elected\<close>

fun votes_up :: "ReplSetConfig \<Rightarrow> int \<Rightarrow> int \<Rightarrow> MemberData list \<Rightarrow> int option" where
  "votes_up cfg self i [] = Some 0"
| "votes_up cfg self i (d # ds) = do {
     rest \<leftarrow> votes_up cfg self (i + 1) ds;
     if i = self \<or> up d then do {
       m \<leftarrow> getMemberAt cfg i;
       Some (getNumVotes m + rest)
     } else Some rest
   }"

definition aMajoritySeemsToBeUp :: "TopologyCoordinator \<Rightarrow> bool option" where
  "aMajoritySeemsToBeUp t = do {
     vUp \<leftarrow> votes_up (rsConfig t) (selfIndex t) 0 (memberData t);
     Some (vUp * 2 > totalVotingMembers (rsConfig t))
   }"

definition latestKnownOpTime :: "TopologyCoordinator \<Rightarrow> OpTime option" where
  "latestKnownOpTime t = do {
     latest \<leftarrow> getMyLastAppliedOpTime t;
     Some (fold (\<lambda>d latest.
         if isSelf d \<or> \<not> up d \<or> getState d = RS_REMOVED then latest
         else if opTime_greater (getHeartbeatAppliedOpTime d) latest then getHeartbeatAppliedOpTime d
         else latest) (memberData t) latest)
   }"

definition amIFreshEnoughForPriorityTakeover :: "TopologyCoordinator \<Rightarrow> bool option" where
  "amIFreshEnoughForPriorityTakeover t = do {
     latest \<leftarrow> latestKnownOpTime t;
     ours \<leftarrow> getMyLastAppliedOpTime t;
     Some (if getTerm ours \<noteq> getTerm latest then False
           else if getSecs (getTimestamp ours) \<noteq> getSecs (getTimestamp latest) then
             getSecs (getTimestamp ours) + priorityTakeoverFreshnessWindowSeconds (topo_options t)
               \<ge> getSecs (getTimestamp latest)
           else getInc (getTimestamp ours) + 1000 \<ge> getInc (getTimestamp latest))
   }"

definition amIFreshEnoughForCatchupTakeover :: "TopologyCoordinator \<Rightarrow> bool option" where
  "amIFreshEnoughForCatchupTakeover t = do {
     latest \<leftarrow> latestKnownOpTime t;
     ours \<leftarrow> getMyLastAppliedOpTime t;
     if opTime_less ours latest then Some False
     else if currentPrimaryIndex t = - 1 then Some False
     else do {
       p \<leftarrow> vec_at (memberData t) (currentPrimaryIndex t);
       Some (if opTime_le ours (lastAppliedOpTime p) then False else getTerm ours < topo_term t)
     }
   }"

definition getMyUnelectableReason ::
  "TopologyCoordinator \<Rightarrow> Date_t \<Rightarrow> StartElectionReason \<Rightarrow> UnelectableReason list option" where
  "getMyUnelectableReason t now reason = do {
     lastApplied \<leftarrow> getMyLastAppliedOpTime t;
     let noData = (if opTime_isNull lastApplied then [NoData] else []);
     majority \<leftarrow> aMajoritySeemsToBeUp t;
     let noMajority = (if \<not> majority then [CannotSeeMajority] else []);
     if selfIndex t = - 1 then Some (noData @ noMajority @ [NotInitialized])
     else do {
       m \<leftarrow> selfConfig t;
       state \<leftarrow> getMemberState t;
       primary \<leftarrow> iAmPrimary t;
       forPriority \<leftarrow> (if reason = kPriorityTakeover then amIFreshEnoughForPriorityTakeover t else Some True);
       forCatchup \<leftarrow> (if reason = kCatchupTakeover then amIFreshEnoughForCatchupTakeover t else Some True);
       Some (noData @ noMajority @
         (if arbiterOnly m then [ArbiterIAm] else []) @
         (if priority m \<le> 0 then [NoPriority] else []) @
         (if stepDownUntil t > now then [StepDownPeriodActive] else []) @
         (if state \<noteq> RS_SECONDARY \<and> \<not> primary then [NotSecondary] else []) @
         (if \<not> forPriority then [NotCloseEnoughToLatestForPriorityTakeover] else []) @
         (if \<not> forCatchup then [NotFreshEnoughForCatchupTakeover] else []))
     }
   }"

definition getUnelectableReason :: "TopologyCoordinator \<Rightarrow> int \<Rightarrow> UnelectableReason list option" where
  "getUnelectableReason t i = do {
     invariant (i \<noteq> selfIndex t);
     m \<leftarrow> getMemberAt (rsConfig t) i;
     d \<leftarrow> vec_at (memberData t) i;
     let result = (if arbiterOnly m then [ArbiterIAm] else []) @
                  (if priority m \<le> 0 then [NoPriority] else []) @
                  (if getState d \<noteq> RS_SECONDARY then [NotSecondary] else []);
     invariant (result \<noteq> [] \<or> isElectable m);
     Some result
   }"

subsection \<open>Elections and votes\<close>

definition becomeCandidateIfElectable ::
  "TopologyCoordinator \<Rightarrow> Date_t \<Rightarrow> StartElectionReason \<Rightarrow> (bool \<times> TopologyCoordinator) option" where
  "becomeCandidateIfElectable t now reason =
     (if role t = kLeader then Some (False, t)
      else if role t = kCandidate then Some (False, t)
      else do {
        reasons \<leftarrow> getMyUnelectableReason t now reason;
        Some (if reasons \<noteq> [] then (False, t) else (True, t\<lparr>role := kCandidate\<rparr>))
      })"

text \<open>
  The first optime of the term is out of reach until the node has drained its oplog buffer:
  no operation is committed before that.
\<close>

definition unreachableOpTime :: OpTime where
  "unreachableOpTime = OpTime (Timestamp 2147483647 0) 2147483647"

definition setElectionInfo :: "TopologyCoordinator \<Rightarrow> Timestamp \<Rightarrow> TopologyCoordinator option" where
  "setElectionInfo t electionOpTime = do {
     invariant (role t = kLeader);
     Some (t\<lparr>tc_electionTime := electionOpTime\<rparr>)
   }"

definition processWinElection :: "TopologyCoordinator \<Rightarrow> Timestamp \<Rightarrow> TopologyCoordinator option" where
  "processWinElection t electionOpTime = do {
     invariant (role t = kCandidate);
     invariant (leaderMode t = kNotLeader);
     let t = t\<lparr>role := kLeader\<rparr>;
     t \<leftarrow> setLeaderMode t kLeaderElect;
     t \<leftarrow> setElectionInfo t electionOpTime;
     Some (t\<lparr>currentPrimaryIndex := selfIndex t, syncSource := HostAndPort_empty,
             forceSyncSourceIndex := - 1, firstOpTimeOfMyTerm := unreachableOpTime\<rparr>)
   }"

definition processLoseElection :: "TopologyCoordinator \<Rightarrow> TopologyCoordinator option" where
  "processLoseElection t = do {
     invariant (role t = kCandidate);
     invariant (leaderMode t = kNotLeader);
     Some (t\<lparr>tc_electionTime := Timestamp_min, role := kFollower\<rparr>)
   }"

definition voteForMyselfV1 :: "TopologyCoordinator \<Rightarrow> TopologyCoordinator" where
  "voteForMyselfV1 t = t\<lparr>lastVote := \<lparr>vote_term = topo_term t, vote_candidateIndex = selfIndex t\<rparr>\<rparr>"

definition loadLastVote :: "TopologyCoordinator \<Rightarrow> LastVote \<Rightarrow> TopologyCoordinator" where
  "loadLastVote t v = t\<lparr>lastVote := v\<rparr>"

definition setPrimaryIndex :: "TopologyCoordinator \<Rightarrow> int \<Rightarrow> TopologyCoordinator" where
  "setPrimaryIndex t i = t\<lparr>currentPrimaryIndex := i\<rparr>"

definition setStorageEngineSupportsReadCommitted :: "TopologyCoordinator \<Rightarrow> bool \<Rightarrow> TopologyCoordinator" where
  "setStorageEngineSupportsReadCommitted t supported =
     t\<lparr>storageEngineSupportsReadCommitted := (if supported then kYes else kNo)\<rparr>"

fun findHealthyPrimary :: "ReplSetConfig \<Rightarrow> int \<Rightarrow> rat \<Rightarrow> int \<Rightarrow> MemberData list \<Rightarrow> int option" where
  "findHealthyPrimary cfg candidate candidatePriority i [] = Some (- 1)"
| "findHealthyPrimary cfg candidate candidatePriority i (d # ds) =
     (if \<not> up d \<or> getState d \<noteq> RS_PRIMARY then findHealthyPrimary cfg candidate candidatePriority (i + 1) ds
      else do {
        m \<leftarrow> getMemberAt cfg i;
        if i \<noteq> candidate \<and> priority m \<ge> candidatePriority then Some i
        else findHealthyPrimary cfg candidate candidatePriority (i + 1) ds
      })"

definition findHealthyPrimaryOfEqualOrGreaterPriority :: "TopologyCoordinator \<Rightarrow> int \<Rightarrow> int option" where
  "findHealthyPrimaryOfEqualOrGreaterPriority t candidate = do {
     m \<leftarrow> getMemberAt (rsConfig t) candidate;
     findHealthyPrimary (rsConfig t) candidate (priority m) 0 (memberData t)
   }"

record ReplSetRequestVotesArgs =
  args_setName :: string
  args_term :: int
  args_candidateIndex :: int
  args_cfgver :: int
  args_lastDurableOpTime :: OpTime
  args_dryRun :: bool

record ReplSetRequestVotesResponse =
  response_term :: int
  voteGranted :: bool

definition processReplSetRequestVotes ::
  "TopologyCoordinator \<Rightarrow> ReplSetRequestVotesArgs \<Rightarrow> (ReplSetRequestVotesResponse \<times> TopologyCoordinator) option" where
  "processReplSetRequestVotes t args = do {
     let refuse = Some (\<lparr>response_term = topo_term t, voteGranted = False\<rparr>, t);
     if args_term args < topo_term t then refuse
     else if args_cfgver args \<noteq> cfg_version (rsConfig t) then refuse
     else if args_setName args \<noteq> replSetName (rsConfig t) then refuse
     else do {
       mine \<leftarrow> getMyLastAppliedOpTime t;
       if opTime_less (args_lastDurableOpTime args) mine then refuse
       else if \<not> args_dryRun args \<and> vote_term (lastVote t) = args_term args then do {
         _ \<leftarrow> getMemberAt (rsConfig t) (vote_candidateIndex (lastVote t));
         refuse
       } else do {
         betterPrimary \<leftarrow> findHealthyPrimaryOfEqualOrGreaterPriority t (args_candidateIndex args);
         m \<leftarrow> selfConfig t;
         if arbiterOnly m \<and> betterPrimary \<ge> 0 then do {
           _ \<leftarrow> getMemberAt (rsConfig t) betterPrimary;
           refuse
         } else Some (\<lparr>response_term = topo_term t, voteGranted = True\<rparr>,
             if \<not> args_dryRun args
             then t\<lparr>lastVote := \<lparr>vote_term = args_term args, vote_candidateIndex = args_candidateIndex args\<rparr>\<rparr>
             else t)
       }
     }
   }"

datatype UpdateTermResult = kAlreadyUpToDate | kTriggerStepDown | kUpdatedTerm

definition updateTerm ::
  "TopologyCoordinator \<Rightarrow> int \<Rightarrow> Date_t \<Rightarrow> (UpdateTermResult \<times> TopologyCoordinator) option" where
  "updateTerm t term now =
     (if term \<le> topo_term t then Some (kAlreadyUpToDate, t)
      else do {
        let t = t\<lparr>electionSleepUntil := now + electionTimeoutPeriod (rsConfig t)\<rparr>;
        primary \<leftarrow> iAmPrimary t;
        if primary then Some (kTriggerStepDown, t)
        else Some (kUpdatedTerm, t\<lparr>topo_term := term\<rparr>)
      })"

subsection \<open>Write concerns\<close>

definition member_opTime :: "bool \<Rightarrow> MemberData \<Rightarrow> OpTime" where
  "member_opTime durablyWritten d = (if durablyWritten then lastDurableOpTime d else lastAppliedOpTime d)"

fun count_down :: "OpTime \<Rightarrow> bool \<Rightarrow> int \<Rightarrow> MemberData list \<Rightarrow> bool" where
  "count_down target durablyWritten numNodes [] \<longleftrightarrow> False"
| "count_down target durablyWritten numNodes (d # ds) \<longleftrightarrow>
     (let numNodes = (if opTime_ge (member_opTime durablyWritten d) target then numNodes - 1 else numNodes)
      in if numNodes \<le> 0 then True else count_down target durablyWritten numNodes ds)"

definition haveNumNodesReachedOpTime :: "TopologyCoordinator \<Rightarrow> OpTime \<Rightarrow> int \<Rightarrow> bool \<Rightarrow> bool option" where
  "haveNumNodesReachedOpTime t target numNodes durablyWritten = do {
     mine \<leftarrow> (if durablyWritten then getMyLastDurableOpTime t else getMyLastAppliedOpTime t);
     Some (if opTime_less mine target then False
           else count_down target durablyWritten numNodes (memberData t))
   }"

fun match_members ::
  "ReplSetConfig \<Rightarrow> OpTime \<Rightarrow> bool \<Rightarrow> ReplSetTagMatch \<Rightarrow> MemberData list \<Rightarrow> bool option" where
  "match_members cfg target durablyWritten matcher [] = Some False"
| "match_members cfg target durablyWritten matcher (d # ds) =
     (if opTime_ge (member_opTime durablyWritten d) target then do {
        invariant (configIndex d \<ge> 0);
        m \<leftarrow> getMemberAt cfg (configIndex d);
        let (satisfied, matcher) = match_tags matcher (member_tags m);
        if satisfied then Some True else match_members cfg target durablyWritten matcher ds
      } else match_members cfg target durablyWritten matcher ds)"

definition haveTaggedNodesReachedOpTime ::
  "TopologyCoordinator \<Rightarrow> OpTime \<Rightarrow> ReplSetTagPattern \<Rightarrow> bool \<Rightarrow> bool option" where
  "haveTaggedNodesReachedOpTime t target tagPattern durablyWritten =
     match_members (rsConfig t) target durablyWritten (ReplSetTagMatch_new tagPattern) (memberData t)"

definition getHostsWrittenTo :: "TopologyCoordinator \<Rightarrow> OpTime \<Rightarrow> bool \<Rightarrow> HostAndPort list" where
  "getHostsWrittenTo t target durablyWritten =
     map md_host (filter (\<lambda>d. \<not> opTime_less (member_opTime durablyWritten d) target) (memberData t))"

subsection \<open>Stepping down\<close>

definition prepareForUnconditionalStepDown :: "TopologyCoordinator \<Rightarrow> (bool \<times> TopologyCoordinator) option" where
  "prepareForUnconditionalStepDown t =
     (if leaderMode t = kSteppingDown then Some (False, t)
      else map_option (Pair True) (setLeaderMode t kSteppingDown))"

datatype StepDownError = ConflictingOperationInProgress | NotMaster | PrimarySteppedDown | ExceededTimeLimit

text \<open>
  The attempt returns the mode that its cancellation restores; \<open>abortStepDownAttempt\<close> is the function
  the code returns for that purpose.
\<close>

definition prepareForStepDownAttempt ::
  "TopologyCoordinator \<Rightarrow> ((StepDownError + LeaderMode) \<times> TopologyCoordinator) option" where
  "prepareForStepDownAttempt t =
     (if leaderMode t = kSteppingDown \<or> leaderMode t = kAttemptingStepDown then
        Some (Inl ConflictingOperationInProgress, t)
      else if leaderMode t = kNotLeader then Some (Inl NotMaster, t)
      else do {
        invariant (leaderMode t = kMaster \<or> leaderMode t = kLeaderElect);
        t' \<leftarrow> setLeaderMode t kAttemptingStepDown;
        Some (Inr (leaderMode t), t')
      })"

definition abortStepDownAttempt :: "TopologyCoordinator \<Rightarrow> LeaderMode \<Rightarrow> TopologyCoordinator option" where
  "abortStepDownAttempt t previousLeaderMode =
     (if leaderMode t = kAttemptingStepDown then setLeaderMode t previousLeaderMode else Some t)"

definition stepDownSelfAndReplaceWith :: "TopologyCoordinator \<Rightarrow> int \<Rightarrow> TopologyCoordinator option" where
  "stepDownSelfAndReplaceWith t newPrimary = do {
     invariant (role t = kLeader);
     invariant (selfIndex t \<noteq> - 1);
     invariant (selfIndex t \<noteq> newPrimary);
     invariant (selfIndex t = currentPrimaryIndex t);
     let t = t\<lparr>currentPrimaryIndex := newPrimary, role := kFollower\<rparr>;
     setLeaderMode t kNotLeader
   }"

definition isCaughtUpAndElectable :: "TopologyCoordinator \<Rightarrow> int \<Rightarrow> OpTime \<Rightarrow> bool option" where
  "isCaughtUpAndElectable t i lastApplied = do {
     reasons \<leftarrow> getUnelectableReason t i;
     if reasons \<noteq> [] then Some False
     else do {
       d \<leftarrow> vec_at (memberData t) i;
       Some (opTime_ge (lastAppliedOpTime d) lastApplied)
     }
   }"

fun some_caught_up :: "TopologyCoordinator \<Rightarrow> OpTime \<Rightarrow> int list \<Rightarrow> bool option" where
  "some_caught_up t lastApplied [] = Some False"
| "some_caught_up t lastApplied (i # is) =
     (if i = selfIndex t then some_caught_up t lastApplied is
      else do {
        ok \<leftarrow> isCaughtUpAndElectable t i lastApplied;
        if ok then Some True else some_caught_up t lastApplied is
      })"

definition isSafeToStepDown :: "TopologyCoordinator \<Rightarrow> bool option" where
  "isSafeToStepDown t =
     (if \<not> cfg_isInitialized (rsConfig t) \<or> selfIndex t < 0 then Some False
      else do {
        lastApplied \<leftarrow> getMyLastAppliedOpTime t;
        pattern \<leftarrow> findCustomWriteMode (rsConfig t) kMajorityWriteConcernModeName;
        majority \<leftarrow> haveTaggedNodesReachedOpTime t lastApplied pattern False;
        if \<not> majority then Some False
        else some_caught_up t lastApplied [0..getNumMembers (rsConfig t) - 1]
      })"

definition canCompleteStepDownAttempt ::
  "TopologyCoordinator \<Rightarrow> Date_t \<Rightarrow> Date_t \<Rightarrow> bool \<Rightarrow> bool option" where
  "canCompleteStepDownAttempt t now waitUntil force =
     (if force \<and> now \<ge> waitUntil then Some True else isSafeToStepDown t)"

definition attemptStepDown ::
  "TopologyCoordinator \<Rightarrow> int \<Rightarrow> Date_t \<Rightarrow> Date_t \<Rightarrow> Date_t \<Rightarrow> bool \<Rightarrow>
     ((StepDownError + bool) \<times> TopologyCoordinator) option" where
  "attemptStepDown t termAtStart now waitUntil until force =
     (if role t \<noteq> kLeader \<or> leaderMode t = kSteppingDown \<or> topo_term t \<noteq> termAtStart then
        Some (Inl PrimarySteppedDown, t)
      else do {
        invariant (leaderMode t = kAttemptingStepDown);
        if now \<ge> until then Some (Inl ExceededTimeLimit, t)
        else do {
          can \<leftarrow> canCompleteStepDownAttempt t now waitUntil force;
          if \<not> can then Some (if now \<ge> waitUntil then Inl ExceededTimeLimit else Inr False, t)
          else do {
            t \<leftarrow> stepDownSelfAndReplaceWith (t\<lparr>stepDownUntil := until\<rparr>) (- 1);
            Some (Inr True, t)
          }
        }
      })"

text \<open>The only remote member that reports itself primary, or -1 if there is none or more than one.\<close>

fun remote_primary :: "int \<Rightarrow> int \<Rightarrow> int \<Rightarrow> MemberData list \<Rightarrow> int" where
  "remote_primary self found i [] = found"
| "remote_primary self found i (d # ds) =
     (if i = self then remote_primary self found (i + 1) ds
      else if getState d = RS_PRIMARY \<and> up d then
        (if found \<noteq> - 1 then - 1 else remote_primary self i (i + 1) ds)
      else remote_primary self found (i + 1) ds)"

definition finishUnconditionalStepDown :: "TopologyCoordinator \<Rightarrow> TopologyCoordinator option" where
  "finishUnconditionalStepDown t = do {
     invariant (leaderMode t = kSteppingDown);
     stepDownSelfAndReplaceWith t (remote_primary (selfIndex t) (- 1) 0 (memberData t))
   }"

datatype FreezeResult = kNoAction | kSingleNodeSelfElect

text \<open>\<open>None\<close> in the first component is the error NotSecondary.\<close>

definition prepareFreezeResponse :: "TopologyCoordinator \<Rightarrow> Date_t \<Rightarrow> int \<Rightarrow> FreezeResult option \<times> TopologyCoordinator" where
  "prepareFreezeResponse t now secs =
     (if role t \<noteq> kFollower then (None, t)
      else if secs = 0 then (Some kSingleNodeSelfElect, t\<lparr>stepDownUntil := now\<rparr>)
      else (Some kNoAction, t\<lparr>stepDownUntil := max (stepDownUntil t) (now + secs * 1000)\<rparr>))"

text \<open>
  The best priority so far is an \<open>int\<close> in the code, so assigning a priority to it drops the fraction.
\<close>

fun best_handoff :: "TopologyCoordinator \<Rightarrow> OpTime \<Rightarrow> int \<Rightarrow> int \<Rightarrow> int list \<Rightarrow> int option" where
  "best_handoff t lastApplied best highestPriority [] = Some best"
| "best_handoff t lastApplied best highestPriority (i # is) =
     (if i = selfIndex t then best_handoff t lastApplied best highestPriority is
      else do {
        ok \<leftarrow> isCaughtUpAndElectable t i lastApplied;
        if \<not> ok then best_handoff t lastApplied best highestPriority is
        else do {
          m \<leftarrow> getMemberAt (rsConfig t) i;
          if priority m > rat_of_int highestPriority then best_handoff t lastApplied i \<lfloor>priority m\<rfloor> is
          else best_handoff t lastApplied best highestPriority is
        }
      })"

definition chooseElectionHandoffCandidate :: "TopologyCoordinator \<Rightarrow> int option" where
  "chooseElectionHandoffCandidate t = do {
     lastApplied \<leftarrow> getMyLastAppliedOpTime t;
     best_handoff t lastApplied (- 1) (- 1) [0..getNumMembers (rsConfig t) - 1]
   }"

subsection \<open>Follower modes and maintenance\<close>

definition isElectableNodeInSingleNodeReplicaSet :: "TopologyCoordinator \<Rightarrow> bool" where
  "isElectableNodeInSingleNodeReplicaSet t \<longleftrightarrow>
     followerMode t = RS_SECONDARY \<and> getNumMembers (rsConfig t) = 1 \<and> selfIndex t = 0 \<and>
     isElectable (cfg_members (rsConfig t) ! 0) \<and> maintenanceModeCalls t = 0"

definition setFollowerMode :: "TopologyCoordinator \<Rightarrow> MemberState \<Rightarrow> TopologyCoordinator option" where
  "setFollowerMode t newMode = do {
     invariant (role t = kFollower);
     invariant (newMode \<in> {RS_RECOVERING, RS_ROLLBACK, RS_SECONDARY, RS_STARTUP2});
     let t = t\<lparr>followerMode := newMode\<rparr>;
     if newMode \<noteq> RS_SECONDARY then Some t
     else Some (if isElectableNodeInSingleNodeReplicaSet t then t\<lparr>role := kCandidate\<rparr> else t)
   }"

definition adjustMaintenanceCountBy :: "TopologyCoordinator \<Rightarrow> int \<Rightarrow> TopologyCoordinator option" where
  "adjustMaintenanceCountBy t inc = do {
     invariant (role t = kFollower);
     let t = t\<lparr>maintenanceModeCalls := maintenanceModeCalls t + inc\<rparr>;
     invariant (maintenanceModeCalls t \<ge> 0);
     Some t
   }"

subsection \<open>The commit point\<close>

definition advanceLastCommittedOpTime :: "TopologyCoordinator \<Rightarrow> OpTime \<Rightarrow> (bool \<times> TopologyCoordinator) option" where
  "advanceLastCommittedOpTime t committed =
     (if opTime_eq committed (lastCommittedOpTime t) then Some (False, t)
      else if opTime_less committed (lastCommittedOpTime t) then Some (False, t)
      else do {
        primary \<leftarrow> iAmPrimary t;
        Some (if primary \<and> opTime_less committed (firstOpTimeOfMyTerm t) then (False, t)
              else (True, t\<lparr>lastCommittedOpTime := committed\<rparr>))
      })"

fun votingNodesOpTimes :: "ReplSetConfig \<Rightarrow> bool \<Rightarrow> MemberData list \<Rightarrow> OpTime list option" where
  "votingNodesOpTimes cfg useDurable [] = Some []"
| "votingNodesOpTimes cfg useDurable (d # ds) = do {
     invariant (configIndex d \<ge> 0);
     m \<leftarrow> getMemberAt cfg (configIndex d);
     rest \<leftarrow> votingNodesOpTimes cfg useDurable ds;
     Some (if isVoter m then member_opTime useDurable d # rest else rest)
   }"

text \<open>\<open>std::sort\<close> with the operator \<open><\<close> of optimes.\<close>

fun insert_opTime :: "OpTime \<Rightarrow> OpTime list \<Rightarrow> OpTime list" where
  "insert_opTime x [] = [x]"
| "insert_opTime x (y # ys) = (if opTime_less y x then y # insert_opTime x ys else x # y # ys)"

definition sort_opTimes :: "OpTime list \<Rightarrow> OpTime list" where
  "sort_opTimes xs = foldr insert_opTime xs []"

definition updateLastCommittedOpTime :: "TopologyCoordinator \<Rightarrow> (bool \<times> TopologyCoordinator) option" where
  "updateLastCommittedOpTime t = do {
     primary \<leftarrow> iAmPrimary t;
     if \<not> primary \<or> leaderMode t = kSteppingDown then Some (False, t)
     else do {
       opTimes \<leftarrow> votingNodesOpTimes (rsConfig t) (writeConcernMajorityJournalDefault (rsConfig t)) (memberData t);
       invariant (opTimes \<noteq> []);
       if int (length opTimes) < writeMajority (rsConfig t) then Some (False, t)
       else do {
         committed \<leftarrow> vec_at (sort_opTimes opTimes) (int (length opTimes) - writeMajority (rsConfig t));
         advanceLastCommittedOpTime t committed
       }
     }
   }"

definition canCompleteTransitionToPrimary :: "TopologyCoordinator \<Rightarrow> int \<Rightarrow> bool" where
  "canCompleteTransitionToPrimary t termWhenDrainCompleted \<longleftrightarrow>
     termWhenDrainCompleted = topo_term t \<and>
     \<not> (leaderMode t \<noteq> kLeaderElect \<and> leaderMode t \<noteq> kAttemptingStepDown)"

text \<open>The answer False is the error PrimarySteppedDown.\<close>

definition completeTransitionToPrimary :: "TopologyCoordinator \<Rightarrow> OpTime \<Rightarrow> (bool \<times> TopologyCoordinator) option" where
  "completeTransitionToPrimary t firstOpTimeOfTerm =
     (if \<not> canCompleteTransitionToPrimary t (getTerm firstOpTimeOfTerm) then Some (False, t)
      else do {
        t \<leftarrow> (if leaderMode t = kLeaderElect then setLeaderMode t kMaster else Some t);
        Some (True, t\<lparr>firstOpTimeOfMyTerm := firstOpTimeOfTerm\<rparr>)
      })"

subsection \<open>Reconfiguration\<close>

definition reconfig_member :: "MemberData list \<Rightarrow> int \<Rightarrow> int \<Rightarrow> MemberConfig \<Rightarrow> MemberData" where
  "reconfig_member old self i m =
     (let d = (case List.find (\<lambda>d. memberId d = member_id m \<and> host_eq (md_host d) (member_host m) \<or>
                                   i = self \<and> isSelf d) old of
                 Some d \<Rightarrow> d | None \<Rightarrow> MemberData_new)
      in d\<lparr>configIndex := i, isSelf := (i = self), md_host := member_host m, memberId := member_id m\<rparr>)"

fun reconfig_members :: "MemberData list \<Rightarrow> int \<Rightarrow> int \<Rightarrow> MemberConfig list \<Rightarrow> MemberData list" where
  "reconfig_members old self i [] = []"
| "reconfig_members old self i (m # ms) =
     reconfig_member old self i m # reconfig_members old self (i + 1) ms"

definition updateHeartbeatDataForReconfig ::
  "TopologyCoordinator \<Rightarrow> ReplSetConfig \<Rightarrow> int \<Rightarrow> TopologyCoordinator" where
  "updateHeartbeatDataForReconfig t newConfig self =
     (if self < 0 then
        (let d = (case List.find isSelf (memberData t) of Some d \<Rightarrow> d | None \<Rightarrow> MemberData_new)
         in t\<lparr>memberData := [d\<lparr>configIndex := - 1, isSelf := True\<rparr>], syncSource := HostAndPort_empty\<rparr>)
      else t\<lparr>memberData := reconfig_members (memberData t) self 0 (cfg_members newConfig)\<rparr>)"

definition updateConfig :: "TopologyCoordinator \<Rightarrow> ReplSetConfig \<Rightarrow> int \<Rightarrow> TopologyCoordinator option" where
  "updateConfig t newConfig self = do {
     invariant (role t \<noteq> kCandidate);
     invariant (self < getNumMembers newConfig);
     let t = (if \<not> cfg_isInitialized (rsConfig t) then t\<lparr>topo_term := kInitialTerm\<rparr> else t);
     let t = (updateHeartbeatDataForReconfig t newConfig self)
               \<lparr>rsConfig := newConfig, selfIndex := self, forceSyncSourceIndex := - 1\<rparr>;
     remain \<leftarrow> (if role t = kLeader \<and> self \<noteq> - 1 then map_option isElectable (selfConfig t) else Some False);
     if remain then Some (t\<lparr>currentPrimaryIndex := self\<rparr>)
     else do {
       t \<leftarrow> (if role t = kLeader then setLeaderMode (t\<lparr>role := kFollower\<rparr>) kNotLeader else Some t);
       let t = t\<lparr>currentPrimaryIndex := - 1\<rparr>;
       Some (if isElectableNodeInSingleNodeReplicaSet t then t\<lparr>role := kCandidate\<rparr> else t)
     }
   }"

end
