(* ===== verification/Topology_Sync.thy ===== *)
theory Topology_Sync
  imports Topology
begin

text \<open>
  Second part of class TopologyCoordinator (db/repl/topology_coordinator.cpp): the choice of a sync
  source, and the metadata nodes attach to their answers. The diagnostic heartbeat message is not part of the model. The maps that are keyed by host use the host name and the
  effective port, as the comparison of HostAndPort does.
\<close>

abbreviation host_key :: "HostAndPort \<Rightarrow> string \<times> int" where
  "host_key h \<equiv> (hp_host h, port_of h)"

subsection \<open>Ping statistics and the blacklist\<close>

text \<open>\<open>_pings[host]\<close> creates the entry when there is none.\<close>

definition ping_entry :: "((string \<times> int) \<times> PingStats) list \<Rightarrow> HostAndPort \<Rightarrow> PingStats" where
  "ping_entry ps h = (case map_of ps (host_key h) of Some p \<Rightarrow> p | None \<Rightarrow> PingStats_new)"

definition getPing ::
  "((string \<times> int) \<times> PingStats) list \<Rightarrow> HostAndPort \<Rightarrow> int \<times> ((string \<times> int) \<times> PingStats) list" where
  "getPing ps h = (getMillis (ping_entry ps h), AList.update (host_key h) (ping_entry ps h) ps)"

definition getTotalPings :: "TopologyCoordinator \<Rightarrow> int" where
  "getTotalPings t = sum_list (map (\<lambda>(_, p). int (hitCount p)) (pings t))"

definition memberIsBlacklisted :: "TopologyCoordinator \<Rightarrow> MemberConfig \<Rightarrow> Date_t \<Rightarrow> bool" where
  "memberIsBlacklisted t m now \<longleftrightarrow>
     (case map_of (syncSourceBlacklist t) (host_key (member_host m)) of
        Some until \<Rightarrow> until > now | None \<Rightarrow> False)"

definition blacklistSyncSource :: "TopologyCoordinator \<Rightarrow> HostAndPort \<Rightarrow> Date_t \<Rightarrow> TopologyCoordinator" where
  "blacklistSyncSource t h until =
     t\<lparr>syncSourceBlacklist := AList.update (host_key h) until (syncSourceBlacklist t)\<rparr>"

definition unblacklistSyncSource :: "TopologyCoordinator \<Rightarrow> HostAndPort \<Rightarrow> Date_t \<Rightarrow> TopologyCoordinator" where
  "unblacklistSyncSource t h now =
     (case map_of (syncSourceBlacklist t) (host_key h) of
        Some until \<Rightarrow>
          if now \<ge> until then t\<lparr>syncSourceBlacklist := AList.delete (host_key h) (syncSourceBlacklist t)\<rparr> else t
      | None \<Rightarrow> t)"

definition clearSyncSourceBlacklist :: "TopologyCoordinator \<Rightarrow> TopologyCoordinator" where
  "clearSyncSourceBlacklist t = t\<lparr>syncSourceBlacklist := []\<rparr>"

definition currentPrimaryMember :: "TopologyCoordinator \<Rightarrow> MemberConfig option option" where
  "currentPrimaryMember t =
     (if currentPrimaryIndex t = - 1 then Some None
      else map_option Some (getMemberAt (rsConfig t) (currentPrimaryIndex t)))"

definition setForceSyncSourceIndex :: "TopologyCoordinator \<Rightarrow> int \<Rightarrow> TopologyCoordinator option" where
  "setForceSyncSourceIndex t i = do {
     invariant (forceSyncSourceIndex t < getNumMembers (rsConfig t));
     Some (t\<lparr>forceSyncSourceIndex := i\<rparr>)
   }"

subsection \<open>Choosing a sync source\<close>

datatype ChainingPreference = kAllowChaining | kUseConfiguration

text \<open>The checks on a candidate before the comparison of latencies; the first attempt makes more of them.\<close>

definition sync_candidate ::
  "MemberConfig \<Rightarrow> OpTime \<Rightarrow> OpTime \<Rightarrow> OpTime \<Rightarrow> bool \<Rightarrow> MemberConfig \<Rightarrow> MemberData \<Rightarrow> bool" where
  "sync_candidate me oldestSyncOpTime lastOpTimeFetched committed firstAttempt m d \<longleftrightarrow>
     \<not> (firstAttempt \<and>
        (isVoter me \<and> \<not> isVoter m \<or> hidden m \<or>
         opTime_less (getHeartbeatAppliedOpTime d) oldestSyncOpTime \<or> slaveDelay me < slaveDelay m)) \<and>
     \<not> (buildIndexes me \<and> \<not> buildIndexes m) \<and>
     \<not> opTime_pair_le (getHeartbeatAppliedOpTime d, lastOpCommitted d) (lastOpTimeFetched, committed)"

fun scan_candidates ::
  "TopologyCoordinator \<Rightarrow> Date_t \<Rightarrow> OpTime \<Rightarrow> OpTime \<Rightarrow> bool \<Rightarrow> int \<Rightarrow> MemberData list \<Rightarrow>
     int \<times> ((string \<times> int) \<times> PingStats) list \<Rightarrow> (int \<times> ((string \<times> int) \<times> PingStats) list) option" where
  "scan_candidates t now oldest fetched firstAttempt i [] (closest, ps) = Some (closest, ps)"
| "scan_candidates t now oldest fetched firstAttempt i (d # ds) (closest, ps) =
     (if i = selfIndex t then scan_candidates t now oldest fetched firstAttempt (i + 1) ds (closest, ps)
      else do {
        m \<leftarrow> getMemberAt (rsConfig t) i;
        if \<not> up d \<or> \<not> readable (getState d)
        then scan_candidates t now oldest fetched firstAttempt (i + 1) ds (closest, ps)
        else do {
          me \<leftarrow> selfConfig t;
          if \<not> sync_candidate me oldest fetched (lastCommittedOpTime t) firstAttempt m d
          then scan_candidates t now oldest fetched firstAttempt (i + 1) ds (closest, ps)
          else do {
            (farther, ps) \<leftarrow>
              (if closest \<noteq> - 1 then do {
                 c \<leftarrow> getMemberAt (rsConfig t) closest;
                 let (candidatePing, ps) = getPing ps (member_host m);
                 let (closestPing, ps) = getPing ps (member_host c);
                 Some (candidatePing > closestPing, ps)
               } else Some (False, ps));
            if farther \<or> memberIsBlacklisted t m now
            then scan_candidates t now oldest fetched firstAttempt (i + 1) ds (closest, ps)
            else scan_candidates t now oldest fetched firstAttempt (i + 1) ds (i, ps)
          }
        }
      })"

definition oldestSyncOpTime :: "TopologyCoordinator \<Rightarrow> OpTime option" where
  "oldestSyncOpTime t =
     (if currentPrimaryIndex t \<noteq> - 1 then do {
        d \<leftarrow> vec_at (memberData t) (currentPrimaryIndex t);
        let primaryOpTime = getHeartbeatAppliedOpTime d;
        let maxLag = maxSyncSourceLagSecs (topo_options t);
        Some (if getSecs (getTimestamp primaryOpTime) \<ge> maxLag
              then OpTime (Timestamp (getSecs (getTimestamp primaryOpTime) - maxLag) 0) (getTerm primaryOpTime)
              else OpTime_null)
      } else Some OpTime_null)"

definition chooseNewSyncSource ::
  "TopologyCoordinator \<Rightarrow> Date_t \<Rightarrow> OpTime \<Rightarrow> ChainingPreference \<Rightarrow> (HostAndPort \<times> TopologyCoordinator) option" where
  "chooseNewSyncSource t now lastOpTimeFetched chaining = do {
     let answer = (\<lambda>h t. Some (h, t\<lparr>syncSource := h\<rparr>));
     if selfIndex t = - 1 then Some (HostAndPort_empty, t)
     else if forceSyncSourceIndex t \<noteq> - 1 then do {
       invariant (forceSyncSourceIndex t < getNumMembers (rsConfig t));
       m \<leftarrow> getMemberAt (rsConfig t) (forceSyncSourceIndex t);
       answer (member_host m) (t\<lparr>forceSyncSourceIndex := - 1\<rparr>)
     }
     else if (int (length (memberData t)) - 1) * 2 - getTotalPings t > 0 then answer HostAndPort_empty t
     else if chaining = kUseConfiguration \<and> \<not> chainingAllowed (rsConfig t) then
       (if currentPrimaryIndex t = - 1 then answer HostAndPort_empty t
        else do {
          p \<leftarrow> getMemberAt (rsConfig t) (currentPrimaryIndex t);
          if memberIsBlacklisted t p now then answer HostAndPort_empty t
          else if currentPrimaryIndex t = selfIndex t then answer HostAndPort_empty t
          else answer (member_host p) t
        })
     else do {
       oldest \<leftarrow> oldestSyncOpTime t;
       (closest, ps) \<leftarrow> scan_candidates t now oldest lastOpTimeFetched True 0 (memberData t) (- 1, pings t);
       (closest, ps) \<leftarrow>
         (if closest \<noteq> - 1 then Some (closest, ps)
          else scan_candidates t now oldest lastOpTimeFetched False 0 (memberData t) (closest, ps));
       let t = t\<lparr>pings := ps\<rparr>;
       if closest = - 1 then answer HostAndPort_empty t
       else do {
         c \<leftarrow> getMemberAt (rsConfig t) closest;
         answer (member_host c) t
       }
     }
   }"

datatype SyncFromError = NotSecondaryError | NodeNotFoundError | InvalidOptionsError | UnauthorizedError | HostUnreachableError

text \<open>
  The answer is the warning that the target is more than ten seconds behind and the sync source so far.
\<close>

definition prepareSyncFromResponse ::
  "TopologyCoordinator \<Rightarrow> HostAndPort \<Rightarrow> ((SyncFromError + bool \<times> HostAndPort) \<times> TopologyCoordinator) option" where
  "prepareSyncFromResponse t target =
     (if selfIndex t = - 1 then Some (Inl NotSecondaryError, t)
      else do {
        me \<leftarrow> selfConfig t;
        let targetIndex = findMemberIndexByHostAndPort (rsConfig t) target;
        if arbiterOnly me then Some (Inl NotSecondaryError, t)
        else if selfIndex t = currentPrimaryIndex t then Some (Inl NotSecondaryError, t)
        else if targetIndex = - 1 then Some (Inl NodeNotFoundError, t)
        else if targetIndex = selfIndex t then Some (Inl InvalidOptionsError, t)
        else do {
          m \<leftarrow> getMemberAt (rsConfig t) targetIndex;
          if arbiterOnly m then Some (Inl InvalidOptionsError, t)
          else if \<not> buildIndexes m \<and> buildIndexes me then Some (Inl InvalidOptionsError, t)
          else if isVoter me \<and> \<not> isVoter m then Some (Inl InvalidOptionsError, t)
          else do {
            d \<leftarrow> vec_at (memberData t) targetIndex;
            if authIssue d then Some (Inl UnauthorizedError, t)
            else if health d = 0 then Some (Inl HostUnreachableError, t)
            else do {
              mine \<leftarrow> getMyLastAppliedOpTime t;
              t' \<leftarrow> setForceSyncSourceIndex t targetIndex;
              Some (Inr (uint (getSecs (getTimestamp (getHeartbeatAppliedOpTime d))) + 10 < uint (getSecs (getTimestamp mine)),
                         syncSource t), t')
            }
          }
        }
      })"

record ReplSetMetadata =
  rsm_term :: int
  rsm_lastOpCommitted :: OpTime
  rsm_lastOpVisible :: OpTime
  rsm_configVersion :: int
  rsm_primaryIndex :: int
  rsm_syncSourceIndex :: int

record OplogQueryMetadata =
  oqm_lastOpCommitted :: OpTime
  oqm_lastOpApplied :: OpTime
  oqm_rbid :: int
  oqm_primaryIndex :: int
  oqm_syncSourceIndex :: int

definition prepareReplSetMetadata :: "TopologyCoordinator \<Rightarrow> OpTime \<Rightarrow> ReplSetMetadata" where
  "prepareReplSetMetadata t lastVisible =
     \<lparr>rsm_term = topo_term t, rsm_lastOpCommitted = lastCommittedOpTime t, rsm_lastOpVisible = lastVisible,
      rsm_configVersion = cfg_version (rsConfig t), rsm_primaryIndex = currentPrimaryIndex t,
      rsm_syncSourceIndex = findMemberIndexByHostAndPort (rsConfig t) (syncSource t)\<rparr>"

definition prepareOplogQueryMetadata :: "TopologyCoordinator \<Rightarrow> int \<Rightarrow> OplogQueryMetadata option" where
  "prepareOplogQueryMetadata t rbid = do {
     mine \<leftarrow> getMyLastAppliedOpTime t;
     Some \<lparr>oqm_lastOpCommitted = lastCommittedOpTime t, oqm_lastOpApplied = mine, oqm_rbid = rbid,
           oqm_primaryIndex = currentPrimaryIndex t,
           oqm_syncSourceIndex = findMemberIndexByHostAndPort (rsConfig t) (syncSource t)\<rparr>
   }"

fun better_source :: "TopologyCoordinator \<Rightarrow> Date_t \<Rightarrow> u32 \<Rightarrow> int \<Rightarrow> MemberData list \<Rightarrow> bool option" where
  "better_source t now goalSecs i [] = Some False"
| "better_source t now goalSecs i (d # ds) = do {
     m \<leftarrow> getMemberAt (rsConfig t) i;
     me \<leftarrow> (if up d \<and> (\<not> isVoter m \<or> \<not> buildIndexes m) then selfConfig t else Some m);
     if up d \<and> (isVoter m \<or> \<not> isVoter me) \<and> (buildIndexes m \<or> \<not> buildIndexes me) \<and>
        readable (getState d) \<and> \<not> memberIsBlacklisted t m now \<and>
        goalSecs < getSecs (getTimestamp (getHeartbeatAppliedOpTime d))
     then do { invariant (i \<noteq> selfIndex t); Some True }
     else better_source t now goalSecs (i + 1) ds
   }"

definition shouldChangeSyncSource ::
  "TopologyCoordinator \<Rightarrow> HostAndPort \<Rightarrow> ReplSetMetadata \<Rightarrow> OplogQueryMetadata option \<Rightarrow> Date_t \<Rightarrow> bool option" where
  "shouldChangeSyncSource t currentSource metadata oqMetadata now =
     (if selfIndex t = - 1 then Some False
      else if forceSyncSourceIndex t \<noteq> - 1 then
        map_option (\<lambda>_. True) (getMemberAt (rsConfig t) (forceSyncSourceIndex t))
      else if rsm_configVersion metadata \<noteq> cfg_version (rsConfig t) then Some True
      else do {
        let sourceIndex = findMemberIndexByHostAndPort (rsConfig t) currentSource;
        if sourceIndex = - 1 then Some True
        else do {
          invariant (sourceIndex \<noteq> selfIndex t);
          d \<leftarrow> vec_at (memberData t) sourceIndex;
          let (applied, committed, syncSourceIndex, primaryIndex) =
            (case oqMetadata of
               Some q \<Rightarrow> (oqm_lastOpApplied q, oqm_lastOpCommitted q, oqm_syncSourceIndex q, oqm_primaryIndex q)
             | None \<Rightarrow> (rsm_lastOpVisible metadata, rsm_lastOpCommitted metadata,
                        rsm_syncSourceIndex metadata, rsm_primaryIndex metadata));
          let sourceOpTime = opTime_max applied (getHeartbeatAppliedOpTime d);
          let sourceCommitted = opTime_max committed (lastOpCommitted d);
          if opTime_isNull sourceOpTime then Some False
          else do {
            mine \<leftarrow> getMyLastAppliedOpTime t;
            if syncSourceIndex = - 1 \<and>
               opTime_pair_le (sourceOpTime, sourceCommitted) (mine, lastCommittedOpTime t) \<and>
               primaryIndex \<noteq> sourceIndex
            then if primaryIndex \<ge> 0
                 then map_option (\<lambda>_. True) (getMemberAt (rsConfig t) primaryIndex)
                 else Some True
            else better_source t now
                   (getSecs (getTimestamp sourceOpTime) + maxSyncSourceLagSecs (topo_options t)) 0 (memberData t)
          }
        }
      })"

end
