(* ===== verification/Topology_Heartbeat.thy ===== *)
theory Topology_Heartbeat
  imports Topology_Sync
begin

text \<open>
  Third part of class TopologyCoordinator (db/repl/topology_coordinator.cpp): heartbeat requests and
  responses, who is primary, the liveness of members and the progress they report; and the actions of
  db/repl/heartbeat_response_action.h that they lead to. Durations are in milliseconds; the
  heartbeat timeout of the configuration is in seconds.
\<close>

definition heartbeatTimeoutMillis :: "ReplSetConfig \<Rightarrow> int" where
  "heartbeatTimeoutMillis cfg = heartbeatTimeoutPeriod cfg * 1000"

subsection \<open>Actions\<close>

datatype HeartbeatAction = NoAction | Reconfig | StepDownSelf | PriorityTakeover | CatchupTakeover

record HeartbeatResponseAction =
  hra_action :: HeartbeatAction
  hra_primaryIndex :: int
  hra_nextHeartbeatStartDate :: Date_t
  hra_advancedOpTime :: bool

definition makeAction :: "HeartbeatAction \<Rightarrow> HeartbeatResponseAction" where
  "makeAction a = \<lparr>hra_action = a, hra_primaryIndex = - 1, hra_nextHeartbeatStartDate = 0, hra_advancedOpTime = False\<rparr>"

definition makeStepDownSelfAction :: "int \<Rightarrow> HeartbeatResponseAction" where
  "makeStepDownSelfAction i = (makeAction StepDownSelf)\<lparr>hra_primaryIndex := i\<rparr>"

subsection \<open>Requests and responses\<close>

record ReplSetHeartbeatArgsV1 =
  hba_setName :: string
  hba_configVersion :: int
  hba_senderId :: int
  hba_senderHost :: HostAndPort
  hba_term :: int
  hba_heartbeatVersion :: int

definition prepareHeartbeatRequestV1 ::
  "TopologyCoordinator \<Rightarrow> Date_t \<Rightarrow> string \<Rightarrow> HostAndPort \<Rightarrow>
     ((ReplSetHeartbeatArgsV1 \<times> int) \<times> TopologyCoordinator) option" where
  "prepareHeartbeatRequestV1 t now ourSetName target = do {
     let cfg = rsConfig t;
     let stats = ping_entry (pings t) target;
     let alreadyElapsed = now - lastHeartbeatStartDate stats;
     let (stats, alreadyElapsed) =
       (if \<not> cfg_isInitialized cfg \<or> ping_state stats \<noteq> TRYING \<or> alreadyElapsed \<ge> heartbeatTimeoutMillis cfg
        then (ping_start now stats, 0) else (stats, alreadyElapsed));
     let t = t\<lparr>pings := AList.update (host_key target) stats (pings t)\<rparr>;
     let args = \<lparr>hba_setName = '''', hba_configVersion = - 1, hba_senderId = - 1,
                 hba_senderHost = HostAndPort_empty, hba_term = - 1, hba_heartbeatVersion = 1\<rparr>;
     args \<leftarrow>
       (if cfg_isInitialized cfg then do {
          let args = args\<lparr>hba_setName := replSetName cfg, hba_configVersion := cfg_version cfg,
                          hba_term := topo_term t\<rparr>;
          if selfIndex t \<ge> 0 then do {
            me \<leftarrow> selfConfig t;
            Some (args\<lparr>hba_senderId := member_id me, hba_senderHost := member_host me\<rparr>)
          } else Some args
        } else Some (args\<lparr>hba_setName := ourSetName, hba_configVersion := - 2, hba_term := kInitialTerm\<rparr>));
     let timeoutPeriod = (if cfg_isInitialized cfg then heartbeatTimeoutMillis cfg else 10000);
     Some ((args, timeoutPeriod - alreadyElapsed), t)
   }"

datatype HeartbeatError = InconsistentReplicaSetNames | InvalidReplicaSetConfig | BadValue

definition getMemberIndex :: "TopologyCoordinator \<Rightarrow> int \<Rightarrow> int" where
  "getMemberIndex t i = index_where (\<lambda>m. member_id m = i) 0 (cfg_members (rsConfig t))"

definition prepareHeartbeatResponseV1 ::
  "TopologyCoordinator \<Rightarrow> Date_t \<Rightarrow> ReplSetHeartbeatArgsV1 \<Rightarrow> string \<Rightarrow> ReplSetHeartbeatResponse \<Rightarrow>
     ((HeartbeatError + ReplSetHeartbeatResponse) \<times> TopologyCoordinator) option" where
  "prepareHeartbeatResponseV1 t now args ourSetName response =
     (if ourSetName \<noteq> hba_setName args then Some (Inl InconsistentReplicaSetNames, t)
      else do {
        let cfg = rsConfig t;
        myState \<leftarrow> getMemberState t;
        sameId \<leftarrow> (if selfIndex t = - 1 then Some False
                    else map_option (\<lambda>me. hba_senderId args = member_id me) (selfConfig t));
        if selfIndex t = - 1 \<and> myState = RS_REMOVED then Some (Inl InvalidReplicaSetConfig, t)
        else if sameId then Some (Inl BadValue, t)
        else do {
          applied \<leftarrow> getMyLastAppliedOpTime t;
          durable \<leftarrow> getMyLastDurableOpTime t;
          let r = response\<lparr>hb_setName := ourSetName, hb_state := Some myState\<rparr>;
          let r = (if myState = RS_PRIMARY then r\<lparr>hb_electionTime := Some (tc_electionTime t)\<rparr> else r);
          let r = r\<lparr>hb_appliedOpTime := Some applied, hb_durableOpTime := Some durable\<rparr>;
          primary \<leftarrow> currentPrimaryMember t;
          let r = (case primary of Some p \<Rightarrow> r\<lparr>hb_primaryId := Some (member_id p)\<rparr> | None \<Rightarrow> r);
          let r = r\<lparr>hb_term := topo_term t\<rparr>;
          let r = (if \<not> hp_isEmpty (syncSource t) then r\<lparr>hb_syncingTo := syncSource t\<rparr> else r);
          if \<not> cfg_isInitialized cfg then Some (Inr (r\<lparr>hb_configVersion := - 2\<rparr>), t)
          else do {
            let v = cfg_version cfg;
            let r = r\<lparr>hb_configVersion := v\<rparr>;
            let r = (if v > hba_configVersion args then r\<lparr>hb_config := Some cfg\<rparr> else r);
            let from = (if v = hba_configVersion args \<and> hba_senderId args \<noteq> - 1
                        then getMemberIndex t (hba_senderId args) else - 1);
            if from = - 1 then Some (Inr r, t)
            else do {
              invariant (from \<noteq> selfIndex t);
              d \<leftarrow> vec_at (memberData t) from;
              Some (Inr r, put_member t from (updateLiveness now (d\<lparr>lastHeartbeatRecv := now\<rparr>)))
            }
          }
        }
      })"

subsection \<open>Who is primary\<close>

fun primary_by_term :: "int \<Rightarrow> (int \<times> int) option \<Rightarrow> MemberData list \<Rightarrow> int" where
  "primary_by_term i best [] = (case best of Some (j, _) \<Rightarrow> j | None \<Rightarrow> - 1)"
| "primary_by_term i best (d # ds) =
     (if getState d = RS_PRIMARY \<and> up d \<and> (case best of None \<Rightarrow> True | Some (_, term) \<Rightarrow> term < md_term d)
      then primary_by_term (i + 1) (Some (i, md_term d)) ds
      else primary_by_term (i + 1) best ds)"

definition updatePrimaryFromHBDataV1 ::
  "TopologyCoordinator \<Rightarrow> int \<Rightarrow> (HeartbeatResponseAction \<times> TopologyCoordinator) option" where
  "updatePrimaryFromHBDataV1 t updatedConfigIndex = do {
     invariant (updatedConfigIndex \<noteq> selfIndex t);
     if selfIndex t = - 1 then Some (makeAction NoAction, t)
     else if currentPrimaryIndex t = selfIndex t then Some (makeAction NoAction, t)
     else do {
       let primaryIndex = primary_by_term 0 None (memberData t);
       let t = t\<lparr>currentPrimaryIndex := primaryIndex\<rparr>;
       if primaryIndex = - 1 then Some (makeAction NoAction, t)
       else do {
         p \<leftarrow> vec_at (memberData t) primaryIndex;
         if md_term p = topo_term t \<and> updatedConfigIndex = primaryIndex then do {
           catchup \<leftarrow>
             (if 0 = catchUpTimeoutPeriod (rsConfig t) \<or> - 1 = catchUpTakeoverDelay (rsConfig t) then Some False
              else map_option (\<lambda>me. opTime_less (lastAppliedOpTime p) (lastAppliedOpTime me))
                     (vec_at (memberData t) (selfIndex t)));
           pc \<leftarrow> getMemberAt (rsConfig t) primaryIndex;
           me \<leftarrow> selfConfig t;
           let prio = priority pc < priority me;
           Some (makeAction
             (if catchup \<and> prio \<and> calculatePriorityRank (rsConfig t) (priority me) = 0 then PriorityTakeover
              else if catchup then CatchupTakeover
              else if prio then PriorityTakeover
              else NoAction), t)
         } else Some (makeAction NoAction, t)
       }
     }
   }"

text \<open>A response to a heartbeat, or the error status the request ended with.\<close>

datatype HeartbeatResult =
  HbOk ReplSetHeartbeatResponse | HbUnauthorized string | HbError string

definition isUnauthorized :: "HeartbeatResult \<Rightarrow> bool" where
  "isUnauthorized r \<longleftrightarrow> (case r of HbUnauthorized _ \<Rightarrow> True | _ \<Rightarrow> False)"

definition isOK :: "HeartbeatResult \<Rightarrow> bool" where
  "isOK r \<longleftrightarrow> (case r of HbOk _ \<Rightarrow> True | _ \<Rightarrow> False)"

definition next_heartbeat_interval :: "TopologyCoordinator \<Rightarrow> int option" where
  "next_heartbeat_interval t = do {
     let cfg = rsConfig t;
     state \<leftarrow> getMemberState t;
     if state = RS_ARBITER then Some (min (electionTimeoutPeriod cfg div 2) (heartbeatInterval cfg))
     else do {
       primary \<leftarrow> (if hp_isEmpty (syncSource t) then iAmPrimary t else Some True);
       Some (if \<not> primary then min (electionTimeoutPeriod cfg div 2) (heartbeatInterval cfg div 4)
             else heartbeatInterval cfg)
     }
   }"

definition note_heartbeat ::
  "ReplSetConfig \<Rightarrow> Date_t \<Rightarrow> int \<Rightarrow> PingStats \<Rightarrow> HeartbeatResult \<Rightarrow> OpTime \<Rightarrow> MemberData \<Rightarrow> bool \<times> MemberData" where
  "note_heartbeat cfg now alreadyElapsed stats response lastCommitted d =
     (case response of
        HbOk hbr \<Rightarrow> setUpValues now hbr lastCommitted d
      | HbUnauthorized _ \<Rightarrow> (False, setAuthIssue now d)
      | HbError reason \<Rightarrow>
          (False, if ping_state stats = FAILED \<or> alreadyElapsed \<ge> heartbeatTimeoutMillis cfg
                  then setDownValues now reason d else d))"

definition processHeartbeatResponse ::
  "TopologyCoordinator \<Rightarrow> Date_t \<Rightarrow> int \<Rightarrow> HostAndPort \<Rightarrow> HeartbeatResult \<Rightarrow> OpTime \<Rightarrow>
     (HeartbeatResponseAction \<times> TopologyCoordinator) option" where
  "processHeartbeatResponse t now roundTripTime target response lastCommitted = do {
     let cfg = rsConfig t;
     _ \<leftarrow> getMemberState t;
     let stats = ping_entry (pings t) target;
     invariant (lastHeartbeatStartDate stats \<noteq> 0);
     let stats = (if isOK response \<or> isUnauthorized response then ping_hit roundTripTime stats else ping_miss stats);
     let t = t\<lparr>pings := AList.update (host_key target) stats (pings t)\<rparr>;
     interval \<leftarrow> next_heartbeat_interval t;
     let alreadyElapsed = now - lastHeartbeatStartDate stats;
     let nextDate =
       (if ping_state stats = TRYING \<and> alreadyElapsed < heartbeatTimeoutMillis cfg then now else now + interval);
     let currentVersion = (if cfg_isInitialized cfg then cfg_version cfg else - 2);
     let newer = (case response of
                    HbOk hbr \<Rightarrow> (case hb_config hbr of Some c \<Rightarrow> cfg_version c > currentVersion | None \<Rightarrow> False)
                  | _ \<Rightarrow> False);
     let memberIndex = findMemberIndexByHostAndPort cfg target;
     if newer then Some ((makeAction Reconfig)\<lparr>hra_nextHeartbeatStartDate := nextDate\<rparr>, t)
     else if \<not> cfg_isInitialized cfg \<or> selfIndex t = - 1 \<or> memberIndex = - 1
     then Some ((makeAction NoAction)\<lparr>hra_nextHeartbeatStartDate := nextDate\<rparr>, t)
     else do {
       invariant (memberIndex \<noteq> selfIndex t);
       d \<leftarrow> vec_at (memberData t) memberIndex;
       _ \<leftarrow> getMemberAt cfg memberIndex;
       let (advanced, d) = note_heartbeat cfg now alreadyElapsed stats response lastCommitted d;
       (action, t) \<leftarrow> updatePrimaryFromHBDataV1 (put_member t memberIndex d) memberIndex;
       Some (action\<lparr>hra_nextHeartbeatStartDate := nextDate, hra_advancedOpTime := advanced\<rparr>, t)
     }
   }"

subsection \<open>Liveness\<close>

definition setMemberAsDown :: "TopologyCoordinator \<Rightarrow> Date_t \<Rightarrow> int \<Rightarrow> (bool \<times> TopologyCoordinator) option" where
  "setMemberAsDown t now i = do {
     invariant (i \<noteq> selfIndex t);
     invariant (i \<noteq> - 1);
     invariant (currentPrimaryIndex t = selfIndex t);
     d \<leftarrow> vec_at (memberData t) i;
     let t = put_member t i (setDownValues now ''no response within election timeout period'' d);
     reasons \<leftarrow> getMyUnelectableReason t now kElectionTimeout;
     Some (CannotSeeMajority \<in> set reasons, t)
   }"

fun check_timeouts :: "Date_t \<Rightarrow> int list \<Rightarrow> bool \<times> TopologyCoordinator \<Rightarrow> (bool \<times> TopologyCoordinator) option" where
  "check_timeouts now [] (stepdown, t) = Some (stepdown, t)"
| "check_timeouts now (i # is) (stepdown, t) = do {
     d \<leftarrow> vec_at (memberData t) i;
     if \<not> isSelf d \<and> \<not> lastUpdateStale d \<and> now - lastUpdate d \<ge> electionTimeoutPeriod (rsConfig t) then do {
       let t = put_member t i (markLastUpdateStale d);
       primary \<leftarrow> iAmPrimary t;
       st \<leftarrow> (if primary \<and> \<not> stepdown then setMemberAsDown t now i else Some (stepdown, t));
       check_timeouts now is st
     } else check_timeouts now is (stepdown, t)
   }"

definition checkMemberTimeouts ::
  "TopologyCoordinator \<Rightarrow> Date_t \<Rightarrow> (HeartbeatResponseAction \<times> TopologyCoordinator) option" where
  "checkMemberTimeouts t now = do {
     (stepdown, t) \<leftarrow> check_timeouts now [0..int (length (memberData t)) - 1] (False, t);
     Some (if stepdown then makeStepDownSelfAction (selfIndex t) else makeAction NoAction, t)
   }"

definition getStalestLiveMember :: "TopologyCoordinator \<Rightarrow> int \<times> Date_t" where
  "getStalestLiveMember t =
     fold (\<lambda>d (earliestId, earliestDate).
         if isSelf d \<or> lastUpdateStale d then (earliestId, earliestDate)
         else if earliestDate > lastUpdate d then (memberId d, lastUpdate d)
         else (earliestId, earliestDate)) (memberData t) (- 1, 9223372036854775807)"

definition resetAllMemberTimeouts :: "TopologyCoordinator \<Rightarrow> Date_t \<Rightarrow> TopologyCoordinator" where
  "resetAllMemberTimeouts t now = t\<lparr>memberData := map (updateLiveness now) (memberData t)\<rparr>"

definition resetMemberTimeouts :: "TopologyCoordinator \<Rightarrow> Date_t \<Rightarrow> HostAndPort list \<Rightarrow> TopologyCoordinator" where
  "resetMemberTimeouts t now hosts =
     t\<lparr>memberData :=
        map (\<lambda>d. if list_ex (host_eq (md_host d)) hosts then updateLiveness now d else d) (memberData t)\<rparr>"

definition restartHeartbeats :: "TopologyCoordinator \<Rightarrow> TopologyCoordinator" where
  "restartHeartbeats t = t\<lparr>memberData := map md_restart (memberData t)\<rparr>"

fun latest_since_restart :: "int \<Rightarrow> int \<Rightarrow> OpTime \<Rightarrow> MemberData list \<Rightarrow> OpTime option" where
  "latest_since_restart self i latest [] = Some latest"
| "latest_since_restart self i latest (d # ds) =
     (if i = self then latest_since_restart self (i + 1) latest ds
      else if \<not> updatedSinceRestart d then None
      else if \<not> up d then latest_since_restart self (i + 1) latest ds
      else latest_since_restart self (i + 1)
             (if opTime_greater (getHeartbeatAppliedOpTime d) latest then getHeartbeatAppliedOpTime d else latest) ds)"

text \<open>\<open>None\<close> is the answer \<open>boost::none\<close> here: some member has not been heard of since the restart.\<close>

definition latestKnownOpTimeSinceHeartbeatRestart :: "TopologyCoordinator \<Rightarrow> OpTime option" where
  "latestKnownOpTimeSinceHeartbeatRestart t =
     latest_since_restart (selfIndex t) 0 (OpTime (Timestamp 0 0) 0) (memberData t)"

subsection \<open>Progress that other members report\<close>

record UpdateInfo =
  upd_memberId :: int
  upd_cfgver :: int
  upd_appliedOpTime :: OpTime
  upd_durableOpTime :: OpTime

datatype UpdateError = NotMasterOrSecondary | NodeNotFound | InvalidConfigVersion

definition setLastOptime ::
  "TopologyCoordinator \<Rightarrow> UpdateInfo \<Rightarrow> Date_t \<Rightarrow> ((UpdateError + bool) \<times> TopologyCoordinator) option" where
  "setLastOptime t args now =
     (if selfIndex t = - 1 then Some (Inl NotMasterOrSecondary, t)
      else do {
        invariant (cfg_isInitialized (rsConfig t));
        if upd_memberId args < 0 then Some (Inl NodeNotFound, t)
        else do {
          me \<leftarrow> selfConfig t;
          if upd_memberId args = member_id me then Some (Inr False, t)
          else if upd_cfgver args \<noteq> cfg_version (rsConfig t) then Some (Inl InvalidConfigVersion, t)
          else do {
            let i = getMemberIndex t (upd_memberId args);
            if i < 0 then do {
              invariant (findMemberByID (rsConfig t) (upd_memberId args) = None);
              Some (Inl NodeNotFound, t)
            } else do {
              d \<leftarrow> vec_at (memberData t) i;
              invariant (upd_memberId args = memberId d);
              let (a1, d) = advanceLastAppliedOpTime (upd_appliedOpTime args) now d;
              let (a2, d) = advanceLastDurableOpTime (upd_durableOpTime args) now d;
              Some (Inr (a2 \<or> a1), put_member t i d)
            }
          }
        }
      })"

end
