(* ===== verification/Topology_Invariant.thy ===== *)
theory Topology_Invariant
  imports Topology_Heartbeat
begin

text \<open>
  The operations of the topology coordinator as one transition function, the invariant of its state,
  and the contract of its callers. The locale \<open>operation_system\<close> is interpreted on them: a legal
  operation never fails a check of the code and preserves the invariant.
\<close>

subsection \<open>Configurations\<close>

text \<open>What a validated configuration offers to the topology coordinator.\<close>

definition config_ok :: "ReplSetConfig \<Rightarrow> bool" where
  "config_ok cfg \<longleftrightarrow>
     cfg_isInitialized cfg \<and> cfg_members cfg \<noteq> [] \<and> list_all validate_member (cfg_members cfg) \<and>
     pairwise_distinct (\<lambda>a b. member_id a = member_id b) (cfg_members cfg) \<and>
     pairwise_distinct (\<lambda>a b. host_eq (member_host a) (member_host b)) (cfg_members cfg) \<and>
     count_members isElectable cfg \<noteq> 0 \<and> count_members isVoter cfg \<le> kMaxVotingMembers \<and>
     totalVotingMembers cfg = int (count_members isVoter cfg) \<and>
     majorityVoteCount cfg = int (count_members isVoter cfg) div 2 + 1 \<and>
     writeMajority cfg =
       min (majorityVoteCount cfg) (int (count_members isVoter cfg) - int (count_members arbiterOnly cfg)) \<and>
     findCustomWriteMode cfg kMajorityWriteConcernModeName \<noteq> None"

lemma count_members_mono:
  "(\<And>m. m \<in> set (cfg_members cfg) \<Longrightarrow> P m \<Longrightarrow> Q m) \<Longrightarrow> count_members P cfg \<le> count_members Q cfg"
  unfolding count_members_def
  by (induction "cfg_members cfg" arbitrary: cfg rule: list.induct)
    (simp, metis (no_types, lifting) filter_cong length_filter_le filter_filter)

lemma count_members_disj:
  "(\<And>m. m \<in> set (cfg_members cfg) \<Longrightarrow> \<not> (P m \<and> Q m)) \<Longrightarrow>
     count_members (\<lambda>m. P m \<or> Q m) cfg = count_members P cfg + count_members Q cfg"
proof -
  have "(\<And>m. m \<in> set ms \<Longrightarrow> \<not> (P m \<and> Q m)) \<Longrightarrow>
      length (filter (\<lambda>m. P m \<or> Q m) ms) = length (filter P ms) + length (filter Q ms)" for ms
    by (induction ms) auto
  then show "(\<And>m. m \<in> set (cfg_members cfg) \<Longrightarrow> \<not> (P m \<and> Q m)) \<Longrightarrow> ?thesis"
    by (simp add: count_members_def)
qed

lemma electable_voter: "validate_member m \<Longrightarrow> isElectable m \<Longrightarrow> isVoter m \<and> \<not> arbiterOnly m"
  by (auto simp: validate_member_def isElectable_def isVoter_def)

lemma arbiter_voter: "validate_member m \<Longrightarrow> arbiterOnly m \<Longrightarrow> isVoter m"
  by (auto simp: validate_member_def)

text \<open>The voters are the arbiters and the voters with data, and there is a voter with data.\<close>

lemma config_voters:
  assumes "config_ok cfg"
  shows "count_members isVoter cfg =
      count_members arbiterOnly cfg + count_members (\<lambda>m. isVoter m \<and> \<not> arbiterOnly m) cfg"
    and "1 \<le> count_members (\<lambda>m. isVoter m \<and> \<not> arbiterOnly m) cfg"
proof -
  have valid: "validate_member m" if "m \<in> set (cfg_members cfg)" for m
    using assms that by (simp add: config_ok_def list_all_iff)
  have "count_members isVoter cfg = count_members (\<lambda>m. arbiterOnly m \<or> isVoter m \<and> \<not> arbiterOnly m) cfg"
    unfolding count_members_def using valid arbiter_voter by (metis (mono_tags, lifting) filter_cong)
  then show "count_members isVoter cfg =
      count_members arbiterOnly cfg + count_members (\<lambda>m. isVoter m \<and> \<not> arbiterOnly m) cfg"
    by (subst (asm) count_members_disj) auto
  have "count_members isElectable cfg \<le> count_members (\<lambda>m. isVoter m \<and> \<not> arbiterOnly m) cfg"
    using valid electable_voter by (intro count_members_mono) blast
  moreover have "count_members isElectable cfg \<noteq> 0" using assms by (simp add: config_ok_def)
  ultimately show "1 \<le> count_members (\<lambda>m. isVoter m \<and> \<not> arbiterOnly m) cfg" by simp
qed

lemma config_majorities:
  assumes "config_ok cfg"
  shows "1 \<le> writeMajority cfg" and "writeMajority cfg \<le> majorityVoteCount cfg"
    and "majorityVoteCount cfg \<le> int (count_members isVoter cfg)"
    and "2 * majorityVoteCount cfg > int (count_members isVoter cfg)"
  using config_voters [OF assms] assms by (auto simp: config_ok_def)

lemma vec_at_in [simp]: "0 \<le> i \<Longrightarrow> i < int (length xs) \<Longrightarrow> vec_at xs i = Some (xs ! nat i)"
  by (simp add: vec_at_def)

lemma vec_at_Some: "vec_at xs i = Some x \<longleftrightarrow> 0 \<le> i \<and> i < int (length xs) \<and> x = xs ! nat i"
  by (auto simp: vec_at_def)

subsection \<open>The invariant\<close>

definition md_ident :: "MemberData \<Rightarrow> int \<times> bool \<times> int \<times> HostAndPort" where
  "md_ident d = (configIndex d, isSelf d, memberId d, md_host d)"

definition config_ident :: "int \<Rightarrow> nat \<Rightarrow> MemberConfig \<Rightarrow> int \<times> bool \<times> int \<times> HostAndPort" where
  "config_ident self i m = (int i, int i = self, member_id m, member_host m)"

definition members_ok :: "TopologyCoordinator \<Rightarrow> bool" where
  "members_ok t \<longleftrightarrow>
     (if selfIndex t = - 1 then length (memberData t) = 1
      else 0 \<le> selfIndex t \<and> selfIndex t < getNumMembers (rsConfig t) \<and> config_ok (rsConfig t) \<and>
        map md_ident (memberData t) =
          map (\<lambda>i. config_ident (selfIndex t) i (cfg_members (rsConfig t) ! i))
            [0..<length (cfg_members (rsConfig t))])"

definition index_ok :: "TopologyCoordinator \<Rightarrow> int \<Rightarrow> bool" where
  "index_ok t i \<longleftrightarrow> i = - 1 \<or> selfIndex t \<noteq> - 1 \<and> 0 \<le> i \<and> i < getNumMembers (rsConfig t)"

definition roles_ok :: "TopologyCoordinator \<Rightarrow> bool" where
  "roles_ok t \<longleftrightarrow>
     (role t = kLeader \<longleftrightarrow> leaderMode t \<noteq> kNotLeader) \<and>
     (role t = kLeader \<longrightarrow> currentPrimaryIndex t = selfIndex t) \<and>
     (role t \<noteq> kFollower \<longrightarrow> selfIndex t \<noteq> - 1)"

definition topo_inv :: "TopologyCoordinator \<Rightarrow> bool" where
  "topo_inv t \<longleftrightarrow>
     members_ok t \<and> roles_ok t \<and> index_ok t (currentPrimaryIndex t) \<and> index_ok t (forceSyncSourceIndex t) \<and>
     0 \<le> maintenanceModeCalls t \<and>
     (configServer (rsConfig t) \<longrightarrow> storageEngineSupportsReadCommitted t \<noteq> kUnknown)"

lemma members_length:
  "members_ok t \<Longrightarrow> selfIndex t \<noteq> - 1 \<Longrightarrow> length (memberData t) = length (cfg_members (rsConfig t))"
  unfolding members_ok_def by (metis (no_types, lifting) length_map length_upt diff_zero)

lemma members_nonempty: "members_ok t \<Longrightarrow> memberData t \<noteq> []"
  using members_length [of t] by (cases "selfIndex t = - 1") (auto simp: members_ok_def getNumMembers_def)

lemma members_at:
  assumes "members_ok t" and "selfIndex t \<noteq> - 1" and "0 \<le> i" and "i < getNumMembers (rsConfig t)"
  shows "md_ident (memberData t ! nat i) = config_ident (selfIndex t) (nat i) (cfg_members (rsConfig t) ! nat i)"
proof -
  have i: "nat i < length (cfg_members (rsConfig t))" using assms(3,4) by (auto simp: getNumMembers_def)
  have "map md_ident (memberData t) ! nat i =
      map (\<lambda>i. config_ident (selfIndex t) i (cfg_members (rsConfig t) ! i))
            [0..<length (cfg_members (rsConfig t))] ! nat i"
    using assms(1,2) by (simp add: members_ok_def)
  then show ?thesis using i members_length [OF assms(1,2)] by simp
qed

text \<open>An update of one member that keeps its identity keeps the invariant.\<close>

lemma map_list_update_id: "f y = f (xs ! i) \<Longrightarrow> map f (xs[i := y]) = map f xs"
  by (metis list_update_id map_update)

lemma put_member_inv:
  assumes "topo_inv t" and "md_ident d = md_ident (memberData t ! nat i)"
  shows "topo_inv (put_member t i d)"
  using assms
  by (simp add: topo_inv_def members_ok_def roles_ok_def index_ok_def put_member_def map_list_update_id)

end
