(* ===== verification/Repl_Config_Init.thy ===== *)
theory Repl_Config_Init
  imports Topology_Invariant
begin

text \<open>
  The end of the initialization of a configuration (MemberConfig::initialize and
  ReplSetConfig::_initialize): tags get their numbers, every member gets the tags the server counts with,
  and the majorities and the internal write concern modes are derived. The fields that were read from the
  document before are given.
\<close>

fun make_tags :: "(string \<times> string) list \<Rightarrow> MemberConfig \<times> ReplSetTagConfig \<Rightarrow> MemberConfig \<times> ReplSetTagConfig" where
  "make_tags [] st = st"
| "make_tags ((key, value) # raw) (m, td) =
     (let (t, td) = makeTag td key value in make_tags raw (m\<lparr>member_tags := member_tags m @ [t]\<rparr>, td))"

definition initialize_member ::
  "(string \<times> string) list \<Rightarrow> MemberConfig \<Rightarrow> ReplSetTagConfig \<Rightarrow> MemberConfig \<times> ReplSetTagConfig" where
  "initialize_member raw m td =
     (let (m, td) = make_tags raw (m\<lparr>member_tags := []\<rparr>, td) in addInternalTags m td)"

fun initialize_members ::
  "((string \<times> string) list \<times> MemberConfig) list \<Rightarrow> ReplSetTagConfig \<Rightarrow> MemberConfig list \<times> ReplSetTagConfig" where
  "initialize_members [] td = ([], td)"
| "initialize_members ((raw, m) # ms) td =
     (let (m, td) = initialize_member raw m td; (ms, td) = initialize_members ms td in (m # ms, td))"

definition initialize_config :: "((string \<times> string) list \<times> MemberConfig) list \<Rightarrow> ReplSetConfig \<Rightarrow> ReplSetConfig" where
  "initialize_config raw cfg =
     (let (ms, td) = initialize_members raw (tagConfig cfg);
          cfg = calculateMajorities (cfg\<lparr>cfg_members := ms, tagConfig := td\<rparr>)
      in (addInternalWriteConcernModes cfg)\<lparr>cfg_isInitialized := True\<rparr>)"

subsection \<open>Tag numbers\<close>

text \<open>A tag number is resolved in a tag configuration, and stays so when more tags are added.\<close>

definition tag_is :: "ReplSetTagConfig \<Rightarrow> ReplSetTag \<Rightarrow> string \<Rightarrow> string \<Rightarrow> bool" where
  "tag_is td t key value \<longleftrightarrow> getTagKey td t = Some key \<and> getTagValue td t = Some value"

definition tags_wf :: "ReplSetTagConfig \<Rightarrow> bool" where
  "tags_wf td \<longleftrightarrow> distinct (map fst td) \<and> (\<forall>e \<in> set td. distinct (snd e))"

definition tags_extend :: "ReplSetTagConfig \<Rightarrow> ReplSetTagConfig \<Rightarrow> bool" where
  "tags_extend td td' \<longleftrightarrow> (\<forall>t key value. tag_is td t key value \<longrightarrow> tag_is td' t key value)"

lemma tags_extend_refl [simp]: "tags_extend td td"
  by (simp add: tags_extend_def)

lemma tags_extend_trans: "tags_extend a b \<Longrightarrow> tags_extend b c \<Longrightarrow> tags_extend a c"
  by (simp add: tags_extend_def)

lemma findKeyIndex_le: "findKeyIndex td key \<le> length td"
  by (induction td key rule: findKeyIndex.induct) auto

lemma findKeyIndex_found: "findKeyIndex td key < length td \<Longrightarrow> fst (td ! findKeyIndex td key) = key"
  by (induction td key rule: findKeyIndex.induct) auto

lemma findKeyIndex_absent: "findKeyIndex td key = length td \<longleftrightarrow> key \<notin> fst ` set td"
  by (induction td key rule: findKeyIndex.induct) auto

lemma value_index_le: "value_index vs v \<le> length vs"
  by (induction vs v rule: value_index.induct) auto

lemma value_index_found: "value_index vs v < length vs \<Longrightarrow> vs ! value_index vs v = v"
  by (induction vs v rule: value_index.induct) auto

lemma value_index_absent: "value_index vs v = length vs \<longleftrightarrow> v \<notin> set vs"
  by (induction vs v rule: value_index.induct) auto

lemma tag_is_iff:
  "tag_is td t key value \<longleftrightarrow>
     0 \<le> tag_keyIndex t \<and> nat (tag_keyIndex t) < length td \<and> fst (td ! nat (tag_keyIndex t)) = key \<and>
     0 \<le> tag_valueIndex t \<and> nat (tag_valueIndex t) < length (snd (td ! nat (tag_keyIndex t))) \<and>
     snd (td ! nat (tag_keyIndex t)) ! nat (tag_valueIndex t) = value"
  by (auto simp: tag_is_def getTagKey_def getTagValue_def invariant_def Let_def)

text \<open>In a well-formed tag configuration the number determines the tag and the other way round.\<close>

lemma tag_is_inj:
  assumes "tags_wf td" and "tag_is td t key value" and "tag_is td t' key value'"
  shows "tag_keyIndex t = tag_keyIndex t'" and "tag_valueIndex t = tag_valueIndex t' \<longleftrightarrow> value = value'"
proof -
  have "map fst td ! nat (tag_keyIndex t) = map fst td ! nat (tag_keyIndex t')"
    using assms(2,3) by (simp add: tag_is_iff)
  then show key: "tag_keyIndex t = tag_keyIndex t'"
    using assms nth_eq_iff_index_eq [of "map fst td" "nat (tag_keyIndex t)" "nat (tag_keyIndex t')"]
    by (auto simp: tag_is_iff tags_wf_def eq_nat_nat_iff)
  have "distinct (snd (td ! nat (tag_keyIndex t)))"
    using assms(1,2) nth_mem [of "nat (tag_keyIndex t)" td] by (simp add: tag_is_iff tags_wf_def)
  then show "tag_valueIndex t = tag_valueIndex t' \<longleftrightarrow> value = value'"
    using assms(2,3) key nth_eq_iff_index_eq by (fastforce simp: tag_is_iff)
qed

lemma tag_is_other_key:
  assumes "tag_is td t key value" and "tag_is td t' key' value'" and "key \<noteq> key'"
  shows "tag_keyIndex t \<noteq> tag_keyIndex t'"
  using assms by (auto simp: tag_is_iff)

lemma makeTag_makes:
  assumes "tags_wf td" and "makeTag td key value = (t, td')"
  shows "tag_is td' t key value" and "tags_wf td'" and "tags_extend td td'"
proof -
  define k where "k = findKeyIndex td key"
  define td1 where "td1 = (if k = length td then td @ [(key, [])] else td)"
  define vs where "vs = snd (td1 ! k)"
  define i where "i = value_index vs value"
  have k: "k < length td1" "fst (td1 ! k) = key"
    using findKeyIndex_le [of td key] findKeyIndex_found [of td key] by (auto simp: k_def td1_def)
  have wf1: "tags_wf td1"
    using assms(1) findKeyIndex_absent [of td key] by (auto simp: td1_def k_def tags_wf_def)
  have ext1: "tags_extend td td1" by (auto simp: tags_extend_def tag_is_iff td1_def nth_append)
  have "makeTag td key value = (\<lparr>tag_keyIndex = int k, tag_valueIndex = int i\<rparr>,
      if i = length vs then td1[k := (key, vs @ [value])] else td1)"
    unfolding makeTag_def Let_def k_def [symmetric] td1_def [symmetric] vs_def [symmetric] i_def [symmetric]
    by (simp add: k(2))
  then have eq: "t = \<lparr>tag_keyIndex = int k, tag_valueIndex = int i\<rparr>"
    "td' = (if i = length vs then td1[k := (key, vs @ [value])] else td1)"
    using assms(2) by simp_all
  show "tag_is td' t key value"
    using k value_index_le [of vs "value"] value_index_found [of vs "value"]
    by (auto simp: eq tag_is_iff i_def [symmetric] vs_def [symmetric])
  have dvs: "distinct vs" using wf1 nth_mem [OF k(1)] by (simp add: tags_wf_def vs_def)
  have "map fst (td1[k := (key, vs @ [value])]) = map fst td1"
    using k by (metis fst_conv list_update_id map_update nth_map)
  then have "tags_wf (td1[k := (key, vs @ [value])])" if "i = length vs"
    using that wf1 dvs value_index_absent [of vs "value"] set_update_subset_insert [of td1 k "(key, vs @ [value])"]
    by (auto simp: tags_wf_def i_def)
  then show "tags_wf td'" using wf1 by (simp add: eq)
  have "tags_extend td1 td'"
    using k by (auto simp: eq tags_extend_def tag_is_iff nth_list_update nth_append vs_def)
  then show "tags_extend td td'" using tags_extend_trans [OF ext1] by simp
qed

subsection \<open>The tags of the members\<close>

definition labelled :: "ReplSetTagConfig \<Rightarrow> ReplSetTag list \<Rightarrow> (string \<times> string) list \<Rightarrow> bool" where
  "labelled td ts ls \<longleftrightarrow> list_all2 (\<lambda>t (key, value). tag_is td t key value) ts ls"

definition internal_tags :: "MemberConfig \<Rightarrow> (string \<times> string) list" where
  "internal_tags m =
     (if isVoter m \<and> \<not> arbiterOnly m then [(''$voter'', show_int (member_id m))] else []) @
     (if isElectable m then [(''$electable'', show_int (member_id m))] else []) @
     (if \<not> arbiterOnly m then [(''$all'', show_int (member_id m))] else [])"

definition retagged :: "MemberConfig \<Rightarrow> MemberConfig \<Rightarrow> bool" where
  "retagged m m' \<longleftrightarrow> (\<exists>ts. m' = m\<lparr>member_tags := ts\<rparr>)"

lemma retagged_fields:
  assumes "retagged m m'"
  shows "isVoter m' = isVoter m" and "arbiterOnly m' = arbiterOnly m" and "isElectable m' = isElectable m"
    and "member_id m' = member_id m" and "member_host m' = member_host m" and "internal_tags m' = internal_tags m"
  using assms by (auto simp: retagged_def isVoter_def isElectable_def internal_tags_def)

lemma labelled_extend: "labelled td ts ls \<Longrightarrow> tags_extend td td' \<Longrightarrow> labelled td' ts ls"
  unfolding labelled_def tags_extend_def by (auto elim!: list.rel_mono_strong)

lemma make_tags_append: "make_tags (a @ b) st = make_tags b (make_tags a st)"
  by (induction a st rule: make_tags.induct) (auto split: prod.splits)

lemma make_tags_fields:
  "make_tags raw (m, td) = (m', td') \<Longrightarrow> retagged m m'"
proof (induction raw "(m, td)" arbitrary: m td rule: make_tags.induct)
  case (1 m td)
  then show ?case by (auto simp: retagged_def intro: exI [of _ "member_tags m'"])
next
  case (2 key v raw m td)
  then show ?case by (auto simp: retagged_def split: prod.splits)
qed

lemma make_tags_labels:
  assumes "make_tags raw (m, td) = (m', td')" and "tags_wf td" and "labelled td (member_tags m) ls"
  shows "tags_wf td' \<and> tags_extend td td' \<and> labelled td' (member_tags m') (ls @ raw)"
  using assms
proof (induction raw "(m, td)" arbitrary: m td ls rule: make_tags.induct)
  case (2 key v raw m td)
  obtain t td1 where t: "makeTag td key v = (t, td1)" by (cases "makeTag td key v")
  note makes = makeTag_makes [OF "2.prems"(2) t]
  have "labelled td1 (member_tags m @ [t]) (ls @ [(key, v)])"
    using labelled_extend [OF "2.prems"(3) makes(3)] makes(1) by (simp add: labelled_def list_all2_appendI)
  then show ?case
    using "2.hyps" [OF t [symmetric] refl, of "ls @ [(key, v)]"] "2.prems"(1) makes(2,3) t
    by (auto intro: tags_extend_trans)
qed simp

lemma initialize_member_eq: "initialize_member raw m td = make_tags (raw @ internal_tags m) (m\<lparr>member_tags := []\<rparr>, td)"
proof -
  obtain m1 td1 where m1: "make_tags raw (m\<lparr>member_tags := []\<rparr>, td) = (m1, td1)"
    by (cases "make_tags raw (m\<lparr>member_tags := []\<rparr>, td)")
  have one: "add_tag_if b key (k, d) = make_tags (if b then [(key, show_int (member_id k))] else []) (k, d)" for b key k d
    by (simp add: add_tag_if_def split: prod.splits)
  have "addInternalTags m1 td1 = make_tags (internal_tags m1) (m1, td1)"
    by (simp add: addInternalTags_def internal_tags_def one isVoter_def isElectable_def Let_def split: prod.splits)
  moreover have "retagged m m1" using make_tags_fields [OF m1] by (auto simp: retagged_def)
  ultimately show ?thesis by (simp add: initialize_member_def m1 make_tags_append retagged_fields)
qed

lemma initialize_members_labels:
  assumes "initialize_members raw td = (ms, td')" and "tags_wf td"
  shows "tags_wf td' \<and> tags_extend td td' \<and>
    list_all2 (\<lambda>(r, m) m'. retagged m m' \<and> labelled td' (member_tags m') (r @ internal_tags m')) raw ms"
  using assms
proof (induction raw td arbitrary: ms rule: initialize_members.induct)
  case (2 r m raw td)
  obtain m1 td1 where m1: "initialize_member r m td = (m1, td1)" by (cases "initialize_member r m td")
  obtain ms2 td2 where ms2: "initialize_members raw td1 = (ms2, td2)" by (cases "initialize_members raw td1")
  have eq: "ms = m1 # ms2" "td' = td2" using "2.prems"(1) m1 ms2 by auto
  have field: "retagged m m1"
    using make_tags_fields [of "r @ internal_tags m" "m\<lparr>member_tags := []\<rparr>" td m1 td1] m1
    by (auto simp: initialize_member_eq retagged_def)
  have l1: "tags_wf td1" "tags_extend td td1" "labelled td1 (member_tags m1) (r @ internal_tags m1)"
    using make_tags_labels [of "r @ internal_tags m" "m\<lparr>member_tags := []\<rparr>" td m1 td1 "[]"] m1 "2.prems"(2)
    by (auto simp: initialize_member_eq labelled_def retagged_fields(6) [OF field])
  have "tags_wf td2 \<and> tags_extend td1 td2 \<and>
    list_all2 (\<lambda>(r, m) m'. retagged m m' \<and> labelled td2 (member_tags m') (r @ internal_tags m')) raw ms2"
    using "2.IH" m1 ms2 l1(1) eq by simp
  then show ?case
    using field l1 labelled_extend eq by (auto intro: tags_extend_trans)
qed simp

end
