(* ===== verification/Topology_Total.thy ===== *)
theory Topology_Total
  imports Topology_Invariant
begin

text \<open>
  The queries of the topology coordinator answer in every state that satisfies the invariant: no
  check of the code fails and no vector is read out of its range.
\<close>

named_theorems topo_total \<open>the answers of queries under the invariant\<close>

lemma inv_members: "topo_inv t \<Longrightarrow> members_ok t"
  by (simp add: topo_inv_def)

lemma self_at:
  assumes "topo_inv t" and "selfIndex t \<noteq> - 1"
  shows "0 \<le> selfIndex t" and "selfIndex t < int (length (cfg_members (rsConfig t)))"
    and "config_ok (rsConfig t)" and "length (memberData t) = length (cfg_members (rsConfig t))"
  using assms members_length [of t] by (auto simp: topo_inv_def members_ok_def getNumMembers_def)

lemma selfConfig_total [topo_total]:
  "topo_inv t \<Longrightarrow> selfIndex t \<noteq> - 1 \<Longrightarrow> selfConfig t = Some (cfg_members (rsConfig t) ! nat (selfIndex t))"
  using self_at [of t] by simp

definition self_slot :: "TopologyCoordinator \<Rightarrow> int" where
  "self_slot t = (if selfIndex t \<ge> 0 then selfIndex t else 0)"

lemma selfMemberDataIndex_total [topo_total]: "topo_inv t \<Longrightarrow> selfMemberDataIndex t = Some (self_slot t)"
  using members_nonempty [OF inv_members, of t] by (simp add: selfMemberDataIndex_def self_slot_def)

lemma self_slot_range: "topo_inv t \<Longrightarrow> 0 \<le> self_slot t \<and> self_slot t < int (length (memberData t))"
  using self_at [of t] members_nonempty [OF inv_members, of t] by (cases "selfIndex t = - 1") (auto simp: self_slot_def)

lemma selfMemberData_total [topo_total]:
  "topo_inv t \<Longrightarrow> selfMemberData t = Some (memberData t ! nat (self_slot t))"
  using self_slot_range [of t] by (simp add: selfMemberData_def topo_total)

lemma myLastApplied_total [topo_total]:
  "topo_inv t \<Longrightarrow> getMyLastAppliedOpTime t = Some (lastAppliedOpTime (memberData t ! nat (self_slot t)))"
  by (simp add: getMyLastAppliedOpTime_def topo_total)

lemma myLastDurable_total [topo_total]:
  "topo_inv t \<Longrightarrow> getMyLastDurableOpTime t = Some (lastDurableOpTime (memberData t ! nat (self_slot t)))"
  by (simp add: getMyLastDurableOpTime_def topo_total)

lemma iAmPrimary_total [topo_total]: "topo_inv t \<Longrightarrow> iAmPrimary t = Some (role t = kLeader)"
  by (auto simp: iAmPrimary_def topo_inv_def roles_ok_def)

lemma getMemberState_total: "topo_inv t \<Longrightarrow> \<exists>s. getMemberState t = Some s"
  using selfConfig_total [of t]
  by (cases "selfIndex t = - 1") (auto simp: getMemberState_def topo_inv_def roles_ok_def)

lemma votes_up_total:
  "0 \<le> i \<Longrightarrow> i + int (length ds) \<le> int (length (cfg_members cfg)) \<Longrightarrow> \<exists>v. votes_up cfg self i ds = Some v"
proof (induction ds arbitrary: i)
  case (Cons d ds)
  have "\<exists>v. votes_up cfg self (i + 1) ds = Some v" using Cons.prems by (intro Cons.IH) simp_all
  with Cons.prems show ?case by auto
qed simp

lemma majority_up_total:
  "topo_inv t \<Longrightarrow> selfIndex t \<noteq> - 1 \<Longrightarrow> \<exists>b. aMajoritySeemsToBeUp t = Some b"
  using votes_up_total [of 0 "memberData t" "rsConfig t" "selfIndex t"] self_at(4) [of t]
  by (auto simp: aMajoritySeemsToBeUp_def)

lemma latestKnown_total: "topo_inv t \<Longrightarrow> \<exists>o1. latestKnownOpTime t = Some o1"
  by (simp add: latestKnownOpTime_def topo_total)

lemma freshPriority_total: "topo_inv t \<Longrightarrow> \<exists>b. amIFreshEnoughForPriorityTakeover t = Some b"
  by (simp add: amIFreshEnoughForPriorityTakeover_def latestKnownOpTime_def topo_total)

lemma index_at:
  assumes "topo_inv t" and "index_ok t i" and "i \<noteq> - 1"
  shows "vec_at (memberData t) i = Some (memberData t ! nat i)"
    and "getMemberAt (rsConfig t) i = Some (cfg_members (rsConfig t) ! nat i)"
  using assms self_at(4) [of t] by (auto simp: index_ok_def getNumMembers_def)

lemma primary_index_ok: "topo_inv t \<Longrightarrow> index_ok t (currentPrimaryIndex t)"
  by (simp add: topo_inv_def)

lemma force_index_ok: "topo_inv t \<Longrightarrow> index_ok t (forceSyncSourceIndex t)"
  by (simp add: topo_inv_def)

lemma freshCatchup_total: "topo_inv t \<Longrightarrow> \<exists>b. amIFreshEnoughForCatchupTakeover t = Some b"
  using index_at(1) [of t "currentPrimaryIndex t"] primary_index_ok [of t]
  by (cases "currentPrimaryIndex t = - 1")
    (auto simp: amIFreshEnoughForCatchupTakeover_def latestKnownOpTime_def topo_total)

lemma myUnelectable_total:
  assumes "topo_inv t" and "selfIndex t \<noteq> - 1"
  shows "\<exists>rs. getMyUnelectableReason t now reason = Some rs"
proof -
  obtain b where "aMajoritySeemsToBeUp t = Some b" using majority_up_total assms by blast
  moreover obtain s where "getMemberState t = Some s" using getMemberState_total assms by blast
  moreover obtain p where "amIFreshEnoughForPriorityTakeover t = Some p" using freshPriority_total assms by blast
  moreover obtain c where "amIFreshEnoughForCatchupTakeover t = Some c" using freshCatchup_total assms by blast
  ultimately show ?thesis
    using assms selfConfig_total [OF assms]
    by (simp add: getMyUnelectableReason_def Let_def myLastApplied_total iAmPrimary_total)
qed

lemma unelectable_total:
  assumes "topo_inv t" and "selfIndex t \<noteq> - 1" and "0 \<le> i" and "i < getNumMembers (rsConfig t)" and "i \<noteq> selfIndex t"
  shows "\<exists>rs. getUnelectableReason t i = Some rs \<and>
    (rs = [] \<longleftrightarrow> isElectable (cfg_members (rsConfig t) ! nat i) \<and> getState (memberData t ! nat i) = RS_SECONDARY)"
proof -
  have "index_ok t i" using assms by (simp add: index_ok_def)
  then show ?thesis
    using assms index_at [of t i]
    by (auto simp: getUnelectableReason_def Let_def isElectable_def invariant_def)
qed

lemma caughtUp_total:
  assumes "topo_inv t" and "selfIndex t \<noteq> - 1" and "0 \<le> i" and "i < getNumMembers (rsConfig t)" and "i \<noteq> selfIndex t"
  shows "isCaughtUpAndElectable t i x = Some
    (isElectable (cfg_members (rsConfig t) ! nat i) \<and> getState (memberData t ! nat i) = RS_SECONDARY \<and>
     opTime_ge (lastAppliedOpTime (memberData t ! nat i)) x)"
proof -
  have "index_ok t i" using assms by (simp add: index_ok_def)
  moreover obtain rs where "getUnelectableReason t i = Some rs"
    "rs = [] \<longleftrightarrow> isElectable (cfg_members (rsConfig t) ! nat i) \<and> getState (memberData t ! nat i) = RS_SECONDARY"
    using unelectable_total [OF assms] by blast
  ultimately show ?thesis using assms index_at [of t i] by (auto simp: isCaughtUpAndElectable_def)
qed

lemma some_caught_up_total:
  assumes "topo_inv t" and "selfIndex t \<noteq> - 1"
  shows "\<forall>i \<in> set is. 0 \<le> i \<and> i < getNumMembers (rsConfig t) \<Longrightarrow> \<exists>b. some_caught_up t x is = Some b"
  by (induction "is") (auto simp: caughtUp_total [OF assms])

lemma best_handoff_total:
  assumes "topo_inv t" and "selfIndex t \<noteq> - 1"
  shows "\<forall>i \<in> set is. 0 \<le> i \<and> i < getNumMembers (rsConfig t) \<Longrightarrow> \<exists>b. best_handoff t x best high is = Some b"
proof (induction "is" arbitrary: best high)
  case (Cons i "is")
  then have "getMemberAt (rsConfig t) i = Some (cfg_members (rsConfig t) ! nat i)" by (simp add: getNumMembers_def)
  with Cons show ?case by (auto simp: caughtUp_total [OF assms])
qed simp

lemma ident_fields:
  assumes "topo_inv t" and "selfIndex t \<noteq> - 1" and "0 \<le> i" and "i < int (length (memberData t))"
  shows "configIndex (memberData t ! nat i) = i" and "isSelf (memberData t ! nat i) \<longleftrightarrow> i = selfIndex t"
    and "memberId (memberData t ! nat i) = member_id (cfg_members (rsConfig t) ! nat i)"
    and "md_host (memberData t ! nat i) = member_host (cfg_members (rsConfig t) ! nat i)"
  using members_at [of t i] inv_members [of t] self_at(4) [of t] assms
  by (auto simp: md_ident_def config_ident_def getNumMembers_def)

lemma config_index_range:
  assumes "topo_inv t" and "selfIndex t \<noteq> - 1" and "d \<in> set (memberData t)"
  shows "0 \<le> configIndex d \<and> configIndex d < int (length (cfg_members (rsConfig t)))"
proof -
  obtain k where "k < length (memberData t)" "d = memberData t ! k" using assms(3) by (metis in_set_conv_nth)
  then show ?thesis using ident_fields(1) [OF assms(1,2), of "int k"] self_at(4) [OF assms(1,2)] by simp
qed

lemma match_members_total:
  "\<forall>d \<in> set ds. 0 \<le> configIndex d \<and> configIndex d < int (length (cfg_members cfg)) \<Longrightarrow>
     \<exists>b. match_members cfg x dur m ds = Some b"
  by (induction ds arbitrary: m) (auto simp: Let_def split: prod.splits)

lemma tagged_total:
  assumes "topo_inv t" and "selfIndex t \<noteq> - 1"
  shows "\<exists>b. haveTaggedNodesReachedOpTime t x pattern dur = Some b"
  using match_members_total [of "memberData t" "rsConfig t"] config_index_range [OF assms]
  by (simp add: haveTaggedNodesReachedOpTime_def)

lemma safeToStepDown_total: "topo_inv t \<Longrightarrow> \<exists>b. isSafeToStepDown t = Some b"
proof (cases "selfIndex t = - 1")
  case False
  assume inv: "topo_inv t"
  obtain pattern where p: "findCustomWriteMode (rsConfig t) kMajorityWriteConcernModeName = Some pattern"
    using self_at(3) [OF inv False] by (auto simp: config_ok_def)
  obtain b where "haveTaggedNodesReachedOpTime t (lastAppliedOpTime (memberData t ! nat (self_slot t))) pattern False = Some b"
    using tagged_total [OF inv False] by blast
  moreover obtain c where
    "some_caught_up t (lastAppliedOpTime (memberData t ! nat (self_slot t))) [0..getNumMembers (rsConfig t) - 1] = Some c"
    using some_caught_up_total [OF inv False] by (metis atLeastAtMost_iff set_upto zle_diff1_eq)
  ultimately have "isSafeToStepDown t = Some (cfg_isInitialized (rsConfig t) \<and> \<not> selfIndex t < 0 \<and> b \<and> c)"
    using p by (cases b) (simp_all add: isSafeToStepDown_def myLastApplied_total [OF inv])
  then show ?thesis ..
next
  case True
  then have "isSafeToStepDown t = Some False" by (simp add: isSafeToStepDown_def)
  then show ?thesis ..
qed

lemma votingNodes_total:
  "\<forall>d \<in> set ds. 0 \<le> configIndex d \<and> configIndex d < int (length (cfg_members cfg)) \<Longrightarrow>
     votingNodesOpTimes cfg dur ds =
       Some (map (member_opTime dur) (filter (\<lambda>d. isVoter (cfg_members cfg ! nat (configIndex d))) ds))"
  by (induction ds) auto

lemma findHealthyPrimary_total:
  "0 \<le> i \<Longrightarrow> i + int (length ds) \<le> int (length (cfg_members cfg)) \<Longrightarrow>
     \<exists>j. findHealthyPrimary cfg cand p i ds = Some j \<and> (j = - 1 \<or> i \<le> j \<and> j < int (length (cfg_members cfg)))"
proof (induction ds arbitrary: i)
  case (Cons d ds)
  have "\<exists>j. findHealthyPrimary cfg cand p (i + 1) ds = Some j \<and>
      (j = - 1 \<or> i + 1 \<le> j \<and> j < int (length (cfg_members cfg)))"
    using Cons.prems by (intro Cons.IH) simp_all
  then obtain j where j: "findHealthyPrimary cfg cand p (i + 1) ds = Some j"
    "j = - 1 \<or> i + 1 \<le> j \<and> j < int (length (cfg_members cfg))" by blast
  then have j2: "j = - 1 \<or> i \<le> j \<and> j < int (length (cfg_members cfg))" by auto
  have "getMemberAt cfg i = Some (cfg_members cfg ! nat i)" using Cons.prems by simp
  moreover have "i < int (length (cfg_members cfg))" using Cons.prems(2) by simp
  ultimately have step: "findHealthyPrimary cfg cand p i (d # ds) =
      (if \<not> up d \<or> getState d \<noteq> RS_PRIMARY then Some j
       else if i \<noteq> cand \<and> p \<le> priority (cfg_members cfg ! nat i) then Some i else Some j)"
    using j(1) by (simp only: findHealthyPrimary.simps bind.bind_lunit)
  show ?case unfolding step using j2 \<open>i < int (length (cfg_members cfg))\<close> by (metis order_refl)
qed simp

end
