(* ===== verification/Topology_Steps.thy ===== *)
theory Topology_Steps
  imports Topology_Total
begin

text \<open>
  Every state change of the topology coordinator keeps its invariant; the lemmas also say which
  operations leave the term, the last vote and the configuration alone.
\<close>

lemma ex_bool [simp]: "\<exists>b. b" "\<exists>b. \<not> b"
  by blast+

definition quiet :: "TopologyCoordinator \<Rightarrow> TopologyCoordinator \<Rightarrow> bool" where
  "quiet t t' \<longleftrightarrow>
     topo_term t' = topo_term t \<and> lastVote t' = lastVote t \<and> rsConfig t' = rsConfig t \<and> selfIndex t' = selfIndex t"

lemma quiet_refl [simp]: "quiet t t"
  by (simp add: quiet_def)

lemma quiet_trans: "quiet t u \<Longrightarrow> quiet u v \<Longrightarrow> quiet t v"
  by (simp add: quiet_def)

lemmas topo_frame = topo_inv_def members_ok_def roles_ok_def index_ok_def

lemma quiet_put [simp]: "quiet t (put_member u i d) \<longleftrightarrow> quiet t u"
  by (simp add: quiet_def put_member_def)

lemma md_ident_updates [simp]:
  "md_ident (setLastAppliedOpTime x now d) = md_ident d"
  "md_ident (setLastDurableOpTime x now d) = md_ident d"
  "md_ident (snd (advanceLastAppliedOpTime x now d)) = md_ident d"
  "md_ident (snd (advanceLastDurableOpTime x now d)) = md_ident d"
  "md_ident (setDownValues now msg d) = md_ident d"
  "md_ident (setAuthIssue now d) = md_ident d"
  "md_ident (markLastUpdateStale d) = md_ident d"
  "md_ident (updateLiveness now d) = md_ident d"
  "md_ident (md_restart d) = md_ident d"
  "md_ident (d\<lparr>lastHeartbeatRecv := now\<rparr>) = md_ident d"
  by (simp_all add: md_ident_def setLastAppliedOpTime_def setLastDurableOpTime_def advanceLastAppliedOpTime_def
      advanceLastDurableOpTime_def setDownValues_def setAuthIssue_def markLastUpdateStale_def updateLiveness_def
      md_restart_def Let_def)

lemma md_ident_setUpValues [simp]: "md_ident (snd (setUpValues now r c d)) = md_ident d"
  by (simp add: setUpValues_def Let_def split_beta md_ident_def advanceLastAppliedOpTime_def
      advanceLastDurableOpTime_def setLastAppliedOpTime_def setLastDurableOpTime_def)

lemma md_ident_note_heartbeat [simp]: "md_ident (snd (note_heartbeat cfg now e s r c d)) = md_ident d"
  by (simp add: note_heartbeat_def split: HeartbeatResult.splits)

lemma put_member_step:
  assumes "topo_inv t" and "md_ident d = md_ident (memberData t ! nat i)"
  shows "topo_inv (put_member t i d) \<and> quiet t (put_member t i d)"
  using put_member_inv [OF assms] by simp

lemma map_members_step:
  assumes "topo_inv t" and "\<And>d. md_ident (f d) = md_ident d"
  shows "topo_inv (t\<lparr>memberData := map f (memberData t)\<rparr>) \<and> quiet t (t\<lparr>memberData := map f (memberData t)\<rparr>)"
proof -
  have "map md_ident (map f (memberData t)) = map md_ident (memberData t)" using assms(2) by simp
  then show ?thesis using assms(1) by (simp add: topo_frame quiet_def del: map_map)
qed

subsection \<open>Progress of this node\<close>

lemma setMyLastApplied_step:
  assumes "topo_inv t"
    and "rollback \<or> opTime_ge x (lastAppliedOpTime (memberData t ! nat (self_slot t)))"
  shows "\<exists>t'. setMyLastAppliedOpTime t x now rollback = Some t' \<and> topo_inv t' \<and> quiet t t'"
  using assms put_member_step [OF assms(1)] self_slot_range [OF assms(1)]
  by (simp add: setMyLastAppliedOpTime_def selfMemberDataIndex_total)

lemma setMyLastDurable_step:
  assumes "topo_inv t"
    and "rollback \<or> opTime_ge x (lastDurableOpTime (memberData t ! nat (self_slot t)))"
  shows "\<exists>t'. setMyLastDurableOpTime t x now rollback = Some t' \<and> topo_inv t' \<and> quiet t t'"
  using assms put_member_step [OF assms(1)] self_slot_range [OF assms(1)]
  by (simp add: setMyLastDurableOpTime_def selfMemberDataIndex_total)

subsection \<open>Elections\<close>

lemma becomeCandidate_step:
  assumes "topo_inv t" and "selfIndex t \<noteq> - 1"
  shows "\<exists>b t'. becomeCandidateIfElectable t now reason = Some (b, t') \<and> topo_inv t' \<and> quiet t t'"
proof -
  obtain rs where "getMyUnelectableReason t now reason = Some rs"
    using myUnelectable_total [OF assms] by blast
  then show ?thesis
    using assms by (cases "role t") (auto simp: becomeCandidateIfElectable_def topo_frame quiet_def)
qed

lemma processWinElection_step:
  assumes "topo_inv t" and "role t = kCandidate"
  shows "\<exists>t'. processWinElection t ts = Some t' \<and> topo_inv t' \<and> quiet t t' \<and> leaderMode t' = kLeaderElect"
  using assms
  by (simp add: processWinElection_def setLeaderMode_def setElectionInfo_def topo_frame quiet_def Let_def
      split: if_splits)

lemma processLoseElection_step:
  assumes "topo_inv t" and "role t = kCandidate"
  shows "\<exists>t'. processLoseElection t = Some t' \<and> topo_inv t' \<and> quiet t t'"
  using assms by (auto simp: processLoseElection_def topo_frame quiet_def)

lemma setElectionInfo_step:
  assumes "topo_inv t" and "role t = kLeader"
  shows "\<exists>t'. setElectionInfo t ts = Some t' \<and> topo_inv t' \<and> quiet t t'"
  using assms by (auto simp: setElectionInfo_def topo_frame quiet_def)

lemma vote_field_inv: "topo_inv (t\<lparr>lastVote := v\<rparr>) \<longleftrightarrow> topo_inv t"
  by (simp add: topo_frame)

definition vote_legal :: "TopologyCoordinator \<Rightarrow> ReplSetRequestVotesArgs \<Rightarrow> bool" where
  "vote_legal t args \<longleftrightarrow>
     selfIndex t \<noteq> - 1 \<and> 0 \<le> args_candidateIndex args \<and> args_candidateIndex args < getNumMembers (rsConfig t) \<and>
     (vote_term (lastVote t) = args_term args \<longrightarrow>
        0 \<le> vote_candidateIndex (lastVote t) \<and> vote_candidateIndex (lastVote t) < getNumMembers (rsConfig t))"

lemma better_primary_total:
  assumes "topo_inv t" and "selfIndex t \<noteq> - 1" and "0 \<le> c" and "c < getNumMembers (rsConfig t)"
  shows "\<exists>j. findHealthyPrimaryOfEqualOrGreaterPriority t c = Some j \<and>
    (j = - 1 \<or> 0 \<le> j \<and> j < getNumMembers (rsConfig t))"
proof -
  have "getMemberAt (rsConfig t) c = Some (cfg_members (rsConfig t) ! nat c)"
    using assms(3,4) by (simp add: getNumMembers_def)
  then show ?thesis
    using findHealthyPrimary_total [of 0 "memberData t" "rsConfig t" c "priority (cfg_members (rsConfig t) ! nat c)"]
      self_at(4) [OF assms(1,2)]
    by (simp add: findHealthyPrimaryOfEqualOrGreaterPriority_def getNumMembers_def)
qed

text \<open>
  A request for votes is answered with the own term. A vote is cast only for a candidate with the same
  configuration whose data is at least as recent, and at most once in a term as long as no other term
  came in between.
\<close>

lemma requestVotes_step:
  assumes "topo_inv t" and "vote_legal t args"
  shows "\<exists>r t'. processReplSetRequestVotes t args = Some (r, t') \<and> topo_inv t' \<and>
    topo_term t' = topo_term t \<and> rsConfig t' = rsConfig t \<and> selfIndex t' = selfIndex t \<and>
    response_term r = topo_term t \<and>
    (voteGranted r \<longrightarrow> topo_term t \<le> args_term args \<and>
       (\<exists>mine. getMyLastAppliedOpTime t = Some mine \<and> \<not> opTime_less (args_lastDurableOpTime args) mine)) \<and>
    (if voteGranted r \<and> \<not> args_dryRun args
     then vote_term (lastVote t) \<noteq> args_term args \<and>
       lastVote t' = \<lparr>vote_term = args_term args, vote_candidateIndex = args_candidateIndex args\<rparr>
     else t' = t)"
proof -
  have self: "selfIndex t \<noteq> - 1" using assms(2) by (simp add: vote_legal_def)
  obtain j where j: "findHealthyPrimaryOfEqualOrGreaterPriority t (args_candidateIndex args) = Some j"
    "j = - 1 \<or> 0 \<le> j \<and> j < getNumMembers (rsConfig t)"
    using better_primary_total [OF assms(1) self] assms(2) by (auto simp: vote_legal_def)
  have voted: "vote_term (lastVote t) = args_term args \<Longrightarrow>
      getMemberAt (rsConfig t) (vote_candidateIndex (lastVote t)) \<noteq> None"
    using assms(2) by (auto simp: vote_legal_def getNumMembers_def)
  have better: "j \<ge> 0 \<Longrightarrow> getMemberAt (rsConfig t) j \<noteq> None" using j(2) by (auto simp: getNumMembers_def)
  define grant where "grant \<longleftrightarrow> \<not> args_term args < topo_term t \<and> args_cfgver args = cfg_version (rsConfig t) \<and>
    args_setName args = replSetName (rsConfig t) \<and>
    \<not> opTime_less (args_lastDurableOpTime args) (lastAppliedOpTime (memberData t ! nat (self_slot t))) \<and>
    \<not> (\<not> args_dryRun args \<and> vote_term (lastVote t) = args_term args) \<and>
    \<not> (arbiterOnly (cfg_members (rsConfig t) ! nat (selfIndex t)) \<and> j \<ge> 0)"
  have "processReplSetRequestVotes t args = Some (\<lparr>response_term = topo_term t, voteGranted = grant\<rparr>,
      if grant \<and> \<not> args_dryRun args
      then t\<lparr>lastVote := \<lparr>vote_term = args_term args, vote_candidateIndex = args_candidateIndex args\<rparr>\<rparr> else t)"
    using assms(1) j(1) voted better
    by (auto simp: processReplSetRequestVotes_def grant_def Let_def myLastApplied_total selfConfig_total self)
  moreover have "topo_inv (t\<lparr>lastVote := v\<rparr>)" for v using assms(1) by (simp add: vote_field_inv)
  moreover have "grant \<Longrightarrow> topo_term t \<le> args_term args \<and>
      \<not> opTime_less (args_lastDurableOpTime args) (lastAppliedOpTime (memberData t ! nat (self_slot t))) \<and>
      (args_dryRun args \<or> vote_term (lastVote t) \<noteq> args_term args)"
    by (auto simp: grant_def)
  ultimately show ?thesis using assms(1) by (cases grant) (auto simp: myLastApplied_total)
qed

lemma updateTerm_step:
  assumes "topo_inv t"
  shows "\<exists>r t'. updateTerm t term now = Some (r, t') \<and> topo_inv t' \<and> lastVote t' = lastVote t \<and>
    rsConfig t' = rsConfig t \<and> selfIndex t' = selfIndex t \<and> role t' = role t \<and>
    topo_term t' = (if role t = kLeader then topo_term t else max (topo_term t) term) \<and>
    (r = kTriggerStepDown \<longleftrightarrow> term > topo_term t \<and> role t = kLeader)"
proof -
  have "topo_inv (t\<lparr>electionSleepUntil := now + electionTimeoutPeriod (rsConfig t)\<rparr>)"
    using assms by (simp add: topo_frame)
  note primary = iAmPrimary_total [OF this]
  have "topo_inv (t\<lparr>electionSleepUntil := s, topo_term := term\<rparr>)" "topo_inv (t\<lparr>electionSleepUntil := s\<rparr>)" for s
    using assms by (simp_all add: topo_frame)
  then show ?thesis using assms by (simp add: updateTerm_def Let_def primary)
qed

end
