(* ===== verification/Topology_Steps_Leader.thy ===== *)
theory Topology_Steps_Leader
  imports Topology_Steps
begin

text \<open>
  Preservation of the invariant by the operations of a leader: step down, transition to primary,
  the commit point, and by reconfiguration.
\<close>

subsection \<open>Stepping down\<close>

lemma leader_transition_to_NotLeader [simp]: "leader_transition m kNotLeader \<longleftrightarrow> m \<noteq> kNotLeader"
  by (cases m) auto

lemma setLeaderMode_step:
  assumes "topo_inv t" and "leader_transition (leaderMode t) m" and "role t = kLeader" and "m \<noteq> kNotLeader"
  shows "setLeaderMode t m = Some (t\<lparr>leaderMode := m\<rparr>) \<and> topo_inv (t\<lparr>leaderMode := m\<rparr>) \<and> quiet t (t\<lparr>leaderMode := m\<rparr>)"
  using assms by (auto simp: setLeaderMode_def topo_frame quiet_def)

lemma prepareForUnconditionalStepDown_step:
  assumes "topo_inv t" and "leaderMode t \<noteq> kNotLeader"
  shows "\<exists>b t'. prepareForUnconditionalStepDown t = Some (b, t') \<and> topo_inv t' \<and> quiet t t' \<and>
    leaderMode t' = kSteppingDown \<and> (b \<longleftrightarrow> leaderMode t \<noteq> kSteppingDown)"
proof -
  have "role t = kLeader" using assms by (simp add: topo_inv_def roles_ok_def)
  then show ?thesis
    using setLeaderMode_step [OF assms(1), of kSteppingDown] assms
    by (cases "leaderMode t") (simp_all add: prepareForUnconditionalStepDown_def)
qed

lemma prepareForStepDownAttempt_step:
  assumes "topo_inv t"
  shows "\<exists>r t'. prepareForStepDownAttempt t = Some (r, t') \<and> topo_inv t' \<and> quiet t t' \<and>
    (case r of Inr m \<Rightarrow> m = leaderMode t \<and> m \<in> {kMaster, kLeaderElect} \<and> leaderMode t' = kAttemptingStepDown
     | Inl _ \<Rightarrow> t' = t)"
proof -
  have "leaderMode t \<noteq> kNotLeader \<Longrightarrow> role t = kLeader" using assms by (simp add: topo_inv_def roles_ok_def)
  then show ?thesis
    using setLeaderMode_step [OF assms, of kAttemptingStepDown] assms
    by (cases "leaderMode t") (simp_all add: prepareForStepDownAttempt_def)
qed

lemma abortStepDownAttempt_step:
  assumes "topo_inv t" and "m \<in> {kMaster, kLeaderElect}"
  shows "\<exists>t'. abortStepDownAttempt t m = Some t' \<and> topo_inv t' \<and> quiet t t'"
proof -
  have "leaderMode t = kAttemptingStepDown \<Longrightarrow> role t = kLeader" using assms(1) by (simp add: topo_inv_def roles_ok_def)
  then show ?thesis
    using setLeaderMode_step [OF assms(1), of m] assms
    by (cases "leaderMode t = kAttemptingStepDown") (auto simp: abortStepDownAttempt_def)
qed

lemma stepDownSelf_step:
  assumes "topo_inv t" and "role t = kLeader" and "index_ok t p" and "p \<noteq> selfIndex t"
  shows "\<exists>t'. stepDownSelfAndReplaceWith t p = Some t' \<and> topo_inv t' \<and> quiet t t' \<and> role t' = kFollower"
  using assms
  by (auto simp: stepDownSelfAndReplaceWith_def setLeaderMode_def topo_frame quiet_def Let_def)

lemma stepDownUntil_inv: "topo_inv (t\<lparr>stepDownUntil := u\<rparr>) \<longleftrightarrow> topo_inv t"
  by (simp add: topo_frame)

lemma attemptStepDown_step:
  assumes "topo_inv t" and "leaderMode t \<in> {kMaster, kLeaderElect} \<longrightarrow> topo_term t \<noteq> termAtStart"
  shows "\<exists>r t'. attemptStepDown t termAtStart now waitUntil until force = Some (r, t') \<and> topo_inv t' \<and> quiet t t' \<and>
    (r \<noteq> Inr True \<longrightarrow> t' = t)"
proof (cases "role t \<noteq> kLeader \<or> leaderMode t = kSteppingDown \<or> topo_term t \<noteq> termAtStart \<or> now \<ge> until")
  case True
  then show ?thesis
    using assms by (cases "leaderMode t") (auto simp: attemptStepDown_def topo_inv_def roles_ok_def)
next
  case False
  then have mode: "leaderMode t = kAttemptingStepDown"
    using assms by (cases "leaderMode t") (auto simp: topo_inv_def roles_ok_def)
  have self: "selfIndex t \<noteq> - 1" using assms False by (auto simp: topo_inv_def roles_ok_def)
  obtain b where b: "canCompleteStepDownAttempt t now waitUntil force = Some b"
    using safeToStepDown_total [OF assms(1)] unfolding canCompleteStepDownAttempt_def by metis
  have inv: "topo_inv (t\<lparr>stepDownUntil := until\<rparr>)" using assms by (simp add: stepDownUntil_inv)
  obtain t' where t': "stepDownSelfAndReplaceWith (t\<lparr>stepDownUntil := until\<rparr>) (- 1) = Some t'" "topo_inv t'"
    "quiet (t\<lparr>stepDownUntil := until\<rparr>) t'"
    using stepDownSelf_step [OF inv, of "- 1"] self False by (auto simp: index_ok_def)
  have "quiet t t'" using t'(3) by (simp add: quiet_def)
  then show ?thesis using False mode b t' assms(1) by (cases b) (auto simp: attemptStepDown_def)
qed

lemma remote_primary_range:
  assumes "0 \<le> i" and "found = - 1 \<or> found \<noteq> self \<and> 0 \<le> found \<and> found < i"
  shows "remote_primary self found i ds = - 1 \<or>
    remote_primary self found i ds \<noteq> self \<and> 0 \<le> remote_primary self found i ds \<and>
    remote_primary self found i ds < i + int (length ds)"
  using assms
proof (induction self found i ds rule: remote_primary.induct)
  case (2 self found i d ds)
  consider "i = self" | "i \<noteq> self" "getState d = RS_PRIMARY \<and> up d" "found \<noteq> - 1"
    | "i \<noteq> self" "getState d = RS_PRIMARY \<and> up d" "found = - 1"
    | "i \<noteq> self" "\<not> (getState d = RS_PRIMARY \<and> up d)" by blast
  then show ?case
  proof cases
    case 1
    then show ?thesis using "2.IH"(1) "2.prems" by auto
  next
    case 2
    then show ?thesis by simp
  next
    case 3
    then show ?thesis using "2.IH"(2) "2.prems" by auto
  next
    case 4
    then have "remote_primary self found i (d # ds) = remote_primary self found (i + 1) ds" by auto
    then show ?thesis using "2.IH"(3) 4 "2.prems" by auto
  qed
qed auto

lemma finishUnconditionalStepDown_step:
  assumes "topo_inv t" and "leaderMode t = kSteppingDown"
  shows "\<exists>t'. finishUnconditionalStepDown t = Some t' \<and> topo_inv t' \<and> quiet t t' \<and> role t' = kFollower"
proof -
  have role: "role t = kLeader" and self: "selfIndex t \<noteq> - 1" using assms by (auto simp: topo_inv_def roles_ok_def)
  have "index_ok t (remote_primary (selfIndex t) (- 1) 0 (memberData t)) \<and>
      remote_primary (selfIndex t) (- 1) 0 (memberData t) \<noteq> selfIndex t"
    using remote_primary_range [of 0 "- 1" "selfIndex t" "memberData t"] self self_at(4) [OF assms(1) self]
    by (auto simp: index_ok_def getNumMembers_def)
  then show ?thesis
    using stepDownSelf_step [OF assms(1) role] assms(2) by (simp add: finishUnconditionalStepDown_def)
qed

lemma prepareFreezeResponse_step:
  "topo_inv t \<Longrightarrow> topo_inv (snd (prepareFreezeResponse t now secs)) \<and> quiet t (snd (prepareFreezeResponse t now secs))"
  by (simp add: prepareFreezeResponse_def stepDownUntil_inv quiet_def)

subsection \<open>Follower modes\<close>

lemma setFollowerMode_step:
  assumes "topo_inv t" and "role t = kFollower" and "m \<in> {RS_RECOVERING, RS_ROLLBACK, RS_SECONDARY, RS_STARTUP2}"
  shows "\<exists>t'. setFollowerMode t m = Some t' \<and> topo_inv t' \<and> quiet t t'"
  using assms
  by (auto simp: setFollowerMode_def isElectableNodeInSingleNodeReplicaSet_def Let_def topo_frame quiet_def)

lemma adjustMaintenance_step:
  assumes "topo_inv t" and "role t = kFollower" and "0 \<le> maintenanceModeCalls t + n"
  shows "\<exists>t'. adjustMaintenanceCountBy t n = Some t' \<and> topo_inv t' \<and> quiet t t'"
  using assms by (auto simp: adjustMaintenanceCountBy_def Let_def topo_frame quiet_def)

subsection \<open>The commit point\<close>

lemma committed_field_inv: "topo_inv (t\<lparr>lastCommittedOpTime := x\<rparr>) \<longleftrightarrow> topo_inv t"
  by (simp add: topo_frame)

lemma advanceLastCommitted_step:
  assumes "topo_inv t"
  shows "\<exists>b t'. advanceLastCommittedOpTime t x = Some (b, t') \<and> topo_inv t' \<and> quiet t t'"
  using assms by (simp add: advanceLastCommittedOpTime_def iAmPrimary_total committed_field_inv quiet_def)

lemma length_insert_opTime [simp]: "length (insert_opTime x xs) = Suc (length xs)"
  by (induction xs) auto

lemma length_sort_opTimes [simp]: "length (sort_opTimes xs) = length xs"
  by (induction xs) (simp_all add: sort_opTimes_def)

text \<open>The voting members among the member data are those of the configuration.\<close>

lemma member_configs:
  assumes "topo_inv t" and "selfIndex t \<noteq> - 1"
  shows "map (\<lambda>d. cfg_members (rsConfig t) ! nat (configIndex d)) (memberData t) = cfg_members (rsConfig t)"
proof (rule nth_equalityI)
  show "length (map (\<lambda>d. cfg_members (rsConfig t) ! nat (configIndex d)) (memberData t)) = length (cfg_members (rsConfig t))"
    using self_at(4) [OF assms] by simp
next
  fix k
  assume "k < length (map (\<lambda>d. cfg_members (rsConfig t) ! nat (configIndex d)) (memberData t))"
  then have k: "k < length (memberData t)" by simp
  then show "map (\<lambda>d. cfg_members (rsConfig t) ! nat (configIndex d)) (memberData t) ! k = cfg_members (rsConfig t) ! k"
    using ident_fields(1) [OF assms, of "int k"] by simp
qed

definition voting_data :: "TopologyCoordinator \<Rightarrow> MemberData list" where
  "voting_data t = filter (\<lambda>d. isVoter (cfg_members (rsConfig t) ! nat (configIndex d))) (memberData t)"

lemma voting_data_count:
  assumes "topo_inv t" and "selfIndex t \<noteq> - 1"
  shows "length (voting_data t) = count_members isVoter (rsConfig t)"
proof -
  have "length (filter isVoter (map (\<lambda>d. cfg_members (rsConfig t) ! nat (configIndex d)) (memberData t))) =
      length (voting_data t)"
    by (simp add: voting_data_def filter_map comp_def)
  then show ?thesis by (simp add: member_configs [OF assms] count_members_def)
qed

lemma votingNodes_eq:
  assumes "topo_inv t" and "selfIndex t \<noteq> - 1"
  shows "votingNodesOpTimes (rsConfig t) dur (memberData t) = Some (map (member_opTime dur) (voting_data t))"
  using votingNodes_total [of "memberData t" "rsConfig t" dur] config_index_range [OF assms]
  by (simp add: voting_data_def)

lemma updateLastCommitted_eq:
  assumes "topo_inv t" and "role t = kLeader" and "leaderMode t \<noteq> kSteppingDown"
  shows "updateLastCommittedOpTime t = advanceLastCommittedOpTime t
    (sort_opTimes (map (member_opTime (writeConcernMajorityJournalDefault (rsConfig t))) (voting_data t)) !
       nat (int (count_members isVoter (rsConfig t)) - writeMajority (rsConfig t)))"
proof -
  have self: "selfIndex t \<noteq> - 1" using assms by (auto simp: topo_inv_def roles_ok_def)
  have ok: "config_ok (rsConfig t)" by (rule self_at(3) [OF assms(1) self])
  have n: "length (voting_data t) = count_members isVoter (rsConfig t)" by (rule voting_data_count [OF assms(1) self])
  have "voting_data t \<noteq> []" using n config_voters [OF ok] by auto
  moreover have "1 \<le> writeMajority (rsConfig t)" "writeMajority (rsConfig t) \<le> int (count_members isVoter (rsConfig t))"
    using config_majorities [OF ok] by linarith+
  ultimately show ?thesis
    using assms n by (simp add: updateLastCommittedOpTime_def iAmPrimary_total votingNodes_eq [OF assms(1) self])
qed

lemma updateLastCommitted_step:
  assumes "topo_inv t"
  shows "\<exists>b t'. updateLastCommittedOpTime t = Some (b, t') \<and> topo_inv t' \<and> quiet t t'"
proof (cases "role t = kLeader \<and> leaderMode t \<noteq> kSteppingDown")
  case True
  then show ?thesis using advanceLastCommitted_step [OF assms] updateLastCommitted_eq [OF assms] by simp
next
  case False
  then show ?thesis using assms by (auto simp: updateLastCommittedOpTime_def iAmPrimary_total)
qed

lemma completeTransition_step:
  assumes "topo_inv t"
  shows "\<exists>b t'. completeTransitionToPrimary t x = Some (b, t') \<and> topo_inv t' \<and> quiet t t'"
proof (cases "canCompleteTransitionToPrimary t (getTerm x)")
  case True
  have field: "topo_inv (u\<lparr>firstOpTimeOfMyTerm := x\<rparr>) \<longleftrightarrow> topo_inv u" for u by (simp add: topo_frame)
  show ?thesis
  proof (cases "leaderMode t = kLeaderElect")
    case elect: True
    then have "role t = kLeader" using assms by (simp add: topo_inv_def roles_ok_def)
    then show ?thesis
      using setLeaderMode_step [OF assms, of kMaster] True elect
      by (simp add: completeTransitionToPrimary_def field quiet_def)
  next
    case False
    then show ?thesis using assms True by (simp add: completeTransitionToPrimary_def field quiet_def)
  qed
qed (use assms in \<open>simp add: completeTransitionToPrimary_def\<close>)

subsection \<open>Reconfiguration\<close>

lemma reconfig_member_ident:
  "md_ident (reconfig_member old self i m) = (i, i = self, member_id m, member_host m)"
  by (simp add: reconfig_member_def md_ident_def Let_def)

lemma reconfig_members_nth:
  "k < length ms \<Longrightarrow> reconfig_members old self i ms ! k = reconfig_member old self (i + int k) (ms ! k)"
proof (induction ms arbitrary: i k)
  case (Cons m ms)
  then show ?case by (cases k) (auto simp: algebra_simps)
qed simp

lemma length_reconfig_members [simp]: "length (reconfig_members old self i ms) = length ms"
  by (induction ms arbitrary: i) auto

lemma reconfig_members_idents:
  "map md_ident (reconfig_members old self 0 ms) = map (\<lambda>i. config_ident self i (ms ! i)) [0..<length ms]"
  by (rule nth_equalityI) (simp_all add: reconfig_members_nth reconfig_member_ident config_ident_def)

lemma updateConfig_step:
  assumes "topo_inv t" and "role t \<noteq> kCandidate" and "- 1 \<le> self" and "self < getNumMembers cfg"
    and "config_ok cfg" and "configServer cfg \<longrightarrow> storageEngineSupportsReadCommitted t \<noteq> kUnknown"
  shows "\<exists>t'. updateConfig t cfg self = Some t' \<and> topo_inv t' \<and> lastVote t' = lastVote t \<and> rsConfig t' = cfg \<and>
    selfIndex t' = self \<and>
    topo_term t' = (if cfg_isInitialized (rsConfig t) then topo_term t else kInitialTerm)"
proof -
  define u where "u = (updateHeartbeatDataForReconfig
      (if \<not> cfg_isInitialized (rsConfig t) then t\<lparr>topo_term := kInitialTerm\<rparr> else t) cfg self)
      \<lparr>rsConfig := cfg, selfIndex := self, forceSyncSourceIndex := - 1\<rparr>"
  have u: "members_ok u" "selfIndex u = self" "rsConfig u = cfg" "forceSyncSourceIndex u = - 1" "role u = role t"
    "leaderMode u = leaderMode t" "maintenanceModeCalls u = maintenanceModeCalls t" "lastVote u = lastVote t"
    "storageEngineSupportsReadCommitted u = storageEngineSupportsReadCommitted t"
    "topo_term u = (if cfg_isInitialized (rsConfig t) then topo_term t else kInitialTerm)"
    using assms(3,4,5)
    by (auto simp: u_def members_ok_def updateHeartbeatDataForReconfig_def reconfig_members_idents Let_def)
  have base: "role t = kLeader \<longleftrightarrow> leaderMode t \<noteq> kNotLeader" "0 \<le> maintenanceModeCalls t"
    using assms(1) by (auto simp: topo_inv_def roles_ok_def)
  have me: "self \<noteq> - 1 \<Longrightarrow> selfConfig u = Some (cfg_members cfg ! nat self)"
    using u(2,3) assms(3,4) by (simp add: getNumMembers_def)
  have remain: "topo_inv (u\<lparr>currentPrimaryIndex := self\<rparr>)" if "self \<noteq> - 1" "role t = kLeader"
    using that u base assms(3,4,6) by (auto simp: topo_frame)
  have single: "isElectableNodeInSingleNodeReplicaSet w \<Longrightarrow> selfIndex w \<noteq> - 1" for w
    by (simp add: isElectableNodeInSingleNodeReplicaSet_def)
  have eq: "updateConfig t cfg self =
     (do {
       remain \<leftarrow> (if role u = kLeader \<and> self \<noteq> - 1 then map_option isElectable (selfConfig u) else Some False);
       if remain then Some (u\<lparr>currentPrimaryIndex := self\<rparr>)
       else do {
         w \<leftarrow> (if role u = kLeader then setLeaderMode (u\<lparr>role := kFollower\<rparr>) kNotLeader else Some u);
         let w = w\<lparr>currentPrimaryIndex := - 1\<rparr>;
         Some (if isElectableNodeInSingleNodeReplicaSet w then w\<lparr>role := kCandidate\<rparr> else w)
       }
     })"
    using assms(2,4) unfolding updateConfig_def u_def [symmetric] Let_def by simp
  define w where "w = u\<lparr>role := kFollower, leaderMode := kNotLeader, currentPrimaryIndex := - 1\<rparr>"
  have w: "topo_inv (if isElectableNodeInSingleNodeReplicaSet w then w\<lparr>role := kCandidate\<rparr> else w)"
    using single [of w] u base assms(6) by (auto simp: w_def topo_frame)
  define v where "v = u\<lparr>currentPrimaryIndex := - 1\<rparr>"
  have v: "topo_inv (if isElectableNodeInSingleNodeReplicaSet v then v\<lparr>role := kCandidate\<rparr> else v)"
    if "role t = kFollower"
    using that single [of v] u base assms(6) by (auto simp: v_def topo_frame)
  show ?thesis
  proof (cases "role t = kLeader")
    case leader: True
    show ?thesis
    proof (cases "self \<noteq> - 1 \<and> isElectable (cfg_members cfg ! nat self)")
      case True
      then show ?thesis using eq me remain u leader by simp
    next
      case False
      then show ?thesis
        using eq me u leader base w by (auto simp: setLeaderMode_def Let_def w_def)
    qed
  next
    case False
    then have "role t = kFollower" using assms(2) by (cases "role t") auto
    then show ?thesis
      using eq v u False by (auto simp: Let_def v_def)
  qed
qed

end
