(* ===== verification/Topology_Steps_Member.thy ===== *)
theory Topology_Steps_Member
  imports Topology_Steps
begin

text \<open>
  Preservation of the invariant by the choice of a sync source, by heartbeats, by timeouts and by
  the progress that other members report.
\<close>

subsection \<open>Sync sources\<close>

lemma sync_fields_inv [simp]:
  "topo_inv (t\<lparr>syncSource := h\<rparr>) \<longleftrightarrow> topo_inv t"
  "topo_inv (t\<lparr>pings := ps\<rparr>) \<longleftrightarrow> topo_inv t"
  "topo_inv (t\<lparr>syncSourceBlacklist := bl\<rparr>) \<longleftrightarrow> topo_inv t"
  "topo_inv t \<Longrightarrow> topo_inv (t\<lparr>forceSyncSourceIndex := - 1\<rparr>)"
  by (simp_all add: topo_frame)

lemma quiet_sync_fields [simp]:
  "quiet t (u\<lparr>syncSource := h\<rparr>) \<longleftrightarrow> quiet t u"
  "quiet t (u\<lparr>pings := ps\<rparr>) \<longleftrightarrow> quiet t u"
  "quiet t (u\<lparr>syncSourceBlacklist := bl\<rparr>) \<longleftrightarrow> quiet t u"
  "quiet t (u\<lparr>forceSyncSourceIndex := k\<rparr>) \<longleftrightarrow> quiet t u"
  by (simp_all add: quiet_def)

lemma setForceSyncSourceIndex_step:
  assumes "topo_inv t" and "index_ok t i"
  shows "\<exists>t'. setForceSyncSourceIndex t i = Some t' \<and> topo_inv t' \<and> quiet t t'"
proof -
  have "forceSyncSourceIndex t < getNumMembers (rsConfig t)"
    using force_index_ok [OF assms(1)] by (auto simp: index_ok_def getNumMembers_def)
  then show ?thesis using assms by (auto simp: setForceSyncSourceIndex_def topo_frame quiet_def)
qed

text \<open>What the scan for a sync source promises of the member it picks.\<close>

definition good_source :: "TopologyCoordinator \<Rightarrow> Date_t \<Rightarrow> OpTime \<Rightarrow> OpTime \<Rightarrow> bool \<Rightarrow> int \<Rightarrow> bool" where
  "good_source t now oldest fetched firstAttempt c \<longleftrightarrow>
     0 \<le> c \<and> c < getNumMembers (rsConfig t) \<and> c \<noteq> selfIndex t \<and>
     up (memberData t ! nat c) \<and> readable (getState (memberData t ! nat c)) \<and>
     sync_candidate (cfg_members (rsConfig t) ! nat (selfIndex t)) oldest fetched (lastCommittedOpTime t)
       firstAttempt (cfg_members (rsConfig t) ! nat c) (memberData t ! nat c) \<and>
     \<not> memberIsBlacklisted t (cfg_members (rsConfig t) ! nat c) now"

lemma scan_candidates_total:
  assumes "topo_inv t" and "selfIndex t \<noteq> - 1"
  shows "0 \<le> i \<Longrightarrow> ds = drop (nat i) (memberData t) \<Longrightarrow> c = - 1 \<or> good_source t now oldest fetched first c \<Longrightarrow>
    \<exists>c' ps'. scan_candidates t now oldest fetched first i ds (c, ps) = Some (c', ps') \<and>
      (c' = - 1 \<or> good_source t now oldest fetched first c')"
proof (induction ds arbitrary: i c ps)
  case (Cons d ds)
  have i: "nat i < length (memberData t)" using Cons.prems(2) by (metis drop_eq_Nil2 linorder_not_less list.discI)
  then have d: "d = memberData t ! nat i" "ds = drop (nat (i + 1)) (memberData t)"
    using Cons.prems(1,2) Cons_nth_drop_Suc [OF i] by (metis list.inject, metis Suc_nat_eq_nat_zadd1 add.commute list.inject)
  have next_ok: "\<exists>c' ps'. scan_candidates t now oldest fetched first (i + 1) ds (k, qs) = Some (c', ps') \<and>
      (c' = - 1 \<or> good_source t now oldest fetched first c')"
    if "k = - 1 \<or> good_source t now oldest fetched first k" for k qs
    using Cons.IH [of "i + 1" k qs] d(2) that Cons.prems(1) by simp
  have range: "i < getNumMembers (rsConfig t)"
    using i self_at(4) [OF assms] Cons.prems(1) by (simp add: getNumMembers_def)
  then have m: "getMemberAt (rsConfig t) i = Some (cfg_members (rsConfig t) ! nat i)"
    using Cons.prems(1) by (simp add: getNumMembers_def)
  have closest: "c \<noteq> - 1 \<Longrightarrow> getMemberAt (rsConfig t) c = Some (cfg_members (rsConfig t) ! nat c)"
    using Cons.prems(3) by (auto simp: good_source_def getNumMembers_def)
  show ?case
  proof (cases "i \<noteq> selfIndex t \<and> up d \<and> readable (getState d) \<and>
      sync_candidate (cfg_members (rsConfig t) ! nat (selfIndex t)) oldest fetched (lastCommittedOpTime t) first
        (cfg_members (rsConfig t) ! nat i) d")
    case False
    then show ?thesis
      using next_ok [OF Cons.prems(3)] m by (auto simp: selfConfig_total [OF assms])
  next
    case True
    obtain far qs where far: "(if c \<noteq> - 1 then do {
                 cc \<leftarrow> getMemberAt (rsConfig t) c;
                 let (candidatePing, ps) = getPing ps (member_host (cfg_members (rsConfig t) ! nat i));
                 let (closestPing, ps) = getPing ps (member_host cc);
                 Some (candidatePing > closestPing, ps)
               } else Some (False, ps)) = Some (far, qs)"
      using closest by (cases "c = - 1") (auto simp: getPing_def)
    have step: "scan_candidates t now oldest fetched first i (d # ds) (c, ps) =
        scan_candidates t now oldest fetched first (i + 1) ds
          (if far \<or> memberIsBlacklisted t (cfg_members (rsConfig t) ! nat i) now then c else i, qs)"
      using True m far by (simp add: selfConfig_total [OF assms] del: vec_at_in)
    have "\<not> memberIsBlacklisted t (cfg_members (rsConfig t) ! nat i) now \<Longrightarrow>
        good_source t now oldest fetched first i"
      using True d(1) range Cons.prems(1) by (simp add: good_source_def)
    then show ?thesis unfolding step using next_ok Cons.prems(3) by auto
  qed
qed simp

lemma oldestSyncOpTime_total:
  assumes "topo_inv t"
  shows "\<exists>x. oldestSyncOpTime t = Some x"
  using index_at(1) [OF assms primary_index_ok [OF assms]]
  by (cases "currentPrimaryIndex t = - 1") (auto simp: oldestSyncOpTime_def Let_def)

text \<open>
  The answer is no host, the member an operator asked for, the primary when chaining is not allowed,
  or a member that passed every check of one of the two attempts.
\<close>

lemma chooseNewSyncSource_step:
  assumes "topo_inv t"
  shows "\<exists>h t'. chooseNewSyncSource t now fetched chaining = Some (h, t') \<and> topo_inv t' \<and> quiet t t' \<and>
    (h = HostAndPort_empty \<or>
     (\<exists>c. h = member_host (cfg_members (rsConfig t) ! nat c) \<and>
        (c = forceSyncSourceIndex t \<and> c \<noteq> - 1 \<or>
         c = currentPrimaryIndex t \<and> c \<noteq> - 1 \<and> c \<noteq> selfIndex t \<and>
           \<not> chainingAllowed (rsConfig t) \<and> \<not> memberIsBlacklisted t (cfg_members (rsConfig t) ! nat c) now \<or>
         (\<exists>oldest first. oldestSyncOpTime t = Some oldest \<and> good_source t now oldest fetched first c))))"
proof -
  consider "selfIndex t = - 1" | "selfIndex t \<noteq> - 1" "forceSyncSourceIndex t \<noteq> - 1"
    | "selfIndex t \<noteq> - 1" "forceSyncSourceIndex t = - 1"
      "(int (length (memberData t)) - 1) * 2 - getTotalPings t > 0"
    | "selfIndex t \<noteq> - 1" "forceSyncSourceIndex t = - 1"
      "\<not> (int (length (memberData t)) - 1) * 2 - getTotalPings t > 0"
      "chaining = kUseConfiguration \<and> \<not> chainingAllowed (rsConfig t)"
    | "selfIndex t \<noteq> - 1" "forceSyncSourceIndex t = - 1"
      "\<not> (int (length (memberData t)) - 1) * 2 - getTotalPings t > 0"
      "\<not> (chaining = kUseConfiguration \<and> \<not> chainingAllowed (rsConfig t))" by blast
  then show ?thesis
  proof cases
    case 1
    then show ?thesis using assms by (simp add: chooseNewSyncSource_def)
  next
    case 2
    then have "getMemberAt (rsConfig t) (forceSyncSourceIndex t) = Some (cfg_members (rsConfig t) ! nat (forceSyncSourceIndex t))"
      "forceSyncSourceIndex t < getNumMembers (rsConfig t)"
      using index_at(2) [OF assms force_index_ok [OF assms]] force_index_ok [OF assms] by (auto simp: index_ok_def)
    then show ?thesis using 2 assms by (auto simp: chooseNewSyncSource_def)
  next
    case 3
    then show ?thesis using assms by (simp add: chooseNewSyncSource_def)
  next
    case 4
    then show ?thesis
      using assms index_at(2) [OF assms primary_index_ok [OF assms]]
      by (cases "currentPrimaryIndex t = - 1") (auto simp: chooseNewSyncSource_def)
  next
    case 5
    obtain oldest where o: "oldestSyncOpTime t = Some oldest" using oldestSyncOpTime_total [OF assms] by blast
    obtain c1 ps1 where s1: "scan_candidates t now oldest fetched True 0 (memberData t) (- 1, pings t) = Some (c1, ps1)"
      "c1 = - 1 \<or> good_source t now oldest fetched True c1"
      using scan_candidates_total [OF assms 5(1), of 0 "memberData t" "- 1" now oldest fetched True "pings t"] by auto
    obtain c ps first where s2: "(if c1 \<noteq> - 1 then Some (c1, ps1)
        else scan_candidates t now oldest fetched False 0 (memberData t) (c1, ps1)) = Some (c, ps)"
      "c = - 1 \<or> good_source t now oldest fetched first c"
      using s1(2) scan_candidates_total [OF assms 5(1), of 0 "memberData t" "- 1" now oldest fetched False ps1]
      by (cases "c1 = - 1") auto
    have eq: "chooseNewSyncSource t now fetched chaining =
        (if c = - 1 then Some (HostAndPort_empty, t\<lparr>pings := ps, syncSource := HostAndPort_empty\<rparr>)
         else do { m \<leftarrow> getMemberAt (rsConfig t) c; Some (member_host m, t\<lparr>pings := ps, syncSource := member_host m\<rparr>) })"
      using 5(1-3) o s1(1) s2(1) by (simp add: chooseNewSyncSource_def if_not_P [OF 5(4)])
    show ?thesis
    proof (cases "c = - 1")
      case True
      then show ?thesis using eq assms by simp
    next
      case False
      then have good: "good_source t now oldest fetched first c" using s2(2) by simp
      then have "getMemberAt (rsConfig t) c = Some (cfg_members (rsConfig t) ! nat c)"
        by (simp add: good_source_def getNumMembers_def)
      then show ?thesis using eq assms o good False by auto
    qed
  qed
qed

lemma index_where_range:
  "index_where P i xs = - 1 \<or> i \<le> index_where P i xs \<and> index_where P i xs < i + int (length xs) \<and>
     P (xs ! nat (index_where P i xs - i))"
proof (induction xs arbitrary: i)
  case (Cons x xs)
  show ?case
  proof (cases "P x")
    case False
    consider "index_where P (i + 1) xs = - 1"
      | "i + 1 \<le> index_where P (i + 1) xs" "index_where P (i + 1) xs < i + 1 + int (length xs)"
        "P (xs ! nat (index_where P (i + 1) xs - (i + 1)))" using Cons.IH [of "i + 1"] by blast
    then show ?thesis
    proof cases
      case 2
      moreover have "nat (index_where P (i + 1) xs - i) = Suc (nat (index_where P (i + 1) xs - (i + 1)))"
        using 2(1) by simp
      ultimately show ?thesis using False by simp
    qed (use False in simp)
  qed simp
qed simp

lemma prepareSyncFrom_step:
  assumes "topo_inv t"
  shows "\<exists>r t'. prepareSyncFromResponse t h = Some (r, t') \<and> topo_inv t' \<and> quiet t t'"
proof (cases "selfIndex t = - 1")
  case True
  then show ?thesis using assms by (simp add: prepareSyncFromResponse_def)
next
  case self: False
  define i where "i = findMemberIndexByHostAndPort (rsConfig t) h"
  show ?thesis
  proof (cases "i = - 1")
    case True
    then show ?thesis using assms self by (simp add: prepareSyncFromResponse_def selfConfig_total i_def Let_def)
  next
    case False
    then have ok: "index_ok t i"
      using index_where_range [of "\<lambda>m. host_eq (member_host m) h" 0 "cfg_members (rsConfig t)"] self
      by (auto simp: index_ok_def i_def findMemberIndexByHostAndPort_def getNumMembers_def)
    obtain t' where "setForceSyncSourceIndex t i = Some t'" "topo_inv t'" "quiet t t'"
      using setForceSyncSourceIndex_step [OF assms ok] by blast
    then show ?thesis
      using assms self False index_at [OF assms ok False]
      by (simp add: prepareSyncFromResponse_def selfConfig_total myLastApplied_total i_def [symmetric] Let_def)
  qed
qed

subsection \<open>Heartbeats\<close>

lemma prepareHeartbeatRequest_step:
  assumes "topo_inv t"
  shows "\<exists>r t'. prepareHeartbeatRequestV1 t now name target = Some (r, t') \<and> topo_inv t' \<and> quiet t t'"
proof -
  have "selfIndex t \<ge> 0 \<Longrightarrow> selfConfig t = Some (cfg_members (rsConfig t) ! nat (selfIndex t))"
    using selfConfig_total [OF assms] by auto
  then show ?thesis
    using assms by (auto simp: prepareHeartbeatRequestV1_def Let_def quiet_def split: prod.splits)
qed

lemma currentPrimaryMember_total:
  assumes "topo_inv t"
  shows "\<exists>m. currentPrimaryMember t = Some m"
  using index_at(2) [OF assms primary_index_ok [OF assms]]
  by (cases "currentPrimaryIndex t = - 1") (simp_all add: currentPrimaryMember_def)

lemma getMemberIndex_range:
  "getMemberIndex t i = - 1 \<or>
     0 \<le> getMemberIndex t i \<and> getMemberIndex t i < getNumMembers (rsConfig t) \<and>
     member_id (cfg_members (rsConfig t) ! nat (getMemberIndex t i)) = i"
  using index_where_range [of "\<lambda>m. member_id m = i" 0 "cfg_members (rsConfig t)"]
  by (simp add: getMemberIndex_def getNumMembers_def)

lemma prepareHeartbeatResponse_step:
  assumes "topo_inv t"
  shows "\<exists>r t'. prepareHeartbeatResponseV1 t now args name response = Some (r, t') \<and> topo_inv t' \<and> quiet t t'"
proof -
  obtain s where s: "getMemberState t = Some s" using getMemberState_total [OF assms] by blast
  obtain p where p: "currentPrimaryMember t = Some p" using currentPrimaryMember_total [OF assms] by blast
  define sender where "sender = (if cfg_version (rsConfig t) = hba_configVersion args \<and> hba_senderId args \<noteq> - 1
      then getMemberIndex t (hba_senderId args) else - 1)"
  consider "name \<noteq> hba_setName args"
    | "name = hba_setName args" "selfIndex t = - 1" "s = RS_REMOVED \<or> \<not> cfg_isInitialized (rsConfig t)"
    | "name = hba_setName args" "selfIndex t \<noteq> - 1"
    | "name = hba_setName args" "selfIndex t = - 1" "s \<noteq> RS_REMOVED" "cfg_isInitialized (rsConfig t)" by blast
  then show ?thesis
  proof cases
    case 1
    then show ?thesis using assms by (simp add: prepareHeartbeatResponseV1_def)
  next
    case 2
    then show ?thesis
      using assms s p by (auto simp: prepareHeartbeatResponseV1_def myLastApplied_total myLastDurable_total Let_def)
  next
    case 4
    then show ?thesis using s by (simp add: getMemberState_def)
  next
    case 3
    note self = 3(2)
    show ?thesis
    proof (cases "hba_senderId args = member_id (cfg_members (rsConfig t) ! nat (selfIndex t)) \<or>
        \<not> cfg_isInitialized (rsConfig t) \<or> sender = - 1")
      case True
      then show ?thesis
        using assms 3 s p selfConfig_total [OF assms self]
        by (auto simp: prepareHeartbeatResponseV1_def myLastApplied_total myLastDurable_total Let_def sender_def)
    next
      case False
      then have "sender \<noteq> selfIndex t" "index_ok t sender" "sender \<noteq> - 1"
        using getMemberIndex_range [of t "hba_senderId args"] self by (auto simp: sender_def index_ok_def split: if_splits)
      moreover have "topo_inv (put_member t sender (updateLiveness now ((memberData t ! nat sender)\<lparr>lastHeartbeatRecv := now\<rparr>)))"
        by (rule put_member_inv [OF assms]) simp
      ultimately show ?thesis
        using assms 3 s p selfConfig_total [OF assms self] False index_at(1) [OF assms, of sender]
        by (simp add: prepareHeartbeatResponseV1_def myLastApplied_total myLastDurable_total Let_def sender_def [symmetric])
    qed
  qed
qed

lemma primary_by_term_range:
  assumes "0 \<le> i" and "\<And>j tm. best = Some (j, tm) \<Longrightarrow> 0 \<le> j \<and> j < i"
  shows "primary_by_term i best ds = - 1 \<or> 0 \<le> primary_by_term i best ds \<and> primary_by_term i best ds < i + int (length ds)"
  using assms
proof (induction i best ds rule: primary_by_term.induct)
  case (1 i best)
  then show ?case by (cases best) auto
next
  case (2 i best d ds)
  show ?case
  proof (cases "getState d = RS_PRIMARY \<and> up d \<and> (case best of None \<Rightarrow> True | Some (_, term) \<Rightarrow> term < md_term d)")
    case True
    have "primary_by_term (i + 1) (Some (i, md_term d)) ds = - 1 \<or>
        0 \<le> primary_by_term (i + 1) (Some (i, md_term d)) ds \<and>
        primary_by_term (i + 1) (Some (i, md_term d)) ds < i + 1 + int (length ds)"
      using True "2.prems"(1) by (intro "2.IH"(1)) auto
    then show ?thesis using True by auto
  next
    case False
    have "primary_by_term (i + 1) best ds = - 1 \<or> 0 \<le> primary_by_term (i + 1) best ds \<and>
        primary_by_term (i + 1) best ds < i + 1 + int (length ds)"
    proof (rule "2.IH"(2) [OF False])
      show "0 \<le> i + 1" using "2.prems"(1) by simp
      show "0 \<le> j \<and> j < i + 1" if "best = Some (j, tm)" for j tm using "2.prems"(2) [OF that] by simp
    qed
    then show ?thesis using False by (simp only: primary_by_term.simps if_False) (auto simp: algebra_simps)
  qed
qed

lemma updatePrimary_step:
  assumes "topo_inv t" and "i \<noteq> selfIndex t"
  shows "\<exists>a t'. updatePrimaryFromHBDataV1 t i = Some (a, t') \<and> topo_inv t' \<and> quiet t t'"
proof (cases "selfIndex t = - 1 \<or> currentPrimaryIndex t = selfIndex t")
  case True
  then show ?thesis using assms by (auto simp: updatePrimaryFromHBDataV1_def)
next
  case False
  define p where "p = primary_by_term 0 None (memberData t)"
  have ok: "index_ok t p"
    using primary_by_term_range [of 0 None "memberData t"] False self_at(4) [OF assms(1)]
    by (auto simp: index_ok_def p_def getNumMembers_def)
  have "role t \<noteq> kLeader" using assms(1) False by (auto simp: topo_inv_def roles_ok_def)
  then have inv: "topo_inv (t\<lparr>currentPrimaryIndex := p\<rparr>)" using assms(1) ok by (simp add: topo_frame)
  have quiet: "quiet t (t\<lparr>currentPrimaryIndex := p\<rparr>)" by (simp add: quiet_def)
  show ?thesis
  proof (cases "p = - 1")
    case True
    then show ?thesis using False assms(2) inv quiet by (simp add: updatePrimaryFromHBDataV1_def p_def [symmetric] Let_def)
  next
    case p: False
    have "vec_at (memberData t) (selfIndex t) = Some (memberData t ! nat (selfIndex t))"
      using self_at [OF assms(1)] False by simp
    then show ?thesis
      using False assms(2) inv quiet p index_at [OF assms(1) ok p] selfConfig_total [OF assms(1)]
      by (simp add: updatePrimaryFromHBDataV1_def p_def [symmetric] Let_def)
  qed
qed

lemma next_interval_total:
  assumes "topo_inv t"
  shows "\<exists>n. next_heartbeat_interval t = Some n"
  using getMemberState_total [OF assms] assms
  by (auto simp: next_heartbeat_interval_def Let_def iAmPrimary_total)

definition heartbeat_legal :: "TopologyCoordinator \<Rightarrow> HostAndPort \<Rightarrow> bool" where
  "heartbeat_legal t target \<longleftrightarrow>
     lastHeartbeatStartDate (ping_entry (pings t) target) \<noteq> 0 \<and>
     (selfIndex t = - 1 \<or> findMemberIndexByHostAndPort (rsConfig t) target \<noteq> selfIndex t)"

lemma processHeartbeat_step:
  assumes "topo_inv t" and "heartbeat_legal t target"
  shows "\<exists>a t'. processHeartbeatResponse t now rtt target r c = Some (a, t') \<and> topo_inv t' \<and> quiet t t'"
proof -
  obtain s where s: "getMemberState t = Some s" using getMemberState_total [OF assms(1)] by blast
  define stats where "stats = (if isOK r \<or> isUnauthorized r then ping_hit rtt (ping_entry (pings t) target)
      else ping_miss (ping_entry (pings t) target))"
  define u where "u = t\<lparr>pings := AList.update (host_key target) stats (pings t)\<rparr>"
  have u: "topo_inv u" "quiet t u" "rsConfig u = rsConfig t" "selfIndex u = selfIndex t" "memberData u = memberData t"
    using assms(1) by (simp_all add: u_def)
  obtain n where n: "next_heartbeat_interval u = Some n" using next_interval_total [OF u(1)] by blast
  define i where "i = findMemberIndexByHostAndPort (rsConfig t) target"
  have start: "lastHeartbeatStartDate (ping_entry (pings t) target) \<noteq> 0" using assms(2) by (simp add: heartbeat_legal_def)
  show ?thesis
  proof (cases "selfIndex t = - 1 \<or> i = - 1")
    case True
    then show ?thesis
      using s n start u
      by (auto simp: processHeartbeatResponse_def Let_def stats_def [symmetric] u_def [symmetric] i_def [symmetric])
  next
    case False
    then have ok: "index_ok t i" "i \<noteq> - 1" "i \<noteq> selfIndex t"
      using index_where_range [of "\<lambda>m. host_eq (member_host m) target" 0 "cfg_members (rsConfig t)"] assms(2)
      by (auto simp: index_ok_def i_def findMemberIndexByHostAndPort_def getNumMembers_def heartbeat_legal_def)
    have upd: "\<exists>a t'. updatePrimaryFromHBDataV1 (put_member u i d) i = Some (a, t') \<and> topo_inv t' \<and> quiet t t'"
      if "md_ident d = md_ident (memberData t ! nat i)" for d
    proof -
      have w: "topo_inv (put_member u i d)" "quiet t (put_member u i d)"
        using put_member_step [OF u(1), of d i] that u by simp_all
      moreover have "i \<noteq> selfIndex (put_member u i d)" using ok(3) u(4) by (simp add: put_member_def)
      ultimately show ?thesis using updatePrimary_step [OF w(1)] quiet_trans by blast
    qed
    define e where "e = now - lastHeartbeatStartDate stats"
    define d where "d = snd (note_heartbeat (rsConfig t) now e stats r c (memberData t ! nat i))"
    obtain a t' where t': "updatePrimaryFromHBDataV1 (put_member u i d) i = Some (a, t')" "topo_inv t'" "quiet t t'"
      using upd [of d] by (auto simp: d_def)
    show ?thesis
      using False s n start u(1-4) t' ok index_at [OF assms(1) ok(1,2)]
      by (simp add: processHeartbeatResponse_def Let_def stats_def [symmetric] u_def [symmetric] i_def [symmetric]
          split_beta u(5) e_def [symmetric] d_def [symmetric])
  qed
qed

end
