(* ===== verification/Topology_Safety.thy ===== *)
theory Topology_Safety
  imports Topology_Steps_Leader Topology_Steps_Member
begin

text \<open>
  The remaining steps, all operations of the topology coordinator as one transition function with
  the contract of their callers, and the interpretation of \<open>operation_system\<close>.
\<close>

subsection \<open>Liveness and progress of other members\<close>

lemma setMemberAsDown_step:
  assumes "topo_inv t" and "role t = kLeader" and "0 \<le> i" and "i < int (length (memberData t))" and "i \<noteq> selfIndex t"
  shows "\<exists>b t'. setMemberAsDown t now i = Some (b, t') \<and> topo_inv t' \<and> quiet t t' \<and> role t' = kLeader \<and>
    length (memberData t') = length (memberData t)"
proof -
  have self: "selfIndex t \<noteq> - 1" "currentPrimaryIndex t = selfIndex t"
    using assms(1,2) by (auto simp: topo_inv_def roles_ok_def)
  define u where "u = put_member t i (setDownValues now ''no response within election timeout period'' (memberData t ! nat i))"
  have u: "topo_inv u" "quiet t u" "role u = kLeader" "length (memberData u) = length (memberData t)"
    "selfIndex u = selfIndex t"
    using put_member_step [OF assms(1), of "setDownValues now ''no response within election timeout period'' (memberData t ! nat i)" i]
      assms(2)
    by (auto simp: u_def put_member_def)
  obtain rs where "getMyUnelectableReason u now kElectionTimeout = Some rs"
    using myUnelectable_total [OF u(1)] self(1) u(5) by metis
  then show ?thesis
    using assms(3-5) self u by (auto simp: setMemberAsDown_def Let_def u_def [symmetric])
qed

lemma self_ident:
  assumes "topo_inv t" and "selfIndex t \<noteq> - 1" and "0 \<le> i" and "i < int (length (memberData t))"
    and "\<not> isSelf (memberData t ! nat i)"
  shows "i \<noteq> selfIndex t"
  using ident_fields(2) [OF assms(1-4)] assms(5) by simp

lemma check_timeouts_step:
  "topo_inv t \<Longrightarrow> \<forall>i \<in> set is. 0 \<le> i \<and> i < int (length (memberData t)) \<Longrightarrow>
     \<exists>b' t'. check_timeouts now is (b, t) = Some (b', t') \<and> topo_inv t' \<and> quiet t t'"
proof (induction "is" arbitrary: b t)
  case (Cons i "is")
  let ?d = "memberData t ! nat i"
  have i: "0 \<le> i" "i < int (length (memberData t))" using Cons.prems(2) by auto
  show ?case
  proof (cases "\<not> isSelf ?d \<and> \<not> lastUpdateStale ?d \<and> now - lastUpdate ?d \<ge> electionTimeoutPeriod (rsConfig t)")
    case False
    then show ?thesis using Cons i by auto
  next
    case True
    define u where "u = put_member t i (markLastUpdateStale ?d)"
    have u: "topo_inv u" "quiet t u" "length (memberData u) = length (memberData t)" "selfIndex u = selfIndex t"
      "role u = role t"
      using put_member_step [OF Cons.prems(1), of "markLastUpdateStale ?d" i] by (auto simp: u_def put_member_def)
    have notself: "role t = kLeader \<Longrightarrow> i \<noteq> selfIndex u"
      using self_ident [OF Cons.prems(1) _ i] True Cons.prems(1) u(4) by (auto simp: topo_inv_def roles_ok_def)
    obtain c w where w: "(if role u = kLeader \<and> \<not> b then setMemberAsDown u now i else Some (b, u)) = Some (c, w)"
      "topo_inv w" "quiet u w" "length (memberData w) = length (memberData t)"
      using setMemberAsDown_step [OF u(1) _ i(1), of now] i(2) u notself
      by (cases "role u = kLeader \<and> \<not> b") auto
    obtain b' t' where t': "check_timeouts now is (c, w) = Some (b', t')" "topo_inv t'" "quiet w t'"
      using Cons.IH [OF w(2), of c] Cons.prems(2) w(4) by auto
    have "quiet t t'" using u(2) w(3) t'(3) quiet_trans by blast
    then show ?thesis
      using True i w(1) t' u(5) iAmPrimary_total [OF u(1)] by (simp add: u_def [symmetric] Let_def)
  qed
qed simp

lemma checkMemberTimeouts_step:
  assumes "topo_inv t"
  shows "\<exists>a t'. checkMemberTimeouts t now = Some (a, t') \<and> topo_inv t' \<and> quiet t t'"
proof -
  obtain b t' where "check_timeouts now [0..int (length (memberData t)) - 1] (False, t) = Some (b, t')" "topo_inv t'" "quiet t t'"
    using check_timeouts_step [OF assms, of "[0..int (length (memberData t)) - 1]" now False] by auto
  then show ?thesis by (simp add: checkMemberTimeouts_def)
qed

lemma resetSome_step:
  "topo_inv t \<Longrightarrow> topo_inv (resetMemberTimeouts t now hs) \<and> quiet t (resetMemberTimeouts t now hs)"
  unfolding resetMemberTimeouts_def by (rule map_members_step) auto

lemma resetAll_step:
  "topo_inv t \<Longrightarrow> topo_inv (resetAllMemberTimeouts t now) \<and> quiet t (resetAllMemberTimeouts t now)"
  unfolding resetAllMemberTimeouts_def by (rule map_members_step) auto

lemma restart_step: "topo_inv t \<Longrightarrow> topo_inv (restartHeartbeats t) \<and> quiet t (restartHeartbeats t)"
  unfolding restartHeartbeats_def by (rule map_members_step) auto

lemma index_where_none: "0 \<le> i \<Longrightarrow> index_where P i xs = - 1 \<longleftrightarrow> List.find P xs = None"
  by (induction xs arbitrary: i) auto

lemma setLastOptime_step:
  assumes "topo_inv t"
  shows "\<exists>r t'. setLastOptime t args now = Some (r, t') \<and> topo_inv t' \<and> quiet t t'"
proof (cases "selfIndex t = - 1")
  case True
  then show ?thesis using assms by (simp add: setLastOptime_def)
next
  case self: False
  define i where "i = getMemberIndex t (upd_memberId args)"
  have init: "cfg_isInitialized (rsConfig t)" using self_at(3) [OF assms self] by (simp add: config_ok_def)
  note common = selfConfig_total [OF assms self] init
  consider "upd_memberId args < 0 \<or> upd_memberId args = member_id (cfg_members (rsConfig t) ! nat (selfIndex t)) \<or>
        upd_cfgver args \<noteq> cfg_version (rsConfig t)"
    | "\<not> upd_memberId args < 0" "upd_memberId args \<noteq> member_id (cfg_members (rsConfig t) ! nat (selfIndex t))"
      "upd_cfgver args = cfg_version (rsConfig t)" "i = - 1"
    | "\<not> upd_memberId args < 0" "upd_memberId args \<noteq> member_id (cfg_members (rsConfig t) ! nat (selfIndex t))"
      "upd_cfgver args = cfg_version (rsConfig t)" "0 \<le> i" "i < getNumMembers (rsConfig t)"
      "member_id (cfg_members (rsConfig t) ! nat i) = upd_memberId args"
    using getMemberIndex_range [of t "upd_memberId args"] by (auto simp: i_def)
  then show ?thesis
  proof cases
    case 1
    then show ?thesis using assms self common by (auto simp: setLastOptime_def)
  next
    case 2
    then have "findMemberByID (rsConfig t) (upd_memberId args) = None"
      by (simp add: i_def getMemberIndex_def findMemberByID_def index_where_none)
    then show ?thesis using assms self common 2 by (simp add: setLastOptime_def i_def [symmetric])
  next
    case 3
    then have ok: "index_ok t i" "i \<noteq> - 1" "i < int (length (memberData t))"
      using self self_at(4) [OF assms self] by (auto simp: index_ok_def getNumMembers_def)
    define d where "d = snd (advanceLastDurableOpTime (upd_durableOpTime args) now
        (snd (advanceLastAppliedOpTime (upd_appliedOpTime args) now (memberData t ! nat i))))"
    have "topo_inv (put_member t i d) \<and> quiet t (put_member t i d)"
      by (rule put_member_step [OF assms]) (simp add: d_def)
    then show ?thesis
      using assms self common 3 index_at(1) [OF assms ok(1,2)] ident_fields(3) [OF assms self 3(4) ok(3)]
      by (simp add: setLastOptime_def i_def [symmetric] Let_def split_beta d_def)
  qed
qed

subsection \<open>All operations\<close>

datatype (plugins only: code) topo_op =
  SetMyLastApplied OpTime Date_t bool | SetMyLastDurable OpTime Date_t bool
  | BecomeCandidate Date_t StartElectionReason | WinElection Timestamp | LoseElection
  | SetElectionInfo Timestamp | VoteForMyself | LoadLastVote LastVote
  | RequestVotes ReplSetRequestVotesArgs | UpdateTerm int Date_t
  | PrepareUnconditionalStepDown | PrepareStepDownAttempt | AbortStepDownAttempt LeaderMode
  | AttemptStepDown int Date_t Date_t Date_t bool | FinishStepDown | Freeze Date_t int
  | SetFollowerMode MemberState | AdjustMaintenance int
  | AdvanceCommitted OpTime | UpdateCommitted | CompleteTransition OpTime
  | UpdateConfig ReplSetConfig int | SetReadCommitted bool
  | SetForceSyncSource int | ChooseSyncSource Date_t OpTime ChainingPreference | SyncFrom HostAndPort
  | Blacklist HostAndPort Date_t | Unblacklist HostAndPort Date_t | ClearBlacklist
  | HeartbeatRequest Date_t string HostAndPort | HeartbeatReceived Date_t ReplSetHeartbeatArgsV1 string
  | HeartbeatDone Date_t int HostAndPort HeartbeatResult OpTime
  | CheckTimeouts Date_t | ResetAllTimeouts Date_t | ResetTimeouts Date_t "HostAndPort list" | RestartHeartbeats
  | ReportProgress UpdateInfo Date_t

fun exec_topo :: "TopologyCoordinator \<Rightarrow> topo_op \<Rightarrow> TopologyCoordinator option" where
  "exec_topo t (SetMyLastApplied x now rb) = setMyLastAppliedOpTime t x now rb"
| "exec_topo t (SetMyLastDurable x now rb) = setMyLastDurableOpTime t x now rb"
| "exec_topo t (BecomeCandidate now reason) = map_option snd (becomeCandidateIfElectable t now reason)"
| "exec_topo t (WinElection ts) = processWinElection t ts"
| "exec_topo t LoseElection = processLoseElection t"
| "exec_topo t (SetElectionInfo ts) = setElectionInfo t ts"
| "exec_topo t VoteForMyself = Some (voteForMyselfV1 t)"
| "exec_topo t (LoadLastVote v) = Some (loadLastVote t v)"
| "exec_topo t (RequestVotes args) = map_option snd (processReplSetRequestVotes t args)"
| "exec_topo t (UpdateTerm term now) = map_option snd (updateTerm t term now)"
| "exec_topo t PrepareUnconditionalStepDown = map_option snd (prepareForUnconditionalStepDown t)"
| "exec_topo t PrepareStepDownAttempt = map_option snd (prepareForStepDownAttempt t)"
| "exec_topo t (AbortStepDownAttempt m) = abortStepDownAttempt t m"
| "exec_topo t (AttemptStepDown term now waitUntil until force) =
     map_option snd (attemptStepDown t term now waitUntil until force)"
| "exec_topo t FinishStepDown = finishUnconditionalStepDown t"
| "exec_topo t (Freeze now secs) = Some (snd (prepareFreezeResponse t now secs))"
| "exec_topo t (SetFollowerMode m) = setFollowerMode t m"
| "exec_topo t (AdjustMaintenance n) = adjustMaintenanceCountBy t n"
| "exec_topo t (AdvanceCommitted x) = map_option snd (advanceLastCommittedOpTime t x)"
| "exec_topo t UpdateCommitted = map_option snd (updateLastCommittedOpTime t)"
| "exec_topo t (CompleteTransition x) = map_option snd (completeTransitionToPrimary t x)"
| "exec_topo t (UpdateConfig cfg self) = updateConfig t cfg self"
| "exec_topo t (SetReadCommitted b) = Some (setStorageEngineSupportsReadCommitted t b)"
| "exec_topo t (SetForceSyncSource i) = setForceSyncSourceIndex t i"
| "exec_topo t (ChooseSyncSource now x c) = map_option snd (chooseNewSyncSource t now x c)"
| "exec_topo t (SyncFrom h) = map_option snd (prepareSyncFromResponse t h)"
| "exec_topo t (Blacklist h until) = Some (blacklistSyncSource t h until)"
| "exec_topo t (Unblacklist h now) = Some (unblacklistSyncSource t h now)"
| "exec_topo t ClearBlacklist = Some (clearSyncSourceBlacklist t)"
| "exec_topo t (HeartbeatRequest now name h) = map_option snd (prepareHeartbeatRequestV1 t now name h)"
| "exec_topo t (HeartbeatReceived now args name) =
     map_option snd (prepareHeartbeatResponseV1 t now args name ReplSetHeartbeatResponse_new)"
| "exec_topo t (HeartbeatDone now rtt h r x) = map_option snd (processHeartbeatResponse t now rtt h r x)"
| "exec_topo t (CheckTimeouts now) = map_option snd (checkMemberTimeouts t now)"
| "exec_topo t (ResetAllTimeouts now) = Some (resetAllMemberTimeouts t now)"
| "exec_topo t (ResetTimeouts now hs) = Some (resetMemberTimeouts t now hs)"
| "exec_topo t RestartHeartbeats = Some (restartHeartbeats t)"
| "exec_topo t (ReportProgress args now) = map_option snd (setLastOptime t args now)"

text \<open>The contract of the callers; operations that are not listed may be called at any time.\<close>

fun topo_legal :: "TopologyCoordinator \<Rightarrow> topo_op \<Rightarrow> bool" where
  "topo_legal t (SetMyLastApplied x now rb) \<longleftrightarrow>
     rb \<or> opTime_ge x (lastAppliedOpTime (memberData t ! nat (self_slot t)))"
| "topo_legal t (SetMyLastDurable x now rb) \<longleftrightarrow>
     rb \<or> opTime_ge x (lastDurableOpTime (memberData t ! nat (self_slot t)))"
| "topo_legal t (BecomeCandidate now reason) \<longleftrightarrow> selfIndex t \<noteq> - 1"
| "topo_legal t (WinElection ts) \<longleftrightarrow> role t = kCandidate"
| "topo_legal t LoseElection \<longleftrightarrow> role t = kCandidate"
| "topo_legal t (SetElectionInfo ts) \<longleftrightarrow> role t = kLeader"
| "topo_legal t (RequestVotes args) \<longleftrightarrow> vote_legal t args"
| "topo_legal t PrepareUnconditionalStepDown \<longleftrightarrow> leaderMode t \<noteq> kNotLeader"
| "topo_legal t (AbortStepDownAttempt m) \<longleftrightarrow> m = kMaster \<or> m = kLeaderElect"
| "topo_legal t (AttemptStepDown term now waitUntil until force) \<longleftrightarrow>
     (leaderMode t = kMaster \<or> leaderMode t = kLeaderElect \<longrightarrow> topo_term t \<noteq> term)"
| "topo_legal t FinishStepDown \<longleftrightarrow> leaderMode t = kSteppingDown"
| "topo_legal t (SetFollowerMode m) \<longleftrightarrow>
     role t = kFollower \<and> m \<in> {RS_RECOVERING, RS_ROLLBACK, RS_SECONDARY, RS_STARTUP2}"
| "topo_legal t (AdjustMaintenance n) \<longleftrightarrow> role t = kFollower \<and> 0 \<le> maintenanceModeCalls t + n"
| "topo_legal t (UpdateConfig cfg self) \<longleftrightarrow>
     role t \<noteq> kCandidate \<and> - 1 \<le> self \<and> self < getNumMembers cfg \<and> config_ok cfg \<and>
     (configServer cfg \<longrightarrow> storageEngineSupportsReadCommitted t \<noteq> kUnknown)"
| "topo_legal t (SetForceSyncSource i) \<longleftrightarrow> index_ok t i"
| "topo_legal t (HeartbeatDone now rtt h r x) \<longleftrightarrow> heartbeat_legal t h"
| "topo_legal t _ \<longleftrightarrow> True"

lemma unblacklist_step [simp]:
  "topo_inv t \<Longrightarrow> topo_inv (unblacklistSyncSource t h now) \<and> quiet t (unblacklistSyncSource t h now)"
  by (simp add: unblacklistSyncSource_def split: option.splits)

text \<open>The operations that touch neither the term nor the last vote nor the configuration.\<close>

fun plain_op :: "topo_op \<Rightarrow> bool" where
  "plain_op VoteForMyself = False"
| "plain_op (LoadLastVote v) = False"
| "plain_op (RequestVotes args) = False"
| "plain_op (UpdateTerm term now) = False"
| "plain_op (UpdateConfig cfg self) = False"
| "plain_op _ = True"

lemma exec_topo_legal:
  assumes "topo_inv t" and "topo_legal t a"
  shows "\<exists>t'. exec_topo t a = Some t' \<and> topo_inv t' \<and> (plain_op a \<longrightarrow> quiet t t')"
proof (cases a)
  case (SetMyLastApplied x now rb) with assms show ?thesis using setMyLastApplied_step [of t rb x now] by auto
next case (SetMyLastDurable x now rb) with assms show ?thesis using setMyLastDurable_step [of t rb x now] by auto
next case (BecomeCandidate now r) with assms show ?thesis using becomeCandidate_step [of t now r] by auto
next case (WinElection ts) with assms show ?thesis using processWinElection_step [of t ts] by auto
next case LoseElection with assms show ?thesis using processLoseElection_step [of t] by auto
next case (SetElectionInfo ts) with assms show ?thesis using setElectionInfo_step [of t ts] by auto
next case VoteForMyself with assms show ?thesis by (simp add: voteForMyselfV1_def vote_field_inv)
next case (LoadLastVote v) with assms show ?thesis by (simp add: loadLastVote_def vote_field_inv)
next case (RequestVotes args) with assms show ?thesis using requestVotes_step [of t args] by auto
next case (UpdateTerm n now) with assms show ?thesis using updateTerm_step [of t n now] by auto
next case PrepareUnconditionalStepDown with assms show ?thesis using prepareForUnconditionalStepDown_step [of t] by auto
next case PrepareStepDownAttempt with assms show ?thesis using prepareForStepDownAttempt_step [of t] by auto
next case (AbortStepDownAttempt m) with assms show ?thesis using abortStepDownAttempt_step [of t m] by auto
next case (AttemptStepDown n now w u f) with assms show ?thesis using attemptStepDown_step [of t n now w u f] by auto
next case FinishStepDown with assms show ?thesis using finishUnconditionalStepDown_step [of t] by auto
next case (Freeze now n) with assms show ?thesis using prepareFreezeResponse_step [of t now n] by auto
next case (SetFollowerMode m) with assms show ?thesis using setFollowerMode_step [of t m] by auto
next case (AdjustMaintenance n) with assms show ?thesis using adjustMaintenance_step [of t n] by auto
next case (AdvanceCommitted x) with assms show ?thesis using advanceLastCommitted_step [of t x] by auto
next case UpdateCommitted with assms show ?thesis using updateLastCommitted_step [of t] by auto
next case (CompleteTransition x) with assms show ?thesis using completeTransition_step [of t x] by auto
next case (UpdateConfig cfg n) with assms show ?thesis using updateConfig_step [of t n cfg] by auto
next case (SetReadCommitted b) with assms show ?thesis
    by (auto simp: setStorageEngineSupportsReadCommitted_def topo_frame quiet_def)
next case (SetForceSyncSource i) with assms show ?thesis using setForceSyncSourceIndex_step [of t i] by auto
next case (ChooseSyncSource now x c) with assms show ?thesis using chooseNewSyncSource_step [of t now x c] by auto
next case (SyncFrom h) with assms show ?thesis using prepareSyncFrom_step [of t h] by auto
next case (Blacklist h u) with assms show ?thesis by (simp add: blacklistSyncSource_def)
next case (Unblacklist h now) with assms show ?thesis by simp
next case ClearBlacklist with assms show ?thesis by (simp add: clearSyncSourceBlacklist_def)
next case (HeartbeatRequest now n h) with assms show ?thesis using prepareHeartbeatRequest_step [of t now n h] by auto
next case (HeartbeatReceived now args n) with assms show ?thesis
    using prepareHeartbeatResponse_step [of t now args n ReplSetHeartbeatResponse_new] by auto
next case (HeartbeatDone now n h r x) with assms show ?thesis using processHeartbeat_step [of t h now n r x] by auto
next case (CheckTimeouts now) with assms show ?thesis using checkMemberTimeouts_step [of t now] by auto
next case (ResetAllTimeouts now) with assms show ?thesis using resetAll_step [of t now] by auto
next case (ResetTimeouts now hs) with assms show ?thesis using resetSome_step [of t now hs] by auto
next case RestartHeartbeats with assms show ?thesis using restart_step [of t] by auto
next case (ReportProgress args now) with assms show ?thesis using setLastOptime_step [of t args now] by auto
qed

interpretation tpc: operation_system exec_topo topo_legal topo_inv
  by unfold_locales (use exec_topo_legal in blast)

lemma topo_inv_new: "topo_inv (TopologyCoordinator_new opts)"
  by (simp add: topo_frame TopologyCoordinator_new_def ReplSetConfig_new_def)

end
