(* ===== verification/Vote_Requester.thy ===== *)
theory Vote_Requester
  imports Topology
begin

text \<open>
  Class VoteRequester::Algorithm of db/repl/vote_requester.h and vote_requester.cpp: a candidate asks
  all voting members for their votes and counts the answers. Sending and receiving is the work of the
  scatter-gather runner; here the answers arrive in any order as calls of \<open>processResponse\<close>.
\<close>

datatype PrimaryVote = PrimaryPending | PrimaryYes | PrimaryNo

datatype VoteResult = kSuccessfullyElected | kStaleTerm | kInsufficientVotes | kPrimaryRespondedNo

record VoteRequester =
  vr_rsConfig :: ReplSetConfig
  vr_candidateIndex :: int
  vr_term :: int
  vr_dryRun :: bool
  vr_lastDurableOpTime :: OpTime
  vr_targets :: "HostAndPort list"
  vr_responders :: "HostAndPort list"
  vr_staleTerm :: bool
  vr_responsesProcessed :: int
  vr_votes :: int
  vr_primaryHost :: "HostAndPort option"
  vr_primaryVote :: PrimaryVote

fun vote_targets :: "int \<Rightarrow> int \<Rightarrow> MemberConfig list \<Rightarrow> HostAndPort list" where
  "vote_targets candidateIndex i [] = []"
| "vote_targets candidateIndex i (m # ms) =
     (if isVoter m \<and> i \<noteq> candidateIndex then [member_host m] else []) @ vote_targets candidateIndex (i + 1) ms"

definition VoteRequester_new ::
  "ReplSetConfig \<Rightarrow> int \<Rightarrow> int \<Rightarrow> bool \<Rightarrow> OpTime \<Rightarrow> int \<Rightarrow> VoteRequester" where
  "VoteRequester_new cfg candidateIndex term dryRun lastDurable primaryIndex =
     \<lparr>vr_rsConfig = cfg, vr_candidateIndex = candidateIndex, vr_term = term, vr_dryRun = dryRun,
      vr_lastDurableOpTime = lastDurable, vr_targets = vote_targets candidateIndex 0 (cfg_members cfg),
      vr_responders = [], vr_staleTerm = False, vr_responsesProcessed = 0, vr_votes = 1,
      vr_primaryHost = map_option member_host (vec_at (cfg_members cfg) primaryIndex),
      vr_primaryVote = PrimaryPending\<rparr>"

definition vote_request_args :: "VoteRequester \<Rightarrow> ReplSetRequestVotesArgs" where
  "vote_request_args vr =
     \<lparr>args_setName = replSetName (vr_rsConfig vr), args_term = vr_term vr,
      args_candidateIndex = vr_candidateIndex vr, args_cfgver = cfg_version (vr_rsConfig vr),
      args_lastDurableOpTime = vr_lastDurableOpTime vr, args_dryRun = vr_dryRun vr\<rparr>"

definition getRequests :: "VoteRequester \<Rightarrow> (HostAndPort \<times> ReplSetRequestVotesArgs \<times> int) list" where
  "getRequests vr =
     map (\<lambda>h. (h, vote_request_args vr, min (electionTimeoutPeriod (vr_rsConfig vr)) 30000)) (vr_targets vr)"

text \<open>No answer, an answer that reports an error or is malformed, and the answer of the member.\<close>

datatype VoteReply = VoteFailed | VoteInvalid | VoteAnswer ReplSetRequestVotesResponse

definition processResponse :: "VoteRequester \<Rightarrow> HostAndPort \<Rightarrow> VoteReply \<Rightarrow> VoteRequester" where
  "processResponse vr target reply =
     (let vr = vr\<lparr>vr_responsesProcessed := vr_responsesProcessed vr + 1\<rparr> in
      case reply of
        VoteFailed \<Rightarrow> vr
      | _ \<Rightarrow>
          (let fromPrimary = (case vr_primaryHost vr of Some h \<Rightarrow> host_eq h target | None \<Rightarrow> False);
               vr = vr\<lparr>vr_responders := (if list_ex (host_eq target) (vr_responders vr) then vr_responders vr
                                         else target # vr_responders vr)\<rparr>;
               vr = (if fromPrimary then vr\<lparr>vr_primaryVote := PrimaryNo\<rparr> else vr)
           in case reply of
                VoteAnswer r \<Rightarrow>
                  (let vr = (if voteGranted r
                             then (if fromPrimary then vr\<lparr>vr_primaryVote := PrimaryYes\<rparr> else vr)
                                    \<lparr>vr_votes := vr_votes vr + 1\<rparr>
                             else vr)
                   in if response_term r > vr_term vr then vr\<lparr>vr_staleTerm := True\<rparr> else vr)
              | _ \<Rightarrow> vr))"

definition hasReceivedSufficientResponses :: "VoteRequester \<Rightarrow> bool" where
  "hasReceivedSufficientResponses vr \<longleftrightarrow>
     (if vr_primaryHost vr \<noteq> None \<and> vr_primaryVote vr = PrimaryNo then True
      else if vr_primaryHost vr \<noteq> None \<and> vr_primaryVote vr = PrimaryPending then False
      else vr_staleTerm vr \<or> vr_votes vr \<ge> majorityVoteCount (vr_rsConfig vr) \<or>
        vr_responsesProcessed vr = int (length (vr_targets vr)))"

definition getResult :: "VoteRequester \<Rightarrow> VoteResult" where
  "getResult vr =
     (if vr_staleTerm vr then kStaleTerm
      else if vr_primaryHost vr \<noteq> None \<and> vr_primaryVote vr \<noteq> PrimaryYes then kPrimaryRespondedNo
      else if vr_votes vr \<ge> majorityVoteCount (vr_rsConfig vr) then kSuccessfullyElected
      else kInsufficientVotes)"

definition processResponses :: "VoteRequester \<Rightarrow> (HostAndPort \<times> VoteReply) list \<Rightarrow> VoteRequester" where
  "processResponses vr rs = fold (\<lambda>(target, reply) vr. processResponse vr target reply) rs vr"

subsection \<open>What the answers decide\<close>

fun yes_reply :: "VoteReply \<Rightarrow> bool" where
  "yes_reply (VoteAnswer r) = voteGranted r"
| "yes_reply _ = False"

lemma processResponse_fields [simp]:
  "vr_rsConfig (processResponse vr h r) = vr_rsConfig vr"
  "vr_term (processResponse vr h r) = vr_term vr"
  "vr_candidateIndex (processResponse vr h r) = vr_candidateIndex vr"
  "vr_primaryHost (processResponse vr h r) = vr_primaryHost vr"
  "vr_targets (processResponse vr h r) = vr_targets vr"
  "vr_responsesProcessed (processResponse vr h r) = vr_responsesProcessed vr + 1"
  "vr_votes (processResponse vr h r) = vr_votes vr + (if yes_reply r then 1 else 0)"
  by (cases r; simp add: processResponse_def Let_def)+

lemma processResponses_Nil [simp]: "processResponses vr [] = vr"
  by (simp add: processResponses_def)

lemma processResponses_Cons [simp]:
  "processResponses vr ((h, r) # rs) = processResponses (processResponse vr h r) rs"
  by (simp add: processResponses_def)

lemma processResponses_fields [simp]:
  "vr_rsConfig (processResponses vr rs) = vr_rsConfig vr"
  "vr_primaryHost (processResponses vr rs) = vr_primaryHost vr"
  "vr_targets (processResponses vr rs) = vr_targets vr"
  "vr_responsesProcessed (processResponses vr rs) = vr_responsesProcessed vr + int (length rs)"
  "vr_votes (processResponses vr rs) = vr_votes vr + int (length (filter (\<lambda>(_, r). yes_reply r) rs))"
  by (induction rs arbitrary: vr) auto

text \<open>The candidate is elected only if its own vote and the votes that were granted are a majority.\<close>

lemma elected_votes:
  assumes "getResult (processResponses (VoteRequester_new cfg c term dry x p) rs) = kSuccessfullyElected"
  shows "1 + int (length (filter (\<lambda>(_, r). yes_reply r) rs)) \<ge> majorityVoteCount cfg"
  using assms by (auto simp: getResult_def VoteRequester_new_def split: if_splits)

text \<open>Once every voting member has answered or failed to, the count is complete, unless the primary is awaited.\<close>

lemma all_answers_suffice:
  assumes "length rs = length (vote_targets c 0 (cfg_members cfg))"
  shows "hasReceivedSufficientResponses (processResponses (VoteRequester_new cfg c term dry x (- 1)) rs)"
  using assms by (simp add: hasReceivedSufficientResponses_def VoteRequester_new_def vec_at_def)

lemma vote_targets_mem:
  "h \<in> set (vote_targets c i ms) \<longleftrightarrow> (\<exists>k < length ms. isVoter (ms ! k) \<and> i + int k \<noteq> c \<and> h = member_host (ms ! k))"
proof (induction ms arbitrary: i)
  case (Cons m ms)
  have "(\<exists>k < length (m # ms). isVoter ((m # ms) ! k) \<and> i + int k \<noteq> c \<and> h = member_host ((m # ms) ! k)) \<longleftrightarrow>
      isVoter m \<and> i \<noteq> c \<and> h = member_host m \<or>
      (\<exists>k < length ms. isVoter (ms ! k) \<and> i + 1 + int k \<noteq> c \<and> h = member_host (ms ! k))"
    by (simp add: Ex_less_Suc2 algebra_simps)
  then show ?case using Cons.IH [of "i + 1"] by auto
qed simp

end
