(* ===== verification/Repl_Coordinator.thy ===== *)
theory Repl_Coordinator
  imports Vote_Requester Topology_Heartbeat
begin

text \<open>
  The part of class ReplicationCoordinatorImpl that runs elections: db/repl/replication_coordinator_impl.cpp
  (terms, requests for votes, winning), replication_coordinator_impl_elect_v1.cpp (the steps of an election)
  and replication_coordinator_impl_heartbeat.cpp (the end of a step down), with the last vote document of
  replication_coordinator_external_state_impl.cpp. Each definition is a section of code that holds the
  mutex of the coordinator; the executor calls the callbacks between them in any interleaving. The
  configuration and the own index are the copies in the topology coordinator. Events, timers and the
  shutdown of the executor are not part of the model.
\<close>

record ReplCoord =
  rc_topo :: TopologyCoordinator
  rc_pendingTerm :: "int option"
  rc_voteRequester :: "VoteRequester option"
  rc_lastVoteDoc :: "LastVote option"
  rc_configSteady :: bool

subsection \<open>Terms\<close>

text \<open>The second answer says whether a step down was started, whose end the caller can wait for.\<close>

definition updateTerm_inlock ::
  "ReplCoord \<Rightarrow> int \<Rightarrow> Date_t \<Rightarrow> ((UpdateTermResult \<times> bool) \<times> ReplCoord) option" where
  "updateTerm_inlock n term now = do {
     (result, t) \<leftarrow> updateTerm (rc_topo n) term now;
     let n = n\<lparr>rc_topo := t\<rparr>;
     if result = kTriggerStepDown then do {
       let n = (case rc_pendingTerm n of
                  None \<Rightarrow> n\<lparr>rc_pendingTerm := Some term\<rparr>
                | Some p \<Rightarrow> if p < term then n\<lparr>rc_pendingTerm := Some term\<rparr> else n);
       (started, t) \<leftarrow> prepareForUnconditionalStepDown (rc_topo n);
       Some ((result, started), n\<lparr>rc_topo := t\<rparr>)
     } else Some ((result, False), n)
   }"

definition stepDownFinish :: "ReplCoord \<Rightarrow> Date_t \<Rightarrow> ReplCoord option" where
  "stepDownFinish n now = do {
     t \<leftarrow> finishUnconditionalStepDown (rc_topo n);
     let n = n\<lparr>rc_topo := t\<rparr>;
     case rc_pendingTerm n of
       None \<Rightarrow> Some n
     | Some term \<Rightarrow> do {
         ((result, _), n) \<leftarrow> updateTerm_inlock n term now;
         invariant (result \<noteq> kTriggerStepDown);
         Some (n\<lparr>rc_pendingTerm := None\<rparr>)
       }
   }"

subsection \<open>Votes\<close>

definition storeLocalLastVoteDocument :: "ReplCoord \<Rightarrow> LastVote \<Rightarrow> ReplCoord" where
  "storeLocalLastVoteDocument n v =
     (case rc_lastVoteDoc n of
        None \<Rightarrow> n\<lparr>rc_lastVoteDoc := Some v\<rparr>
      | Some old \<Rightarrow> if vote_term v > vote_term old then n\<lparr>rc_lastVoteDoc := Some v\<rparr> else n)"

text \<open>
  The handler of a request for votes after it has updated the term and, if this node started to step
  down because of it, waited for the end of the step down. \<open>stored\<close> is whether a write of the document
  succeeds; if it fails the candidate gets an error instead of the response.
\<close>

definition processVoteRequest ::
  "ReplCoord \<Rightarrow> ReplSetRequestVotesArgs \<Rightarrow> bool \<Rightarrow> (ReplSetRequestVotesResponse option \<times> ReplCoord) option" where
  "processVoteRequest n args stored = do {
     (r, t) \<leftarrow> processReplSetRequestVotes (rc_topo n) args;
     let n = n\<lparr>rc_topo := t\<rparr>;
     Some (if \<not> args_dryRun args \<and> voteGranted r then
             (if stored
              then (Some r, storeLocalLastVoteDocument n
                      \<lparr>vote_term = args_term args, vote_candidateIndex = args_candidateIndex args\<rparr>)
              else (None, n))
           else (Some r, n))
   }"

subsection \<open>The steps of an election\<close>

text \<open>What the guards LoseElectionGuardV1 do unless they are dismissed.\<close>

definition lose_election :: "ReplCoord \<Rightarrow> ReplCoord option" where
  "lose_election n = do {
     t \<leftarrow> processLoseElection (rc_topo n);
     Some (n\<lparr>rc_topo := t, rc_voteRequester := None\<rparr>)
   }"

definition startRealElection_inlock :: "ReplCoord \<Rightarrow> int \<Rightarrow> Date_t \<Rightarrow> ReplCoord option" where
  "startRealElection_inlock n newTerm now = do {
     ((result, _), n) \<leftarrow> updateTerm_inlock n newTerm now;
     invariant (result = kUpdatedTerm);
     Some (n\<lparr>rc_topo := voteForMyselfV1 (rc_topo n)\<rparr>)
   }"

definition startElectSelfV1_inlock :: "ReplCoord \<Rightarrow> StartElectionReason \<Rightarrow> Date_t \<Rightarrow> ReplCoord option" where
  "startElectSelfV1_inlock n reason now = do {
     let t = rc_topo n;
     invariant (rc_voteRequester n = None);
     if \<not> rc_configSteady n then do {
       t \<leftarrow> processLoseElection t;
       Some (n\<lparr>rc_topo := t\<rparr>)
     } else do {
       me \<leftarrow> selfConfig t;
       invariant (isElectable me);
       lastOpTime \<leftarrow> getMyLastAppliedOpTime t;
       if opTime_eq lastOpTime OpTime_null then lose_election n
       else if reason = kStepUpRequestSkipDryRun then startRealElection_inlock n (topo_term t + 1) now
       else do {
         let primaryIndex = (if reason = kCatchupTakeover then currentPrimaryIndex t else - 1);
         Some (n\<lparr>rc_voteRequester :=
           Some (VoteRequester_new (rsConfig t) (selfIndex t) (topo_term t) True lastOpTime primaryIndex)\<rparr>)
       }
     }
   }"

definition processDryRunResult :: "ReplCoord \<Rightarrow> int \<Rightarrow> Date_t \<Rightarrow> ReplCoord option" where
  "processDryRunResult n originalTerm now = do {
     vr \<leftarrow> rc_voteRequester n;
     if topo_term (rc_topo n) \<noteq> originalTerm then lose_election n
     else if getResult vr \<noteq> kSuccessfullyElected then lose_election n
     else startRealElection_inlock n (originalTerm + 1) now
   }"

definition startVoteRequester_inlock :: "ReplCoord \<Rightarrow> int \<Rightarrow> ReplCoord option" where
  "startVoteRequester_inlock n newTerm = do {
     let t = rc_topo n;
     lastOpTime \<leftarrow> getMyLastAppliedOpTime t;
     Some (n\<lparr>rc_voteRequester :=
       Some (VoteRequester_new (rsConfig t) (selfIndex t) newTerm False lastOpTime (- 1))\<rparr>)
   }"

text \<open>\<open>stored\<close> is whether the write of the document succeeded.\<close>

definition writeLastVoteForMyElection :: "ReplCoord \<Rightarrow> LastVote \<Rightarrow> bool \<Rightarrow> ReplCoord option" where
  "writeLastVoteForMyElection n vote stored = do {
     let n = (if stored then storeLocalLastVoteDocument n vote else n);
     if \<not> stored then lose_election n
     else if topo_term (rc_topo n) \<noteq> vote_term vote then lose_election n
     else startVoteRequester_inlock n (vote_term vote)
   }"

definition processVoteResponse :: "ReplCoord \<Rightarrow> HostAndPort \<Rightarrow> VoteReply \<Rightarrow> ReplCoord" where
  "processVoteResponse n target reply =
     n\<lparr>rc_voteRequester := map_option (\<lambda>vr. processResponse vr target reply) (rc_voteRequester n)\<rparr>"

text \<open>The answer True is the action kActionWinElection, which runs after the mutex was released.\<close>

definition onVoteRequestComplete :: "ReplCoord \<Rightarrow> int \<Rightarrow> Date_t \<Rightarrow> (bool \<times> ReplCoord) option" where
  "onVoteRequestComplete n newTerm now = do {
     vr \<leftarrow> rc_voteRequester n;
     if topo_term (rc_topo n) \<noteq> newTerm then map_option (Pair False) (lose_election n)
     else do {
       invariant (getResult vr \<noteq> kPrimaryRespondedNo);
       if getResult vr \<noteq> kSuccessfullyElected then map_option (Pair False) (lose_election n)
       else Some (True, n\<lparr>rc_topo := resetMemberTimeouts (rc_topo n) now (vr_responders vr),
                          rc_voteRequester := None\<rparr>)
     }
   }"

definition winElection :: "ReplCoord \<Rightarrow> Timestamp \<Rightarrow> ReplCoord option" where
  "winElection n ts = do {
     invariant (topo_term (rc_topo n) \<noteq> kUninitializedTerm);
     t \<leftarrow> processWinElection (rc_topo n) ts;
     Some (n\<lparr>rc_topo := t\<rparr>)
   }"

subsection \<open>Restart\<close>

text \<open>
  The part of startup, _startLoadLocalConfig and _finishLoadLocalConfig that restores the vote and the
  term: the term is the greater one of the last entry of the oplog and the last vote. A node that starts
  is not primary, so setting its optimes leaves the commit point alone. Whether the storage engine
  supports read committed is the argument \<open>supported\<close>.
\<close>

definition loadLocalState ::
  "TopologyOptions \<Rightarrow> bool \<Rightarrow> LastVote option \<Rightarrow> ReplSetConfig \<Rightarrow> int \<Rightarrow> OpTime \<Rightarrow> Date_t \<Rightarrow> ReplCoord option" where
  "loadLocalState opts supported doc cfg self lastOpTime now = do {
     let t = setStorageEngineSupportsReadCommitted (TopologyCoordinator_new opts) supported;
     let t = (case doc of Some v \<Rightarrow> loadLastVote t v | None \<Rightarrow> t);
     let term = (case doc of Some v \<Rightarrow> max (getTerm lastOpTime) (vote_term v) | None \<Rightarrow> getTerm lastOpTime);
     t \<leftarrow> updateConfig t cfg self;
     t \<leftarrow> (if \<not> opTime_isNull lastOpTime then do {
            t \<leftarrow> setMyLastAppliedOpTime t lastOpTime now False;
            setMyLastDurableOpTime t lastOpTime now False
          } else Some t);
     ((_, _), n) \<leftarrow> updateTerm_inlock
       \<lparr>rc_topo = t, rc_pendingTerm = None, rc_voteRequester = None, rc_lastVoteDoc = doc, rc_configSteady = True\<rparr>
       term now;
     Some n
   }"

end
