(* ===== verification/Elections.thy ===== *)
theory Elections
  imports Topology_Safety Repl_Coordinator
begin

text \<open>
  Elections among several nodes: the votes a node casts over its life, restarts included, and why
  two candidates cannot both win an election in the same term.
\<close>

subsection \<open>Quorums\<close>

text \<open>Two families of sets of members such that a set of the one meets every set of the other.\<close>

locale quorum_pair =
  fixes P :: "nat set \<Rightarrow> bool" and Q :: "nat set \<Rightarrow> bool"
  assumes quorums_meet: "P A \<Longrightarrow> Q B \<Longrightarrow> A \<inter> B \<noteq> {}"
begin

lemma common_member:
  assumes "P A" and "Q B" and "\<And>v. v \<in> A \<Longrightarrow> R v" and "\<And>v. v \<in> B \<Longrightarrow> S v"
  shows "\<exists>v. R v \<and> S v"
proof -
  obtain v where "v \<in> A" "v \<in> B" using quorums_meet [OF assms(1,2)] by blast
  then show ?thesis using assms(3,4) by metis
qed

lemma one_choice:
  assumes "P A" and "Q B" and "\<And>v. v \<in> A \<Longrightarrow> chosen v x" and "\<And>v. v \<in> B \<Longrightarrow> chosen v y"
    and "\<And>v x y. chosen v x \<Longrightarrow> chosen v y \<Longrightarrow> x = y"
  shows "x = y"
proof -
  obtain v where v: "v \<in> A" "v \<in> B" using quorums_meet [OF assms(1,2)] by blast
  show ?thesis by (rule assms(5) [OF assms(3) [OF v(1)] assms(4) [OF v(2)]])
qed

end

definition voters :: "ReplSetConfig \<Rightarrow> nat set" where
  "voters cfg = {v. v < length (cfg_members cfg) \<and> isVoter (cfg_members cfg ! v)}"

definition data_voters :: "ReplSetConfig \<Rightarrow> nat set" where
  "data_voters cfg = {v. v < length (cfg_members cfg) \<and> isVoter (cfg_members cfg ! v) \<and> \<not> arbiterOnly (cfg_members cfg ! v)}"

definition election_quorum :: "ReplSetConfig \<Rightarrow> nat set \<Rightarrow> bool" where
  "election_quorum cfg A \<longleftrightarrow> config_ok cfg \<and> A \<subseteq> voters cfg \<and> int (card A) \<ge> majorityVoteCount cfg"

definition write_quorum :: "ReplSetConfig \<Rightarrow> nat set \<Rightarrow> bool" where
  "write_quorum cfg B \<longleftrightarrow> config_ok cfg \<and> B \<subseteq> data_voters cfg \<and> int (card B) \<ge> writeMajority cfg"

lemma finite_voters [simp]: "finite (voters cfg)" "finite (data_voters cfg)"
  by (simp_all add: voters_def data_voters_def)

lemma card_members: "card {v. v < length ms \<and> P (ms ! v)} = length (filter P ms)"
  using length_filter_conv_card [of P ms] by simp

lemma card_voters: "card (voters cfg) = count_members isVoter cfg"
  by (simp add: voters_def count_members_def card_members)

lemma card_data_voters: "card (data_voters cfg) = count_members (\<lambda>m. isVoter m \<and> \<not> arbiterOnly m) cfg"
  using card_members [of "cfg_members cfg" "\<lambda>m. isVoter m \<and> \<not> arbiterOnly m"]
  by (simp add: data_voters_def count_members_def)

lemma large_sets_meet:
  assumes "finite E" and "A \<subseteq> E" and "B \<subseteq> E" and "card E < card A + card B"
  shows "A \<inter> B \<noteq> {}"
proof
  assume "A \<inter> B = {}"
  then have "card (A \<union> B) = card A + card B"
    using assms(1-3) by (meson card_Un_disjoint finite_subset)
  then show False using card_mono [OF assms(1), of "A \<union> B"] assms(2-4) by simp
qed

interpretation eq: quorum_pair "election_quorum cfg" "election_quorum cfg" for cfg
proof
  fix A B
  assume "election_quorum cfg A" and "election_quorum cfg B"
  then have "card (voters cfg) < card A + card B" "A \<subseteq> voters cfg" "B \<subseteq> voters cfg"
    using config_majorities(4) [of cfg] by (auto simp: election_quorum_def card_voters)
  then show "A \<inter> B \<noteq> {}" using large_sets_meet [of "voters cfg"] by simp
qed

text \<open>
  A majority of the votes meets every set of members that can acknowledge a majority write, provided
  that it contains a member with data, such as the candidate. With many arbiters a write needs less than
  a majority of the voters, but then it needs all voters with data.
\<close>

definition data_election_quorum :: "ReplSetConfig \<Rightarrow> nat set \<Rightarrow> bool" where
  "data_election_quorum cfg A \<longleftrightarrow> election_quorum cfg A \<and> A \<inter> data_voters cfg \<noteq> {}"

interpretation wq: quorum_pair "data_election_quorum cfg" "write_quorum cfg" for cfg
proof
  fix A B
  assume A: "data_election_quorum cfg A" and B: "write_quorum cfg B"
  have ok: "config_ok cfg" using B by (simp add: write_quorum_def)
  have sub: "A \<subseteq> voters cfg" "B \<subseteq> data_voters cfg" "data_voters cfg \<subseteq> voters cfg"
    using A B by (auto simp: data_election_quorum_def election_quorum_def write_quorum_def data_voters_def voters_def)
  show "A \<inter> B \<noteq> {}"
  proof (cases "writeMajority cfg = majorityVoteCount cfg")
    case True
    then have "card (voters cfg) < card A + card B"
      using A B config_majorities(4) [OF ok]
      by (auto simp: data_election_quorum_def election_quorum_def write_quorum_def card_voters)
    then show ?thesis using large_sets_meet [of "voters cfg"] sub by (metis finite_voters(1) subset_trans)
  next
    case False
    then have "int (card (data_voters cfg)) \<le> writeMajority cfg"
      using ok config_voters(1) [OF ok] by (auto simp: config_ok_def card_data_voters min_def split: if_splits)
    then have "card (data_voters cfg) \<le> card B" using B by (simp add: write_quorum_def)
    then have "B = data_voters cfg" using sub(2) by (meson card_seteq finite_voters(2))
    then show ?thesis using A by (auto simp: data_election_quorum_def)
  qed
qed

subsection \<open>The life of a node\<close>

text \<open>
  A node with the vote for itself that it still has to write down, and the votes that became
  effective: granted to another candidate, or for itself once it is on disk and requests go out.
\<close>

record election_node =
  en_coord :: ReplCoord
  en_scheduled :: "LastVote option"
  en_ballots :: "(int \<times> int) list"

datatype repl_op =
  TopoStep topo_op | LearnTerm int Date_t | EndStepDown Date_t | VoteRequest ReplSetRequestVotesArgs bool
  | StartElection StartElectionReason Date_t | DryRunDone int Date_t | WriteVote bool
  | VoteArrived HostAndPort VoteReply | VotesComplete int Date_t | Win Timestamp
  | Restart TopologyOptions bool OpTime Date_t

abbreviation en_topo :: "election_node \<Rightarrow> TopologyCoordinator" where
  "en_topo e \<equiv> rc_topo (en_coord e)"

text \<open>The vote for itself that an election step scheduled for writing, if it got that far.\<close>

definition schedule_vote :: "election_node \<Rightarrow> ReplCoord \<Rightarrow> election_node" where
  "schedule_vote e n =
     e\<lparr>en_coord := n,
       en_scheduled := (if lastVote (rc_topo n) = lastVote (en_topo e) then None else Some (lastVote (rc_topo n)))\<rparr>"

fun exec_repl :: "election_node \<Rightarrow> repl_op \<Rightarrow> election_node option" where
  "exec_repl e (TopoStep a) = do {
     t \<leftarrow> exec_topo (en_topo e) a;
     Some (e\<lparr>en_coord := (en_coord e)\<lparr>rc_topo := t\<rparr>\<rparr>)
   }"
| "exec_repl e (LearnTerm term now) = do {
     (_, n) \<leftarrow> updateTerm_inlock (en_coord e) term now;
     Some (e\<lparr>en_coord := n\<rparr>)
   }"
| "exec_repl e (EndStepDown now) = do {
     n \<leftarrow> stepDownFinish (en_coord e) now;
     Some (e\<lparr>en_coord := n\<rparr>)
   }"
| "exec_repl e (VoteRequest args stored) = do {
     (r, n) \<leftarrow> processVoteRequest (en_coord e) args stored;
     Some (e\<lparr>en_coord := n,
             en_ballots := (if (case r of Some r \<Rightarrow> voteGranted r | None \<Rightarrow> False) \<and> \<not> args_dryRun args
                            then (args_term args, args_candidateIndex args) # en_ballots e else en_ballots e)\<rparr>)
   }"
| "exec_repl e (StartElection reason now) = do {
     n \<leftarrow> startElectSelfV1_inlock (en_coord e) reason now;
     Some (schedule_vote e n)
   }"
| "exec_repl e (DryRunDone term now) = do {
     n \<leftarrow> processDryRunResult (en_coord e) term now;
     Some (schedule_vote e n)
   }"
| "exec_repl e (WriteVote stored) = do {
     v \<leftarrow> en_scheduled e;
     n \<leftarrow> writeLastVoteForMyElection (en_coord e) v stored;
     Some (e\<lparr>en_coord := n, en_scheduled := None,
             en_ballots := (if rc_voteRequester n \<noteq> None then (vote_term v, vote_candidateIndex v) # en_ballots e
                            else en_ballots e)\<rparr>)
   }"
| "exec_repl e (VoteArrived h reply) = Some (e\<lparr>en_coord := processVoteResponse (en_coord e) h reply\<rparr>)"
| "exec_repl e (VotesComplete term now) = do {
     (_, n) \<leftarrow> onVoteRequestComplete (en_coord e) term now;
     Some (e\<lparr>en_coord := n\<rparr>)
   }"
| "exec_repl e (Win ts) = do {
     n \<leftarrow> winElection (en_coord e) ts;
     Some (e\<lparr>en_coord := n\<rparr>)
   }"
| "exec_repl e (Restart opts supported lastOpTime now) = do {
     n \<leftarrow> loadLocalState opts supported (rc_lastVoteDoc (en_coord e)) (rsConfig (en_topo e)) (selfIndex (en_topo e))
            lastOpTime now;
     Some (e\<lparr>en_coord := n, en_scheduled := None\<rparr>)
   }"

text \<open>
  The contract: a request for votes is judged after the node has learned its term, elections do not
  overlap, and the operations of the topology coordinator keep theirs.
\<close>

fun repl_legal :: "election_node \<Rightarrow> repl_op \<Rightarrow> bool" where
  "repl_legal e (TopoStep a) \<longleftrightarrow> plain_op a \<and> topo_legal (en_topo e) a"
| "repl_legal e (VoteRequest args stored) \<longleftrightarrow> vote_legal (en_topo e) args \<and> args_term args \<le> topo_term (en_topo e)"
| "repl_legal e (StartElection reason now) \<longleftrightarrow> en_scheduled e = None \<and> exec_repl e (StartElection reason now) \<noteq> None"
| "repl_legal e (DryRunDone term now) \<longleftrightarrow> en_scheduled e = None \<and> exec_repl e (DryRunDone term now) \<noteq> None"
| "repl_legal e (Restart opts supported lastOpTime now) \<longleftrightarrow>
     selfIndex (en_topo e) \<noteq> - 1 \<and> exec_repl e (Restart opts supported lastOpTime now) \<noteq> None"
| "repl_legal e a \<longleftrightarrow> exec_repl e a \<noteq> None"

end
