(* ===== verification/Majority_Mode.thy ===== *)
theory Majority_Mode
  imports Repl_Config_Init Elections
begin

text \<open>
  What an initialized configuration guarantees: its majorities, and that the internal write concern mode
  for majorities, which counts tags, counts the voting members with data.
\<close>

subsection \<open>Decimal numbers\<close>

definition read_nat :: "string \<Rightarrow> nat" where
  "read_nat s = foldl (\<lambda>a c. 10 * a + (of_char c - 48)) 0 s"

lemma read_show_nat: "read_nat (show_nat n) = n"
proof (induction n rule: show_nat.induct)
  case (1 n)
  have digit: "of_char (char_of (k + 48) :: char) = k + 48" if "k < 10" for k :: nat using that by simp
  show ?case
  proof (cases "n < 10")
    case True
    then show ?thesis by (subst show_nat.simps) (simp add: read_nat_def digit)
  next
    case False
    then have "read_nat (show_nat n) = 10 * read_nat (show_nat (n div 10)) + (of_char (char_of (n mod 10 + 48) :: char) - 48)"
      by (subst show_nat.simps) (simp add: read_nat_def)
    moreover have "n mod 10 < 10" by simp
    ultimately show ?thesis using 1 [OF False] digit [of "n mod 10"] by simp
  qed
qed

lemma show_int_inj: "0 \<le> i \<Longrightarrow> 0 \<le> j \<Longrightarrow> show_int i = show_int j \<longleftrightarrow> i = j"
  unfolding show_int_def by (simp, metis read_show_nat eq_nat_nat_iff)

subsection \<open>Initialized configurations\<close>

lemma add_write_mode_fields [simp]:
  "cfg_members (add_write_mode name key n cfg) = cfg_members cfg"
  "tagConfig (add_write_mode name key n cfg) = tagConfig cfg"
  "writeMajority (add_write_mode name key n cfg) = writeMajority cfg"
  "majorityVoteCount (add_write_mode name key n cfg) = majorityVoteCount cfg"
  "totalVotingMembers (add_write_mode name key n cfg) = totalVotingMembers cfg"
  by (simp_all add: add_write_mode_def split: option.splits)

lemma add_write_mode_find:
  "findCustomWriteMode (add_write_mode name key n cfg) name' =
     (if name' = name \<and> key \<in> fst ` set (tagConfig cfg)
      then Some [\<lparr>con_keyIndex = int (findKeyIndex (tagConfig cfg) key), con_minCount = n\<rparr>]
      else findCustomWriteMode cfg name')"
  by (auto simp: add_write_mode_def addTagCountConstraintToPattern_def Let_def findKeyIndex_absent findCustomWriteMode_def
      update_conv')

lemma initialize_config_fields:
  assumes "initialize_members raw (tagConfig cfg) = (ms, td)"
  shows "cfg_isInitialized (initialize_config raw cfg)" and "cfg_members (initialize_config raw cfg) = ms"
    and "tagConfig (initialize_config raw cfg) = td"
    and "totalVotingMembers (initialize_config raw cfg) = int (length (filter isVoter ms))"
    and "majorityVoteCount (initialize_config raw cfg) = int (length (filter isVoter ms)) div 2 + 1"
    and "writeMajority (initialize_config raw cfg) =
      min (int (length (filter isVoter ms)) div 2 + 1) (int (length (filter isVoter ms)) - int (length (filter arbiterOnly ms)))"
    and "''$voter'' \<in> fst ` set td \<Longrightarrow> findCustomWriteMode (initialize_config raw cfg) kMajorityWriteConcernModeName =
      Some [\<lparr>con_keyIndex = int (findKeyIndex td ''$voter''), con_minCount = writeMajority (initialize_config raw cfg)\<rparr>]"
  using assms add_write_mode_find
  by (simp_all add: initialize_config_def addInternalWriteConcernModes_def calculateMajorities_def Let_def count_members_def
      findCustomWriteMode_def kMajorityWriteConcernModeName_def)

lemma labelled_iff:
  "labelled td ts ls \<longleftrightarrow> length ts = length ls \<and> (\<forall>i < length ls. tag_is td (ts ! i) (fst (ls ! i)) (snd (ls ! i)))"
  by (auto simp: labelled_def list_all2_conv_all_nth split_beta)

lemma labelled_tag:
  assumes "labelled td ts ls" and "t \<in> set ts"
  shows "\<exists>key v. (key, v) \<in> set ls \<and> tag_is td t key v"
proof -
  obtain i where "i < length ls" "t = ts ! i" using assms by (auto simp: labelled_iff in_set_conv_nth)
  then have "(fst (ls ! i), snd (ls ! i)) \<in> set ls \<and> tag_is td t (fst (ls ! i)) (snd (ls ! i))"
    using assms(1) by (simp add: labelled_iff)
  then show ?thesis by blast
qed

lemma labelled_label:
  assumes "labelled td ts ls" and "(key, v) \<in> set ls"
  shows "\<exists>t \<in> set ts. tag_is td t key v"
proof -
  obtain i where "i < length ls" "ls ! i = (key, v)" using assms(2) by (auto simp: in_set_conv_nth)
  then have "ts ! i \<in> set ts \<and> tag_is td (ts ! i) key v" using assms(1) by (auto simp: labelled_iff)
  then show ?thesis by blast
qed

lemma tag_is_key: "tag_is td t key v \<Longrightarrow> key \<in> fst ` set td"
  by (auto simp: tag_is_iff)

lemma tag_is_keyIndex:
  assumes "tags_wf td" and "tag_is td t key v"
  shows "tag_keyIndex t = int (findKeyIndex td key)"
proof -
  have "findKeyIndex td key < length td"
    using tag_is_key [OF assms(2)] findKeyIndex_absent [of td key] findKeyIndex_le [of td key] by linarith
  then have "map fst td ! findKeyIndex td key = map fst td ! nat (tag_keyIndex t)"
    using findKeyIndex_found [of td key] assms(2) by (simp add: tag_is_iff)
  then show ?thesis
    using assms \<open>findKeyIndex td key < length td\<close>
      nth_eq_iff_index_eq [of "map fst td" "findKeyIndex td key" "nat (tag_keyIndex t)"]
    by (simp add: tag_is_iff tags_wf_def)
qed

text \<open>The tags of a configuration whose author did not use the reserved key for voters.\<close>

definition tagged_config :: "ReplSetConfig \<Rightarrow> bool" where
  "tagged_config cfg \<longleftrightarrow> tags_wf (tagConfig cfg) \<and>
     (\<forall>m \<in> set (cfg_members cfg). \<exists>r. ''$voter'' \<notin> fst ` set r \<and>
        labelled (tagConfig cfg) (member_tags m) (r @ internal_tags m))"

lemma initialize_config_tagged:
  assumes "tags_wf (tagConfig cfg)" and "list_all (\<lambda>(r, _). ''$voter'' \<notin> fst ` set r) raw"
  shows "tagged_config (initialize_config raw cfg)"
proof -
  obtain ms td where ms: "initialize_members raw (tagConfig cfg) = (ms, td)"
    by (cases "initialize_members raw (tagConfig cfg)")
  note labels = initialize_members_labels [OF ms assms(1)]
  have "\<exists>r. ''$voter'' \<notin> fst ` set r \<and> labelled td (member_tags m') (r @ internal_tags m')" if m': "m' \<in> set ms" for m'
  proof -
    obtain i where i: "i < length ms" "m' = ms ! i" using m' by (auto simp: in_set_conv_nth)
    then have "case raw ! i of (r, m) \<Rightarrow> labelled td (member_tags m') (r @ internal_tags m')" "raw ! i \<in> set raw"
      using labels by (auto simp: list_all2_conv_all_nth)
    moreover obtain r m where rm: "raw ! i = (r, m)" by (cases "raw ! i")
    ultimately have "labelled td (member_tags m') (r @ internal_tags m')" "''$voter'' \<notin> fst ` set r"
      using assms(2) by (auto simp: list_all_iff)
    then show ?thesis by blast
  qed
  then show ?thesis using labels initialize_config_fields [OF ms] by (simp add: tagged_config_def)
qed

text \<open>Among the tags of a member, the one with the key for voters is its own identifier.\<close>

lemma voter_tags:
  assumes "tagged_config cfg" and "m \<in> set (cfg_members cfg)"
  shows "{t \<in> set (member_tags m). tag_keyIndex t = int (findKeyIndex (tagConfig cfg) ''$voter'')} =
      {t \<in> set (member_tags m). tag_is (tagConfig cfg) t ''$voter'' (show_int (member_id m)) \<and> isVoter m \<and> \<not> arbiterOnly m}"
    and "isVoter m \<Longrightarrow> \<not> arbiterOnly m \<Longrightarrow>
      \<exists>t \<in> set (member_tags m). tag_is (tagConfig cfg) t ''$voter'' (show_int (member_id m))"
proof -
  let ?td = "tagConfig cfg"
  have wf: "tags_wf ?td" using assms(1) by (simp add: tagged_config_def)
  obtain r where r: "''$voter'' \<notin> fst ` set r" "labelled ?td (member_tags m) (r @ internal_tags m)"
    using assms by (auto simp: tagged_config_def)
  have label: "\<exists>key v. (key, v) \<in> set (r @ internal_tags m) \<and> tag_is ?td t key v" if "t \<in> set (member_tags m)" for t
    using labelled_tag [OF r(2) that] .
  have reverse: "\<exists>t \<in> set (member_tags m). tag_is ?td t key v" if "(key, v) \<in> set (r @ internal_tags m)" for key v
    using labelled_label [OF r(2) that] .
  have mine: "(''$voter'', v) \<in> set (r @ internal_tags m) \<longleftrightarrow>
      isVoter m \<and> \<not> arbiterOnly m \<and> v = show_int (member_id m)" for v
    using r(1) by (force simp: internal_tags_def split: if_splits)
  show "isVoter m \<Longrightarrow> \<not> arbiterOnly m \<Longrightarrow> \<exists>t \<in> set (member_tags m). tag_is ?td t ''$voter'' (show_int (member_id m))"
    using reverse mine by blast
  have "tag_keyIndex t = int (findKeyIndex ?td ''$voter'') \<longleftrightarrow>
      tag_is ?td t ''$voter'' (show_int (member_id m)) \<and> isVoter m \<and> \<not> arbiterOnly m"
    if t: "t \<in> set (member_tags m)" for t
  proof -
    obtain key v where kv: "(key, v) \<in> set (r @ internal_tags m)" "tag_is ?td t key v" using label [OF t] by blast
    have idx: "tag_keyIndex t = int (findKeyIndex ?td key)" by (rule tag_is_keyIndex [OF wf kv(2)])
    show ?thesis
    proof (cases "key = ''$voter''")
      case True
      then show ?thesis using kv mine idx by auto
    next
      case False
      then have "findKeyIndex ?td key \<noteq> findKeyIndex ?td ''$voter''"
        using tag_is_key [OF kv(2)] findKeyIndex_found [of ?td] findKeyIndex_absent [of ?td] findKeyIndex_le [of ?td]
        by (metis le_neq_implies_less)
      moreover have "\<not> tag_is ?td t ''$voter'' w" for w using kv(2) False by (auto simp: tag_is_iff)
      ultimately show ?thesis using idx by simp
    qed
  qed
  then show "{t \<in> set (member_tags m). tag_keyIndex t = int (findKeyIndex ?td ''$voter'')} =
      {t \<in> set (member_tags m). tag_is ?td t ''$voter'' (show_int (member_id m)) \<and> isVoter m \<and> \<not> arbiterOnly m}"
    by blast
qed

text \<open>So the values seen for that key are as many as the voting members with data.\<close>

lemma tag_is_valueIndex:
  assumes "tags_wf td" and "tag_is td t key v"
  shows "tag_valueIndex t = int (value_index (snd (td ! findKeyIndex td key)) v)"
proof -
  let ?vs = "snd (td ! nat (tag_keyIndex t))"
  have k: "nat (tag_keyIndex t) = findKeyIndex td key" using tag_is_keyIndex [OF assms] by simp
  have mem: "v \<in> set ?vs" and "nat (tag_keyIndex t) < length td" using assms(2) by (auto simp: tag_is_iff)
  then have "distinct ?vs" using assms(1) by (simp add: tags_wf_def)
  moreover have "value_index ?vs v < length ?vs"
    using mem value_index_absent [of ?vs v] value_index_le [of ?vs v] by linarith
  moreover have "?vs ! value_index ?vs v = ?vs ! nat (tag_valueIndex t)"
    using value_index_found [of ?vs v] assms(2) calculation(2) by (simp add: tag_is_iff)
  ultimately have "value_index ?vs v = nat (tag_valueIndex t)"
    using assms(2) nth_eq_iff_index_eq [of ?vs "value_index ?vs v" "nat (tag_valueIndex t)"]
    by (simp add: tag_is_iff)
  then show ?thesis using assms(2) k by (simp add: tag_is_iff)
qed

lemma seen_voters:
  assumes "tagged_config cfg" and "set ms \<subseteq> set (cfg_members cfg)" and "\<forall>m \<in> set ms. 0 \<le> member_id m"
  shows "card (seen_values (int (findKeyIndex (tagConfig cfg) ''$voter'')) (concat (map member_tags ms))) =
    card (member_id ` {m \<in> set ms. isVoter m \<and> \<not> arbiterOnly m})"
proof -
  let ?td = "tagConfig cfg"
  define g where "g i = int (value_index (snd (?td ! findKeyIndex ?td ''$voter'')) (show_int i))" for i
  define D where "D = {m \<in> set ms. isVoter m \<and> \<not> arbiterOnly m}"
  have wf: "tags_wf ?td" using assms(1) by (simp add: tagged_config_def)
  have tag: "\<exists>t \<in> set (member_tags m). tag_is ?td t ''$voter'' (show_int (member_id m)) \<and> tag_valueIndex t = g (member_id m)"
    if "m \<in> D" for m
    using voter_tags(2) [OF assms(1), of m] that assms(2) tag_is_valueIndex [OF wf] by (fastforce simp: D_def g_def)
  have val: "tag_valueIndex t = g (member_id m) \<and> m \<in> D"
    if "m \<in> set ms" "t \<in> set (member_tags m)" "tag_keyIndex t = int (findKeyIndex ?td ''$voter'')" for m t
  proof -
    have "tag_is ?td t ''$voter'' (show_int (member_id m)) \<and> isVoter m \<and> \<not> arbiterOnly m"
      using voter_tags(1) [OF assms(1), of m] that assms(2) by blast
    then show ?thesis using tag_is_valueIndex [OF wf, of t "''$voter''"] that(1) by (simp add: D_def g_def)
  qed
  have seen: "seen_values (int (findKeyIndex ?td ''$voter'')) (concat (map member_tags ms)) = g ` member_id ` D"
  proof (rule equalityI; rule subsetI)
    fix y
    assume "y \<in> seen_values (int (findKeyIndex ?td ''$voter'')) (concat (map member_tags ms))"
    then obtain m t where "m \<in> set ms" "t \<in> set (member_tags m)" "y = tag_valueIndex t"
      "tag_keyIndex t = int (findKeyIndex ?td ''$voter'')"
      by (auto simp: seen_values_def)
    then show "y \<in> g ` member_id ` D" using val by blast
  next
    fix y
    assume "y \<in> g ` member_id ` D"
    then obtain m where m: "m \<in> D" "y = g (member_id m)" by blast
    then obtain t where "t \<in> set (member_tags m)" "tag_is ?td t ''$voter'' (show_int (member_id m))" "tag_valueIndex t = y"
      using tag by blast
    then show "y \<in> seen_values (int (findKeyIndex ?td ''$voter'')) (concat (map member_tags ms))"
      using m(1) tag_is_keyIndex [OF wf] unfolding seen_values_def D_def by (auto intro!: image_eqI [of y _ t])
  qed
  have "inj_on g (member_id ` D)"
  proof (rule inj_onI)
    fix i j
    assume "i \<in> member_id ` D" and "j \<in> member_id ` D" and eq: "g i = g j"
    then obtain m n where m: "m \<in> D" "i = member_id m" and n: "n \<in> D" "j = member_id n" by blast
    obtain t u where "tag_is ?td t ''$voter'' (show_int i)" "tag_valueIndex t = g i"
      "tag_is ?td u ''$voter'' (show_int j)" "tag_valueIndex u = g j"
      using tag [OF m(1)] tag [OF n(1)] m(2) n(2) by blast
    then have "show_int i = show_int j" using tag_is_inj(2) [OF wf] eq by metis
    then show "i = j" using show_int_inj assms(3) m n by (simp add: D_def)
  qed
  then show ?thesis using seen by (simp add: card_image D_def)
qed

subsection \<open>Matching\<close>

lemma bind_tag_satisfied: "match_isSatisfied m \<Longrightarrow> match_isSatisfied (bind_tag t m)"
  by (induction m) (auto simp: match_isSatisfied_def bound_isSatisfied_def)

lemma bind_tags_satisfied: "match_isSatisfied m \<Longrightarrow> match_isSatisfied (fold bind_tag ts m)"
  by (induction ts arbitrary: m) (simp_all add: bind_tag_satisfied)

lemma match_tags_eq:
  "fst (match_tags m ts) \<longleftrightarrow> ts \<noteq> [] \<and> match_isSatisfied (fold bind_tag ts m)"
  "\<not> fst (match_tags m ts) \<Longrightarrow> snd (match_tags m ts) = fold bind_tag ts m"
proof (induction ts arbitrary: m)
  case (Cons t ts)
  case 1
  show ?case using Cons.IH(1) [of "bind_tag t m"] bind_tags_satisfied [of "bind_tag t m" ts]
    by (auto simp: match_update_def Let_def)
next
  case (Cons t ts)
  case 2
  then show ?case using Cons.IH(2) [of "bind_tag t m"] by (auto simp: match_update_def Let_def split: if_splits)
qed simp_all

text \<open>The tags of the members that reached an optime.\<close>

definition reached_members :: "ReplSetConfig \<Rightarrow> bool \<Rightarrow> OpTime \<Rightarrow> MemberData list \<Rightarrow> MemberConfig list" where
  "reached_members cfg dur x ds =
     map (\<lambda>d. cfg_members cfg ! nat (configIndex d)) (filter (\<lambda>d. opTime_ge (member_opTime dur d) x) ds)"

definition reached_tags :: "ReplSetConfig \<Rightarrow> bool \<Rightarrow> OpTime \<Rightarrow> MemberData list \<Rightarrow> ReplSetTag list" where
  "reached_tags cfg dur x ds = concat (map member_tags (reached_members cfg dur x ds))"

lemma match_members_eq:
  assumes "\<And>d. d \<in> set ds \<Longrightarrow> 0 \<le> configIndex d \<and> configIndex d < int (length (cfg_members cfg))"
  shows "match_members cfg x dur m ds = Some (reached_tags cfg dur x ds \<noteq> [] \<and> match_isSatisfied (fold bind_tag (reached_tags cfg dur x ds) m))"
  using assms
proof (induction ds arbitrary: m)
  case (Cons d ds)
  show ?case
  proof (cases "opTime_ge (member_opTime dur d) x")
    case True
    define ts where "ts = member_tags (cfg_members cfg ! nat (configIndex d))"
    have tags: "reached_tags cfg dur x (d # ds) = ts @ reached_tags cfg dur x ds" using True by (simp add: reached_tags_def reached_members_def ts_def)
    have step: "match_members cfg x dur m (d # ds) =
        (if fst (match_tags m ts) then Some True else match_members cfg x dur (snd (match_tags m ts)) ds)"
      using True Cons.prems [of d] by (simp add: ts_def invariant_def split_beta Let_def)
    show ?thesis
    proof (cases "fst (match_tags m ts)")
      case sat: True
      then show ?thesis
        using step tags match_tags_eq(1) [of m ts] bind_tags_satisfied [of "fold bind_tag ts m" "reached_tags cfg dur x ds"] by simp
    next
      case False
      then show ?thesis
        using step tags match_tags_eq [of m ts] Cons.IH [of "fold bind_tag ts m"] Cons.prems by auto
    qed
  next
    case False
    then show ?thesis using Cons by (simp add: reached_tags_def reached_members_def)
  qed
qed (simp add: reached_tags_def reached_members_def)

lemma match_fold_ok: "match_ok us m \<Longrightarrow> match_ok (us @ ts) (fold bind_tag ts m)"
proof (induction ts arbitrary: us m)
  case (Cons t ts)
  then show ?case using Cons.IH [OF match_ok_bind [OF Cons.prems, of t]] by simp
qed simp

lemma fold_constraints: "map bound_constraint (fold bind_tag ts m) = map bound_constraint m"
  by (induction ts arbitrary: m) simp_all

lemma single_match:
  "match_isSatisfied (fold bind_tag ts (ReplSetTagMatch_new [\<lparr>con_keyIndex = k, con_minCount = n\<rparr>])) \<longleftrightarrow>
     n \<le> int (card (seen_values k ts))"
proof -
  let ?p = "[\<lparr>con_keyIndex = k, con_minCount = n\<rparr>]"
  have "match_ok ([] @ ts) (fold bind_tag ts (ReplSetTagMatch_new ?p))"
    by (rule match_fold_ok [OF match_ok_new]) (simp add: pattern_ok_def)
  then show ?thesis
    using match_satisfied_iff [of ts "fold bind_tag ts (ReplSetTagMatch_new ?p)"]
    by (simp add: fold_constraints) (simp add: ReplSetTagMatch_new_def)
qed

subsection \<open>The majority mode\<close>

definition majority_pattern :: "ReplSetConfig \<Rightarrow> ReplSetTagPattern" where
  "majority_pattern cfg =
     [\<lparr>con_keyIndex = int (findKeyIndex (tagConfig cfg) ''$voter''), con_minCount = writeMajority cfg\<rparr>]"

definition reached_voters :: "TopologyCoordinator \<Rightarrow> bool \<Rightarrow> OpTime \<Rightarrow> nat set" where
  "reached_voters t dur x = {v \<in> data_voters (rsConfig t). opTime_ge (member_opTime dur (memberData t ! v)) x}"

lemma distinct_ids: "pairwise_distinct (\<lambda>a b. member_id a = member_id b) ms \<Longrightarrow> distinct (map member_id ms)"
  by (induction ms) (auto simp: list_all_iff)

lemma reached_members_set:
  assumes "topo_inv t" and "selfIndex t \<noteq> - 1"
  shows "set (reached_members (rsConfig t) dur x (memberData t)) =
    (\<lambda>v. cfg_members (rsConfig t) ! v) ` {v. v < length (cfg_members (rsConfig t)) \<and> opTime_ge (member_opTime dur (memberData t ! v)) x}"
proof -
  have len: "length (memberData t) = length (cfg_members (rsConfig t))" by (rule self_at(4) [OF assms])
  have idx: "configIndex (memberData t ! v) = int v" if "v < length (memberData t)" for v
    using ident_fields(1) [OF assms, of "int v"] that by simp
  let ?f = "\<lambda>d. cfg_members (rsConfig t) ! nat (configIndex d)" and ?P = "\<lambda>d. opTime_ge (member_opTime dur d) x"
  have "set (reached_members (rsConfig t) dur x (memberData t)) = ?f ` {d \<in> set (memberData t). ?P d}"
    by (simp add: reached_members_def)
  also have "{d \<in> set (memberData t). ?P d} = (!) (memberData t) ` {v. v < length (memberData t) \<and> ?P (memberData t ! v)}"
    by (auto simp: in_set_conv_nth)
  also have "?f ` \<dots> = (\<lambda>v. cfg_members (rsConfig t) ! v) ` {v. v < length (memberData t) \<and> ?P (memberData t ! v)}"
    unfolding image_image by (rule image_cong) (simp_all add: idx)
  finally show ?thesis by (simp add: len)
qed

lemma majority_mode_counts:
  assumes "topo_inv t" and "selfIndex t \<noteq> - 1" and "tagged_config (rsConfig t)"
  shows "haveTaggedNodesReachedOpTime t x (majority_pattern (rsConfig t)) dur =
    Some (writeMajority (rsConfig t) \<le> int (card (reached_voters t dur x)))"
proof -
  let ?cfg = "rsConfig t" and ?ms = "reached_members (rsConfig t) dur x (memberData t)"
  have ok: "config_ok ?cfg" by (rule self_at(3) [OF assms(1,2)])
  have sub: "set ?ms \<subseteq> set (cfg_members ?cfg)" using reached_members_set [OF assms(1,2)] by auto
  have ids: "\<forall>m \<in> set ?ms. 0 \<le> member_id m"
  proof
    fix m
    assume "m \<in> set ?ms"
    then have "validate_member m" using sub ok by (auto simp: config_ok_def list_all_iff)
    then show "0 \<le> member_id m" by (simp add: validate_member_def)
  qed
  have dist: "distinct (map member_id (cfg_members ?cfg))" 
    by (rule distinct_ids) (use ok in \<open>simp add: config_ok_def\<close>)
  have "member_id ` {m \<in> set ?ms. isVoter m \<and> \<not> arbiterOnly m} =
      (\<lambda>v. map member_id (cfg_members ?cfg) ! v) ` reached_voters t dur x"
  proof -
    have "{m \<in> set ?ms. isVoter m \<and> \<not> arbiterOnly m} = (!) (cfg_members ?cfg) ` reached_voters t dur x"
      unfolding reached_members_set [OF assms(1,2)] reached_voters_def data_voters_def by auto
    then show ?thesis by (auto simp: image_image reached_voters_def data_voters_def intro!: image_cong)
  qed
  moreover have "inj_on (\<lambda>v. map member_id (cfg_members ?cfg) ! v) (reached_voters t dur x)"
    by (rule inj_on_nth [OF dist]) (simp add: reached_voters_def data_voters_def)
  ultimately have card: "card (seen_values (int (findKeyIndex (tagConfig ?cfg) ''$voter'')) (reached_tags ?cfg dur x (memberData t))) =
      card (reached_voters t dur x)"
    using seen_voters [OF assms(3) sub ids] unfolding reached_tags_def by (simp add: card_image)
  have "1 \<le> writeMajority ?cfg" using config_majorities [OF ok] by linarith
  then have "writeMajority ?cfg \<le> int (card (reached_voters t dur x)) \<Longrightarrow> reached_tags ?cfg dur x (memberData t) \<noteq> []"
    using card by (auto simp: seen_values_def)
  then show ?thesis
    using match_members_eq [of "memberData t" ?cfg x dur] config_index_range [OF assms(1,2)] card
    by (auto simp: haveTaggedNodesReachedOpTime_def majority_pattern_def single_match)
qed

end
