(* ===== verification/Repl_Examples.thy ===== *)
theory Repl_Examples
  imports Majority_Mode
begin

text \<open>A set of three members with data and an arbiter, for the concrete runs.\<close>

definition example_member :: "int \<Rightarrow> string \<Rightarrow> bool \<Rightarrow> ReplSetTag list \<Rightarrow> MemberConfig" where
  "example_member i h arbiter tags =
     \<lparr>member_id = i, member_host = HostAndPort h 27017, priority = (if arbiter then 0 else 1), member_votes = 1,
      arbiterOnly = arbiter, slaveDelay = 0, hidden = False, buildIndexes = True, member_tags = tags\<rparr>"

definition example_settings :: ReplSetConfig where
  "example_settings = ReplSetConfig_new\<lparr>replSetName := ''rs'', defaultWriteConcern := \<lparr>wMode = '''', wNumNodes = 1\<rparr>,
     connectionStringValid := True\<rparr>"

definition example_config :: ReplSetConfig where
  "example_config = example_settings\<lparr>cfg_isInitialized := True,
     cfg_members :=
       [example_member 0 ''a'' False
          [\<lparr>tag_keyIndex = 0, tag_valueIndex = 0\<rparr>, \<lparr>tag_keyIndex = 1, tag_valueIndex = 0\<rparr>,
           \<lparr>tag_keyIndex = 2, tag_valueIndex = 0\<rparr>, \<lparr>tag_keyIndex = 3, tag_valueIndex = 0\<rparr>],
        example_member 1 ''b'' False
          [\<lparr>tag_keyIndex = 0, tag_valueIndex = 1\<rparr>, \<lparr>tag_keyIndex = 1, tag_valueIndex = 1\<rparr>,
           \<lparr>tag_keyIndex = 2, tag_valueIndex = 1\<rparr>, \<lparr>tag_keyIndex = 3, tag_valueIndex = 1\<rparr>],
        example_member 2 ''c'' False
          [\<lparr>tag_keyIndex = 0, tag_valueIndex = 1\<rparr>, \<lparr>tag_keyIndex = 1, tag_valueIndex = 2\<rparr>,
           \<lparr>tag_keyIndex = 2, tag_valueIndex = 2\<rparr>, \<lparr>tag_keyIndex = 3, tag_valueIndex = 2\<rparr>],
        example_member 3 ''d'' True []],
     majorityVoteCount := 3, writeMajority := 3, totalVotingMembers := 4,
     tagConfig := [(''dc'', [''east'', ''west'']), (''$voter'', [''0'', ''1'', ''2'']), (''$electable'', [''0'', ''1'', ''2'']),
       (''$all'', [''0'', ''1'', ''2''])],
     customWriteConcernModes := [(''$majority'', [\<lparr>con_keyIndex = 1, con_minCount = 3\<rparr>]),
       (''$stepDownCheck'', [\<lparr>con_keyIndex = 2, con_minCount = 2\<rparr>])]\<rparr>"

definition example_input :: "((string \<times> string) list \<times> MemberConfig) list" where
  "example_input =
     [([(''dc'', ''east'')], example_member 0 ''a'' False []), ([(''dc'', ''west'')], example_member 1 ''b'' False []),
      ([(''dc'', ''west'')], example_member 2 ''c'' False []), ([], example_member 3 ''d'' True [])]"

lemma show_digits: "show_int 0 = ''0''" "show_int 1 = ''1''" "show_int 2 = ''2''"
proof -
  have digit: "show_nat n = [char_of (n + 48)]" if "n < 10" for n using that by (subst show_nat.simps) simp
  have "char_of (48 :: nat) = CHR ''0''" "char_of (49 :: nat) = CHR ''1''" "char_of (50 :: nat) = CHR ''2''" by code_simp+
  then show "show_int 0 = ''0''" "show_int 1 = ''1''" "show_int 2 = ''2''" by (simp_all add: show_int_def digit)
qed

lemma example_internal_tags:
  "internal_tags (example_member 0 h False ts) = [(''$voter'', ''0''), (''$electable'', ''0''), (''$all'', ''0'')]"
  "internal_tags (example_member 1 h False ts) = [(''$voter'', ''1''), (''$electable'', ''1''), (''$all'', ''1'')]"
  "internal_tags (example_member 2 h False ts) = [(''$voter'', ''2''), (''$electable'', ''2''), (''$all'', ''2'')]"
  "internal_tags (example_member 3 h True ts) = []"
  by (simp_all add: internal_tags_def example_member_def isVoter_def isElectable_def show_digits)

lemma example_initialized: "initialize_config example_input example_settings = example_config"
proof -
  let ?td0 = "[(''dc'', [''east'']), (''$voter'', [''0'']), (''$electable'', [''0'']), (''$all'', [''0''])]"
  let ?td1 = "[(''dc'', [''east'', ''west'']), (''$voter'', [''0'', ''1'']), (''$electable'', [''0'', ''1'']),
    (''$all'', [''0'', ''1''])]"
  have "initialize_member [(''dc'', ''east'')] (example_member 0 ''a'' False []) [] =
      (cfg_members example_config ! 0, ?td0)"
    unfolding initialize_member_eq example_internal_tags by code_simp
  moreover have "initialize_member [(''dc'', ''west'')] (example_member 1 ''b'' False []) ?td0 =
      (cfg_members example_config ! 1, ?td1)"
    unfolding initialize_member_eq example_internal_tags by code_simp
  moreover have "initialize_member [(''dc'', ''west'')] (example_member 2 ''c'' False []) ?td1 =
      (cfg_members example_config ! 2, tagConfig example_config)"
    unfolding initialize_member_eq example_internal_tags by code_simp
  moreover have "initialize_member [] (example_member 3 ''d'' True []) (tagConfig example_config) =
      (cfg_members example_config ! 3, tagConfig example_config)"
    unfolding initialize_member_eq example_internal_tags by code_simp
  moreover have "tagConfig example_settings = []" by (simp add: example_settings_def ReplSetConfig_new_def)
  ultimately have "initialize_members example_input (tagConfig example_settings) =
      (cfg_members example_config, tagConfig example_config)"
    by (simp add: example_input_def) (simp add: example_config_def)
  moreover have "(addInternalWriteConcernModes (calculateMajorities (example_settings
      \<lparr>cfg_members := cfg_members example_config, tagConfig := tagConfig example_config\<rparr>)))\<lparr>cfg_isInitialized := True\<rparr> =
      example_config"
    by code_simp
  ultimately show ?thesis by (simp add: initialize_config_def)
qed

definition example_options :: TopologyOptions where
  "example_options =
     \<lparr>maxSyncSourceLagSecs = 30, clusterRoleConfigServer = False, skipShardingConfigurationChecks = False,
      priorityTakeoverFreshnessWindowSeconds = 2\<rparr>"

definition example_opTime :: OpTime where
  "example_opTime = OpTime (Timestamp 1 1) 0"

lemma example_validates: "validate_config False False example_config"
  by code_simp

lemma example_config_ok: "config_ok example_config"
  by code_simp

lemma example_members: "length (cfg_members example_config) = 4"
  by (simp add: example_config_def)

text \<open>Its members at their first start, and what a heartbeat tells about a secondary.\<close>

definition example_host :: "string \<Rightarrow> HostAndPort" where
  "example_host h = HostAndPort h 27017"

definition example_start :: "int \<Rightarrow> ReplCoord option" where
  "example_start v = loadLocalState example_options True None example_config v example_opTime 0"

definition example_heartbeat :: HeartbeatResult where
  "example_heartbeat = HbOk (ReplSetHeartbeatResponse_new
     \<lparr>hb_appliedOpTime := Some example_opTime, hb_durableOpTime := Some example_opTime, hb_state := Some RS_SECONDARY,
      hb_configVersion := 1, hb_term := 0, hb_setName := ''rs''\<rparr>)"

definition example_yes :: "int \<Rightarrow> VoteReply" where
  "example_yes p = VoteAnswer \<lparr>response_term = p, voteGranted = True\<rparr>"

end
