(* ===== verification/Elections_Safety.thy ===== *)
theory Elections_Safety
  imports Elections
begin

text \<open>
  The votes of a node: an invariant of its life, and that it holds for every legal sequence of steps.
\<close>

subsection \<open>What the steps of an election leave alone\<close>

definition kept :: "ReplCoord \<Rightarrow> ReplCoord \<Rightarrow> bool" where
  "kept n n' \<longleftrightarrow>
     topo_inv (rc_topo n') \<and> lastVote (rc_topo n') = lastVote (rc_topo n) \<and> topo_term (rc_topo n) \<le> topo_term (rc_topo n') \<and>
     rsConfig (rc_topo n') = rsConfig (rc_topo n) \<and> selfIndex (rc_topo n') = selfIndex (rc_topo n) \<and>
     rc_lastVoteDoc n' = rc_lastVoteDoc n"

text \<open>The step that votes for the node itself in a new term.\<close>

definition self_voted :: "ReplCoord \<Rightarrow> ReplCoord \<Rightarrow> bool" where
  "self_voted n n' \<longleftrightarrow>
     topo_inv (rc_topo n') \<and> topo_term (rc_topo n) < topo_term (rc_topo n') \<and>
     lastVote (rc_topo n') = \<lparr>vote_term = topo_term (rc_topo n'), vote_candidateIndex = selfIndex (rc_topo n)\<rparr> \<and>
     rsConfig (rc_topo n') = rsConfig (rc_topo n) \<and> selfIndex (rc_topo n') = selfIndex (rc_topo n) \<and>
     rc_lastVoteDoc n' = rc_lastVoteDoc n"

lemma kept_quiet:
  "topo_inv t' \<Longrightarrow> quiet (rc_topo n) t' \<Longrightarrow> kept n (n\<lparr>rc_topo := t'\<rparr>)"
  by (simp add: kept_def quiet_def)

lemma updateTerm_inlock_kept:
  assumes "topo_inv (rc_topo n)"
  shows "\<exists>r b n'. updateTerm_inlock n term now = Some ((r, b), n') \<and> kept n n' \<and>
    (r = kUpdatedTerm \<longrightarrow> topo_term (rc_topo n) < term \<and> topo_term (rc_topo n') = term) \<and>
    (role (rc_topo n) \<noteq> kLeader \<longrightarrow> topo_term (rc_topo n') = max (topo_term (rc_topo n)) term)"
proof -
  obtain r t where t: "updateTerm (rc_topo n) term now = Some (r, t)" "topo_inv t"
    "lastVote t = lastVote (rc_topo n)" "rsConfig t = rsConfig (rc_topo n)" "selfIndex t = selfIndex (rc_topo n)"
    "role t = role (rc_topo n)"
    "topo_term t = (if role (rc_topo n) = kLeader then topo_term (rc_topo n) else max (topo_term (rc_topo n)) term)"
    "r = kTriggerStepDown \<longleftrightarrow> term > topo_term (rc_topo n) \<and> role (rc_topo n) = kLeader"
    using updateTerm_step [OF assms, of "term" now] by blast
  have up: "r = kUpdatedTerm \<Longrightarrow> term > topo_term (rc_topo n)"
    using t(1) by (auto simp: updateTerm_def split: if_splits)
  show ?thesis
  proof (cases "r = kTriggerStepDown")
    case True
    then have "leaderMode t \<noteq> kNotLeader" using t(2,6,8) by (simp add: topo_inv_def roles_ok_def)
    then obtain b t' where "prepareForUnconditionalStepDown t = Some (b, t')" "topo_inv t'" "quiet t t'"
      using prepareForUnconditionalStepDown_step [OF t(2)] by blast
    then show ?thesis
      using t True by (auto simp: updateTerm_inlock_def Let_def kept_def quiet_def split: option.splits)
  next
    case False
    then show ?thesis using t up by (auto simp: updateTerm_inlock_def Let_def kept_def)
  qed
qed

lemma kept_trans: "kept n m \<Longrightarrow> kept m k \<Longrightarrow> kept n k"
  by (simp add: kept_def)

lemma lose_election_kept:
  assumes "topo_inv (rc_topo n)" and "lose_election n = Some n'"
  shows "kept n n' \<and> rc_voteRequester n' = None"
  using assms processLoseElection_step [OF assms(1)]
  by (auto simp: lose_election_def processLoseElection_def invariant_def kept_def quiet_def split: bind_splits if_splits)

lemma stepDownFinish_kept:
  assumes "topo_inv (rc_topo n)" and "stepDownFinish n now = Some n'"
  shows "kept n n'"
proof -
  have mode: "leaderMode (rc_topo n) = kSteppingDown"
    using assms(2) by (auto simp: stepDownFinish_def finishUnconditionalStepDown_def invariant_def split: bind_splits if_splits)
  obtain t where t: "finishUnconditionalStepDown (rc_topo n) = Some t" "topo_inv t" "quiet (rc_topo n) t"
    using finishUnconditionalStepDown_step [OF assms(1) mode] by blast
  have n1: "kept n (n\<lparr>rc_topo := t\<rparr>)" by (rule kept_quiet [OF t(2,3)])
  show ?thesis
  proof (cases "rc_pendingTerm n")
    case None
    then show ?thesis using assms(2) t(1) n1 by (simp add: stepDownFinish_def Let_def)
  next
    case (Some p)
    obtain r b m where m: "updateTerm_inlock (n\<lparr>rc_topo := t\<rparr>) p now = Some ((r, b), m)" "kept (n\<lparr>rc_topo := t\<rparr>) m"
      using updateTerm_inlock_kept [of "n\<lparr>rc_topo := t\<rparr>" p now] t(2) by auto
    then have "n' = m\<lparr>rc_pendingTerm := None\<rparr>"
      using assms(2) t(1) Some by (auto simp: stepDownFinish_def Let_def invariant_def split: if_splits)
    then show ?thesis using kept_trans [OF n1 m(2)] by (simp add: kept_def)
  qed
qed

lemma startRealElection_voted:
  assumes "topo_inv (rc_topo n)" and "startRealElection_inlock n newTerm now = Some n'"
  shows "self_voted n n'"
proof -
  obtain r b m where m: "updateTerm_inlock n newTerm now = Some ((r, b), m)" "kept n m"
    "r = kUpdatedTerm \<longrightarrow> topo_term (rc_topo n) < newTerm \<and> topo_term (rc_topo m) = newTerm"
    using updateTerm_inlock_kept [OF assms(1)] by blast
  then have "r = kUpdatedTerm" "n' = m\<lparr>rc_topo := voteForMyselfV1 (rc_topo m)\<rparr>"
    using assms(2) by (auto simp: startRealElection_inlock_def invariant_def split: if_splits)
  then show ?thesis using m(2,3) by (simp add: self_voted_def kept_def voteForMyselfV1_def vote_field_inv)
qed

lemma startElectSelf_votes:
  assumes "topo_inv (rc_topo n)" and "startElectSelfV1_inlock n reason now = Some n'"
  shows "kept n n' \<or> self_voted n n'"
proof (cases "rc_configSteady n")
  case False
  then obtain t where t: "processLoseElection (rc_topo n) = Some t" "n' = n\<lparr>rc_topo := t\<rparr>"
    using assms(2) by (auto simp: startElectSelfV1_inlock_def Let_def invariant_def split: bind_splits if_splits)
  then have "role (rc_topo n) = kCandidate"
    by (auto simp: processLoseElection_def invariant_def split: bind_splits if_splits)
  then show ?thesis using processLoseElection_step [OF assms(1)] t kept_quiet [of t n] by auto
next
  case True
  have "lose_election n = Some n' \<or> startRealElection_inlock n (topo_term (rc_topo n) + 1) now = Some n' \<or>
      (\<exists>vr. n' = n\<lparr>rc_voteRequester := Some vr\<rparr>)"
    using assms(2) True
    by (auto simp: startElectSelfV1_inlock_def Let_def invariant_def split: bind_splits if_splits)
  then show ?thesis
    using lose_election_kept [OF assms(1)] startRealElection_voted [OF assms(1)] assms(1)
    by (auto simp: kept_def)
qed

lemma processDryRunResult_votes:
  assumes "topo_inv (rc_topo n)" and "processDryRunResult n term now = Some n'"
  shows "kept n n' \<or> self_voted n n'"
proof -
  have "lose_election n = Some n' \<or> startRealElection_inlock n (term + 1) now = Some n'"
    using assms(2) by (auto simp: processDryRunResult_def split: bind_splits if_splits)
  then show ?thesis using lose_election_kept [OF assms(1)] startRealElection_voted [OF assms(1)] by blast
qed

lemma onVoteRequestComplete_kept:
  assumes "topo_inv (rc_topo n)" and "onVoteRequestComplete n term now = Some (b, n')"
  shows "kept n n'"
proof -
  have "lose_election n = Some n' \<or>
      (\<exists>hs. n' = n\<lparr>rc_topo := resetMemberTimeouts (rc_topo n) now hs, rc_voteRequester := None\<rparr>)"
    using assms(2) by (auto simp: onVoteRequestComplete_def invariant_def split: bind_splits if_splits)
  then show ?thesis
    using lose_election_kept [OF assms(1)] resetSome_step [OF assms(1), of now] by (auto simp: kept_def quiet_def)
qed

lemma winElection_kept:
  assumes "topo_inv (rc_topo n)" and "winElection n ts = Some n'"
  shows "kept n n'"
proof -
  obtain t where t: "processWinElection (rc_topo n) ts = Some t" "n' = n\<lparr>rc_topo := t\<rparr>"
    using assms(2) by (auto simp: winElection_def invariant_def split: bind_splits if_splits)
  then have "role (rc_topo n) = kCandidate"
    by (auto simp: processWinElection_def invariant_def split: bind_splits if_splits)
  then show ?thesis using processWinElection_step [OF assms(1), of ts] t kept_quiet [of t n] by auto
qed

lemma writeVote_kept:
  assumes "topo_inv (rc_topo n)" and "writeLastVoteForMyElection n v stored = Some n'"
  shows "kept (if stored then storeLocalLastVoteDocument n v else n) n' \<and>
    (rc_voteRequester n' \<noteq> None \<longrightarrow> stored \<and> topo_term (rc_topo n) = vote_term v)"
proof -
  have same: "rc_topo (storeLocalLastVoteDocument n v) = rc_topo n"
    by (simp add: storeLocalLastVoteDocument_def split: option.splits)
  define m where "m = (if stored then storeLocalLastVoteDocument n v else n)"
  have m: "topo_inv (rc_topo m)" "rc_topo m = rc_topo n" using same assms(1) by (simp_all add: m_def)
  have "lose_election m = Some n' \<or>
      stored \<and> topo_term (rc_topo n) = vote_term v \<and> (\<exists>vr. n' = m\<lparr>rc_voteRequester := Some vr\<rparr>)"
    using assms(2) same
    by (auto simp: writeLastVoteForMyElection_def startVoteRequester_inlock_def Let_def m_def split: bind_splits if_splits)
  then have "kept m n' \<and> (rc_voteRequester n' \<noteq> None \<longrightarrow> stored \<and> topo_term (rc_topo n) = vote_term v)"
    using lose_election_kept [OF m(1)] m(1) by (auto simp: kept_def)
  then show ?thesis by (simp add: m_def)
qed

subsection \<open>The invariant\<close>

text \<open>Every vote is covered by the document on disk and no later than the last vote in memory.\<close>

definition covered :: "election_node \<Rightarrow> bool" where
  "covered e \<longleftrightarrow> (\<forall>b \<in> set (en_ballots e). fst b \<le> vote_term (lastVote (en_topo e)) \<and>
     (\<exists>d. rc_lastVoteDoc (en_coord e) = Some d \<and> fst b \<le> vote_term d))"

definition pending_ok :: "election_node \<Rightarrow> bool" where
  "pending_ok e \<longleftrightarrow> (\<forall>v. en_scheduled e = Some v \<longrightarrow>
     vote_term v \<le> vote_term (lastVote (en_topo e)) \<and> vote_term v \<notin> fst ` set (en_ballots e))"

definition vote_inv :: "election_node \<Rightarrow> bool" where
  "vote_inv e \<longleftrightarrow> topo_inv (en_topo e) \<and> vote_term (lastVote (en_topo e)) \<le> topo_term (en_topo e) \<and>
     covered e \<and> distinct (map fst (en_ballots e)) \<and> pending_ok e"

lemma vote_inv_kept:
  assumes "vote_inv e" and "kept (en_coord e) n"
  shows "vote_inv (e\<lparr>en_coord := n\<rparr>)" and "vote_inv (e\<lparr>en_coord := n, en_scheduled := None\<rparr>)"
    and "vote_inv (schedule_vote e n)"
  using assms by (auto simp: vote_inv_def kept_def covered_def pending_ok_def schedule_vote_def)

lemma vote_inv_self_voted:
  assumes "vote_inv e" and "self_voted (en_coord e) n"
  shows "vote_inv (schedule_vote e n)"
proof -
  have less: "vote_term (lastVote (en_topo e)) < topo_term (rc_topo n)"
    using assms by (simp add: vote_inv_def self_voted_def)
  then have "fst b < topo_term (rc_topo n)" if "b \<in> set (en_ballots e)" for b
    using that assms(1) by (force simp: vote_inv_def covered_def)
  then show ?thesis
    using assms less by (force simp: vote_inv_def self_voted_def covered_def pending_ok_def schedule_vote_def)
qed

lemma vote_inv_ballot:
  assumes "vote_inv e" and "topo_inv (rc_topo n)" and "v = lastVote (rc_topo n)"
    and "vote_term v = topo_term (rc_topo n)" and "vote_term (lastVote (en_topo e)) < vote_term v"
    and "rc_lastVoteDoc n = rc_lastVoteDoc (storeLocalLastVoteDocument (en_coord e) v)"
  shows "vote_inv (e\<lparr>en_coord := n, en_ballots := (vote_term v, c) # en_ballots e\<rparr>)"
proof -
  have old: "fst b < vote_term v" if "b \<in> set (en_ballots e)" for b
    using that assms(1,5) by (force simp: vote_inv_def covered_def)
  obtain d where d: "rc_lastVoteDoc n = Some d" "vote_term v \<le> vote_term d"
    using assms(6) by (auto simp: storeLocalLastVoteDocument_def split: option.splits if_splits)
  have "covered (e\<lparr>en_coord := n, en_ballots := (vote_term v, c) # en_ballots e\<rparr>)"
    using old d assms(3) by (force simp: covered_def)
  moreover have "pending_ok (e\<lparr>en_coord := n, en_ballots := (vote_term v, c) # en_ballots e\<rparr>)"
    using assms(1,3,5) by (auto simp: pending_ok_def vote_inv_def)
  moreover have "distinct (map fst ((vote_term v, c) # en_ballots e))"
    using assms(1) old by (force simp: vote_inv_def)
  ultimately show ?thesis using assms(2,3,4) by (simp add: vote_inv_def)
qed

lemma VoteRequest_inv:
  assumes "vote_inv e" and "repl_legal e (VoteRequest args stored)"
  shows "\<exists>e'. exec_repl e (VoteRequest args stored) = Some e' \<and> vote_inv e'"
proof -
  have inv: "topo_inv (en_topo e)" using assms(1) by (simp add: vote_inv_def)
  obtain r t where t: "processReplSetRequestVotes (en_topo e) args = Some (r, t)" "topo_inv t"
    "topo_term t = topo_term (en_topo e)"
    "voteGranted r \<longrightarrow> topo_term (en_topo e) \<le> args_term args"
    "if voteGranted r \<and> \<not> args_dryRun args
     then vote_term (lastVote (en_topo e)) \<noteq> args_term args \<and>
       lastVote t = \<lparr>vote_term = args_term args, vote_candidateIndex = args_candidateIndex args\<rparr>
     else t = en_topo e"
    using requestVotes_step [OF inv, of args] assms(2) by auto
  have less: "vote_term (lastVote (en_topo e)) < args_term args" "args_term args = topo_term t"
    "lastVote t = \<lparr>vote_term = args_term args, vote_candidateIndex = args_candidateIndex args\<rparr>"
    if "voteGranted r" "\<not> args_dryRun args"
    using that t assms by (auto simp: vote_inv_def)
  consider "\<not> (voteGranted r \<and> \<not> args_dryRun args)" | "voteGranted r" "\<not> args_dryRun args" "\<not> stored"
    | "voteGranted r" "\<not> args_dryRun args" "stored" by blast
  then show ?thesis
  proof cases
    case 1
    then show ?thesis using t(1,5) assms(1) by (auto simp: processVoteRequest_def Let_def)
  next
    case 2
    have "vote_inv (e\<lparr>en_coord := (en_coord e)\<lparr>rc_topo := t\<rparr>\<rparr>)"
      using assms(1) t(2) less [OF 2(1,2)] by (fastforce simp: vote_inv_def covered_def pending_ok_def)
    then show ?thesis using t(1) 2 by (auto simp: processVoteRequest_def Let_def)
  next
    case 3
    define v where "v = \<lparr>vote_term = args_term args, vote_candidateIndex = args_candidateIndex args\<rparr>"
    define n where "n = storeLocalLastVoteDocument ((en_coord e)\<lparr>rc_topo := t\<rparr>) v"
    have n: "rc_topo n = t" "rc_lastVoteDoc n = rc_lastVoteDoc (storeLocalLastVoteDocument (en_coord e) v)"
      by (auto simp: n_def storeLocalLastVoteDocument_def split: option.splits)
    have "vote_inv (e\<lparr>en_coord := n, en_ballots := (vote_term v, args_candidateIndex args) # en_ballots e\<rparr>)"
      using vote_inv_ballot [OF assms(1), of n v] n t(2) less [OF 3(1,2)] by (simp add: v_def)
    then show ?thesis using t(1) 3 by (auto simp: processVoteRequest_def Let_def v_def n_def)
  qed
qed

lemma WriteVote_inv:
  assumes "vote_inv e" and "exec_repl e (WriteVote stored) = Some e'"
  shows "vote_inv e'"
proof -
  obtain v n where v: "en_scheduled e = Some v" "writeLastVoteForMyElection (en_coord e) v stored = Some n"
    and e': "e' = e\<lparr>en_coord := n, en_scheduled := None,
      en_ballots := (if rc_voteRequester n \<noteq> None then (vote_term v, vote_candidateIndex v) # en_ballots e
                     else en_ballots e)\<rparr>"
    using assms(2) by (auto split: bind_splits)
  define m where "m = (if stored then storeLocalLastVoteDocument (en_coord e) v else en_coord e)"
  have m: "rc_topo m = en_topo e" by (simp add: m_def storeLocalLastVoteDocument_def split: option.splits)
  have inv: "topo_inv (en_topo e)" using assms(1) by (simp add: vote_inv_def)
  have n: "kept m n" "rc_voteRequester n \<noteq> None \<Longrightarrow> stored \<and> topo_term (en_topo e) = vote_term v"
    using writeVote_kept [OF inv v(2)] by (auto simp: m_def)
  have doc: "\<exists>d'. rc_lastVoteDoc n = Some d' \<and> vote_term d \<le> vote_term d'" if "rc_lastVoteDoc (en_coord e) = Some d" for d
    using that n(1) by (auto simp: kept_def m_def storeLocalLastVoteDocument_def split: if_splits)
  have mine: "\<exists>d'. rc_lastVoteDoc n = Some d' \<and> vote_term v \<le> vote_term d'" if "stored"
    using that n(1) by (auto simp: kept_def m_def storeLocalLastVoteDocument_def split: if_splits option.splits)
  have "covered e'"
    using assms(1) v(1) n m doc mine unfolding covered_def vote_inv_def pending_ok_def kept_def
    by (auto simp: e' split: if_splits) (metis fst_conv order_trans)+
  moreover have "distinct (map fst (en_ballots e'))"
    using assms(1) v(1) by (auto simp: e' vote_inv_def pending_ok_def)
  ultimately show ?thesis
    using assms(1) n(1) m by (auto simp: e' vote_inv_def kept_def pending_ok_def)
qed

text \<open>A restart keeps the votes: the term and the last vote come back from the disk.\<close>

lemma updateConfig_follower:
  "updateConfig t cfg self = Some t' \<Longrightarrow> role t = kFollower \<Longrightarrow> role t' \<noteq> kLeader"
  by (auto simp: updateConfig_def Let_def updateHeartbeatDataForReconfig_def invariant_def split: bind_splits if_splits)

lemma setMyOpTimes_kept:
  assumes "topo_inv t" and "do { u \<leftarrow> setMyLastAppliedOpTime t x now False; setMyLastDurableOpTime u x now False } = Some t'"
  shows "topo_inv t' \<and> quiet t t' \<and> role t' = role t"
proof -
  obtain u where u: "setMyLastAppliedOpTime t x now False = Some u" "setMyLastDurableOpTime u x now False = Some t'"
    using assms(2) by (auto split: bind_splits)
  have "opTime_ge x (lastAppliedOpTime (memberData t ! nat (self_slot t)))" "role u = role t"
    using u(1) assms(1) self_slot_range [OF assms(1)]
    by (auto simp: setMyLastAppliedOpTime_def selfMemberDataIndex_total invariant_def put_member_def split: if_splits)
  then have inv: "topo_inv u" "quiet t u" "role u = role t"
    using setMyLastApplied_step [OF assms(1), of False x now] u(1) by auto
  have "opTime_ge x (lastDurableOpTime (memberData u ! nat (self_slot u)))" "role t' = role u"
    using u(2) inv(1) self_slot_range [OF inv(1)]
    by (auto simp: setMyLastDurableOpTime_def selfMemberDataIndex_total invariant_def put_member_def split: if_splits)
  then show ?thesis
    using setMyLastDurable_step [OF inv(1), of False x now] u(2) inv quiet_trans [OF inv(2), of t'] by auto
qed

lemma loadLocalState_inv:
  assumes "config_ok cfg" and "0 \<le> self" and "self < getNumMembers cfg"
    and "loadLocalState opts supported doc cfg self x now = Some n"
  shows "topo_inv (rc_topo n) \<and> rc_lastVoteDoc n = doc \<and> rsConfig (rc_topo n) = cfg \<and> selfIndex (rc_topo n) = self \<and>
    rc_voteRequester n = None \<and> vote_term (lastVote (rc_topo n)) \<le> topo_term (rc_topo n) \<and>
    (\<forall>d. doc = Some d \<longrightarrow> lastVote (rc_topo n) = d)"
proof -
  define t0 where "t0 = setStorageEngineSupportsReadCommitted (TopologyCoordinator_new opts) supported"
  define t1 where "t1 = (case doc of Some v \<Rightarrow> loadLastVote t0 v | None \<Rightarrow> t0)"
  have "topo_inv t0" using topo_inv_new [of opts] by (simp add: t0_def setStorageEngineSupportsReadCommitted_def topo_frame)
  then have i1: "topo_inv t1" by (simp add: t1_def loadLastVote_def vote_field_inv split: option.splits)
  have t1: "role t1 = kFollower" "storageEngineSupportsReadCommitted t1 \<noteq> kUnknown"
    "\<not> cfg_isInitialized (rsConfig t1)"
    "lastVote t1 = (case doc of Some v \<Rightarrow> v | None \<Rightarrow> \<lparr>vote_term = kInitialTerm, vote_candidateIndex = - 1\<rparr>)"
    by (auto simp: t1_def t0_def loadLastVote_def setStorageEngineSupportsReadCommitted_def
        TopologyCoordinator_new_def ReplSetConfig_new_def split: option.splits)
  obtain t2 where t2: "updateConfig t1 cfg self = Some t2" "topo_inv t2" "lastVote t2 = lastVote t1" "rsConfig t2 = cfg"
    "selfIndex t2 = self" "topo_term t2 = kInitialTerm"
    using updateConfig_step [OF i1, of self cfg] t1 assms(1-3) by auto
  have r2: "role t2 \<noteq> kLeader" using updateConfig_follower [OF t2(1) t1(1)] .
  obtain t3 where t3: "(if \<not> opTime_isNull x then do {
            t \<leftarrow> setMyLastAppliedOpTime t2 x now False;
            setMyLastDurableOpTime t x now False
          } else Some t2) = Some t3"
    using assms(4) t2(1) by (auto simp: loadLocalState_def Let_def t0_def [symmetric] t1_def [symmetric] split: bind_splits)
  have k3: "topo_inv t3" "quiet t2 t3" "role t3 = role t2"
    using setMyOpTimes_kept [OF t2(2), of x now t3] t3 t2(2) by (auto split: if_splits)
  define n0 where "n0 = \<lparr>rc_topo = t3, rc_pendingTerm = None, rc_voteRequester = None, rc_lastVoteDoc = doc,
    rc_configSteady = True\<rparr>"
  define term0 where "term0 = (case doc of Some v \<Rightarrow> max (getTerm x) (vote_term v) | None \<Rightarrow> getTerm x)"
  obtain r b m where m: "updateTerm_inlock n0 term0 now = Some ((r, b), m)" "kept n0 m"
    "topo_term (rc_topo m) = max (topo_term t3) term0"
    using updateTerm_inlock_kept [of n0 term0 now] k3(1,3) r2 by (auto simp: n0_def)
  have vr: "rc_voteRequester m = None"
    using m(1) by (auto simp: updateTerm_inlock_def n0_def Let_def split: bind_splits if_splits)
  have "n = m"
    using assms(4) t2(1) t3 m(1)
    by (simp add: loadLocalState_def Let_def t0_def [symmetric] t1_def [symmetric] n0_def term0_def)
  then show ?thesis
    using m(2,3) k3(2) t2 t1(4) vr by (auto simp: kept_def quiet_def n0_def term0_def split: option.splits)
qed

lemma Restart_inv:
  assumes "vote_inv e" and "selfIndex (en_topo e) \<noteq> - 1"
    and "exec_repl e (Restart opts supported x now) = Some e'"
  shows "vote_inv e'"
proof -
  have inv: "topo_inv (en_topo e)" using assms(1) by (simp add: vote_inv_def)
  obtain n where n: "loadLocalState opts supported (rc_lastVoteDoc (en_coord e)) (rsConfig (en_topo e))
      (selfIndex (en_topo e)) x now = Some n" and e': "e' = e\<lparr>en_coord := n, en_scheduled := None\<rparr>"
    using assms(3) by (auto split: bind_splits)
  show ?thesis
    using loadLocalState_inv [OF _ _ _ n] self_at [OF inv assms(2)] assms(1)
    by (fastforce simp: e' vote_inv_def covered_def pending_ok_def getNumMembers_def)
qed

lemma exec_repl_legal:
  assumes "vote_inv e" and "repl_legal e a"
  shows "\<exists>e'. exec_repl e a = Some e' \<and> vote_inv e'"
proof -
  have inv: "topo_inv (en_topo e)" using assms(1) by (simp add: vote_inv_def)
  note kept = vote_inv_kept [OF assms(1)]
  have voted: "kept (en_coord e) n \<or> self_voted (en_coord e) n \<Longrightarrow> vote_inv (schedule_vote e n)" for n
    using kept(3) vote_inv_self_voted [OF assms(1)] by blast
  show ?thesis
  proof (cases a)
    case (TopoStep b)
    then obtain t where "exec_topo (en_topo e) b = Some t" "topo_inv t" "quiet (en_topo e) t"
      using exec_topo_legal [OF inv] assms(2) by auto
    then show ?thesis using TopoStep kept(1) [OF kept_quiet] by simp
  next
    case (LearnTerm p now)
    then show ?thesis using updateTerm_inlock_kept [OF inv, of p now] kept(1) by auto
  next
    case (EndStepDown now)
    then show ?thesis using assms(2) stepDownFinish_kept [OF inv] kept(1) by (auto split: bind_splits)
  next
    case (VoteRequest args stored)
    then show ?thesis using VoteRequest_inv assms by blast
  next
    case (StartElection reason now)
    then show ?thesis using assms(2) voted [OF startElectSelf_votes [OF inv]] by (auto split: bind_splits)
  next
    case (DryRunDone p now)
    then show ?thesis using assms(2) voted [OF processDryRunResult_votes [OF inv]] by (auto split: bind_splits)
  next
    case (WriteVote stored)
    then obtain e' where "exec_repl e a = Some e'" using assms(2) by (auto simp del: exec_repl.simps)
    then show ?thesis using WriteVote_inv [OF assms(1)] WriteVote by blast
  next
    case (VoteArrived h reply)
    then show ?thesis using kept(1) inv by (simp add: kept_def processVoteResponse_def)
  next
    case (VotesComplete p now)
    then show ?thesis using assms(2) onVoteRequestComplete_kept [OF inv] kept(1) by (auto split: bind_splits)
  next
    case (Win ts)
    then show ?thesis using assms(2) winElection_kept [OF inv] kept(1) by (auto split: bind_splits)
  next
    case (Restart opts supported x now)
    then obtain e' where "exec_repl e a = Some e'" using assms(2) by (auto simp del: exec_repl.simps)
    then show ?thesis using Restart_inv [OF assms(1)] Restart assms(2) by (auto simp del: exec_repl.simps)
  qed
qed

interpretation rep: operation_system exec_repl repl_legal vote_inv
  by unfold_locales (use exec_repl_legal in blast)

end
