(* ===== verification/Election_Quorums.thy ===== *)
theory Election_Quorums
  imports Elections_Safety
begin

text \<open>
  The votes of an election as a set of members: a candidate that the vote requester declares elected
  has the votes of a majority of the voting members, its own included.
\<close>

definition voted_for :: "ReplSetConfig \<Rightarrow> nat \<Rightarrow> (HostAndPort \<times> VoteReply) list \<Rightarrow> nat set" where
  "voted_for cfg c rs =
     insert c {v \<in> voters cfg. list_ex (\<lambda>(h, r). h = member_host (cfg_members cfg ! v) \<and> yes_reply r) rs}"

text \<open>The answers of an election: at most one from each member that was asked.\<close>

definition answers_ok :: "ReplSetConfig \<Rightarrow> nat \<Rightarrow> (HostAndPort \<times> VoteReply) list \<Rightarrow> bool" where
  "answers_ok cfg c rs \<longleftrightarrow>
     distinct (map fst rs) \<and> list_all (\<lambda>(h, _). h \<in> set (vote_targets (int c) 0 (cfg_members cfg))) rs"

definition elected :: "ReplSetConfig \<Rightarrow> nat \<Rightarrow> int \<Rightarrow> OpTime \<Rightarrow> (HostAndPort \<times> VoteReply) list \<Rightarrow> bool" where
  "elected cfg c T x rs \<longleftrightarrow> c \<in> voters cfg \<and> answers_ok cfg c rs \<and>
     getResult (processResponses (VoteRequester_new cfg (int c) T False x (- 1)) rs) = kSuccessfullyElected"

lemma elected_quorum:
  assumes "config_ok cfg" and "elected cfg c T x rs"
  shows "election_quorum cfg (voted_for cfg c rs)"
proof -
  define yes where "yes = filter (\<lambda>(_, r). yes_reply r) rs"
  define Y where "Y = {v \<in> voters cfg. v \<noteq> c \<and> list_ex (\<lambda>(h, r). h = member_host (cfg_members cfg ! v) \<and> yes_reply r) rs}"
  have fin: "finite Y" by (simp add: Y_def)
  have "fst ` set yes \<subseteq> (\<lambda>v. member_host (cfg_members cfg ! v)) ` Y"
  proof
    fix h
    assume "h \<in> fst ` set yes"
    then obtain r where r: "(h, r) \<in> set rs" "yes_reply r" by (auto simp: yes_def)
    then obtain k where "k < length (cfg_members cfg)" "isVoter (cfg_members cfg ! k)" "int k \<noteq> int c"
      "h = member_host (cfg_members cfg ! k)"
      using assms(2) vote_targets_mem [of h "int c" 0 "cfg_members cfg"]
      by (fastforce simp: elected_def answers_ok_def list_all_iff)
    then show "h \<in> (\<lambda>v. member_host (cfg_members cfg ! v)) ` Y"
      using r by (force simp: Y_def voters_def list_ex_iff)
  qed
  then have "card (fst ` set yes) \<le> card Y"
    using fin by (meson card_image_le card_mono finite_imageI order_trans)
  moreover have "distinct (map fst yes)"
    using assms(2) by (simp add: yes_def elected_def answers_ok_def distinct_map_filter)
  then have "card (fst ` set yes) = length yes"
    by (metis distinct_card length_map set_map)
  moreover have "voted_for cfg c rs = insert c Y" "c \<notin> Y" by (auto simp: voted_for_def Y_def)
  moreover have "1 + int (length yes) \<ge> majorityVoteCount cfg"
    using assms(2) elected_votes [of cfg "int c" T False x "- 1" rs] by (simp add: elected_def yes_def)
  moreover have "insert c Y \<subseteq> voters cfg" using assms(2) by (auto simp: Y_def elected_def)
  ultimately show ?thesis using assms(1) fin by (simp add: election_quorum_def)
qed

text \<open>The node that starts with an empty vote document.\<close>

definition first_start :: "ReplCoord \<Rightarrow> election_node" where
  "first_start n = \<lparr>en_coord = n, en_scheduled = None, en_ballots = []\<rparr>"

lemma first_start_inv:
  assumes "config_ok cfg" and "0 \<le> self" and "self < getNumMembers cfg"
    and "loadLocalState opts supported None cfg self x now = Some n"
  shows "vote_inv (first_start n)"
  using loadLocalState_inv [OF assms] by (simp add: first_start_def vote_inv_def covered_def pending_ok_def)

text \<open>The state of a member of a set after any legal life since its first start.\<close>

definition life :: "ReplSetConfig \<Rightarrow> nat \<Rightarrow> election_node \<Rightarrow> bool" where
  "life cfg v e \<longleftrightarrow> (\<exists>opts supported x now n ops.
     loadLocalState opts supported None cfg (int v) x now = Some n \<and>
     legal_run exec_repl repl_legal (first_start n) ops \<and> run_ops exec_repl (first_start n) ops = Some e)"

lemma lifeI:
  "loadLocalState opts supported None cfg (int v) x now = Some n \<Longrightarrow>
   legal_run exec_repl repl_legal (first_start n) ops \<Longrightarrow> run_ops exec_repl (first_start n) ops = Some e \<Longrightarrow> life cfg v e"
  unfolding life_def by blast

lemma life_inv:
  assumes "config_ok cfg" and "v < length (cfg_members cfg)" and "life cfg v e"
  shows "vote_inv e"
proof -
  obtain opts supported x now n ops where
    "loadLocalState opts supported None cfg (int v) x now = Some n"
    and run: "legal_run exec_repl repl_legal (first_start n) ops" "run_ops exec_repl (first_start n) ops = Some e"
    using assms(3) by (auto simp: life_def)
  then have "vote_inv (first_start n)"
    using first_start_inv [of cfg "int v"] assms(1,2) by (simp add: getNumMembers_def)
  then show ?thesis using rep.run_total [of "first_start n" ops] run by auto
qed

lemma vote_inv_one_ballot:
  "vote_inv e \<Longrightarrow> (p, c) \<in> set (en_ballots e) \<Longrightarrow> (p, c') \<in> set (en_ballots e) \<Longrightarrow> c = c'"
  using eq_key_imp_eq_value [of "en_ballots e" p c c'] by (simp add: vote_inv_def)

end
