(* ===== verification/Election_Properties.thy ===== *)
theory Election_Properties
  imports Repl_Examples Election_Quorums
begin

text \<open>
  What elections guarantee: a node votes once in a term, restarts included, a term has at most one winner,
  and the winner has every write that a majority has acknowledged. Two runs show where the code leaves this.
\<close>

subsection \<open>One vote in a term\<close>


definition example_candidate_life :: "repl_op list" where
  "example_candidate_life =
     [TopoStep (SetFollowerMode RS_SECONDARY),
      TopoStep (HeartbeatRequest 100 ''rs'' (example_host ''b'')),
      TopoStep (HeartbeatDone 101 1 (example_host ''b'') example_heartbeat OpTime_null),
      TopoStep (HeartbeatRequest 100 ''rs'' (example_host ''c'')),
      TopoStep (HeartbeatDone 101 1 (example_host ''c'') example_heartbeat OpTime_null),
      TopoStep (BecomeCandidate 20000 kElectionTimeout), StartElection kElectionTimeout 20000,
      VoteArrived (example_host ''b'') (example_yes 0), VoteArrived (example_host ''c'') (example_yes 0),
      DryRunDone 0 20000, WriteVote True]"

definition example_request :: "int \<Rightarrow> int \<Rightarrow> ReplSetRequestVotesArgs" where
  "example_request p c =
     \<lparr>args_setName = ''rs'', args_term = p, args_candidateIndex = c, args_cfgver = 1,
      args_lastDurableOpTime = example_opTime, args_dryRun = False\<rparr>"

definition example_voter_life :: "repl_op list" where
  "example_voter_life =
     [LearnTerm 1 5, VoteRequest (example_request 1 0) True, Restart example_options True example_opTime 9,
      VoteRequest (example_request 1 2) True]"

definition example_node :: "int \<Rightarrow> ReplCoord" where
  "example_node v = the (example_start v)"

lemma example_starts:
  "loadLocalState example_options True None example_config (int 0) example_opTime 0 = Some (example_node 0)"
  "loadLocalState example_options True None example_config (int 1) example_opTime 0 = Some (example_node 1)"
  "loadLocalState example_options True None example_config (int 2) example_opTime 0 = Some (example_node 2)"
  "loadLocalState example_options True None example_config (int 3) example_opTime 0 = Some (example_node 3)"
  by code_simp+


subsection \<open>One winner in a term\<close>

text \<open>
  The ballots behind an election: every member whose yes the candidate counts has voted for the candidate in
  that term, and so has the candidate itself.
\<close>

definition ballots_behind :: "ReplSetConfig \<Rightarrow> (nat \<Rightarrow> election_node) \<Rightarrow> int \<Rightarrow> nat \<Rightarrow> (HostAndPort \<times> VoteReply) list \<Rightarrow> bool" where
  "ballots_behind cfg node T c rs \<longleftrightarrow>
     list_all (\<lambda>v. v \<in> voted_for cfg c rs \<longrightarrow> (T, int c) \<in> set (en_ballots (node v))) [0..<length (cfg_members cfg)]"


definition example_electorate :: "nat \<Rightarrow> election_node" where
  "example_electorate v =
     the (run_ops exec_repl (first_start (example_node (int v)))
       (if v = 0 then example_candidate_life else if v = 3 then [] else example_voter_life))"

definition example_votes :: "(HostAndPort \<times> VoteReply) list" where
  "example_votes =
     [(example_host ''c'', example_yes 1), (example_host ''d'', VoteFailed), (example_host ''b'', example_yes 1)]"

lemma example_lives:
  assumes "v < length (cfg_members example_config)"
  shows "life example_config v (example_electorate v)"
proof -
  have "v = 0 \<or> v = 1 \<or> v = 2 \<or> v = 3" using assms by (auto simp: example_members)
  moreover have "life example_config 0 (example_electorate 0)"
    by (rule lifeI [OF example_starts(1), of example_candidate_life]) code_simp+
  moreover have "life example_config 1 (example_electorate 1)"
    by (rule lifeI [OF example_starts(2), of example_voter_life]) code_simp+
  moreover have "life example_config 2 (example_electorate 2)"
    by (rule lifeI [OF example_starts(3), of example_voter_life]) code_simp+
  moreover have "life example_config 3 (example_electorate 3)"
    by (rule lifeI [OF example_starts(4), of "[]"]) (simp_all add: example_electorate_def)
  ultimately show ?thesis by blast
qed

lemma example_elected: "elected example_config 0 1 example_opTime example_votes"
proof -
  have "(0 :: nat) \<in> voters example_config" by (simp add: voters_def example_config_def example_member_def isVoter_def)
  moreover have "answers_ok example_config 0 example_votes" by code_simp
  moreover have "getResult (processResponses (VoteRequester_new example_config (int 0) 1 False example_opTime (- 1)) example_votes) =
      kSuccessfullyElected"
    by code_simp
  ultimately show ?thesis by (simp add: elected_def)
qed

lemma example_voted_for: "voted_for example_config 0 example_votes = {0, 1, 2}"
  by (auto simp: voted_for_def voters_def example_config_def example_member_def isVoter_def example_votes_def
      example_host_def example_yes_def less_Suc_eq numeral_eq_Suc)


subsection \<open>The winner has the majority's writes\<close>

text \<open>
  The members that answer an election: whoever grants its vote has answered the candidate's request in its
  state, and the candidate asks with its own last applied optime.
\<close>

definition answered_by ::
  "ReplSetConfig \<Rightarrow> (nat \<Rightarrow> TopologyCoordinator) \<Rightarrow> nat \<Rightarrow> int \<Rightarrow> OpTime \<Rightarrow> (HostAndPort \<times> VoteReply) list \<Rightarrow> bool" where
  "answered_by cfg st c T x rs \<longleftrightarrow>
     getMyLastAppliedOpTime (st c) = Some x \<and>
     list_all (\<lambda>v. v \<in> voted_for cfg c rs \<and> v \<noteq> c \<longrightarrow>
        topo_inv (st v) \<and> vote_legal (st v) (vote_request_args (VoteRequester_new cfg (int c) T False x (- 1))) \<and>
        map_option (voteGranted \<circ> fst)
          (processReplSetRequestVotes (st v) (vote_request_args (VoteRequester_new cfg (int c) T False x (- 1)))) = Some True)
       [0..<length (cfg_members cfg)]"

definition has_applied :: "(nat \<Rightarrow> TopologyCoordinator) \<Rightarrow> OpTime \<Rightarrow> nat \<Rightarrow> bool" where
  "has_applied st y v \<longleftrightarrow>
     (case getMyLastAppliedOpTime (st v) of Some mine \<Rightarrow> valid_opTime mine \<and> opTime_ge mine y | None \<Rightarrow> False)"

lemma opTime_ge_trans:
  assumes "valid_opTime x" and "valid_opTime y" and "valid_opTime z" and "opTime_ge x y" and "opTime_ge y z"
  shows "opTime_ge x z"
  using assms opTime_less_trans opTime_less_linear by (metis opTime_ge_def)

lemma granted_covers:
  assumes "topo_inv t" and "vote_legal t args" and "map_option (voteGranted \<circ> fst) (processReplSetRequestVotes t args) = Some True"
  shows "\<exists>mine. getMyLastAppliedOpTime t = Some mine \<and> opTime_ge (args_lastDurableOpTime args) mine"
  using requestVotes_step [OF assms(1,2)] assms(3) by (auto simp: opTime_ge_def)

text \<open>
  C27: When a candidate with data is declared elected, its last applied optime is at least every optime
  that the members of a write majority had applied when they were asked: no write that a majority
  acknowledged is lost by the election.
\<close>

theorem winner_has_majority_writes:
  assumes "elected cfg c T x rs" and "c \<in> data_voters cfg" and "answered_by cfg st c T x rs"
    and "write_quorum cfg B" and "list_all (\<lambda>v. v \<in> B \<longrightarrow> has_applied st y v) [0..<length (cfg_members cfg)]"
    and "valid_opTime x" and "valid_opTime y"
  shows "opTime_ge x y"
proof -
  let ?A = "voted_for cfg c rs" and ?args = "vote_request_args (VoteRequester_new cfg (int c) T False x (- 1))"
  have ok: "config_ok cfg" using assms(4) by (simp add: write_quorum_def)
  have A: "data_election_quorum cfg ?A"
    using elected_quorum [OF ok assms(1)] assms(2) by (auto simp: data_election_quorum_def voted_for_def)
  obtain v where v: "v \<in> ?A" "v \<in> B" using wq.quorums_meet [OF A assms(4)] by blast
  then have len: "v < length (cfg_members cfg)" using assms(4) by (auto simp: write_quorum_def data_voters_def)
  then obtain mine where mine: "getMyLastAppliedOpTime (st v) = Some mine" "valid_opTime mine" "opTime_ge mine y"
    using assms(5) v(2) by (auto simp: list_all_iff has_applied_def split: option.splits)
  have "opTime_ge x mine"
  proof (cases "v = c")
    case True
    then show ?thesis using assms(3) mine(1) by (simp add: answered_by_def opTime_ge_def)
  next
    case False
    then have "topo_inv (st v)" "vote_legal (st v) ?args"
      "map_option (voteGranted \<circ> fst) (processReplSetRequestVotes (st v) ?args) = Some True"
      using assms(3) v(1) len by (auto simp: answered_by_def list_all_iff)
    then show ?thesis
      using granted_covers [of "st v" ?args] mine(1) by (auto simp: vote_request_args_def VoteRequester_new_def)
  qed
  then show ?thesis using opTime_ge_trans [OF assms(6) mine(2) assms(7)] mine(3) by blast
qed

definition example_states :: "nat \<Rightarrow> TopologyCoordinator" where
  "example_states v = rc_topo (example_node (int v))"

lemma winner_has_majority_writes_witness:
  "elected example_config 0 1 example_opTime example_votes \<and> answered_by example_config example_states 0 1 example_opTime example_votes \<and>
   write_quorum example_config {0, 1, 2} \<and> opTime_ge example_opTime example_opTime"
proof -
  have inv: "topo_inv (example_states 1)" "topo_inv (example_states 2)"
    using loadLocalState_inv [OF example_config_ok _ _ example_starts(2)]
      loadLocalState_inv [OF example_config_ok _ _ example_starts(3)]
    by (simp_all add: example_states_def getNumMembers_def example_members)
  have data: "data_voters example_config = {0, 1, 2}"
    by (auto simp: data_voters_def example_config_def example_member_def isVoter_def less_Suc_eq numeral_eq_Suc)
  have legal: "list_all (\<lambda>v. vote_legal (example_states v) (example_request 1 0) \<and>
      map_option (voteGranted \<circ> fst) (processReplSetRequestVotes (example_states v) (example_request 1 0)) = Some True) [1, 2]"
    by code_simp
  have "getMyLastAppliedOpTime (example_states 0) = Some example_opTime" by code_simp
  moreover have "vote_request_args (VoteRequester_new example_config (int 0) 1 False example_opTime (- 1)) = example_request 1 0"
    by code_simp
  ultimately have answered: "answered_by example_config example_states 0 1 example_opTime example_votes"
    using legal inv unfolding answered_by_def example_voted_for by (auto simp: list_all_iff)
  have quorum: "write_quorum example_config {0, 1, 2}"
    using example_config_ok data by (simp add: write_quorum_def example_config_def)
  have applied: "list_all (has_applied example_states example_opTime) [0, 1, 2]" by code_simp
  have "valid_opTime example_opTime" by code_simp
  then have "opTime_ge example_opTime example_opTime"
    using winner_has_majority_writes [OF example_elected _ answered quorum, of example_opTime] applied
    by (simp add: data list_all_iff)
  then show ?thesis using example_elected answered quorum by blast
qed

subsection \<open>Counting\<close>

definition stale_reply :: "int \<Rightarrow> VoteReply \<Rightarrow> bool" where
  "stale_reply T reply \<longleftrightarrow> (case reply of VoteAnswer r \<Rightarrow> response_term r > T | _ \<Rightarrow> False)"

lemma processResponses_stale:
  "vr_staleTerm (processResponses vr rs) \<longleftrightarrow> vr_staleTerm vr \<or> list_ex (\<lambda>(_, r). stale_reply (vr_term vr) r) rs"
proof (induction rs arbitrary: vr)
  case (Cons a rs)
  obtain h r where a: "a = (h, r)" by (cases a)
  have "vr_staleTerm (processResponse vr h r) \<longleftrightarrow> vr_staleTerm vr \<or> stale_reply (vr_term vr) r"
    by (cases r) (auto simp: processResponse_def stale_reply_def Let_def split: option.splits)
  then show ?case using Cons [of "processResponse vr h r"] by (auto simp: a)
qed simp



subsection \<open>Where the code leaves the contract\<close>

definition example_primary_life :: "repl_op list" where
  "example_primary_life = example_candidate_life @
     [VoteArrived (example_host ''b'') (example_yes 1), VoteArrived (example_host ''c'') (example_yes 1),
      VotesComplete 1 20001, Win (Timestamp 2 0)]"



end
