(* ===== verification/Commit_Point.thy ===== *)
theory Commit_Point
  imports Topology_Safety
begin

text \<open>
  The commit point of a primary: the sorted optimes of the voting members, and that the entry the code reads is the
  greatest optime that a write majority has reached.
\<close>

subsection \<open>Sorting\<close>

abbreviation opTimes_sorted :: "OpTime list \<Rightarrow> bool" where
  "opTimes_sorted xs \<equiv> sorted_wrt (\<lambda>a b. \<not> opTime_less b a) xs"

lemma set_insert_opTime [simp]: "set (insert_opTime x xs) = insert x (set xs)"
  by (induction xs) auto

lemma mset_insert_opTime: "mset (insert_opTime x xs) = add_mset x (mset xs)"
  by (induction xs) auto

lemma mset_sort_opTimes [simp]: "mset (sort_opTimes xs) = mset xs"
  by (induction xs) (simp_all add: sort_opTimes_def mset_insert_opTime)

lemma set_sort_opTimes [simp]: "set (sort_opTimes xs) = set xs"
  by (metis mset_sort_opTimes set_mset_mset)

lemma not_less_trans:
  assumes "valid_opTime a" and "valid_opTime b" and "valid_opTime c" and "\<not> opTime_less b a" and "\<not> opTime_less c b"
  shows "\<not> opTime_less c a"
  using assms by (metis opTime_less_linear opTime_less_trans)

lemma insert_opTime_sorted:
  assumes "opTimes_sorted xs" and "valid_opTime x" and "\<forall>y \<in> set xs. valid_opTime y"
  shows "opTimes_sorted (insert_opTime x xs)"
  using assms
proof (induction xs)
  case (Cons y ys)
  show ?case
  proof (cases "opTime_less y x")
    case True
    then show ?thesis using Cons opTime_less_asym [OF True] by auto
  next
    case False
    have "\<not> opTime_less z x" if z: "z \<in> set ys" for z
      by (rule not_less_trans [of x y z]) (use Cons.prems False z in auto)
    then show ?thesis using Cons.prems False by auto
  qed
qed simp

lemma sort_opTimes_sorted: "\<forall>y \<in> set xs. valid_opTime y \<Longrightarrow> opTimes_sorted (sort_opTimes xs)"
proof (induction xs)
  case (Cons x xs)
  have "set (foldr insert_opTime xs []) = set xs" using set_sort_opTimes [of xs] by (simp add: sort_opTimes_def)
  then show ?case using Cons insert_opTime_sorted [of "sort_opTimes xs" x] by (simp add: sort_opTimes_def)
qed (simp add: sort_opTimes_def)

subsection \<open>The entry that a majority has reached\<close>

lemma kth_reached:
  assumes "opTimes_sorted xs" and "k < length xs"
  shows "length xs - k \<le> length (filter (\<lambda>x. opTime_ge x (xs ! k)) xs)"
proof -
  have "\<forall>x \<in> set (drop k xs). opTime_ge x (xs ! k)"
  proof
    fix x
    assume "x \<in> set (drop k xs)"
    then obtain i where i: "k \<le> i" "i < length xs" "x = xs ! i"
      by (auto simp: in_set_conv_nth) (metis le_add1 less_diff_conv add.commute)
    then show "opTime_ge x (xs ! k)"
      using sorted_wrt_nth_less [OF assms(1), of k i] by (cases "k = i") (auto simp: opTime_ge_def)
  qed
  then have "filter (\<lambda>x. opTime_ge x (xs ! k)) (drop k xs) = drop k xs" by simp
  moreover have "filter (\<lambda>x. opTime_ge x (xs ! k)) xs =
      filter (\<lambda>x. opTime_ge x (xs ! k)) (take k xs) @ filter (\<lambda>x. opTime_ge x (xs ! k)) (drop k xs)"
    by (metis append_take_drop_id filter_append)
  ultimately show ?thesis by simp
qed

lemma kth_greatest:
  assumes "opTimes_sorted xs" and "k < length xs" and "\<forall>x \<in> set xs. valid_opTime x" and "valid_opTime y"
    and "length xs - k \<le> length (filter (\<lambda>x. opTime_ge x y) xs)"
  shows "opTime_ge (xs ! k) y"
proof (rule ccontr)
  assume "\<not> opTime_ge (xs ! k) y"
  then have less: "opTime_less (xs ! k) y" by (simp add: opTime_ge_def)
  have "\<forall>x \<in> set (take (Suc k) xs). \<not> opTime_ge x y"
  proof
    fix x
    assume "x \<in> set (take (Suc k) xs)"
    then obtain i where i: "i \<le> k" "x = xs ! i" using assms(2) by (auto simp: in_set_conv_nth less_Suc_eq_le)
    then have "\<not> opTime_less (xs ! k) x"
      using sorted_wrt_nth_less [OF assms(1), of i k] assms(2) by (cases "i = k") auto
    moreover have "valid_opTime x" "valid_opTime (xs ! k)" using i assms(2,3) by auto
    ultimately show "\<not> opTime_ge x y"
      using less not_less_trans [of y x "xs ! k"] assms(4) by (auto simp: opTime_ge_def)
  qed
  then have "filter (\<lambda>x. opTime_ge x y) (take (Suc k) xs) = []" by (simp add: filter_empty_conv)
  then have "filter (\<lambda>x. opTime_ge x y) xs = filter (\<lambda>x. opTime_ge x y) (drop (Suc k) xs)"
    by (metis append_Nil append_take_drop_id filter_append)
  then have "length (filter (\<lambda>x. opTime_ge x y) xs) \<le> length xs - Suc k"
    using length_filter_le [of "\<lambda>x. opTime_ge x y" "drop (Suc k) xs"] by simp
  then show False using assms(2,5) by simp
qed

subsection \<open>The commit point\<close>

definition acknowledged :: "TopologyCoordinator \<Rightarrow> OpTime \<Rightarrow> int" where
  "acknowledged t y = int (length (filter
     (\<lambda>d. opTime_ge (member_opTime (writeConcernMajorityJournalDefault (rsConfig t)) d) y) (voting_data t)))"

definition majority_opTime :: "TopologyCoordinator \<Rightarrow> OpTime" where
  "majority_opTime t =
     sort_opTimes (map (member_opTime (writeConcernMajorityJournalDefault (rsConfig t))) (voting_data t)) !
       nat (int (count_members isVoter (rsConfig t)) - writeMajority (rsConfig t))"

definition progress_valid :: "TopologyCoordinator \<Rightarrow> bool" where
  "progress_valid t \<longleftrightarrow> valid_opTime (lastCommittedOpTime t) \<and>
     list_all (\<lambda>d. valid_opTime (lastAppliedOpTime d) \<and> valid_opTime (lastDurableOpTime d)) (memberData t)"

lemma majority_opTime_greatest:
  assumes "topo_inv t" and "selfIndex t \<noteq> - 1" and "progress_valid t"
  shows "valid_opTime (majority_opTime t)" and "writeMajority (rsConfig t) \<le> acknowledged t (majority_opTime t)"
    and "valid_opTime y \<Longrightarrow> writeMajority (rsConfig t) \<le> acknowledged t y \<Longrightarrow> opTime_ge (majority_opTime t) y"
proof -
  let ?f = "member_opTime (writeConcernMajorityJournalDefault (rsConfig t))"
  let ?xs = "sort_opTimes (map ?f (voting_data t))"
  let ?k = "nat (int (count_members isVoter (rsConfig t)) - writeMajority (rsConfig t))"
  have ok: "config_ok (rsConfig t)" by (rule self_at(3) [OF assms(1,2)])
  have n: "length ?xs = count_members isVoter (rsConfig t)" using voting_data_count [OF assms(1,2)] by simp
  have w: "1 \<le> writeMajority (rsConfig t)" "writeMajority (rsConfig t) \<le> int (count_members isVoter (rsConfig t))"
    using config_majorities [OF ok] by linarith+
  have k: "?k < length ?xs" "int (length ?xs - ?k) = writeMajority (rsConfig t)" using n w by auto
  have valid: "\<forall>x \<in> set ?xs. valid_opTime x"
    using assms(3) by (auto simp: progress_valid_def list_all_iff voting_data_def member_opTime_def)
  then have sorted: "opTimes_sorted ?xs" by (intro sort_opTimes_sorted) simp
  have acked: "acknowledged t z = int (length (filter (\<lambda>x. opTime_ge x z) ?xs))" for z
  proof -
    have "length (filter (\<lambda>x. opTime_ge x z) ?xs) = length (filter (\<lambda>x. opTime_ge x z) (map ?f (voting_data t)))"
      by (metis mset_filter mset_sort_opTimes size_mset)
    then show ?thesis by (simp add: acknowledged_def filter_map comp_def)
  qed
  show "valid_opTime (majority_opTime t)" unfolding majority_opTime_def using valid k(1) nth_mem by blast
  show "writeMajority (rsConfig t) \<le> acknowledged t (majority_opTime t)"
    unfolding acked majority_opTime_def using kth_reached [OF sorted k(1)] k(2) by linarith
  show "opTime_ge (majority_opTime t) y" if "valid_opTime y" "writeMajority (rsConfig t) \<le> acknowledged t y"
  proof -
    have "length ?xs - ?k \<le> length (filter (\<lambda>x. opTime_ge x y) ?xs)" using that(2) k(2) unfolding acked by linarith
    then show ?thesis unfolding majority_opTime_def by (rule kth_greatest [OF sorted k(1) valid that(1)])
  qed
qed

end
