(* ===== verification/Sync_Source.thy ===== *)
theory Sync_Source
  imports Topology_Safety
begin

text \<open>
  The scan for a sync source finds the nearest of the members that pass the checks, and finds none only if no
  member passes them.
\<close>

abbreviation ping_of :: "((string \<times> int) \<times> PingStats) list \<Rightarrow> HostAndPort \<Rightarrow> int" where
  "ping_of ps h \<equiv> fst (getPing ps h)"

lemma ping_of_stable [simp]: "ping_of (snd (getPing ps h)) k = ping_of ps k"
  by (auto simp: getPing_def ping_entry_def update_conv' split: option.splits)

text \<open>The best of the members before index \<open>i\<close>, or none.\<close>

definition nearest_below ::
  "TopologyCoordinator \<Rightarrow> ((string \<times> int) \<times> PingStats) list \<Rightarrow> (int \<Rightarrow> bool) \<Rightarrow> int \<Rightarrow> int \<Rightarrow> bool" where
  "nearest_below t ps good i c \<longleftrightarrow>
     (if c = - 1 then \<forall>k < i. \<not> good k
      else good c \<and> (\<forall>k < i. good k \<longrightarrow>
        ping_of ps (member_host (cfg_members (rsConfig t) ! nat c)) \<le> ping_of ps (member_host (cfg_members (rsConfig t) ! nat k))))"

lemma nearest_below_next:
  "nearest_below t ps good (i + 1) c \<longleftrightarrow>
     (if c = - 1 then (\<forall>k < i. \<not> good k) \<and> \<not> good i
      else good c \<and> (\<forall>k < i. good k \<longrightarrow>
        ping_of ps (member_host (cfg_members (rsConfig t) ! nat c)) \<le> ping_of ps (member_host (cfg_members (rsConfig t) ! nat k))) \<and>
        (good i \<longrightarrow>
        ping_of ps (member_host (cfg_members (rsConfig t) ! nat c)) \<le> ping_of ps (member_host (cfg_members (rsConfig t) ! nat i))))"
proof -
  have "(\<forall>k < i + 1. P k) \<longleftrightarrow> (\<forall>k < i. P k) \<and> P i" for P :: "int \<Rightarrow> bool"
    unfolding zless_add1_eq by blast
  then show ?thesis by (simp only: nearest_below_def conj_assoc)
qed

lemma scan_candidates_nearest:
  assumes "topo_inv t" and "selfIndex t \<noteq> - 1"
    and good_def: "good = good_source t now oldest fetched first"
  shows "0 \<le> i \<Longrightarrow> ds = drop (nat i) (memberData t) \<Longrightarrow> nearest_below t qs good i c \<Longrightarrow> ping_of ps = ping_of qs \<Longrightarrow>
    \<exists>c' ps'. scan_candidates t now oldest fetched first i ds (c, ps) = Some (c', ps') \<and>
      nearest_below t qs good (getNumMembers (rsConfig t)) c' \<and> ping_of ps' = ping_of qs"
proof (induction ds arbitrary: i c ps)
  case Nil
  have "drop (nat i) (memberData t) = []" using Nil.prems(2) by (rule sym)
  then have "int (length (memberData t)) \<le> i" using Nil.prems(1) by simp
  then have "getNumMembers (rsConfig t) \<le> i" using self_at(4) [OF assms(1,2)] by (simp add: getNumMembers_def)
  then show ?case using Nil by (auto simp: nearest_below_def)
next
  case (Cons d ds)
  let ?m = "cfg_members (rsConfig t) ! nat i"
  have i: "nat i < length (memberData t)" using Cons.prems(2) by (metis drop_eq_Nil2 linorder_not_less list.discI)
  then have d: "d = memberData t ! nat i" "ds = drop (nat (i + 1)) (memberData t)"
    using Cons.prems(1,2) Cons_nth_drop_Suc [OF i] by (metis list.inject, metis Suc_nat_eq_nat_zadd1 add.commute list.inject)
  have range: "i < getNumMembers (rsConfig t)"
    using i self_at(4) [OF assms(1,2)] Cons.prems(1) by (simp add: getNumMembers_def)
  then have m: "getMemberAt (rsConfig t) i = Some ?m" using Cons.prems(1) by (simp add: getNumMembers_def)
  have IH: "nearest_below t qs good (i + 1) k \<Longrightarrow> ping_of us = ping_of qs \<Longrightarrow>
      \<exists>c' ps'. scan_candidates t now oldest fetched first (i + 1) ds (k, us) = Some (c', ps') \<and>
        nearest_below t qs good (getNumMembers (rsConfig t)) c' \<and> ping_of ps' = ping_of qs" for k us
    using Cons.IH [of "i + 1" k us] d(2) Cons.prems(1) by simp
  have skip: "\<not> good i \<Longrightarrow> nearest_below t qs good (i + 1) c"
    using Cons.prems(3) unfolding nearest_below_next by (auto simp: nearest_below_def split: if_splits)
  have same: "ping_of ps h = ping_of qs h" for h by (rule fun_cong [OF Cons.prems(4)])
  show ?case
  proof (cases "i \<noteq> selfIndex t \<and> up d \<and> readable (getState d) \<and>
      sync_candidate (cfg_members (rsConfig t) ! nat (selfIndex t)) oldest fetched (lastCommittedOpTime t) first ?m d")
    case False
    then have "\<not> good i" using d(1) by (auto simp: good_def good_source_def)
    moreover have "scan_candidates t now oldest fetched first i (d # ds) (c, ps) =
        scan_candidates t now oldest fetched first (i + 1) ds (c, ps)"
      using False m by (simp add: selfConfig_total [OF assms(1,2)]) metis
    ultimately show ?thesis using IH [OF skip Cons.prems(4)] by simp
  next
    case True
    let ?far = "c \<noteq> - 1 \<and> ping_of ps (member_host ?m) > ping_of ps (member_host (cfg_members (rsConfig t) ! nat c))"
    have closest: "c \<noteq> - 1 \<Longrightarrow> getMemberAt (rsConfig t) c = Some (cfg_members (rsConfig t) ! nat c)"
      using Cons.prems(3) by (auto simp: nearest_below_def good_def good_source_def getNumMembers_def)
    obtain us where far: "(if c \<noteq> - 1 then do {
                 cc \<leftarrow> getMemberAt (rsConfig t) c;
                 let (candidatePing, ps) = getPing ps (member_host ?m);
                 let (closestPing, ps) = getPing ps (member_host cc);
                 Some (candidatePing > closestPing, ps)
               } else Some (False, ps)) = Some (?far, us)" and us: "ping_of us = ping_of qs"
    proof (cases "c = - 1")
      case True
      then show ?thesis using that [of ps] Cons.prems(4) by simp
    next
      case False
      let ?us = "snd (getPing (snd (getPing ps (member_host ?m))) (member_host (cfg_members (rsConfig t) ! nat c)))"
      have "ping_of ?us = ping_of qs" using Cons.prems(4) by (simp add: fun_eq_iff)
      then show ?thesis using that [of ?us] False closest by (simp add: split_beta Let_def)
    qed
    have step: "scan_candidates t now oldest fetched first i (d # ds) (c, ps) =
        scan_candidates t now oldest fetched first (i + 1) ds
          (if ?far \<or> memberIsBlacklisted t ?m now then c else i, us)"
      using True m far by (simp add: selfConfig_total [OF assms(1,2)] del: vec_at_in)
    have here: "good i \<longleftrightarrow> \<not> memberIsBlacklisted t ?m now"
      using True d(1) range Cons.prems(1) by (simp add: good_def good_source_def)
    have "nearest_below t qs good (i + 1) (if ?far \<or> memberIsBlacklisted t ?m now then c else i)"
    proof (cases "memberIsBlacklisted t ?m now")
      case True
      then show ?thesis using skip here by simp
    next
      case free: False
      show ?thesis
      proof (cases ?far)
        case True
        have "nearest_below t qs good (i + 1) c"
          using Cons.prems(3) True unfolding nearest_below_next by (auto simp: nearest_below_def same)
        then show ?thesis using True by simp
      next
        case False
        have "ping_of qs (member_host ?m) \<le> ping_of qs (member_host (cfg_members (rsConfig t) ! nat k))"
          if k: "k < i" "good k" for k
        proof -
          have "c \<noteq> - 1" "ping_of qs (member_host (cfg_members (rsConfig t) ! nat c)) \<le>
              ping_of qs (member_host (cfg_members (rsConfig t) ! nat k))"
            using k Cons.prems(3) by (auto simp: nearest_below_def split: if_splits)
          then show ?thesis using False by (auto simp: same)
        qed
        then have "nearest_below t qs good (i + 1) i"
          using here free Cons.prems(1) unfolding nearest_below_next by auto
        then show ?thesis using False free by auto
      qed
    qed
    then show ?thesis unfolding step using IH us by blast
  qed
qed

end
