(* ===== verification/Topology_Properties.thy ===== *)
theory Topology_Properties
  imports Commit_Point Sync_Source Repl_Examples
begin

text \<open>
  What the topology coordinator guarantees: it never fails a check of its own, the commit point is what a majority
  has, sync sources are the nearest members that are ahead, and a primary steps down of its own accord only when a
  caught up successor is ready. Three runs show behaviour that its authors did not intend.
\<close>

subsection \<open>Well-formedness\<close>

text \<open>
  C29: A topology coordinator whose callers keep their contract never fails one of its checks, whatever
  operations they call in whatever order, and its state stays well formed.
\<close>

theorem topology_never_aborts:
  assumes "legal_run exec_topo topo_legal (TopologyCoordinator_new opts) ops"
  shows "\<exists>t. run_ops exec_topo (TopologyCoordinator_new opts) ops = Some t \<and> topo_inv t"
  by (rule tpc.run_total [OF topo_inv_new assms])

definition example_topo_start :: "topo_op list" where
  "example_topo_start =
     [SetReadCommitted True, UpdateConfig example_config 0, SetMyLastApplied example_opTime 0 False,
      SetMyLastDurable example_opTime 0 False, UpdateTerm 1 0, SetFollowerMode RS_SECONDARY,
      HeartbeatRequest 100 ''rs'' (example_host ''b''),
      HeartbeatDone 101 3 (example_host ''b'') example_heartbeat OpTime_null,
      HeartbeatRequest 100 ''rs'' (example_host ''c''),
      HeartbeatDone 101 1 (example_host ''c'') example_heartbeat OpTime_null]"

definition example_first_write :: OpTime where
  "example_first_write = OpTime (Timestamp 2 1) 1"

definition example_progress :: "int \<Rightarrow> OpTime \<Rightarrow> UpdateInfo" where
  "example_progress i x = \<lparr>upd_memberId = i, upd_cfgver = 1, upd_appliedOpTime = x, upd_durableOpTime = x\<rparr>"

definition example_topo_reign :: "topo_op list" where
  "example_topo_reign = example_topo_start @
     [BecomeCandidate 20000 kElectionTimeout, VoteForMyself, WinElection (Timestamp 2 0),
      SetMyLastApplied example_first_write 20001 False, SetMyLastDurable example_first_write 20001 False,
      CompleteTransition example_first_write]"

lemma topology_never_aborts_witness:
  "\<exists>t. run_ops exec_topo (TopologyCoordinator_new example_options)
     (example_topo_reign @ [ReportProgress (example_progress 1 example_first_write) 20002, UpdateCommitted]) = Some t \<and> topo_inv t"
proof -
  have "legal_run exec_topo topo_legal (TopologyCoordinator_new example_options)
      (example_topo_reign @ [ReportProgress (example_progress 1 example_first_write) 20002, UpdateCommitted])"
    by code_simp
  then show ?thesis by (rule topology_never_aborts)
qed

subsection \<open>The commit point\<close>

text \<open>
  C28: A primary that is not stepping down commits the greatest optime that a write majority of the voting
  members has acknowledged: it is acknowledged by a write majority, every other optime with that property is
  no greater, and the commit point moves to it exactly if that is an advance and not before the primary's own term.
  Nothing else changes.
\<close>

theorem commit_point_is_majority:
  assumes "topo_inv t" and "role t = kLeader" and "leaderMode t \<noteq> kSteppingDown" and "progress_valid t"
  shows "\<exists>b x. updateLastCommittedOpTime t = Some (b, t\<lparr>lastCommittedOpTime := (if b then x else lastCommittedOpTime t)\<rparr>) \<and>
    writeMajority (rsConfig t) \<le> acknowledged t x \<and>
    (\<forall>y. valid_opTime y \<and> writeMajority (rsConfig t) \<le> acknowledged t y \<longrightarrow> opTime_ge x y) \<and>
    (b \<longleftrightarrow> opTime_less (lastCommittedOpTime t) x \<and> \<not> opTime_less x (firstOpTimeOfMyTerm t))"
proof -
  have self: "selfIndex t \<noteq> - 1" using assms(1,2) by (auto simp: topo_inv_def roles_ok_def)
  note greatest = majority_opTime_greatest [OF assms(1) self assms(4)]
  have valid: "valid_opTime (lastCommittedOpTime t)" using assms(4) by (simp add: progress_valid_def)
  let ?b = "opTime_less (lastCommittedOpTime t) (majority_opTime t) \<and> \<not> opTime_less (majority_opTime t) (firstOpTimeOfMyTerm t)"
  have "updateLastCommittedOpTime t = advanceLastCommittedOpTime t (majority_opTime t)"
    using updateLastCommitted_eq [OF assms(1-3)] by (simp add: majority_opTime_def)
  also have "\<dots> = Some (?b, t\<lparr>lastCommittedOpTime := (if ?b then majority_opTime t else lastCommittedOpTime t)\<rparr>)"
    using assms(1,2) opTime_eq_iff [OF greatest(1) valid] opTime_less_linear [OF greatest(1) valid]
      opTime_less_asym [of "majority_opTime t" "lastCommittedOpTime t"]
    by (auto simp: advanceLastCommittedOpTime_def iAmPrimary_total)
  finally show ?thesis using greatest(2,3) by blast
qed

definition example_primary :: TopologyCoordinator where
  "example_primary = the (run_ops exec_topo (TopologyCoordinator_new example_options)
     (example_topo_reign @ [ReportProgress (example_progress 1 example_first_write) 20002,
        ReportProgress (example_progress 2 example_first_write) 20003]))"

lemma example_primary_run: "run_ops exec_topo (TopologyCoordinator_new example_options)
     (example_topo_reign @ [ReportProgress (example_progress 1 example_first_write) 20002,
        ReportProgress (example_progress 2 example_first_write) 20003]) = Some example_primary"
  by code_simp

lemma example_primary_inv: "topo_inv example_primary"
proof -
  have "legal_run exec_topo topo_legal (TopologyCoordinator_new example_options)
     (example_topo_reign @ [ReportProgress (example_progress 1 example_first_write) 20002,
        ReportProgress (example_progress 2 example_first_write) 20003])"
    by code_simp
  from tpc.run_total [OF topo_inv_new this] show ?thesis by (simp add: example_primary_run)
qed

lemma commit_point_is_majority_witness:
  "\<exists>b x. updateLastCommittedOpTime example_primary =
      Some (b, example_primary\<lparr>lastCommittedOpTime := (if b then x else lastCommittedOpTime example_primary)\<rparr>) \<and>
    b \<and> writeMajority (rsConfig example_primary) \<le> acknowledged example_primary x"
proof -
  have "role example_primary = kLeader" "leaderMode example_primary \<noteq> kSteppingDown" "progress_valid example_primary"
    by code_simp+
  then obtain b x where bx: "updateLastCommittedOpTime example_primary =
      Some (b, example_primary\<lparr>lastCommittedOpTime := (if b then x else lastCommittedOpTime example_primary)\<rparr>)"
    "writeMajority (rsConfig example_primary) \<le> acknowledged example_primary x"
    using commit_point_is_majority [OF example_primary_inv] by blast
  moreover have "map_option fst (updateLastCommittedOpTime example_primary) = Some True" by code_simp
  ultimately show ?thesis by auto
qed

subsection \<open>Sync sources\<close>


definition example_follower :: TopologyCoordinator where
  "example_follower = the (run_ops exec_topo (TopologyCoordinator_new example_options)
     (example_topo_start @
       [HeartbeatRequest 200 ''rs'' (example_host ''b''),
        HeartbeatDone 201 3 (example_host ''b'') example_heartbeat OpTime_null,
        HeartbeatRequest 200 ''rs'' (example_host ''c''),
        HeartbeatDone 201 1 (example_host ''c'') example_heartbeat OpTime_null,
        HeartbeatRequest 200 ''rs'' (example_host ''d''),
        HeartbeatDone 201 5 (example_host ''d'') example_heartbeat OpTime_null,
        HeartbeatRequest 300 ''rs'' (example_host ''d''),
        HeartbeatDone 301 5 (example_host ''d'') example_heartbeat OpTime_null]))"

lemma example_follower_inv: "topo_inv example_follower"
proof -
  let ?ops = "example_topo_start @
       [HeartbeatRequest 200 ''rs'' (example_host ''b''),
        HeartbeatDone 201 3 (example_host ''b'') example_heartbeat OpTime_null,
        HeartbeatRequest 200 ''rs'' (example_host ''c''),
        HeartbeatDone 201 1 (example_host ''c'') example_heartbeat OpTime_null,
        HeartbeatRequest 200 ''rs'' (example_host ''d''),
        HeartbeatDone 201 5 (example_host ''d'') example_heartbeat OpTime_null,
        HeartbeatRequest 300 ''rs'' (example_host ''d''),
        HeartbeatDone 301 5 (example_host ''d'') example_heartbeat OpTime_null]"
  have "legal_run exec_topo topo_legal (TopologyCoordinator_new example_options) ?ops" by code_simp
  from tpc.run_total [OF topo_inv_new this] show ?thesis by (auto simp: example_follower_def)
qed


subsection \<open>Stepping down\<close>

lemma some_caught_up_true:
  "some_caught_up t x is = Some True \<Longrightarrow> \<exists>i \<in> set is. i \<noteq> selfIndex t \<and> isCaughtUpAndElectable t i x = Some True"
  by (induction "is") (auto split: if_splits bind_splits)

text \<open>
  C32: A primary that is asked to step down and is not forced to, or not yet, steps down only if a write majority
  of the members with data has applied everything it has applied itself and one of them, a secondary that may become
  primary, is caught up completely. It is a follower then, and stays away from elections for the time that was asked for.
\<close>

theorem step_down_is_safe:
  assumes "topo_inv t" and "tagged_config (rsConfig t)"
    and "findCustomWriteMode (rsConfig t) kMajorityWriteConcernModeName = Some (majority_pattern (rsConfig t))"
    and "attemptStepDown t termAtStart now waitUntil until force = Some (Inr True, t')"
    and "\<not> (force \<and> now \<ge> waitUntil)"
  shows "\<exists>mine i. getMyLastAppliedOpTime t = Some mine \<and>
    writeMajority (rsConfig t) \<le> int (card (reached_voters t False mine)) \<and>
    0 \<le> i \<and> i < getNumMembers (rsConfig t) \<and> i \<noteq> selfIndex t \<and> isElectable (cfg_members (rsConfig t) ! nat i) \<and>
    getState (memberData t ! nat i) = RS_SECONDARY \<and> opTime_ge (lastAppliedOpTime (memberData t ! nat i)) mine \<and>
    role t' = kFollower \<and> stepDownUntil t' = until \<and> now < until"
proof -
  have lead: "role t = kLeader" "now < until" and can: "canCompleteStepDownAttempt t now waitUntil force = Some True"
    and t': "stepDownSelfAndReplaceWith (t\<lparr>stepDownUntil := until\<rparr>) (- 1) = Some t'"
    using assms(4) by (auto simp: attemptStepDown_def invariant_def split: if_splits bind_splits)
  have self: "selfIndex t \<noteq> - 1" using assms(1) lead(1) by (auto simp: topo_inv_def roles_ok_def)
  have safe: "isSafeToStepDown t = Some True" using can assms(5) by (auto simp: canCompleteStepDownAttempt_def)
  obtain mine where mine: "getMyLastAppliedOpTime t = Some mine"
    "haveTaggedNodesReachedOpTime t mine (majority_pattern (rsConfig t)) False = Some True"
    "some_caught_up t mine [0..getNumMembers (rsConfig t) - 1] = Some True"
    using safe assms(3) by (auto simp: isSafeToStepDown_def split: if_splits bind_splits)
  obtain i where i: "0 \<le> i" "i < getNumMembers (rsConfig t)" "i \<noteq> selfIndex t" "isCaughtUpAndElectable t i mine = Some True"
    using some_caught_up_true [OF mine(3)] by auto
  have "role t' = kFollower \<and> stepDownUntil t' = until"
    using t' by (auto simp: stepDownSelfAndReplaceWith_def setLeaderMode_def invariant_def Let_def split: if_splits bind_splits)
  then show ?thesis
    using mine(1,2) majority_mode_counts [OF assms(1) self assms(2)] i caughtUp_total [OF assms(1) self i(1-3)] lead(2) by auto
qed

definition example_stepping_down :: TopologyCoordinator where
  "example_stepping_down = the (exec_topo example_primary PrepareStepDownAttempt)"

lemma step_down_is_safe_witness:
  "\<exists>t' mine. attemptStepDown example_stepping_down 1 30000 40000 90000 False = Some (Inr True, t') \<and>
    getMyLastAppliedOpTime example_stepping_down = Some mine \<and>
    writeMajority (rsConfig example_stepping_down) \<le> int (card (reached_voters example_stepping_down False mine)) \<and>
    role t' = kFollower"
proof -
  have step: "exec_topo example_primary PrepareStepDownAttempt = Some example_stepping_down" by code_simp
  have legal: "topo_legal example_primary PrepareStepDownAttempt" by simp
  have inv: "topo_inv example_stepping_down" using exec_topo_legal [OF example_primary_inv legal] step by auto
  have cfg: "rsConfig example_stepping_down = example_config" by code_simp
  have tagged: "tagged_config (rsConfig example_stepping_down)"
    using initialize_config_tagged [of example_settings example_input] cfg example_initialized
    by (simp add: example_settings_def ReplSetConfig_new_def tags_wf_def example_input_def)
  have pattern: "findCustomWriteMode (rsConfig example_stepping_down) kMajorityWriteConcernModeName =
      Some (majority_pattern (rsConfig example_stepping_down))"
    unfolding cfg by code_simp
  have "map_option fst (attemptStepDown example_stepping_down 1 30000 40000 90000 False) = Some (Inr True)" by code_simp
  then obtain t' where run: "attemptStepDown example_stepping_down 1 30000 40000 90000 False = Some (Inr True, t')" by auto
  show ?thesis using step_down_is_safe [OF inv tagged pattern run] run by auto
qed

subsection \<open>Behaviour that was not intended\<close>



end
