(* ===== verification/Repl_Config_Properties.thy ===== *)
theory Repl_Config_Properties
  imports Repl_Examples Elections_Safety
begin

text \<open>What a validated configuration guarantees, and what its tags and write concern modes mean.\<close>

subsection \<open>Majorities\<close>

lemma validated_config_ok:
  assumes "tags_wf (tagConfig cfg)" and "validate_config asConfigServer skip (initialize_config raw cfg)"
  shows "config_ok (initialize_config raw cfg)"
proof -
  obtain ms td where ms: "initialize_members raw (tagConfig cfg) = (ms, td)" by (cases "initialize_members raw (tagConfig cfg)")
  let ?cfg = "initialize_config raw cfg"
  note fields = initialize_config_fields [OF ms]
  have "count_members isElectable ?cfg \<noteq> 0"
    using assms(2) by (simp add: validate_config_def isElectable_def [abs_def])
  then obtain m where m: "m \<in> set ms" "isElectable m" by (auto simp: count_members_def fields(2) filter_empty_conv)
  then have "validate_member m" using assms(2) by (simp add: validate_config_def fields(2) list_all_iff)
  then have "(''$voter'', show_int (member_id m)) \<in> set (internal_tags m)"
    using electable_voter [of m] m(2) by (auto simp: internal_tags_def)
  moreover obtain r where "labelled td (member_tags m) (r @ internal_tags m)"
    using initialize_members_labels [OF ms assms(1)] m(1) by (fastforce simp: list_all2_conv_all_nth in_set_conv_nth)
  ultimately obtain t where "tag_is td t ''$voter'' (show_int (member_id m))"
    using labelled_label [of td "member_tags m"] by fastforce
  then have "''$voter'' \<in> fst ` set td" by (rule tag_is_key)
  then show ?thesis
    using assms(2) fields \<open>count_members isElectable ?cfg \<noteq> 0\<close>
    by (simp add: config_ok_def validate_config_def count_members_def Let_def)
qed

text \<open>
  C30: In a configuration that was initialized and passes validation, between one and seven members vote, a
  majority of the votes is more than half of them and at most all of them, and a write majority is at
  least one, at most a majority of the votes, and at most the number of voting members with data.
\<close>

theorem validated_majorities:
  assumes "tags_wf (tagConfig cfg0)" and "cfg = initialize_config raw cfg0" and "validate_config asConfigServer skip cfg"
  shows "1 \<le> totalVotingMembers cfg \<and> totalVotingMembers cfg \<le> 7 \<and>
    totalVotingMembers cfg < 2 * majorityVoteCount cfg \<and> majorityVoteCount cfg \<le> totalVotingMembers cfg \<and>
    1 \<le> writeMajority cfg \<and> writeMajority cfg \<le> majorityVoteCount cfg \<and>
    writeMajority cfg \<le> int (card (data_voters cfg))"
proof -
  have ok: "config_ok cfg" using validated_config_ok [OF assms(1)] assms(2,3) by simp
  have "totalVotingMembers cfg = int (count_members isVoter cfg)" "int (count_members isVoter cfg) \<le> 7"
    "writeMajority cfg \<le> int (count_members isVoter cfg) - int (count_members arbiterOnly cfg)"
    using ok by (auto simp: config_ok_def kMaxVotingMembers_def)
  then show ?thesis
    using config_majorities [OF ok] config_voters [OF ok] by (simp add: card_data_voters)
qed

lemma validated_majorities_witness:
  "totalVotingMembers example_config \<le> 7 \<and> 1 \<le> writeMajority example_config \<and> writeMajority example_config = 3 \<and>
   writeMajority example_config \<le> int (card (data_voters example_config))"
proof -
  have "tags_wf (tagConfig example_settings)" by (simp add: example_settings_def ReplSetConfig_new_def tags_wf_def)
  from validated_majorities [OF this example_initialized [symmetric] example_validates] show ?thesis
    by (simp add: example_config_def)
qed

subsection \<open>The mode for majorities\<close>

text \<open>
  C31: The internal write concern mode for majorities counts tags. In an initialized and validated
  configuration whose author does not use the reserved tag, it is reached by an optime exactly if the
  members that have the optime include as many voting members with data as a write majority needs.
\<close>

theorem majority_mode_is_write_majority:
  assumes "tags_wf (tagConfig cfg0)" and "list_all (\<lambda>(r, _). ''$voter'' \<notin> fst ` set r) raw"
    and "rsConfig t = initialize_config raw cfg0" and "topo_inv t" and "selfIndex t \<noteq> - 1"
  shows "\<exists>pattern. findCustomWriteMode (rsConfig t) kMajorityWriteConcernModeName = Some pattern \<and>
    haveTaggedNodesReachedOpTime t x pattern dur =
      Some (writeMajority (rsConfig t) \<le> int (card (reached_voters t dur x)))"
proof -
  obtain ms td where ms: "initialize_members raw (tagConfig cfg0) = (ms, td)" by (cases "initialize_members raw (tagConfig cfg0)")
  note fields = initialize_config_fields [OF ms]
  have tagged: "tagged_config (rsConfig t)" using initialize_config_tagged [OF assms(1,2)] assms(3) by simp
  have ok: "config_ok (rsConfig t)" by (rule self_at(3) [OF assms(4,5)])
  have "1 \<le> card (data_voters (rsConfig t))" using config_voters(2) [OF ok] by (simp add: card_data_voters)
  then have "data_voters (rsConfig t) \<noteq> {}" by auto
  then obtain v where "v \<in> data_voters (rsConfig t)" by blast
  then obtain u where "tag_is (tagConfig (rsConfig t)) u ''$voter'' (show_int (member_id (cfg_members (rsConfig t) ! v)))"
    using voter_tags(2) [OF tagged, of "cfg_members (rsConfig t) ! v"] by (auto simp: data_voters_def)
  then have "''$voter'' \<in> fst ` set td" using tag_is_key fields(3) assms(3) by metis
  then have "findCustomWriteMode (rsConfig t) kMajorityWriteConcernModeName = Some (majority_pattern (rsConfig t))"
    using fields(3,7) assms(3) by (simp add: majority_pattern_def)
  then show ?thesis using majority_mode_counts [OF assms(4,5) tagged] by blast
qed

lemma majority_mode_is_write_majority_witness:
  "\<exists>t pattern. topo_inv t \<and> rsConfig t = example_config \<and>
    findCustomWriteMode (rsConfig t) kMajorityWriteConcernModeName = Some pattern \<and>
    haveTaggedNodesReachedOpTime t example_opTime pattern False =
      Some (writeMajority (rsConfig t) \<le> int (card (reached_voters t False example_opTime)))"
proof -
  have "map_option rc_voteRequester (loadLocalState example_options True None example_config 0 example_opTime 0) = Some None"
    by code_simp
  then obtain n where n: "loadLocalState example_options True None example_config 0 example_opTime 0 = Some n" by auto
  have t: "topo_inv (rc_topo n)" "rsConfig (rc_topo n) = example_config" "selfIndex (rc_topo n) = 0"
    using loadLocalState_inv [OF example_config_ok _ _ n] by (simp_all add: getNumMembers_def example_members)
  have "tags_wf (tagConfig example_settings)" by (simp add: example_settings_def ReplSetConfig_new_def tags_wf_def)
  moreover have "list_all (\<lambda>(r, _). ''$voter'' \<notin> fst ` set r) example_input" by (simp add: example_input_def)
  moreover have "rsConfig (rc_topo n) = initialize_config example_input example_settings"
    using t(2) example_initialized by simp
  ultimately show ?thesis
    using majority_mode_is_write_majority [of example_settings example_input "rc_topo n" example_opTime False] t by auto
qed

subsection \<open>Tags\<close>

text \<open>
  C35: A tag that was made can be read back, its key and value find it again, and every tag that was made
  before keeps its meaning.
\<close>

theorem tag_roundtrip:
  assumes "tags_wf td" and "makeTag td key v = (t, td')"
  shows "getTagKey td' t = Some key \<and> getTagValue td' t = Some v \<and> findTag td' key v = t \<and> tags_wf td' \<and>
    (\<forall>u k w. getTagKey td u = Some k \<and> getTagValue td u = Some w \<longrightarrow>
       getTagKey td' u = Some k \<and> getTagValue td' u = Some w)"
proof -
  note makes = makeTag_makes [OF assms]
  have key: "tag_keyIndex t = int (findKeyIndex td' key)" by (rule tag_is_keyIndex [OF makes(2,1)])
  have val: "tag_valueIndex t = int (value_index (snd (td' ! findKeyIndex td' key)) v)"
    by (rule tag_is_valueIndex [OF makes(2,1)])
  have "findKeyIndex td' key < length td'" "value_index (snd (td' ! findKeyIndex td' key)) v < length (snd (td' ! findKeyIndex td' key))"
    using makes(1) key val by (simp_all add: tag_is_iff)
  then have "findTag td' key v = t" using key val by (simp add: findTag_def Let_def)
  then show ?thesis using makes by (simp add: tag_is_def tags_extend_def)
qed

lemma tag_roundtrip_witness:
  "\<exists>t td. makeTag [(''dc'', [''east''])] ''dc'' ''west'' = (t, td) \<and> findTag td ''dc'' ''west'' = t \<and> getTagValue td t = Some ''west''"
proof -
  obtain t td where t: "makeTag [(''dc'', [''east''])] ''dc'' ''west'' = (t, td)" by fastforce
  have "tags_wf [(''dc'', [''east''])]" by (simp add: tags_wf_def)
  from tag_roundtrip [OF this t] show ?thesis using t by blast
qed

subsection \<open>Write concerns\<close>

lemma nodes_remaining_iff: "nodes_remaining n ms \<longleftrightarrow> max 1 n \<le> int (length (filter (\<lambda>m. \<not> arbiterOnly m) ms))"
  by (induction n ms rule: nodes_remaining.induct) auto

lemma match_new_iff:
  assumes "pattern_ok p"
  shows "match_isSatisfied (fold bind_tag ts (ReplSetTagMatch_new p)) \<longleftrightarrow>
    list_all (\<lambda>c. con_minCount c \<le> int (card (seen_values (con_keyIndex c) ts))) p"
proof -
  have ok: "match_ok ts (fold bind_tag ts (ReplSetTagMatch_new p))"
    using match_fold_ok [OF match_ok_new [OF assms], of ts] by simp
  have eq: "map bound_constraint (fold bind_tag ts (ReplSetTagMatch_new p)) = p"
    unfolding fold_constraints by (simp add: ReplSetTagMatch_new_def o_def)
  show ?thesis unfolding match_satisfied_iff [OF ok] eq list_all_iff by (rule refl)
qed

text \<open>
  C36: A write concern can be satisfied exactly if, for a number, there are that many members with data (at
  least one), and for a named mode the mode exists and the tags of all members together have, for each of
  its keys, as many different values as it asks for.
\<close>

theorem write_concern_satisfiable_iff:
  assumes "list_all (\<lambda>(_, p). pattern_ok p) (customWriteConcernModes cfg)"
  shows "checkIfWriteConcernCanBeSatisfied cfg wc =
    (if wMode wc = '''' \<or> wMode wc = ''majority'' then
       (if max 1 (wNumNodes wc) \<le> int (length (filter (\<lambda>m. \<not> arbiterOnly m) (cfg_members cfg))) then Inr ()
        else Inl UnsatisfiableWriteConcern)
     else case findCustomWriteMode cfg (wMode wc) of
       None \<Rightarrow> Inl UnknownReplWriteConcern
     | Some p \<Rightarrow>
         (let tags = concat (map member_tags (cfg_members cfg)) in
          if tags \<noteq> [] \<and> list_all (\<lambda>c. con_minCount c \<le> int (card (seen_values (con_keyIndex c) tags))) p
          then Inr () else Inl UnsatisfiableWriteConcern))"
proof (cases "wMode wc = '''' \<or> wMode wc = ''majority''")
  case True
  then show ?thesis by (auto simp: checkIfWriteConcernCanBeSatisfied_def nodes_remaining_iff)
next
  case False
  show ?thesis
  proof (cases "findCustomWriteMode cfg (wMode wc)")
    case None
    then show ?thesis using False by (simp add: checkIfWriteConcernCanBeSatisfied_def)
  next
    case (Some p)
    then have "pattern_ok p"
      using assms map_of_SomeD [of "customWriteConcernModes cfg" "wMode wc" p]
      by (auto simp: findCustomWriteMode_def list_all_iff)
    then show ?thesis
      using False Some by (simp add: checkIfWriteConcernCanBeSatisfied_def Let_def match_tags_eq(1) match_new_iff del: concat_eq_Nil_conv)
  qed
qed

lemma write_concern_satisfiable_iff_witness:
  "checkIfWriteConcernCanBeSatisfied example_config \<lparr>wMode = '''', wNumNodes = 4\<rparr> = Inl UnsatisfiableWriteConcern \<and>
   checkIfWriteConcernCanBeSatisfied example_config \<lparr>wMode = '''', wNumNodes = 3\<rparr> = Inr ()"
proof -
  have "list_all (\<lambda>(_, p). pattern_ok p) (customWriteConcernModes example_config)"
    by (simp add: example_config_def pattern_ok_def)
  note iff = write_concern_satisfiable_iff [OF this]
  have "length (filter (\<lambda>m. \<not> arbiterOnly m) (cfg_members example_config)) = 3" by code_simp
  then show ?thesis by (simp add: iff)
qed

end
