(* ===== verification/Spec2Isabelle.thy ===== *)
theory Spec2Isabelle
  imports Lock_Data_Properties Lock_Manager_Race Locker_Findings Txn_Coordinator_Properties
    Election_Properties Topology_Properties Repl_Config_Properties
begin

text \<open>
  A verification of the concurrency and consensus core of the database server under src/src/normous: the
  hierarchical lock manager, the coordinator of distributed transactions, and the replication
  protocol with its configuration, its elections and its commit point. Paths below are relative to that
  directory.

  \<^bold>\<open>The program.\<close> Threads of the server take locks on resources (global, database, collection) through
  their locker and the lock manager (db/concurrency), which grants compatible modes, queues the rest and
  detects deadlocks; in a write unit of work the locker keeps write locks until the unit ends.
  A transaction over several shards ends with a two-phase commit whose coordinator
  (db/transaction_coordinator.cpp) collects votes and acknowledgements. The nodes of a replica set elect a
  primary and agree on a commit point: the topology coordinator (db/repl/topology_coordinator.cpp) is the
  state of the protocol in one node, the vote requester (db/repl/vote_requester.cpp) counts votes, the
  replication coordinator (db/repl/replication_coordinator_impl*.cpp) drives both and stores the last vote,
  and the configuration (db/repl/repl_set_config.cpp, repl_set_tag.cpp) says who votes and what a majority is.

  \<^bold>\<open>Conventions.\<close> A class is a record, an enumeration a datatype, and a method a function from the state and
  its arguments to the new state and the result. A failed \<open>invariant\<close> of the code ends the process; it is
  \<open>None\<close> in the option monad (theory \<open>Prelude\<close>), and so is reading outside a vector. A thrown \<open>uassert\<close> is
  \<open>Inl\<close>. Sections of code that hold a mutex are one step. Hash values and mode masks are machine words;
  recursive counts, terms and milliseconds, which are only compared and counted, are \<open>nat\<close> and \<open>int\<close>.
  Time, random numbers and answers of other nodes are arguments. The locale \<open>operation_system\<close>
  (theory \<open>Operation_System\<close>) is the shared interface: operations, the contract of their callers and an
  invariant; its laws give safety and totality of every legal run. It is interpreted on the lock manager
  (\<open>lms\<close>), twice on all lockers of a server (\<open>lks\<close>, and \<open>wu\<close> for one write unit of work), twice on the transaction coordinator (\<open>tc_any\<close> for arbitrary senders, \<open>tc_net\<close> for senders
  that keep the protocol), on the topology coordinator (\<open>tpc\<close>) and on a node of a replica set over its
  restarts (\<open>rep\<close>). The locale \<open>quorum_pair\<close> (theory \<open>Elections\<close>) says that two quorums meet; it is
  interpreted on the votes of an election (\<open>eq\<close>) and on a write majority and an election (\<open>wq\<close>). The locale
  \<open>address_map\<close> (theory \<open>Fast_Map\<close>) is what a locker relies on of its request map, interpreted as \<open>fm\<close>.

  \<^bold>\<open>Locks\<close> (db/concurrency).
  \<^item> \<open>Lock_Modes\<close>, \<open>Resource_Id\<close>: the enumerations, the conflict table as 32-bit masks and the 64-bit
    resource ids of lock_manager_defs.h and lock_manager.cpp. Masks are shown to represent sets of modes,
    cover to be inclusion of conflicts, and ids to keep type and hash.
  \<^item> \<open>Lock_Request_List\<close>: the intrusive doubly linked queue of lock_request_list.h over a heap of pointers.
    It refines lists; iteration ends. The theories after it use lists.
  \<^item> \<open>Lock_Head\<close>: LockRequest and LockHead (lock_manager.h) with newRequest and the grant loops of
    LockManager::\_onLockModeChanged. \<open>Lock_Head_Invariant\<close>, \<open>Lock_Head_Rescan\<close> and \<open>Lock_Head_Requests\<close> show that
    counters and masks agree with the queues and that a rescan grants exactly what it notifies.
  \<^item> \<open>Lock_Manager\<close>: LockManager with buckets, partitions, temporary heads, lock, convert, unlock,
    downgrade and cleanupUnusedLocks. \<open>Lock_Manager_Invariant\<close>, \<open>Lock_Manager_Migrate\<close>, \<open>Lock_Manager_Lock\<close>,
    \<open>Lock_Manager_Release\<close>, \<open>Lock_Manager_Unlock\<close> and \<open>Lock_Manager_Cleanup\<close> prove one operation each;
    \<open>Lock_Manager_Safety\<close> has the contract of callers, and \<open>Lock_Manager_Properties\<close> the results: holders of a
    resource are compatible, no legal call fails a check, what each call answers, whom it wakes, and that
    nobody waits without a cause. \<open>Lock_Data_Properties\<close> has the results on modes, ids and queues.
  \<^item> \<open>Lock_Manager_Race\<close>: unlock split at the point before it takes the mutex, and a run that goes wrong there.
  \<^item> \<open>Deadlock_Detector\<close>: the search of the wait-for graph; it ends and is exact. The resource each locker
    waits for is an argument.
  \<^item> \<open>Fast_Map\<close>: FastMapNoAlloc with its iterators. Entries are reused and keep their addresses, because the
    lock manager points to the requests in them.
  \<^item> \<open>Locker\<close>: LockerImpl (lock\_state.h and .cpp, locker.h) of all threads on one lock manager: lockBegin,
    lockGlobalBegin, one round of the wait in lockComplete, unlock, unlockGlobal, downgrade, write units of
    work, tickets, saving of locks, settings, queries and the checks of the destructor. How a wait
    ends is an argument; what happens during a wait are the operations of the others.
  \<^item> \<open>Lock_Manager_Frame\<close> has what calls of the lock manager leave alone; \<open>Locker_Invariant\<close> the invariant
    (maps and queues agree, one wait per locker, pending unlocks are counted, tickets follow the global
    lock) and the delivery of notifications; \<open>Locker_Steps\<close>, \<open>Locker_Release\<close>, \<open>Locker_Units\<close>,
    \<open>Locker_Acquire\<close> and \<open>Locker_Begin\<close> prove the operations. \<open>Locker_System\<close> has the operations as one transition
    function with the contract of callers, and \<open>Locker_Properties\<close> the results: no check fails, lockers
    have compatible modes, and two-phase locking. \<open>Locker_Findings\<close> has runs outside the contract in which the
    code aborts.

  \<^bold>\<open>Two-phase commit.\<close> \<open>Txn_Coordinator\<close> models transaction\_coordinator.h and .cpp: participants, the
  transition table, the promises and the message handlers. \<open>Txn_Coordinator_Properties\<close> shows that the decision
  is unique and final, that commit needs all votes and takes the greatest prepare timestamp, and that
  everybody who waits is told; a run shows how a late vote breaks an aborted coordinator.

  \<^bold>\<open>Replication\<close> (db/repl).
  \<^item> \<open>Timestamps\<close>: bson/timestamp.h and optime.h. \<open>Repl_Tags\<close>: repl\_set\_tag.cpp. \<open>Repl_Config\<close>:
    hosts, member states, member\_config.cpp, repl\_set\_config.cpp with validation and majorities.
    \<open>Repl_Config_Init\<close>: the derived parts of a configuration; \<open>Majority_Mode\<close> and
    \<open>Repl_Config_Properties\<close>: bounds of majorities, round trips of tags, that the tag pattern for majorities
    counts the voting members with data, and when a write concern can be satisfied.
  \<^item> \<open>Member_Data\<close>: what a node knows of a member. \<open>Topology\<close>, \<open>Topology_Sync\<close>, \<open>Topology_Heartbeat\<close>: the
    methods of TopologyCoordinator in the order of the code. \<open>Topology_Invariant\<close> has the operations as one
    transition function, the contract and the invariant; \<open>Topology_Total\<close>, \<open>Topology_Steps\<close>,
    \<open>Topology_Steps_Leader\<close>, \<open>Topology_Steps_Member\<close> and \<open>Topology_Safety\<close> prove it. \<open>Commit_Point\<close>, \<open>Sync_Source\<close>
    and \<open>Topology_Properties\<close> have the results on the commit point, sync sources and step down.
  \<^item> \<open>Vote_Requester\<close>, \<open>Repl_Coordinator\<close>: the count of votes and the steps of an election with the last vote
    document. \<open>Elections\<close>, \<open>Elections_Safety\<close>, \<open>Election_Quorums\<close> and \<open>Election_Properties\<close>: a node over its
    life with crashes and restarts votes once in a term, a term has one winner, and the winner has what a
    write majority has. \<open>Repl_Examples\<close> is the replica set of the concrete runs.

  \<^bold>\<open>Termination and bounds.\<close> Loops of the code are structural recursion over queues, members or
  candidates. The deadlock search ends because each round takes a node that was not seen before or shortens
  the queue; locker ids are 64-bit words, so they are finitely many. Only the two iterations of
  \<open>Lock_Request_List\<close> take fuel, and any fuel above the length of the queue is shown to be enough. A
  configuration has at most 50 members and 7 voters by validation.

  \<^bold>\<open>Not modelled.\<close> restoreLockState, which is a sequence of blocking acquisitions, and the temporary global
  resource of the locker; the guard classes over lockers. Reading and printing BSON, logs, dumps and status reports; lock statistics; hashing of
  namespace strings (ids are compared as words); timers, the executor and the network, whose effect is the
  free order of the operations; waiting for write concern and drain mode in the replication coordinator;
  storage, query, sharding, security and tools, which the modelled parts do not depend on. Doubles
  are rational numbers. The theorems on locks take each call of the lock manager as one step, except
  in \<open>Lock_Manager_Race\<close>.
\<close>

end
